(* ===== verification/Prelude.thy ===== *)
theory Prelude
  imports Main "HOL-Library.Word" "HOL-Library.Char_ord" "HOL-Library.List_Lexorder"
begin

text \<open>
  Shared vocabulary of the development: the integer widths, byte strings, results and
  clocks of the Rust standard library as the celln sources use them, and the generic
  lemmas the component theories rely on.

  Conventions.
  \<^item> \<open>u8\<close>, \<open>u32\<close>, \<open>u64\<close> are words: \<open>+\<close> and \<open>-\<close> wrap, as release builds of the
    sources do; \<open>checked_add\<close> returns an option.
  \<^item> A Rust \<open>String\<close> is its UTF-8 byte sequence, a \<^typ>\<open>string\<close> whose characters are
    bytes; \<open>len()\<close> is \<^term>\<open>length\<close>.
  \<^item> \<open>Result<T, E>\<close> is \<open>'e + 'a\<close>; \<open>Err\<close> is \<^term>\<open>Inl\<close>, \<open>Ok\<close> is \<^term>\<open>Inr\<close>.
  \<^item> \<open>Instant\<close> and \<open>Duration\<close> are natural numbers of nanoseconds; \<open>Instant\<close> has the
    upper bound of a 64-bit signed count of seconds.
\<close>

named_theorems rust_std \<open>definitions of the modelled standard library\<close>
named_theorems inv_intros \<open>operations keep their component's invariant\<close>
named_theorems inv_dests \<open>consequences of a component's invariant\<close>

section \<open>Types\<close>

type_synonym u8 = "8 word"
type_synonym u16 = "16 word"
type_synonym u32 = "32 word"
type_synonym u64 = "64 word"
type_synonym bytes = "u8 list"

abbreviation Ok :: "'a \<Rightarrow> 'e + 'a" where
  "Ok \<equiv> Inr"

abbreviation Err :: "'e \<Rightarrow> 'e + 'a" where
  "Err \<equiv> Inl"

definition is_ok :: "'e + 'a \<Rightarrow> bool" where
  "is_ok r = (case r of Inl _ \<Rightarrow> False | Inr _ \<Rightarrow> True)"

definition is_err :: "'e + 'a \<Rightarrow> bool" where
  "is_err r = (case r of Inl _ \<Rightarrow> True | Inr _ \<Rightarrow> False)"

lemma is_ok_simps [simp]: "is_ok (Inr x)" "\<not> is_ok (Inl e)"
  by (simp_all add: is_ok_def)

lemma is_err_simps [simp]: "is_err (Inl e)" "\<not> is_err (Inr x)"
  by (simp_all add: is_err_def)

lemma is_ok_iff: "is_ok r \<longleftrightarrow> (\<exists>x. r = Inr x)"
  by (cases r) auto

lemma is_err_iff: "is_err r \<longleftrightarrow> \<not> is_ok r"
  by (cases r) auto

section \<open>Checked arithmetic\<close>

definition checked_add :: "'a::len word \<Rightarrow> 'a word \<Rightarrow> 'a word option" where
  "checked_add a b = (if unat a + unat b < 2 ^ LENGTH('a) then Some (a + b) else None)"

definition checked_sub :: "'a::len word \<Rightarrow> 'a word \<Rightarrow> 'a word option" where
  "checked_sub a b = (if b \<le> a then Some (a - b) else None)"

lemma checked_add_Some:
  "checked_add a b = Some c \<longleftrightarrow> unat a + unat b < 2 ^ LENGTH('a) \<and> c = (a + b :: 'a::len word)"
  by (auto simp: checked_add_def)

lemma checked_add_unat:
  fixes a b c :: "'a::len word"
  assumes "checked_add a b = Some c"
  shows "unat c = unat a + unat b"
proof -
  from assms have "unat a + unat b < 2 ^ LENGTH('a)" and "c = a + b"
    by (simp_all add: checked_add_Some)
  then show ?thesis by (simp add: unat_word_ariths)
qed

lemma checked_sub_Some:
  "checked_sub a b = Some c \<longleftrightarrow> b \<le> a \<and> c = a - b"
  by (auto simp: checked_sub_def)

lemma unat_sub_le [simp]:
  fixes a b :: "'a::len word"
  shows "b \<le> a \<Longrightarrow> unat (a - b) = unat a - unat b"
  by (simp add: unat_sub)

lemma checked_sub_unat:
  "checked_sub a b = Some c \<Longrightarrow> unat a = unat b + unat c"
  by (auto simp: checked_sub_Some word_le_nat_alt)

text \<open>
  \<open>usize\<close> counters are natural numbers below \<open>2 ^ 64\<close> with the wrap-around of a release
  build written out; lengths of slices and vectors are plain natural numbers.
\<close>

definition usize_checked_add :: "nat \<Rightarrow> nat \<Rightarrow> nat option" where
  "usize_checked_add a b = (if a + b < 2 ^ 64 then Some (a + b) else None)"

definition usize_sub :: "nat \<Rightarrow> nat \<Rightarrow> nat" where
  "usize_sub a b = (if b \<le> a then a - b else a + 2 ^ 64 - b)"

lemma usize_sub_le [simp]: "b \<le> a \<Longrightarrow> usize_sub a b = a - b"
  by (simp add: usize_sub_def)

lemma usize_checked_add_Some [simp]:
  "usize_checked_add a b = Some c \<longleftrightarrow> a + b < 2 ^ 64 \<and> c = a + b"
  by (auto simp: usize_checked_add_def)

lemma usize_checked_add_None [simp]: "usize_checked_add a b = None \<longleftrightarrow> 2 ^ 64 \<le> a + b"
  by (auto simp: usize_checked_add_def)

section \<open>Clocks\<close>

type_synonym instant = nat
type_synonym duration = nat

definition instant_max :: instant where
  "instant_max = (2 ^ 63 - 1) * 1000000000 + 999999999"

definition Instant_checked_add :: "instant \<Rightarrow> duration \<Rightarrow> instant option" where
  "Instant_checked_add t d = (if t + d \<le> instant_max then Some (t + d) else None)"

definition Duration_from_millis :: "u64 \<Rightarrow> duration" where
  "Duration_from_millis ms = unat ms * 1000000"

lemma Instant_checked_add_Some [simp]:
  "Instant_checked_add t d = Some u \<longleftrightarrow> t + d \<le> instant_max \<and> u = t + d"
  by (auto simp: Instant_checked_add_def)

lemma Duration_from_millis_eq_0 [simp]: "Duration_from_millis ms = 0 \<longleftrightarrow> ms = 0"
  by (simp add: Duration_from_millis_def unat_eq_zero)

section \<open>Bytes and strings\<close>

definition as_bytes :: "string \<Rightarrow> bytes" where
  "as_bytes s = map of_char s"

text \<open>The string of a byte sequence known to be UTF-8.\<close>

definition bytes_str :: "bytes \<Rightarrow> string" where
  "bytes_str bs = map (\<lambda>w. char_of (unat w)) bs"

definition is_ascii_digit :: "char \<Rightarrow> bool" where
  "is_ascii_digit c = (CHR ''0'' \<le> c \<and> c \<le> CHR ''9'')"

definition is_ascii_lower :: "char \<Rightarrow> bool" where
  "is_ascii_lower c = (CHR ''a'' \<le> c \<and> c \<le> CHR ''z'')"

definition is_ascii_upper :: "char \<Rightarrow> bool" where
  "is_ascii_upper c = (CHR ''A'' \<le> c \<and> c \<le> CHR ''Z'')"

definition is_ascii_alphanumeric :: "char \<Rightarrow> bool" where
  "is_ascii_alphanumeric c = (is_ascii_digit c \<or> is_ascii_lower c \<or> is_ascii_upper c)"

definition is_lower_hex :: "char \<Rightarrow> bool" where
  "is_lower_hex c = (is_ascii_digit c \<or> (CHR ''a'' \<le> c \<and> c \<le> CHR ''f''))"

definition is_ascii_hexdigit :: "char \<Rightarrow> bool" where
  "is_ascii_hexdigit c =
     (is_ascii_digit c \<or> (CHR ''a'' \<le> c \<and> c \<le> CHR ''f'') \<or> (CHR ''A'' \<le> c \<and> c \<le> CHR ''F''))"

lemmas [rust_std] = is_ascii_digit_def is_ascii_lower_def is_ascii_upper_def
  is_ascii_alphanumeric_def is_lower_hex_def is_ascii_hexdigit_def

lemma is_lower_hex_hexdigit: "is_lower_hex c \<Longrightarrow> is_ascii_hexdigit c"
  by (auto simp: is_lower_hex_def is_ascii_hexdigit_def)

text \<open>
  \<open>s.chars().any(char::is_control)\<close>: the control characters are U+0000 to U+001F, U+007F
  and U+0080 to U+009F; the last range is the two-byte sequences C2 80 to C2 9F, and C2 is
  a lead byte in every valid UTF-8 string.
\<close>

fun has_control :: "string \<Rightarrow> bool" where
  "has_control [] = False"
| "has_control [c] = (of_char c < (32::nat) \<or> of_char c = (127::nat))"
| "has_control (c # d # cs) =
     (of_char c < (32::nat) \<or> of_char c = (127::nat)
      \<or> (of_char c = (194::nat) \<and> 128 \<le> (of_char d :: nat) \<and> of_char d < (160::nat))
      \<or> has_control (d # cs))"

text \<open>
  \<open>s.trim().is_empty()\<close>: every character has the Unicode property White\_Space. The
  multi-byte cases are U+0085, U+00A0, U+1680, U+2000 to U+200A, U+2028, U+2029, U+202F,
  U+205F and U+3000 in UTF-8.
\<close>

fun blank_nats :: "nat list \<Rightarrow> bool" where
  "blank_nats [] = True"
| "blank_nats (a # s) =
     (if (9 \<le> a \<and> a \<le> 13) \<or> a = 32 then blank_nats s
      else if a = 194 then
        (case s of b # s' \<Rightarrow> (b = 133 \<or> b = 160) \<and> blank_nats s' | [] \<Rightarrow> False)
      else (case s of
              b # c # s' \<Rightarrow>
                ((a = 225 \<and> b = 154 \<and> c = 128)
                 \<or> (a = 226 \<and> b = 128 \<and> ((128 \<le> c \<and> c \<le> 138) \<or> c = 168 \<or> c = 169 \<or> c = 175))
                 \<or> (a = 226 \<and> b = 129 \<and> c = 159)
                 \<or> (a = 227 \<and> b = 128 \<and> c = 128)) \<and> blank_nats s'
            | _ \<Rightarrow> False))"

definition trim_is_empty :: "string \<Rightarrow> bool" where
  "trim_is_empty s = blank_nats (map of_char s)"

text \<open>The length in bytes of the White\_Space character a string starts with, if any.\<close>

fun ws_head :: "nat list \<Rightarrow> nat" where
  "ws_head [] = 0"
| "ws_head (a # s) =
     (if (9 \<le> a \<and> a \<le> 13) \<or> a = 32 then 1
      else if a = 194 then (case s of b # _ \<Rightarrow> if b = 133 \<or> b = 160 then 2 else 0 | [] \<Rightarrow> 0)
      else (case s of b # c # _ \<Rightarrow> if blank_nats [a, b, c] then 3 else 0 | _ \<Rightarrow> 0))"

text \<open>\<open>str::trim_start\<close>, \<open>str::trim_end\<close> and \<open>str::trim\<close>.\<close>

function trim_start :: "string \<Rightarrow> string" where
  "trim_start s = (let n = ws_head (map of_char s) in if n = 0 \<or> s = [] then s else trim_start (drop n s))"
  by pat_completeness auto
termination by (relation "measure length") auto

definition trim_end :: "string \<Rightarrow> string" where
  "trim_end s =
     (case find (\<lambda>n. trim_is_empty (drop n s)) [0..<Suc (length s)] of None \<Rightarrow> s | Some n \<Rightarrow> take n s)"

definition str_trim :: "string \<Rightarrow> string" where
  "str_trim s = trim_end (trim_start s)"

text \<open>\<open>str::split_whitespace\<close>: the maximal runs free of White\_Space.\<close>

function split_whitespace_aux :: "string \<Rightarrow> string \<Rightarrow> string list" where
  "split_whitespace_aux acc s =
     (let flush = (if acc = [] then [] else [acc]); n = ws_head (map of_char s) in
      if s = [] then flush
      else if n = 0 then split_whitespace_aux (acc @ [hd s]) (tl s)
      else flush @ split_whitespace_aux [] (drop n s))"
  by pat_completeness auto
termination by (relation "measure (\<lambda>(a, s). length s)") auto

definition split_whitespace :: "string \<Rightarrow> string list" where
  "split_whitespace s = split_whitespace_aux [] s"

declare trim_start.simps [simp del] split_whitespace_aux.simps [simp del]

text \<open>\<open>str::parse::<u64>\<close>: an optional plus sign and decimal digits without overflow.\<close>

definition parse_u64 :: "string \<Rightarrow> u64 option" where
  "parse_u64 s =
     (let ds = (case s of c # r \<Rightarrow> if c = CHR ''+'' then r else s | [] \<Rightarrow> s);
          n = foldl (\<lambda>a d. a * 10 + (of_char d - 48)) (0::nat) ds
      in if ds = [] \<or> \<not> list_all is_ascii_digit ds \<or> n \<ge> 2 ^ 64 then None else Some (of_nat n))"

text \<open>\<open>str::rsplit_once\<close> on one byte: the part after its last occurrence.\<close>

definition rsplit_after :: "char \<Rightarrow> string \<Rightarrow> string option" where
  "rsplit_after c s = (if c \<in> set s then Some (rev (takeWhile (\<lambda>d. d \<noteq> c) (rev s))) else None)"

text \<open>\<open>str::strip_prefix\<close>.\<close>

fun strip_prefix :: "'a list \<Rightarrow> 'a list \<Rightarrow> 'a list option" where
  "strip_prefix [] s = Some s"
| "strip_prefix (p # ps) [] = None"
| "strip_prefix (p # ps) (c # cs) = (if p = c then strip_prefix ps cs else None)"

lemma strip_prefix_Some: "strip_prefix p s = Some r \<longleftrightarrow> s = p @ r"
  by (induction p s rule: strip_prefix.induct) auto

lemma strip_prefix_append [simp]: "strip_prefix p (p @ r) = Some r"
  by (simp add: strip_prefix_Some)

text \<open>\<open>str::trim_start_matches\<close> strips the prefix as often as it occurs.\<close>

function trim_start_matches :: "string \<Rightarrow> string \<Rightarrow> string" where
  "trim_start_matches p s =
     (case strip_prefix p s of
        None \<Rightarrow> s
      | Some r \<Rightarrow> if p = [] then s else trim_start_matches p r)"
  by pat_completeness auto
termination
  by (relation "measure (\<lambda>(p, s). length s)") (auto simp: strip_prefix_Some)

declare trim_start_matches.simps [simp del]

definition ends_with :: "'a list \<Rightarrow> 'a list \<Rightarrow> bool" where
  "ends_with p s = (drop (length s - length p) s = p)"

text \<open>\<open>str::split(sep)\<close> on a one-byte separator: never the empty list.\<close>

fun split_on :: "'a \<Rightarrow> 'a list \<Rightarrow> 'a list list" where
  "split_on sep [] = [[]]"
| "split_on sep (c # cs) =
     (if c = sep then [] # split_on sep cs
      else (case split_on sep cs of [] \<Rightarrow> [[c]] | p # ps \<Rightarrow> (c # p) # ps))"

lemma split_on_not_Nil [simp]: "split_on sep s \<noteq> []"
  by (induction s) (auto split: list.splits)

lemma split_on_no_sep: "p \<in> set (split_on sep s) \<Longrightarrow> sep \<notin> set p"
  by (induction s arbitrary: p) (auto split: list.splits if_splits)

lemma length_split_on: "length (split_on sep s) = Suc (length (filter (\<lambda>c. c = sep) s))"
proof (induction s)
  case (Cons c s)
  then show ?case by (cases "split_on sep s") auto
qed simp

text \<open>\<open>str::contains\<close> on a string pattern.\<close>

fun starts_with :: "'a list \<Rightarrow> 'a list \<Rightarrow> bool" where
  "starts_with [] s = True"
| "starts_with (p # ps) [] = False"
| "starts_with (p # ps) (c # cs) = (p = c \<and> starts_with ps cs)"

fun contains_seq :: "'a list \<Rightarrow> 'a list \<Rightarrow> bool" where
  "contains_seq p [] = (p = [])"
| "contains_seq p (c # cs) = (starts_with p (c # cs) \<or> contains_seq p cs)"

lemma starts_with_iff: "starts_with p s \<longleftrightarrow> (\<exists>r. s = p @ r)"
  by (induction p s rule: starts_with.induct) auto

lemma contains_seq_iff: "contains_seq p s \<longleftrightarrow> (\<exists>a r. s = a @ p @ r)"
proof (induction s)
  case (Cons c s)
  have "(\<exists>a r. c # s = a @ p @ r) \<longleftrightarrow> (\<exists>r. c # s = p @ r) \<or> (\<exists>a r. s = a @ p @ r)"
    (is "?l \<longleftrightarrow> ?r")
  proof
    assume ?l
    then obtain a r where "c # s = a @ p @ r" by blast
    then show ?r by (cases a) auto
  next
    assume ?r
    then show ?l by (metis append_Cons append_Nil)
  qed
  with Cons show ?case by (simp add: starts_with_iff)
qed simp

text \<open>
  \<open>str::lines\<close>: split after every newline; a line loses its newline and then one carriage
  return before it; an unterminated last line is kept as it is.
\<close>

fun split_inclusive_nl :: "bytes \<Rightarrow> bytes list" where
  "split_inclusive_nl [] = []"
| "split_inclusive_nl (c # cs) =
     (if c = 10 then [10] # split_inclusive_nl cs
      else (case split_inclusive_nl cs of [] \<Rightarrow> [[c]] | l # ls \<Rightarrow> (c # l) # ls))"

definition strip_line_ending :: "bytes \<Rightarrow> bytes" where
  "strip_line_ending l =
     (if l \<noteq> [] \<and> last l = 10
      then (let l' = butlast l in if l' \<noteq> [] \<and> last l' = 13 then butlast l' else l')
      else l)"

definition str_lines :: "bytes \<Rightarrow> bytes list" where
  "str_lines s = map strip_line_ending (split_inclusive_nl s)"

lemma concat_split_inclusive_nl: "concat (split_inclusive_nl s) = s"
  by (induction s) (auto split: list.splits)

text \<open>
  \<open>std::str::from_utf8\<close> succeeds exactly on well-formed UTF-8 (Unicode table 3-7).
\<close>

definition utf8_cont :: "nat \<Rightarrow> bool" where
  "utf8_cont b = (128 \<le> b \<and> b \<le> 191)"

fun utf8_valid_nats :: "nat list \<Rightarrow> bool" where
  "utf8_valid_nats [] = True"
| "utf8_valid_nats (a # s) =
     (if a \<le> 127 then utf8_valid_nats s
      else if 194 \<le> a \<and> a \<le> 223 then
        (case s of b # s' \<Rightarrow> utf8_cont b \<and> utf8_valid_nats s' | _ \<Rightarrow> False)
      else if 224 \<le> a \<and> a \<le> 239 then
        (case s of
           b # c # s' \<Rightarrow>
             (if a = 224 then 160 \<le> b \<and> b \<le> 191
              else if a = 237 then 128 \<le> b \<and> b \<le> 159
              else utf8_cont b)
             \<and> utf8_cont c \<and> utf8_valid_nats s'
         | _ \<Rightarrow> False)
      else if 240 \<le> a \<and> a \<le> 244 then
        (case s of
           b # c # d # s' \<Rightarrow>
             (if a = 240 then 144 \<le> b \<and> b \<le> 191
              else if a = 244 then 128 \<le> b \<and> b \<le> 143
              else utf8_cont b)
             \<and> utf8_cont c \<and> utf8_cont d \<and> utf8_valid_nats s'
         | _ \<Rightarrow> False)
      else False)"

definition utf8_valid :: "bytes \<Rightarrow> bool" where
  "utf8_valid b = utf8_valid_nats (map unat b)"

text \<open>\<open>s.chars().take(n)\<close> on UTF-8: continuation bytes belong to the character before them.\<close>

fun chars_take :: "nat \<Rightarrow> string \<Rightarrow> string" where
  "chars_take n [] = []"
| "chars_take n (c # cs) =
     (if utf8_cont (of_char c) then c # chars_take n cs
      else (case n of 0 \<Rightarrow> [] | Suc m \<Rightarrow> c # chars_take m cs))"

section \<open>Content hashes\<close>

text \<open>\<open>pub struct Hash(pub String)\<close> of \<open>celln-manifest\<close>, ordered as its string.\<close>

datatype hash = Hash (hash_str: string)

instantiation hash :: linorder
begin

definition less_eq_hash :: "hash \<Rightarrow> hash \<Rightarrow> bool" where
  "less_eq_hash a b = (hash_str a \<le> hash_str b)"

definition less_hash :: "hash \<Rightarrow> hash \<Rightarrow> bool" where
  "less_hash a b = (hash_str a < hash_str b)"

instance
  by standard
    (auto simp: less_eq_hash_def less_hash_def hash.expand less_le_not_le)

end

text \<open>\<open>blake3:\<close> followed by 64 lower-case hexadecimal digits.\<close>

definition valid_hash_str :: "string \<Rightarrow> bool" where
  "valid_hash_str s =
     (case strip_prefix ''blake3:'' s of
        None \<Rightarrow> False
      | Some h \<Rightarrow> length h = 64 \<and> list_all is_lower_hex h)"

lemma valid_hash_str_iff:
  "valid_hash_str s \<longleftrightarrow> (\<exists>h. s = ''blake3:'' @ h \<and> length h = 64 \<and> list_all is_lower_hex h)"
  by (auto simp: valid_hash_str_def strip_prefix_Some split: option.splits)

lemma valid_hash_str_length: "valid_hash_str s \<Longrightarrow> length s = 71"
  by (auto simp: valid_hash_str_iff)

section \<open>Running a sequence of operations\<close>

text \<open>The final state, and each operation with its result in order.\<close>

fun run_final :: "('op \<Rightarrow> 's \<Rightarrow> 's \<times> 'r) \<Rightarrow> 's \<Rightarrow> 'op list \<Rightarrow> 's" where
  "run_final step s [] = s"
| "run_final step s (x # xs) = run_final step (fst (step x s)) xs"

fun run_results :: "('op \<Rightarrow> 's \<Rightarrow> 's \<times> 'r) \<Rightarrow> 's \<Rightarrow> 'op list \<Rightarrow> ('op \<times> 'r) list" where
  "run_results step s [] = []"
| "run_results step s (x # xs) = (x, snd (step x s)) # run_results step (fst (step x s)) xs"

lemma run_final_append: "run_final step s (xs @ ys) = run_final step (run_final step s xs) ys"
  by (induction xs arbitrary: s) auto

lemma run_final_inv:
  assumes "\<And>x s. P s \<Longrightarrow> P (fst (step x s))" and "P s"
  shows "P (run_final step s xs)"
  using assms(2) by (induction xs arbitrary: s) (auto intro: assms(1))

text \<open>
  The contract of a metered resource: every counted operation pays at least one unit and no
  operation refunds any. A client that knows only this knows how often it can be served.
\<close>

locale metered =
  fixes step :: "'op \<Rightarrow> 's \<Rightarrow> 's \<times> 'r"
    and fuel :: "'s \<Rightarrow> nat"
    and counted :: "'op \<times> 'r \<Rightarrow> bool"
    and live :: "'s \<Rightarrow> bool"
  assumes pays: "live s \<Longrightarrow> step x s = (s', r) \<Longrightarrow> fuel s' + (if counted (x, r) then 1 else 0) \<le> fuel s"
    and stays: "live s \<Longrightarrow> step x s = (s', r) \<Longrightarrow> live s'"
begin

lemma counted_bounded: "live s \<Longrightarrow> length (filter counted (run_results step s xs)) \<le> fuel s"
proof (induction xs arbitrary: s)
  case (Cons x xs)
  obtain s' r where step: "step x s = (s', r)" by fastforce
  show ?case
    using Cons.IH [OF stays [OF Cons.prems step]] pays [OF Cons.prems step] step by (auto split: if_splits)
qed simp

lemma exhausted: "live s \<Longrightarrow> fuel s = 0 \<Longrightarrow> filter counted (run_results step s xs) = []"
  using counted_bounded [of s xs] by simp

end

section \<open>A concrete framing\<close>

text \<open>
  An injective byte framing of a pair of strings, for exhibiting values of the serializer
  parameters: each character is preceded by a one byte, the strings are separated by zero.
\<close>

fun frame_string :: "string \<Rightarrow> bytes" where
  "frame_string [] = []"
| "frame_string (c # cs) = 1 # of_char c # frame_string cs"

definition frame_pair :: "string \<times> string \<Rightarrow> bytes" where
  "frame_pair p = frame_string (fst p) @ 0 # frame_string (snd p)"

lemma unat_of_char [simp]: "unat (of_char c :: u8) = of_char c"
proof -
  have "unat (of_nat (of_char c) :: u8) = of_char c"
    by (simp add: unat_of_nat)
  then show ?thesis by (simp add: of_nat_of_char)
qed

lemma of_char_u8_eq_iff [simp]: "(of_char a :: u8) = of_char b \<longleftrightarrow> a = b"
  by (metis of_char_eq_iff unat_of_char)

lemma unat_u8_less [simp]: "unat (w :: u8) < 256"
  by (rule order.strict_trans2 [OF unsigned_less]) simp

text \<open>A hash that is its input, for the same purpose.\<close>

definition frame_hash :: "bytes \<Rightarrow> hash" where
  "frame_hash b = Hash (map (\<lambda>w. char_of (unat w)) b)"

lemma frame_hash_as_bytes: "frame_hash (as_bytes s) = Hash s"
  by (induction s) (auto simp: frame_hash_def as_bytes_def)

lemma frame_hash_inj: "inj frame_hash"
proof (rule injI)
  fix a b assume "frame_hash a = frame_hash b"
  then have eq: "map (\<lambda>w. char_of (unat w) :: char) a = map (\<lambda>w. char_of (unat w)) b"
    by (simp add: frame_hash_def)
  have "inj (\<lambda>w :: u8. char_of (unat w) :: char)"
    by (rule injI) (simp add: word_unat_eq_iff)
  with eq show "a = b" by simp
qed

lemma frame_string_inj: "frame_string a = frame_string b \<longleftrightarrow> a = b"
proof (induction a arbitrary: b)
  case Nil
  show ?case by (cases b) auto
next
  case (Cons c a)
  then show ?case by (cases b) auto
qed

lemma frame_pair_inj: "inj frame_pair"
proof (rule injI)
  fix x y :: "string \<times> string"
  assume eq: "frame_pair x = frame_pair y"
  have "frame_string a @ 0 # r = frame_string b @ 0 # s \<Longrightarrow> a = b \<and> r = s" for a b r s
  proof (induction a arbitrary: b)
    case Nil
    then show ?case by (cases b) auto
  next
    case (Cons c a)
    then show ?case by (cases b) auto
  qed
  from this [OF eq [unfolded frame_pair_def]] show "x = y"
    by (simp add: frame_string_inj prod_eq_iff)
qed

section \<open>List lemmas\<close>

lemma sum_list_map_filter_le:
  fixes f :: "'a \<Rightarrow> nat"
  shows "x \<in> set xs \<Longrightarrow> f x \<le> sum_list (map f xs)"
  by (induction xs) auto

lemma list_all_mono_set: "list_all P xs \<Longrightarrow> (\<And>x. x \<in> set xs \<Longrightarrow> P x \<Longrightarrow> Q x) \<Longrightarrow> list_all Q xs"
  by (auto simp: list_all_iff)

end
