(* ===== verification/Cell.thy ===== *)
theory Cell
  imports Prelude
begin

text \<open>
  The warden's view of one cell: \<open>celln-warden/src/ratchet.rs\<close> (the authority ratchet),
  \<open>vmm.rs\<close> (the VM boundary and its in-memory backend) and \<open>lib.rs\<close> (a cell couples the
  two). The VM trait is the locale \<open>vmm_contract\<close> over a record of its operations; the
  in-memory backend interprets it. The main result is that the first tainted exec closes
  materialisation for every later sequence of operations.
\<close>

section \<open>The authority ratchet\<close>

datatype Phase = PhaseMaterialise | PhaseWork | PhaseDissolve

datatype Verb = VerbMaterialise | VerbHostFetch | VerbExec | VerbReadWorkspace

text \<open>The derived \<open>Ord\<close> of \<open>Phase\<close> follows the declaration order.\<close>

fun phase_rank :: "Phase \<Rightarrow> nat" where
  "phase_rank PhaseMaterialise = 0"
| "phase_rank PhaseWork = 1"
| "phase_rank PhaseDissolve = 2"

lemma phase_rank_inj: "phase_rank a = phase_rank b \<Longrightarrow> a = b"
  by (cases a; cases b) auto

instantiation Phase :: linorder
begin

definition less_eq_Phase :: "Phase \<Rightarrow> Phase \<Rightarrow> bool" where
  "less_eq_Phase a b = (phase_rank a \<le> phase_rank b)"

definition less_Phase :: "Phase \<Rightarrow> Phase \<Rightarrow> bool" where
  "less_Phase a b = (phase_rank a < phase_rank b)"

instance
  by standard (auto simp: less_eq_Phase_def less_Phase_def phase_rank_inj)

end

record Ratchet =
  ratchet_phase :: Phase

definition Ratchet_new :: Ratchet where
  "Ratchet_new = \<lparr>ratchet_phase = PhaseMaterialise\<rparr>"

definition advance_to_work :: "Ratchet \<Rightarrow> Ratchet" where
  "advance_to_work r =
     (if ratchet_phase r = PhaseMaterialise then r\<lparr>ratchet_phase := PhaseWork\<rparr> else r)"

definition advance_to_dissolve :: "Ratchet \<Rightarrow> Ratchet" where
  "advance_to_dissolve r = r\<lparr>ratchet_phase := PhaseDissolve\<rparr>"

fun verb_allowed :: "Phase \<Rightarrow> Verb \<Rightarrow> bool" where
  "verb_allowed PhaseMaterialise _ = True"
| "verb_allowed PhaseWork VerbMaterialise = False"
| "verb_allowed PhaseWork _ = True"
| "verb_allowed PhaseDissolve VerbReadWorkspace = True"
| "verb_allowed PhaseDissolve _ = False"

definition Ratchet_check :: "Ratchet \<Rightarrow> Verb \<Rightarrow> Phase + unit" where
  "Ratchet_check r v =
     (if verb_allowed (ratchet_phase r) v then Ok () else Err (ratchet_phase r))"

lemma Ratchet_check_Ok [simp]: "Ratchet_check r v = Inr () \<longleftrightarrow> verb_allowed (ratchet_phase r) v"
  by (simp add: Ratchet_check_def)

lemma Ratchet_check_Err: "Ratchet_check r v = Inl p \<longleftrightarrow> \<not> verb_allowed (ratchet_phase r) v \<and> p = ratchet_phase r"
  by (auto simp: Ratchet_check_def)

text \<open>Rights only shrink: a later phase permits no verb an earlier one refused.\<close>

lemma verb_allowed_antimono: "p \<le> q \<Longrightarrow> verb_allowed q v \<Longrightarrow> verb_allowed p v"
  by (cases p; cases q; cases v) (auto simp: less_eq_Phase_def)

lemma verb_allowed_materialise: "verb_allowed p VerbMaterialise \<longleftrightarrow> p = PhaseMaterialise"
  by (cases p) auto

lemma advance_to_work_mono: "ratchet_phase r \<le> ratchet_phase (advance_to_work r)"
  by (auto simp: advance_to_work_def less_eq_Phase_def)

lemma advance_to_work_closes: "ratchet_phase (advance_to_work r) \<noteq> PhaseMaterialise"
  by (simp add: advance_to_work_def)

lemma advance_to_dissolve_mono: "ratchet_phase r \<le> ratchet_phase (advance_to_dissolve r)"
  by (cases "ratchet_phase r") (auto simp: advance_to_dissolve_def less_eq_Phase_def)

section \<open>The VM boundary\<close>

datatype VmmError = VmmUnsupported string | VmmBackend string

text \<open>
  The trait \<open>Vmm\<close>: each method takes the backend by mutable reference, so it returns the
  new backend beside its result.
\<close>

record 'v Vmm =
  fork_from_snapshot :: "string \<Rightarrow> 'v \<Rightarrow> 'v \<times> (VmmError + unit)"
  map_pages_ro_exec :: "hash \<Rightarrow> bytes \<Rightarrow> 'v \<Rightarrow> 'v \<times> (VmmError + unit)"
  vmm_unmap :: "hash \<Rightarrow> 'v \<Rightarrow> 'v \<times> (VmmError + unit)"
  freeze_readonly :: "'v \<Rightarrow> 'v \<times> (VmmError + unit)"

record MockVmm =
  snapshot :: "string option"
  mapped :: "hash list"
  frozen :: bool

definition MockVmm_new :: MockVmm where
  "MockVmm_new = \<lparr>snapshot = None, mapped = [], frozen = False\<rparr>"

definition is_mapped :: "MockVmm \<Rightarrow> hash \<Rightarrow> bool" where
  "is_mapped v h = (h \<in> set (mapped v))"

definition MockVmm_ops :: "MockVmm Vmm" where
  "MockVmm_ops =
     \<lparr>fork_from_snapshot = (\<lambda>s v. (v\<lparr>snapshot := Some s\<rparr>, Ok ())),
      map_pages_ro_exec = (\<lambda>h b v.
        (if h \<in> set (mapped v) then v else v\<lparr>mapped := mapped v @ [h]\<rparr>, Ok ())),
      vmm_unmap = (\<lambda>h v. (v\<lparr>mapped := filter (\<lambda>x. x \<noteq> h) (mapped v)\<rparr>, Ok ())),
      freeze_readonly = (\<lambda>v. (v\<lparr>frozen := True\<rparr>, Ok ()))\<rparr>"

section \<open>Cells\<close>

record 'v Cell =
  cell_id :: string
  cell_vmm :: 'v
  cell_ratchet :: Ratchet

datatype CellError = CellVmm VmmError | VerbDenied Verb Phase

definition Cell_seal :: "'v Vmm \<Rightarrow> string \<Rightarrow> 'v \<Rightarrow> string \<Rightarrow> CellError + 'v Cell" where
  "Cell_seal ops i v mote_snapshot =
     (case fork_from_snapshot ops mote_snapshot v of
        (v', Inl e) \<Rightarrow> Err (CellVmm e)
      | (v', Inr _) \<Rightarrow> Ok \<lparr>cell_id = i, cell_vmm = v', cell_ratchet = Ratchet_new\<rparr>)"

definition Cell_phase :: "'v Cell \<Rightarrow> Phase" where
  "Cell_phase c = ratchet_phase (cell_ratchet c)"

definition Cell_map_tool :: "'v Vmm \<Rightarrow> hash \<Rightarrow> bytes \<Rightarrow> 'v Cell \<Rightarrow> 'v Cell \<times> (CellError + unit)" where
  "Cell_map_tool ops h b c =
     (case Ratchet_check (cell_ratchet c) VerbMaterialise of
        Inl p \<Rightarrow> (c, Err (VerbDenied VerbMaterialise p))
      | Inr _ \<Rightarrow>
          (case map_pages_ro_exec ops h b (cell_vmm c) of
             (v', r) \<Rightarrow> (c\<lparr>cell_vmm := v'\<rparr>, (case r of Inl e \<Rightarrow> Err (CellVmm e) | Inr _ \<Rightarrow> Ok ()))))"

definition Cell_revoke_tool :: "'v Vmm \<Rightarrow> hash \<Rightarrow> 'v Cell \<Rightarrow> 'v Cell \<times> (CellError + unit)" where
  "Cell_revoke_tool ops h c =
     (case vmm_unmap ops h (cell_vmm c) of
        (v', r) \<Rightarrow> (c\<lparr>cell_vmm := v'\<rparr>, (case r of Inl e \<Rightarrow> Err (CellVmm e) | Inr _ \<Rightarrow> Ok ())))"

definition on_first_tainted_exec :: "'v Cell \<Rightarrow> 'v Cell" where
  "on_first_tainted_exec c = c\<lparr>cell_ratchet := advance_to_work (cell_ratchet c)\<rparr>"

definition Cell_dissolve :: "'v Vmm \<Rightarrow> 'v Cell \<Rightarrow> 'v Cell \<times> (CellError + unit)" where
  "Cell_dissolve ops c =
     (let c1 = c\<lparr>cell_ratchet := advance_to_dissolve (cell_ratchet c)\<rparr>
      in case freeze_readonly ops (cell_vmm c1) of
           (v', r) \<Rightarrow> (c1\<lparr>cell_vmm := v'\<rparr>, (case r of Inl e \<Rightarrow> Err (CellVmm e) | Inr _ \<Rightarrow> Ok ())))"

text \<open>The public operations of a cell, and a host driving one with a sequence of them.\<close>

datatype CellOp = MapTool hash bytes | RevokeTool hash | FirstTaintedExec | DissolveCell

fun cell_step :: "'v Vmm \<Rightarrow> 'v Cell \<Rightarrow> CellOp \<Rightarrow> 'v Cell" where
  "cell_step ops c (MapTool h b) = fst (Cell_map_tool ops h b c)"
| "cell_step ops c (RevokeTool h) = fst (Cell_revoke_tool ops h c)"
| "cell_step ops c FirstTaintedExec = on_first_tainted_exec c"
| "cell_step ops c DissolveCell = fst (Cell_dissolve ops c)"

fun cell_run :: "'v Vmm \<Rightarrow> 'v Cell \<Rightarrow> CellOp list \<Rightarrow> 'v Cell" where
  "cell_run ops c [] = c"
| "cell_run ops c (x # xs) = cell_run ops (cell_step ops c x) xs"

lemma cell_run_append: "cell_run ops c (xs @ ys) = cell_run ops (cell_run ops c xs) ys"
  by (induction xs arbitrary: c) auto

lemma Cell_map_tool_phase [simp]: "Cell_phase (fst (Cell_map_tool ops h b c)) = Cell_phase c"
  by (auto simp: Cell_map_tool_def Cell_phase_def split: sum.splits prod.splits)

lemma Cell_revoke_tool_phase [simp]: "Cell_phase (fst (Cell_revoke_tool ops h c)) = Cell_phase c"
  by (auto simp: Cell_revoke_tool_def Cell_phase_def split: sum.splits prod.splits)

lemma on_first_tainted_exec_phase [simp]:
  "Cell_phase (on_first_tainted_exec c) = ratchet_phase (advance_to_work (cell_ratchet c))"
  by (simp add: Cell_phase_def on_first_tainted_exec_def)

lemma Cell_dissolve_phase [simp]: "Cell_phase (fst (Cell_dissolve ops c)) = PhaseDissolve"
  by (simp add: Cell_phase_def Cell_dissolve_def advance_to_dissolve_def Let_def split: prod.splits)

lemma cell_step_phase_mono: "Cell_phase c \<le> Cell_phase (cell_step ops c x)"
  using advance_to_work_mono [of "cell_ratchet c"] advance_to_dissolve_mono [of "cell_ratchet c"]
  by (cases x) (auto simp: advance_to_dissolve_def Cell_phase_def [of c])

lemma cell_run_phase_mono: "Cell_phase c \<le> Cell_phase (cell_run ops c xs)"
proof (induction xs arbitrary: c)
  case (Cons x xs)
  then show ?case using cell_step_phase_mono order_trans by (metis cell_run.simps(2))
qed simp

lemma Cell_map_tool_denied:
  "Cell_phase c \<noteq> PhaseMaterialise \<Longrightarrow>
     Cell_map_tool ops h b c = (c, Inl (VerbDenied VerbMaterialise (Cell_phase c)))"
  by (auto simp: Cell_map_tool_def Cell_phase_def Ratchet_check_def verb_allowed_materialise)

section \<open>What the backend promises\<close>

text \<open>
  The contract of the trait: \<open>mapped_set\<close> observes the page sets the guest can execute.
  Mapping may add only the hash it was given, unmapping and freezing add nothing, and a
  successful unmap removes its hash.
\<close>

locale vmm_contract =
  fixes ops :: "'v Vmm" and mapped_set :: "'v \<Rightarrow> hash set"
  assumes map_adds: "map_pages_ro_exec ops h b v = (v', r) \<Longrightarrow> mapped_set v' \<subseteq> insert h (mapped_set v)"
    and map_ok: "map_pages_ro_exec ops h b v = (v', Inr u) \<Longrightarrow> h \<in> mapped_set v'"
    and unmap_keeps: "vmm_unmap ops h v = (v', r) \<Longrightarrow> mapped_set v' \<subseteq> mapped_set v"
    and unmap_ok: "vmm_unmap ops h v = (v', Inr u) \<Longrightarrow> h \<notin> mapped_set v'"
    and freeze_keeps: "freeze_readonly ops v = (v', r) \<Longrightarrow> mapped_set v' \<subseteq> mapped_set v"
begin

lemma step_closed:
  assumes "Cell_phase c \<noteq> PhaseMaterialise"
  shows "mapped_set (cell_vmm (cell_step ops c x)) \<subseteq> mapped_set (cell_vmm c)"
  using assms
  by (cases x)
    (auto simp: Cell_map_tool_denied Cell_revoke_tool_def on_first_tainted_exec_def
        Cell_dissolve_def Let_def split: prod.splits sum.splits dest: unmap_keeps freeze_keeps)

lemma run_closed:
  assumes "Cell_phase c \<noteq> PhaseMaterialise"
  shows "mapped_set (cell_vmm (cell_run ops c xs)) \<subseteq> mapped_set (cell_vmm c)"
  using assms
proof (induction xs arbitrary: c)
  case (Cons x xs)
  have "Cell_phase (cell_step ops c x) \<noteq> PhaseMaterialise"
    using Cons.prems cell_step_phase_mono [of c ops x]
    by (cases "Cell_phase c"; cases "Cell_phase (cell_step ops c x)") (auto simp: less_eq_Phase_def)
  then show ?case using Cons step_closed by fastforce
qed simp

text \<open>Every page set a cell ever holds was mapped by name while materialisation was open.\<close>

lemma step_adds:
  "mapped_set (cell_vmm (cell_step ops c x)) \<subseteq> mapped_set (cell_vmm c) \<union> {h. \<exists>b. x = MapTool h b}"
proof (cases x)
  case (MapTool h b)
  then show ?thesis
    using map_adds [of h b "cell_vmm c"]
    by (cases "map_pages_ro_exec ops h b (cell_vmm c)")
      (simp add: Cell_map_tool_def split: sum.splits; blast)
next
  case (RevokeTool h)
  then show ?thesis
    using unmap_keeps [of h "cell_vmm c"]
    by (cases "vmm_unmap ops h (cell_vmm c)") (simp add: Cell_revoke_tool_def)
next
  case DissolveCell
  then show ?thesis
    using freeze_keeps [of "cell_vmm c"]
    by (cases "freeze_readonly ops (cell_vmm c)") (simp add: Cell_dissolve_def Let_def)
qed (simp add: on_first_tainted_exec_def)

lemma run_mapped_origin:
  "mapped_set (cell_vmm (cell_run ops c xs))
     \<subseteq> mapped_set (cell_vmm c)
       \<union> {h. \<exists>b. MapTool h b \<in> set (takeWhile (\<lambda>x. x \<noteq> FirstTaintedExec \<and> x \<noteq> DissolveCell) xs)}"
proof (induction xs arbitrary: c)
  case (Cons x xs)
  show ?case
  proof (cases "x = FirstTaintedExec \<or> x = DissolveCell")
    case True
    then have "Cell_phase (cell_step ops c x) \<noteq> PhaseMaterialise"
      by (auto simp: advance_to_work_closes)
    then show ?thesis using True run_closed [of "cell_step ops c x" xs] step_adds [of c x] by auto
  next
    case False
    then show ?thesis using Cons.IH [of "cell_step ops c x"] step_adds [of c x] by auto
  qed
qed simp

lemma revoke_removes:
  "Cell_revoke_tool ops h c = (c', Inr u) \<Longrightarrow> h \<notin> mapped_set (cell_vmm c')"
  by (auto simp: Cell_revoke_tool_def split: prod.splits sum.splits dest: unmap_ok)

end

interpretation mock: vmm_contract MockVmm_ops "\<lambda>v. set (mapped v)"
  by unfold_locales (auto simp: MockVmm_ops_def split: if_splits)

section \<open>Properties\<close>

text \<open>
  C1: after the first tainted exec of a cell, whatever sequence of operations follows, every
  attempt to map a tool is denied and the cell can execute no page set it could not execute
  at that moment.
\<close>

theorem first_tainted_exec_closes_materialisation:
  fixes c :: "MockVmm Cell"
  defines "c1 \<equiv> on_first_tainted_exec c"
  shows "set (mapped (cell_vmm (cell_run MockVmm_ops c1 xs))) \<subseteq> set (mapped (cell_vmm c1))
       \<and> (\<exists>p. Cell_map_tool MockVmm_ops h b (cell_run MockVmm_ops c1 xs)
              = (cell_run MockVmm_ops c1 xs, Inl (VerbDenied VerbMaterialise p)))"
proof -
  have closed: "Cell_phase c1 \<noteq> PhaseMaterialise"
    by (simp add: c1_def advance_to_work_closes)
  moreover have "Cell_phase (cell_run MockVmm_ops c1 xs) \<noteq> PhaseMaterialise"
    using closed cell_run_phase_mono [of c1 MockVmm_ops xs]
    by (cases "Cell_phase c1"; cases "Cell_phase (cell_run MockVmm_ops c1 xs)")
      (auto simp: less_eq_Phase_def)
  ultimately show ?thesis
    using mock.run_closed [OF closed] Cell_map_tool_denied by fastforce
qed

text \<open>
  The ratchet is monotone. Along any run the phase never decreases, and a verb refused
  in the starting state is refused in every later state.
\<close>

theorem ratchet_never_reopens:
  "Cell_phase c \<le> Cell_phase (cell_run ops c xs)
   \<and> (is_err (Ratchet_check (cell_ratchet c) v)
       \<longrightarrow> is_err (Ratchet_check (cell_ratchet (cell_run ops c xs)) v))"
  using cell_run_phase_mono [of c ops xs] verb_allowed_antimono
  by (auto simp: Ratchet_check_def Cell_phase_def)

theorem ratchet_never_reopens_witness:
  "is_err (Ratchet_check (cell_ratchet
      (cell_run MockVmm_ops \<lparr>cell_id = ''c'', cell_vmm = MockVmm_new, cell_ratchet = \<lparr>ratchet_phase = PhaseWork\<rparr>\<rparr>
         [DissolveCell, FirstTaintedExec])) VerbMaterialise)"
  using ratchet_never_reopens [of "\<lparr>cell_id = ''c'', cell_vmm = MockVmm_new, cell_ratchet = \<lparr>ratchet_phase = PhaseWork\<rparr>\<rparr>"
      MockVmm_ops "[DissolveCell, FirstTaintedExec]" VerbMaterialise]
  by (simp add: Ratchet_check_def)

end
