(* ===== verification/Btree.thy ===== *)
theory Btree
  imports Prelude
begin

text \<open>
  \<open>BTreeMap\<close> as the sources use it: a finite map whose iteration order is the key order.
  The representation is the association list in ascending key order, so that iteration
  (\<open>values()\<close>, \<open>keys()\<close>, \<open>iter()\<close>) is the list itself and \<open>len()\<close> its length. The
  interface is the locale \<open>ordered_map\<close>, interpreted on these operations.
\<close>

type_synonym ('k, 'v) btree = "('k \<times> 'v) list"

definition bt_invar :: "('k::linorder, 'v) btree \<Rightarrow> bool" where
  "bt_invar m = sorted_wrt (<) (map fst m)"

definition bt_get :: "('k, 'v) btree \<Rightarrow> 'k \<Rightarrow> 'v option" where
  "bt_get m k = map_of m k"

fun bt_insert :: "'k::linorder \<Rightarrow> 'v \<Rightarrow> ('k, 'v) btree \<Rightarrow> ('k, 'v) btree" where
  "bt_insert k v [] = [(k, v)]"
| "bt_insert k v ((a, b) # m) =
     (if k < a then (k, v) # (a, b) # m
      else if k = a then (k, v) # m
      else (a, b) # bt_insert k v m)"

definition bt_remove :: "'k \<Rightarrow> ('k, 'v) btree \<Rightarrow> ('k, 'v) btree" where
  "bt_remove k m = filter (\<lambda>(a, b). a \<noteq> k) m"

definition bt_contains_key :: "('k, 'v) btree \<Rightarrow> 'k \<Rightarrow> bool" where
  "bt_contains_key m k = (bt_get m k \<noteq> None)"

definition bt_keys :: "('k, 'v) btree \<Rightarrow> 'k list" where
  "bt_keys m = map fst m"

definition bt_values :: "('k, 'v) btree \<Rightarrow> 'v list" where
  "bt_values m = map snd m"

section \<open>The interface\<close>

text \<open>
  What a client of an ordered map relies on: lookup after insert and remove, the key list
  in ascending order without repetition, and that it is the domain of lookup.
\<close>

locale ordered_map =
  fixes lookup :: "'m \<Rightarrow> 'k::linorder \<Rightarrow> 'v option"
    and insert_kv :: "'k \<Rightarrow> 'v \<Rightarrow> 'm \<Rightarrow> 'm"
    and remove_k :: "'k \<Rightarrow> 'm \<Rightarrow> 'm"
    and entries_of :: "'m \<Rightarrow> ('k \<times> 'v) list"
    and invar :: "'m \<Rightarrow> bool"
    and empty_map :: 'm
  assumes lookup_empty: "lookup empty_map = Map.empty"
    and lookup_insert: "invar m \<Longrightarrow> lookup (insert_kv k v m) = (lookup m)(k \<mapsto> v)"
    and lookup_remove: "invar m \<Longrightarrow> lookup (remove_k k m) = (lookup m)(k := None)"
    and lookup_entries: "invar m \<Longrightarrow> lookup m = map_of (entries_of m)"
    and sorted_entries: "invar m \<Longrightarrow> sorted_wrt (<) (map fst (entries_of m))"
    and invar_empty: "invar empty_map"
    and invar_insert: "invar m \<Longrightarrow> invar (insert_kv k v m)"
    and invar_remove: "invar m \<Longrightarrow> invar (remove_k k m)"
begin

lemma distinct_keys: "invar m \<Longrightarrow> distinct (map fst (entries_of m))"
  using sorted_entries by (metis strict_sorted_iff)

lemma in_entries_iff: "invar m \<Longrightarrow> (k, v) \<in> set (entries_of m) \<longleftrightarrow> lookup m k = Some v"
  by (simp add: lookup_entries distinct_keys)

lemma length_entries: "invar m \<Longrightarrow> length (entries_of m) = card (dom (lookup m))"
  by (metis distinct_card distinct_keys dom_map_of_conv_image_fst length_map list.set_map lookup_entries)

lemma finite_dom: "invar m \<Longrightarrow> finite (dom (lookup m))"
  by (metis lookup_entries finite_dom_map_of)

lemma length_insert_fresh:
  "invar m \<Longrightarrow> lookup m k = None \<Longrightarrow>
     length (entries_of (insert_kv k v m)) = Suc (length (entries_of m))"
  by (simp add: length_entries invar_insert lookup_insert finite_dom domIff)

lemma length_insert_present:
  "invar m \<Longrightarrow> lookup m k \<noteq> None \<Longrightarrow>
     length (entries_of (insert_kv k v m)) = length (entries_of m)"
  by (simp add: length_entries invar_insert lookup_insert insert_absorb domIff)

text \<open>
  A numeric total over the entries, as the sources keep it beside a map: it moves by exactly
  the entry inserted, replaced or removed.
\<close>

lemma sum_entries:
  fixes f :: "'k \<times> 'v \<Rightarrow> nat"
  assumes "invar m"
  shows "sum_list (map f (entries_of m)) = (\<Sum>k\<in>dom (lookup m). f (k, the (lookup m k)))"
proof -
  have d: "distinct (entries_of m)"
    using distinct_keys [OF assms] by (simp add: distinct_map)
  have inj: "inj_on (\<lambda>k. (k, the (lookup m k))) (dom (lookup m))"
    by (auto intro: inj_onI)
  have img: "set (entries_of m) = (\<lambda>k. (k, the (lookup m k))) ` dom (lookup m)"
    using in_entries_iff [OF assms] by (force simp: image_iff)
  have "sum_list (map f (entries_of m)) = sum f (set (entries_of m))"
    using d by (simp add: sum_list_distinct_conv_sum_set)
  also have "\<dots> = (\<Sum>k\<in>dom (lookup m). f (k, the (lookup m k)))"
    unfolding img using inj by (simp add: sum.reindex)
  finally show ?thesis .
qed

lemma sum_insert_fresh:
  fixes f :: "'k \<times> 'v \<Rightarrow> nat"
  assumes "invar m" "lookup m k = None"
  shows "sum_list (map f (entries_of (insert_kv k v m))) = f (k, v) + sum_list (map f (entries_of m))"
proof -
  have k: "k \<notin> dom (lookup m)" using assms by auto
  have "(\<Sum>j\<in>dom (lookup m). f (j, the (((lookup m)(k \<mapsto> v)) j)))
      = (\<Sum>j\<in>dom (lookup m). f (j, the (lookup m j)))"
    using k by (intro sum.cong) auto
  then show ?thesis
    using assms k
    by (simp add: sum_entries invar_insert lookup_insert finite_dom)
qed

lemma sum_remove:
  fixes f :: "'k \<times> 'v \<Rightarrow> nat"
  assumes "invar m" "lookup m k = Some v"
  shows "sum_list (map f (entries_of m)) = f (k, v) + sum_list (map f (entries_of (remove_k k m)))"
proof -
  have k: "k \<in> dom (lookup m)" using assms by auto
  have d: "dom (lookup (remove_k k m)) = dom (lookup m) - {k}"
    using assms by (simp add: lookup_remove)
  have "(\<Sum>j\<in>dom (lookup m). f (j, the (lookup m j)))
      = f (k, v) + (\<Sum>j\<in>dom (lookup m) - {k}. f (j, the (lookup m j)))"
    using assms k by (simp add: sum.remove [OF finite_dom])
  moreover have "(\<Sum>j\<in>dom (lookup m) - {k}. f (j, the (lookup m j)))
      = (\<Sum>j\<in>dom (lookup m) - {k}. f (j, the (lookup (remove_k k m) j)))"
    using assms by (intro sum.cong) (auto simp: lookup_remove)
  ultimately show ?thesis
    using assms d by (simp add: sum_entries invar_remove)
qed

lemma sum_insert_present:
  fixes f :: "'k \<times> 'v \<Rightarrow> nat"
  assumes "invar m" "lookup m k = Some w"
  shows "sum_list (map f (entries_of (insert_kv k v m))) + f (k, w)
       = f (k, v) + sum_list (map f (entries_of m))"
proof -
  have "sum_list (map f (entries_of (insert_kv k v m)))
      = f (k, v) + sum_list (map f (entries_of (remove_k k (insert_kv k v m))))"
    using assms by (intro sum_remove) (auto simp: invar_insert lookup_insert)
  moreover have "sum_list (map f (entries_of (remove_k k (insert_kv k v m))))
      = sum_list (map f (entries_of (remove_k k m)))"
    using assms
    by (simp add: sum_entries invar_insert invar_remove lookup_insert lookup_remove)
  ultimately show ?thesis using sum_remove [OF assms, of f] by simp
qed

end

section \<open>The representation implements the interface\<close>

lemma bt_insert_keys: "set (map fst (bt_insert k v m)) = insert k (set (map fst m))"
  by (induction k v m rule: bt_insert.induct) auto

lemma bt_invar_insert: "bt_invar m \<Longrightarrow> bt_invar (bt_insert k v m)"
proof (induction k v m rule: bt_insert.induct)
  case (2 k v a b m)
  then show ?case
    using bt_insert_keys [of k v m] by (auto simp: bt_invar_def)
qed (simp add: bt_invar_def)

lemma bt_get_insert: "bt_invar m \<Longrightarrow> bt_get (bt_insert k v m) = (bt_get m)(k \<mapsto> v)"
  by (induction k v m rule: bt_insert.induct) (auto simp: bt_get_def bt_invar_def fun_eq_iff)

lemma bt_get_remove: "bt_get (bt_remove k m) = (bt_get m)(k := None)"
  by (induction m) (auto simp: bt_get_def bt_remove_def fun_eq_iff)

lemma sorted_map_filter: "sorted_wrt R (map f xs) \<Longrightarrow> sorted_wrt R (map f (filter P xs))"
  by (induction xs) auto

lemma bt_invar_remove: "bt_invar m \<Longrightarrow> bt_invar (bt_remove k m)"
  by (simp add: bt_invar_def bt_remove_def sorted_map_filter)

interpretation bt: ordered_map bt_get bt_insert bt_remove "\<lambda>m. m" bt_invar "[]"
proof (unfold_locales, goal_cases)
  case 1 show ?case by (simp add: bt_get_def fun_eq_iff)
next
  case 2 then show ?case by (rule bt_get_insert)
next
  case 3 show ?case by (rule bt_get_remove)
next
  case 4 show ?case by (simp add: bt_get_def fun_eq_iff)
next
  case 5 then show ?case by (simp add: bt_invar_def)
next
  case 6 show ?case by (simp add: bt_invar_def)
next
  case 7 then show ?case by (rule bt_invar_insert)
next
  case 8 then show ?case by (rule bt_invar_remove)
qed

lemmas bt_simps = bt_get_insert bt_get_remove bt_invar_insert bt_invar_remove

lemma bt_get_Nil [simp]: "bt_get [] k = None"
  by (simp add: bt_get_def)

lemma bt_get_Cons: "bt_get ((a, b) # m) k = (if k = a then Some b else bt_get m k)"
  by (simp add: bt_get_def)

lemma bt_contains_key_iff: "bt_contains_key m k \<longleftrightarrow> k \<in> dom (bt_get m)"
  by (auto simp: bt_contains_key_def)

lemma bt_get_in_set: "bt_get m k = Some v \<Longrightarrow> (k, v) \<in> set m"
  by (simp add: bt_get_def map_of_SomeD)

text \<open>Updating the value under a present key, as \<open>get_mut\<close> does, keeps the key list.\<close>

lemma bt_insert_present_keys:
  "bt_invar m \<Longrightarrow> bt_get m k \<noteq> None \<Longrightarrow> map fst (bt_insert k v m) = map fst m"
proof (induction k v m rule: bt_insert.induct)
  case (2 k v a b m)
  then show ?case
    by (auto simp: bt_invar_def bt_get_def split: if_splits dest!: map_of_SomeD)
qed simp

section \<open>In-place updates\<close>

text \<open>\<open>iter_mut()\<close> over all entries, and \<open>get_mut(k)\<close> on one of them.\<close>

definition bt_map :: "('k \<Rightarrow> 'v \<Rightarrow> 'w) \<Rightarrow> ('k, 'v) btree \<Rightarrow> ('k, 'w) btree" where
  "bt_map f m = map (\<lambda>(k, v). (k, f k v)) m"

definition bt_adjust :: "'k \<Rightarrow> ('v \<Rightarrow> 'v) \<Rightarrow> ('k, 'v) btree \<Rightarrow> ('k, 'v) btree" where
  "bt_adjust k f m = bt_map (\<lambda>j v. if j = k then f v else v) m"

lemma bt_get_map [simp]: "bt_get (bt_map f m) k = map_option (f k) (bt_get m k)"
  by (induction m) (auto simp: bt_get_def bt_map_def)

lemma bt_get_adjust: "bt_get (bt_adjust k f m) j = (if j = k then map_option f (bt_get m k) else bt_get m j)"
  by (auto simp: bt_adjust_def option.map_id0 option.map_ident)

lemma bt_keys_map [simp]: "bt_keys (bt_map f m) = bt_keys m" "bt_keys (bt_adjust k g m) = bt_keys m"
  by (simp_all add: bt_keys_def bt_map_def bt_adjust_def case_prod_beta)

lemma bt_invar_map [simp]: "bt_invar (bt_map f m) = bt_invar m" "bt_invar (bt_adjust k g m) = bt_invar m"
  by (simp_all add: bt_invar_def bt_map_def bt_adjust_def case_prod_beta comp_def)

lemma length_bt_map [simp]: "length (bt_map f m) = length m" "length (bt_adjust k g m) = length m"
  by (simp_all add: bt_map_def bt_adjust_def)

lemma bt_sum_map:
  fixes f :: "'k \<times> 'w \<Rightarrow> nat"
  shows "sum_list (map f (bt_map g m)) = sum_list (map (\<lambda>(k, v). f (k, g k v)) m)"
  by (induction m) (auto simp: bt_map_def)

lemma bt_adjust_Cons: "bt_adjust k g ((a, b) # m) = (a, if a = k then g b else b) # bt_adjust k g m"
  by (simp add: bt_adjust_def bt_map_def)

text \<open>Adjusting one entry moves a total over the entries by the difference at that entry.\<close>

lemma bt_sum_adjust:
  fixes f :: "'k::linorder \<times> 'v \<Rightarrow> nat"
  assumes "bt_invar m" "bt_get m k = Some v"
  shows "sum_list (map f (bt_adjust k g m)) + f (k, v) = sum_list (map f m) + f (k, g v)"
  using assms
proof (induction m)
  case (Cons x m)
  obtain a b where x: "x = (a, b)" by fastforce
  have inv: "bt_invar m" and a: "\<forall>j\<in>set (map fst m). a < j"
    using Cons.prems(1) x by (auto simp: bt_invar_def)
  show ?case
  proof (cases "a = k")
    case True
    then have "bt_adjust k g m = m"
      using a by (auto simp: bt_adjust_def bt_map_def intro!: map_idI)
    then show ?thesis using True Cons.prems x by (simp add: bt_adjust_Cons bt_get_def)
  next
    case False
    then have "bt_get m k = Some v" using Cons.prems x by (simp add: bt_get_def)
    from Cons.IH [OF inv this] False x show ?thesis by (simp add: bt_adjust_Cons)
  qed
qed (simp add: bt_get_def)

lemma bt_sum_ge:
  fixes f :: "'k \<times> 'v \<Rightarrow> nat"
  shows "bt_get m k = Some v \<Longrightarrow> f (k, v) \<le> sum_list (map f m)"
  by (auto simp: bt_get_def dest!: map_of_SomeD intro: sum_list_map_filter_le)

end
