(* ===== verification/Manifest.thy ===== *)
theory Manifest
  imports Btree
begin

text \<open>
  The execution gate: \<open>celln-manifest/src/lib.rs\<close> (the manifest of attested artifacts, its
  revocation set and the laundering ban) and \<open>celln-pilot/src/lib.rs\<close> (the decision the
  supervisor makes for every exec). BLAKE3 and the JSON serializer are parameters:
  \<open>hash_of\<close> is \<open>Hash::of\<close> and \<open>to_vec\<close> is \<open>serde_json::to_vec\<close> on a manifest.
\<close>

section \<open>Data\<close>

datatype Tier = Forged | Verified | Unsealed

datatype Lane = LaneTool | LaneData

datatype Author = AuthorHost | AuthorAgent

fun Tier_display :: "Tier \<Rightarrow> string" where
  "Tier_display Forged = ''forged''"
| "Tier_display Verified = ''verified''"
| "Tier_display Unsealed = ''unsealed''"

fun Lane_display :: "Lane \<Rightarrow> string" where
  "Lane_display LaneTool = ''tool''"
| "Lane_display LaneData = ''agent''"

fun Author_display :: "Author \<Rightarrow> string" where
  "Author_display AuthorHost = ''host''"
| "Author_display AuthorAgent = ''agent''"

record Entry =
  entry_alias :: string
  entry_hash :: hash
  entry_tier :: Tier
  entry_interpreter :: bool
  entry_author :: Author
  entry_recipe :: "hash option"

text \<open>
  \<open>entries\<close> is a \<open>BTreeMap\<close> and its iteration order is observable through \<open>resolve_alias\<close>;
  \<open>revoked\<close> is only ever tested for membership.
\<close>

record Manifest =
  entries :: "(hash, Entry) btree"
  revoked :: "hash set"
  signature :: "string option"

datatype ExecDenied = Unattested hash | Revoked hash

section \<open>Operations\<close>

definition Manifest_new :: Manifest where
  "Manifest_new = \<lparr>entries = [], revoked = {}, signature = None\<rparr>"

definition admit :: "Entry \<Rightarrow> Manifest \<Rightarrow> Manifest \<times> Entry option" where
  "admit e m =
     (m\<lparr>signature := None, entries := bt_insert (entry_hash e) e (entries m)\<rparr>,
      bt_get (entries m) (entry_hash e))"

definition revoke :: "hash \<Rightarrow> Manifest \<Rightarrow> Manifest" where
  "revoke h m = m\<lparr>signature := None, revoked := insert h (revoked m)\<rparr>"

definition is_revoked :: "Manifest \<Rightarrow> hash \<Rightarrow> bool" where
  "is_revoked m h = (h \<in> revoked m)"

definition Manifest_get :: "Manifest \<Rightarrow> hash \<Rightarrow> Entry option" where
  "Manifest_get m h = bt_get (entries m) h"

definition resolve_alias :: "Manifest \<Rightarrow> string \<Rightarrow> Entry option" where
  "resolve_alias m a =
     find (\<lambda>e. entry_alias e = a \<and> entry_hash e \<notin> revoked m) (bt_values (entries m))"

definition permit_exec :: "Manifest \<Rightarrow> hash \<Rightarrow> ExecDenied + Entry" where
  "permit_exec m h =
     (if is_revoked m h then Err (Revoked h)
      else (case bt_get (entries m) h of None \<Rightarrow> Err (Unattested h) | Some e \<Rightarrow> Ok e))"

definition canonical_body :: "(Manifest \<Rightarrow> bytes) \<Rightarrow> Manifest \<Rightarrow> bytes" where
  "canonical_body to_vec m = to_vec (m\<lparr>signature := None\<rparr>)"

definition sign_standin :: "(bytes \<Rightarrow> hash) \<Rightarrow> (Manifest \<Rightarrow> bytes) \<Rightarrow> Manifest \<Rightarrow> Manifest" where
  "sign_standin hash_of to_vec m =
     m\<lparr>signature := Some (hash_str (hash_of (canonical_body to_vec m)))\<rparr>"

definition verify_standin :: "(bytes \<Rightarrow> hash) \<Rightarrow> (Manifest \<Rightarrow> bytes) \<Rightarrow> Manifest \<Rightarrow> bool" where
  "verify_standin hash_of to_vec m =
     (case signature m of
        None \<Rightarrow> False
      | Some sig \<Rightarrow> sig = hash_str (hash_of (canonical_body to_vec m)))"

definition Manifest_len :: "Manifest \<Rightarrow> nat" where
  "Manifest_len m = length (entries m)"

datatype Input = InputFile Lane | InputArgString Lane | InputNone

definition resolve_exec_lane :: "Entry \<Rightarrow> Input \<Rightarrow> Lane" where
  "resolve_exec_lane e i =
     (let tainted_input = (i = InputFile LaneData \<or> i = InputArgString LaneData)
      in if entry_author e = AuthorAgent then LaneData
         else if entry_interpreter e \<and> tainted_input then LaneData
         else if entry_tier e = Unsealed then LaneData
         else LaneTool)"

section \<open>The supervisor's decision\<close>

record Explain =
  denied :: string
  reason :: string
  instead :: string

datatype ExecOutcome = Run hash Lane | Denied Explain

definition pilot_exec :: "Manifest \<Rightarrow> hash \<Rightarrow> Input \<Rightarrow> ExecOutcome" where
  "pilot_exec m target i =
     (case permit_exec m target of
        Inr e \<Rightarrow> Run target (resolve_exec_lane e i)
      | Inl (Unattested h) \<Rightarrow>
          Denied \<lparr>denied = ''exec '' @ hash_str h,
                  reason = ''hash is not attested in the manifest (exec-by-hash)'',
                  instead = ''request the tool via assay so it is forged/verified and attested''\<rparr>
      | Inl (Revoked h) \<Rightarrow>
          Denied \<lparr>denied = ''exec '' @ hash_str h,
                  reason = ''hash was revoked fleet-wide'',
                  instead = ''use a non-revoked alternative; the revoked tool will not run in any cell''\<rparr>)"

section \<open>Invariant\<close>

text \<open>
  Every entry is filed under its own hash, and the entry map is a well-formed ordered map.
  The fields are private to the module, so these operations are all that can change them.
\<close>

definition manifest_inv :: "Manifest \<Rightarrow> bool" where
  "manifest_inv m \<longleftrightarrow> bt_invar (entries m) \<and> (\<forall>h e. bt_get (entries m) h = Some e \<longrightarrow> entry_hash e = h)"

lemma manifest_inv_new [inv_intros]: "manifest_inv Manifest_new"
  by (simp add: manifest_inv_def Manifest_new_def bt.invar_empty)

lemma manifest_inv_admit [inv_intros]: "manifest_inv m \<Longrightarrow> manifest_inv (fst (admit e m))"
  by (auto simp: manifest_inv_def admit_def bt_simps)

lemma manifest_inv_revoke [inv_intros]: "manifest_inv m \<Longrightarrow> manifest_inv (revoke h m)"
  by (simp add: manifest_inv_def revoke_def)

lemma manifest_inv_sign [inv_intros]: "manifest_inv m \<Longrightarrow> manifest_inv (sign_standin ho tv m)"
  by (simp add: manifest_inv_def sign_standin_def)

datatype ManifestOp = OpAdmit Entry | OpRevoke hash

fun manifest_step :: "Manifest \<Rightarrow> ManifestOp \<Rightarrow> Manifest" where
  "manifest_step m (OpAdmit e) = fst (admit e m)"
| "manifest_step m (OpRevoke h) = revoke h m"

definition manifest_run :: "Manifest \<Rightarrow> ManifestOp list \<Rightarrow> Manifest" where
  "manifest_run = foldl manifest_step"

lemma manifest_inv_run [inv_intros]: "manifest_inv m \<Longrightarrow> manifest_inv (manifest_run m xs)"
  unfolding manifest_run_def
proof (induction xs arbitrary: m)
  case (Cons x xs)
  then show ?case by (cases x) (auto intro: inv_intros)
qed simp

lemma revoked_mono_step: "revoked m \<subseteq> revoked (manifest_step m x)"
  by (cases x) (auto simp: admit_def revoke_def)

lemma revoked_mono_run: "revoked m \<subseteq> revoked (manifest_run m xs)"
  unfolding manifest_run_def
  by (induction xs arbitrary: m) (simp, metis foldl_Cons order_trans revoked_mono_step)

lemma find_Some_in: "find P xs = Some x \<Longrightarrow> x \<in> set xs \<and> P x"
  by (metis find_Some_iff nth_mem)

lemma resolve_alias_Some:
  assumes "manifest_inv m" "resolve_alias m a = Some e"
  shows "entry_alias e = a \<and> bt_get (entries m) (entry_hash e) = Some e \<and> entry_hash e \<notin> revoked m"
proof -
  from assms(2) have e: "e \<in> snd ` set (entries m)" "entry_alias e = a" "entry_hash e \<notin> revoked m"
    by (auto simp: resolve_alias_def bt_values_def dest!: find_Some_in)
  then obtain h where "(h, e) \<in> set (entries m)" by auto
  moreover have "bt_invar (entries m)" using assms(1) by (simp add: manifest_inv_def)
  ultimately have "bt_get (entries m) h = Some e" by (simp add: bt.in_entries_iff)
  with assms(1) e show ?thesis by (auto simp: manifest_inv_def)
qed

lemma resolve_alias_None:
  assumes "manifest_inv m" "resolve_alias m a = None" "bt_get (entries m) h = Some e"
  shows "entry_alias e \<noteq> a \<or> h \<in> revoked m"
proof -
  have "e \<in> set (bt_values (entries m))"
    using bt_get_in_set [OF assms(3)] by (force simp: bt_values_def)
  moreover have "entry_hash e = h" using assms(1,3) by (simp add: manifest_inv_def)
  ultimately show ?thesis using assms(2) by (auto simp: resolve_alias_def find_None_iff)
qed

section \<open>Properties\<close>

text \<open>
  C2: the exec gate. The supervisor runs a hash in the tool lane exactly when the manifest
  attests it, it is not revoked, its author is the host, it is forged or verified, and it
  is not an interpreter being fed agent-lane input through a file or an argument string.
\<close>

theorem tool_lane_iff:
  "pilot_exec m h i = Run h LaneTool \<longleftrightarrow>
     (\<exists>e. Manifest_get m h = Some e \<and> \<not> is_revoked m h
        \<and> entry_author e = AuthorHost
        \<and> entry_tier e \<in> {Forged, Verified}
        \<and> \<not> (entry_interpreter e \<and> i \<in> {InputFile LaneData, InputArgString LaneData}))"
proof -
  have tier: "\<And>t. t \<noteq> Unsealed \<longleftrightarrow> t = Forged \<or> t = Verified"
    by (case_tac t) auto
  have author: "\<And>a. a \<noteq> AuthorAgent \<longleftrightarrow> a = AuthorHost"
    by (case_tac a) auto
  show ?thesis
    by (auto simp: pilot_exec_def permit_exec_def Manifest_get_def resolve_exec_lane_def Let_def
        tier author split: option.splits if_splits sum.splits ExecDenied.splits)
qed

text \<open>
  Revocation is permanent. Once a hash is revoked, no sequence of admissions and
  revocations makes it executable again, even when the hash is re-admitted, and no alias
  resolves to it.
\<close>

theorem revocation_is_permanent:
  assumes "manifest_inv m"
  shows "permit_exec (manifest_run (revoke h m) xs) h = Inl (Revoked h)
       \<and> (\<forall>a e. resolve_alias (manifest_run (revoke h m) xs) a = Some e \<longrightarrow> entry_hash e \<noteq> h)"
proof -
  let ?m = "manifest_run (revoke h m) xs"
  have r: "h \<in> revoked ?m"
    using revoked_mono_run [of "revoke h m" xs] by (auto simp: revoke_def)
  have "manifest_inv ?m" using assms by (intro inv_intros)
  with r show ?thesis
    by (auto simp: permit_exec_def is_revoked_def dest: resolve_alias_Some)
qed

text \<open>A tool admitted under an alias, revoked, and admitted again.\<close>

definition sample_entry :: Entry where
  "sample_entry = \<lparr>entry_alias = ''/usr/bin/python'', entry_hash = Hash ''blake3:aa'',
     entry_tier = Verified, entry_interpreter = True, entry_author = AuthorHost, entry_recipe = None\<rparr>"

theorem revocation_is_permanent_witness:
  "permit_exec (manifest_run (revoke (Hash ''blake3:aa'') (fst (admit sample_entry Manifest_new)))
      [OpAdmit sample_entry]) (Hash ''blake3:aa'') = Inl (Revoked (Hash ''blake3:aa''))"
  using revocation_is_permanent [of "fst (admit sample_entry Manifest_new)" "Hash ''blake3:aa''"
      "[OpAdmit sample_entry]"]
  by (simp add: inv_intros)

text \<open>
  Alias resolution never depends on hash order for safety. It returns an entry exactly
  when some attested, unrevoked entry carries the alias, and whatever it returns passes the
  exec gate as itself.
\<close>

theorem resolve_alias_live:
  assumes "manifest_inv m"
  shows "(resolve_alias m a = None \<longleftrightarrow>
            (\<forall>h e. Manifest_get m h = Some e \<and> entry_alias e = a \<longrightarrow> is_revoked m h))
       \<and> (\<forall>e. resolve_alias m a = Some e \<longrightarrow>
            entry_alias e = a \<and> permit_exec m (entry_hash e) = Inr e)"
proof (intro conjI iffI)
  show "\<forall>h e. Manifest_get m h = Some e \<and> entry_alias e = a \<longrightarrow> is_revoked m h"
    if "resolve_alias m a = None"
    using resolve_alias_None [OF assms that] by (auto simp: Manifest_get_def is_revoked_def)
  show "resolve_alias m a = None"
    if "\<forall>h e. Manifest_get m h = Some e \<and> entry_alias e = a \<longrightarrow> is_revoked m h"
    using that resolve_alias_Some [OF assms]
    by (cases "resolve_alias m a") (force simp: Manifest_get_def is_revoked_def)+
  show "\<forall>e. resolve_alias m a = Some e \<longrightarrow> entry_alias e = a \<and> permit_exec m (entry_hash e) = Inr e"
    using resolve_alias_Some [OF assms] by (force simp: permit_exec_def is_revoked_def)
qed

theorem resolve_alias_live_witness:
  "resolve_alias (fst (admit sample_entry Manifest_new)) ''/usr/bin/python'' = Some sample_entry
   \<and> permit_exec (fst (admit sample_entry Manifest_new)) (Hash ''blake3:aa'') = Inr sample_entry"
proof -
  let ?m = "fst (admit sample_entry Manifest_new)"
  have r: "resolve_alias ?m ''/usr/bin/python'' = Some sample_entry"
    by (simp add: resolve_alias_def admit_def Manifest_new_def sample_entry_def bt_values_def)
  moreover have "manifest_inv ?m" by (intro inv_intros)
  ultimately show ?thesis
    using resolve_alias_live [of ?m "''/usr/bin/python''"] by (simp add: sample_entry_def)
qed

text \<open>
  The stand-in signature is bound to the body. A signed manifest verifies, and any
  admission or revocation after signing makes verification fail until it is signed again.
\<close>

theorem signature_bound_to_body:
  "verify_standin hash_of to_vec (sign_standin hash_of to_vec m)
   \<and> \<not> verify_standin hash_of to_vec (manifest_step (sign_standin hash_of to_vec m) x)"
  by (cases x) (simp_all add: verify_standin_def sign_standin_def canonical_body_def admit_def revoke_def)

end
