(* ===== verification/Workspace.thy ===== *)
theory Workspace
  imports Btree
begin

text \<open>
  \<open>celln-store/src/workspace.rs\<close>: the run-owned artifact index. Bounded files, bytes and
  names, an explicit parent identity and an optimistic revision on every change.
\<close>

section \<open>Data\<close>

record Limits =
  lim_files :: nat
  lim_file_bytes :: nat
  lim_total_bytes :: nat

datatype WsError = WsInvalid | WrongParent | StaleRevision | Quota | WsNotFound

record Workspace =
  ws_parent :: hash
  ws_limits :: Limits
  ws_revision :: u64
  ws_bytes :: nat
  ws_artifacts :: "(string, bytes) btree"

record Match =
  match_name :: string
  match_line :: nat
  match_text :: bytes

section \<open>Operations\<close>

definition Workspace_new :: "hash \<Rightarrow> Limits \<Rightarrow> WsError + Workspace" where
  "Workspace_new parent l =
     (if lim_files l = 0 \<or> lim_files l > 256
         \<or> lim_file_bytes l = 0 \<or> lim_file_bytes l > 65536
         \<or> lim_total_bytes l < lim_file_bytes l \<or> lim_total_bytes l > 1048576
      then Err WsInvalid
      else Ok \<lparr>ws_parent = parent, ws_limits = l, ws_revision = 0, ws_bytes = 0, ws_artifacts = []\<rparr>)"

definition ws_part_ok :: "string \<Rightarrow> bool" where
  "ws_part_ok part =
     (part \<noteq> [] \<and> part \<noteq> ''.'' \<and> part \<noteq> ''..'' \<and> length part \<le> 64
      \<and> list_all (\<lambda>c. is_ascii_alphanumeric c \<or> c \<in> set ''-_.'') part)"

definition ws_name_ok :: "string \<Rightarrow> bool" where
  "ws_name_ok name =
     (name \<noteq> [] \<and> length name \<le> 256 \<and> list_all ws_part_ok (split_on (CHR ''/'') name))"

definition Workspace_check :: "Workspace \<Rightarrow> hash \<Rightarrow> string \<Rightarrow> WsError + unit" where
  "Workspace_check w parent name =
     (if parent \<noteq> ws_parent w then Err WrongParent
      else if \<not> ws_name_ok name then Err WsInvalid
      else Ok ())"

definition Workspace_read :: "Workspace \<Rightarrow> hash \<Rightarrow> string \<Rightarrow> WsError + bytes" where
  "Workspace_read w parent name =
     (case Workspace_check w parent name of
        Inl e \<Rightarrow> Err e
      | Inr _ \<Rightarrow> (case bt_get (ws_artifacts w) name of None \<Rightarrow> Err WsNotFound | Some d \<Rightarrow> Ok d))"

definition Workspace_write ::
  "hash \<Rightarrow> u64 \<Rightarrow> string \<Rightarrow> bytes \<Rightarrow> Workspace \<Rightarrow> Workspace \<times> (WsError + u64)" where
  "Workspace_write parent expected_revision name data w =
     (case Workspace_check w parent name of
        Inl e \<Rightarrow> (w, Err e)
      | Inr _ \<Rightarrow>
          if expected_revision \<noteq> ws_revision w then (w, Err StaleRevision)
          else
            (let old = bt_get (ws_artifacts w) name;
                 base = usize_sub (ws_bytes w) (case old of None \<Rightarrow> 0 | Some d \<Rightarrow> length d)
             in case usize_checked_add base (length data) of
                  None \<Rightarrow> (w, Err Quota)
                | Some new_bytes \<Rightarrow>
                    if length data > lim_file_bytes (ws_limits w)
                       \<or> new_bytes > lim_total_bytes (ws_limits w)
                       \<or> (old = None \<and> length (ws_artifacts w) \<ge> lim_files (ws_limits w))
                    then (w, Err Quota)
                    else
                      (case checked_add (ws_revision w) 1 of
                         None \<Rightarrow> (w, Err Quota)
                       | Some revision \<Rightarrow>
                           (w\<lparr>ws_artifacts := bt_insert name data (ws_artifacts w),
                              ws_bytes := new_bytes, ws_revision := revision\<rparr>, Ok revision))))"

definition Workspace_list :: "Workspace \<Rightarrow> hash \<Rightarrow> WsError + (string \<times> nat) list" where
  "Workspace_list w parent =
     (if parent \<noteq> ws_parent w then Err WrongParent
      else Ok (map (\<lambda>(name, data). (name, length data)) (ws_artifacts w)))"

definition Workspace_append ::
  "hash \<Rightarrow> u64 \<Rightarrow> string \<Rightarrow> bytes \<Rightarrow> Workspace \<Rightarrow> Workspace \<times> (WsError + u64)" where
  "Workspace_append parent expected_revision name data w =
     (case Workspace_check w parent name of
        Inl e \<Rightarrow> (w, Err e)
      | Inr _ \<Rightarrow>
          if expected_revision \<noteq> ws_revision w then (w, Err StaleRevision)
          else
            (let combined = (case bt_get (ws_artifacts w) name of None \<Rightarrow> [] | Some d \<Rightarrow> d) @ data
             in Workspace_write parent expected_revision name combined w))"

definition Workspace_delete ::
  "hash \<Rightarrow> u64 \<Rightarrow> string \<Rightarrow> Workspace \<Rightarrow> Workspace \<times> (WsError + u64)" where
  "Workspace_delete parent expected_revision name w =
     (case Workspace_check w parent name of
        Inl e \<Rightarrow> (w, Err e)
      | Inr _ \<Rightarrow>
          if expected_revision \<noteq> ws_revision w then (w, Err StaleRevision)
          else
            (case bt_get (ws_artifacts w) name of
               None \<Rightarrow> (w, Err WsNotFound)
             | Some d \<Rightarrow>
                 (case checked_add (ws_revision w) 1 of
                    None \<Rightarrow> (w, Err Quota)
                  | Some revision \<Rightarrow>
                      (w\<lparr>ws_artifacts := bt_remove name (ws_artifacts w),
                         ws_bytes := usize_sub (ws_bytes w) (length d),
                         ws_revision := revision\<rparr>, Ok revision))))"

text \<open>
  The two nested loops of \<open>search\<close>. The boolean is the early return: the loop stops at the
  first match beyond the limit.
\<close>

fun search_lines :: "bytes \<Rightarrow> nat \<Rightarrow> string \<Rightarrow> nat \<Rightarrow> bytes list \<Rightarrow> Match list \<Rightarrow> Match list \<times> bool" where
  "search_lines pat limit name index [] acc = (acc, False)"
| "search_lines pat limit name index (l # ls) acc =
     (if \<not> contains_seq pat l then search_lines pat limit name (Suc index) ls acc
      else if length acc \<ge> limit then (acc, True)
      else search_lines pat limit name (Suc index) ls
             (acc @ [\<lparr>match_name = name, match_line = index + 1, match_text = l\<rparr>]))"

fun search_files :: "bytes \<Rightarrow> nat \<Rightarrow> (string, bytes) btree \<Rightarrow> Match list \<Rightarrow> Match list" where
  "search_files pat limit [] acc = acc"
| "search_files pat limit ((name, data) # fs) acc =
     (if \<not> utf8_valid data then search_files pat limit fs acc
      else (case search_lines pat limit name 0 (str_lines data) acc of
              (acc', True) \<Rightarrow> acc'
            | (acc', False) \<Rightarrow> search_files pat limit fs acc'))"

definition Workspace_search :: "Workspace \<Rightarrow> hash \<Rightarrow> string \<Rightarrow> nat \<Rightarrow> WsError + Match list" where
  "Workspace_search w parent pattern limit =
     (if parent \<noteq> ws_parent w then Err WrongParent
      else if pattern = [] \<or> length pattern > 256 then Err WsInvalid
      else Ok (search_files (as_bytes pattern) limit (ws_artifacts w) []))"

section \<open>Invariant\<close>

definition limits_ok :: "Limits \<Rightarrow> bool" where
  "limits_ok l \<longleftrightarrow> 0 < lim_files l \<and> lim_files l \<le> 256 \<and> 0 < lim_file_bytes l \<and> lim_file_bytes l \<le> 65536
     \<and> lim_file_bytes l \<le> lim_total_bytes l \<and> lim_total_bytes l \<le> 1048576"

definition total_len :: "(string, bytes) btree \<Rightarrow> nat" where
  "total_len m = sum_list (map (\<lambda>(_, d). length d) m)"

definition workspace_inv :: "Workspace \<Rightarrow> bool" where
  "workspace_inv w \<longleftrightarrow>
     limits_ok (ws_limits w) \<and> bt_invar (ws_artifacts w)
     \<and> ws_bytes w = total_len (ws_artifacts w)
     \<and> ws_bytes w \<le> lim_total_bytes (ws_limits w)
     \<and> length (ws_artifacts w) \<le> lim_files (ws_limits w)
     \<and> (\<forall>name d. bt_get (ws_artifacts w) name = Some d
          \<longrightarrow> ws_name_ok name \<and> length d \<le> lim_file_bytes (ws_limits w))"

lemma Workspace_check_Ok [simp]:
  "Workspace_check w parent name = Inr u \<longleftrightarrow> parent = ws_parent w \<and> ws_name_ok name"
  by (simp add: Workspace_check_def)

lemma total_len_insert_fresh:
  "bt_invar m \<Longrightarrow> bt_get m k = None \<Longrightarrow> total_len (bt_insert k d m) = length d + total_len m"
  using bt.sum_insert_fresh [of m k "\<lambda>(_, d). length d" d] by (simp add: total_len_def)

lemma total_len_insert_present:
  "bt_invar m \<Longrightarrow> bt_get m k = Some e \<Longrightarrow> total_len (bt_insert k d m) + length e = length d + total_len m"
  using bt.sum_insert_present [of m k e "\<lambda>(_, d). length d" d] by (simp add: total_len_def)

lemma total_len_remove:
  "bt_invar m \<Longrightarrow> bt_get m k = Some e \<Longrightarrow> total_len m = length e + total_len (bt_remove k m)"
  using bt.sum_remove [of m k e "\<lambda>(_, d). length d"] by (simp add: total_len_def)

lemma total_len_member: "bt_get m k = Some e \<Longrightarrow> length e \<le> total_len m"
  using sum_list_map_filter_le [OF bt_get_in_set, of m k e "\<lambda>(_, d). length d"]
  by (simp add: total_len_def)

lemma workspace_inv_new: "Workspace_new parent l = Inr w \<Longrightarrow> workspace_inv w"
  by (auto simp: Workspace_new_def workspace_inv_def limits_ok_def total_len_def bt.invar_empty
      split: if_splits)

text \<open>
  The shape of a successful write: which entry changed, the new byte count without any
  wrap-around, and the next revision.
\<close>

lemma Workspace_write_Ok:
  assumes "workspace_inv w" "Workspace_write parent rv name data w = (w', Inr r)"
  shows "parent = ws_parent w" "ws_name_ok name" "rv = ws_revision w"
    "checked_add (ws_revision w) 1 = Some r"
    "w' = w\<lparr>ws_artifacts := bt_insert name data (ws_artifacts w),
            ws_bytes := total_len (bt_insert name data (ws_artifacts w)), ws_revision := r\<rparr>"
    "length data \<le> lim_file_bytes (ws_limits w)"
    "total_len (bt_insert name data (ws_artifacts w)) \<le> lim_total_bytes (ws_limits w)"
    "length (bt_insert name data (ws_artifacts w)) \<le> lim_files (ws_limits w)"
proof -
  let ?m = "ws_artifacts w"
  have inv: "bt_invar ?m" "ws_bytes w = total_len ?m" "length ?m \<le> lim_files (ws_limits w)"
    using assms(1) by (auto simp: workspace_inv_def)
  have base: "usize_sub (ws_bytes w) (case bt_get ?m name of None \<Rightarrow> 0 | Some d \<Rightarrow> length d) + length data
      = total_len (bt_insert name data ?m)"
    using inv total_len_insert_fresh [of ?m name data] total_len_insert_present [of ?m name _ data]
      total_len_member [of ?m name]
    by (cases "bt_get ?m name") auto
  have len: "length (bt_insert name data ?m) \<le> lim_files (ws_limits w)"
    if "bt_get ?m name = None \<longrightarrow> length ?m < lim_files (ws_limits w)"
    using that inv bt.length_insert_fresh [of ?m name data] bt.length_insert_present [of ?m name data]
    by (cases "bt_get ?m name") auto
  show "parent = ws_parent w" "ws_name_ok name" "rv = ws_revision w"
    "checked_add (ws_revision w) 1 = Some r"
    "w' = w\<lparr>ws_artifacts := bt_insert name data (ws_artifacts w),
            ws_bytes := total_len (bt_insert name data (ws_artifacts w)), ws_revision := r\<rparr>"
    "length data \<le> lim_file_bytes (ws_limits w)"
    "total_len (bt_insert name data ?m) \<le> lim_total_bytes (ws_limits w)"
    "length (bt_insert name data ?m) \<le> lim_files (ws_limits w)"
    using assms(2) base len
    by (auto simp: Workspace_write_def Let_def not_le not_less split: sum.splits option.splits if_splits)
qed

lemma Workspace_write_Err: "Workspace_write parent rv name data w = (w', Inl e) \<Longrightarrow> w' = w"
  by (auto simp: Workspace_write_def Let_def split: sum.splits option.splits if_splits)

lemma workspace_inv_write [inv_intros]:
  assumes "workspace_inv w"
  shows "workspace_inv (fst (Workspace_write parent rv name data w))"
proof (cases "Workspace_write parent rv name data w")
  case (Pair w' res)
  show ?thesis
  proof (cases res)
    case (Inl e)
    with Pair assms show ?thesis by (auto dest: Workspace_write_Err)
  next
    case (Inr r)
    note ok = Workspace_write_Ok [OF assms, of parent rv name data w' r]
    from assms have "bt_invar (ws_artifacts w)" by (simp add: workspace_inv_def)
    with assms ok Pair Inr show ?thesis
      by (auto simp: workspace_inv_def bt_simps split: if_splits)
  qed
qed

lemma Workspace_append_eq:
  "Workspace_append parent rv name data w =
     Workspace_write parent rv name ((case bt_get (ws_artifacts w) name of None \<Rightarrow> [] | Some d \<Rightarrow> d) @ data) w"
  by (cases "Workspace_check w parent name"; cases "rv = ws_revision w")
    (simp_all add: Workspace_append_def Workspace_write_def Let_def del: Workspace_check_Ok)

lemma workspace_inv_append [inv_intros]:
  "workspace_inv w \<Longrightarrow> workspace_inv (fst (Workspace_append parent rv name data w))"
  by (simp add: Workspace_append_eq inv_intros)

lemma length_bt_remove_le: "length (bt_remove k m) \<le> length m"
  by (simp add: bt_remove_def)

lemma Workspace_delete_Ok:
  assumes "workspace_inv w" "Workspace_delete parent rv name w = (w', Inr r)"
  shows "parent = ws_parent w" "rv = ws_revision w" "checked_add (ws_revision w) 1 = Some r"
    "bt_get (ws_artifacts w) name \<noteq> None"
    "w' = w\<lparr>ws_artifacts := bt_remove name (ws_artifacts w),
            ws_bytes := total_len (bt_remove name (ws_artifacts w)), ws_revision := r\<rparr>"
  using assms total_len_remove [of "ws_artifacts w" name]
  by (auto simp: Workspace_delete_def workspace_inv_def split: sum.splits option.splits if_splits)

lemma Workspace_delete_Err: "Workspace_delete parent rv name w = (w', Inl e) \<Longrightarrow> w' = w"
  by (auto simp: Workspace_delete_def split: sum.splits option.splits if_splits)

lemma workspace_inv_delete [inv_intros]:
  assumes "workspace_inv w"
  shows "workspace_inv (fst (Workspace_delete parent rv name w))"
proof (cases "Workspace_delete parent rv name w")
  case (Pair w' res)
  show ?thesis
  proof (cases res)
    case (Inl e)
    with Pair assms show ?thesis by (auto dest: Workspace_delete_Err)
  next
    case (Inr r)
    note ok = Workspace_delete_Ok [OF assms, of parent rv name w' r]
    have "bt_invar (ws_artifacts w)" using assms by (simp add: workspace_inv_def)
    moreover obtain e where "bt_get (ws_artifacts w) name = Some e" using ok Pair Inr by auto
    ultimately have "total_len (bt_remove name (ws_artifacts w)) \<le> total_len (ws_artifacts w)"
      using total_len_remove by fastforce
    with assms ok Pair Inr length_bt_remove_le [of name "ws_artifacts w"] show ?thesis
      by (auto simp: workspace_inv_def bt_simps split: if_splits)
  qed
qed

section \<open>Sequences of operations\<close>

datatype WsOp =
    WsWrite hash u64 string bytes
  | WsAppend hash u64 string bytes
  | WsDelete hash u64 string

fun ws_step :: "WsOp \<Rightarrow> Workspace \<Rightarrow> Workspace \<times> (WsError + u64)" where
  "ws_step (WsWrite p r n d) w = Workspace_write p r n d w"
| "ws_step (WsAppend p r n d) w = Workspace_append p r n d w"
| "ws_step (WsDelete p r n) w = Workspace_delete p r n w"

fun ws_expects :: "WsOp \<Rightarrow> u64" where
  "ws_expects (WsWrite p r n d) = r"
| "ws_expects (WsAppend p r n d) = r"
| "ws_expects (WsDelete p r n) = r"

fun ws_caller :: "WsOp \<Rightarrow> hash" where
  "ws_caller (WsWrite p r n d) = p"
| "ws_caller (WsAppend p r n d) = p"
| "ws_caller (WsDelete p r n) = p"

lemma ws_step_inv: "workspace_inv w \<Longrightarrow> workspace_inv (fst (ws_step x w))"
  by (cases x) (auto intro: inv_intros)

lemma ws_step_Err: "ws_step x w = (w', Inl e) \<Longrightarrow> w' = w"
  by (cases x) (auto simp: Workspace_append_eq dest: Workspace_write_Err Workspace_delete_Err)

lemma ws_step_Ok:
  assumes "workspace_inv w" "ws_step x w = (w', Inr r)"
  shows "ws_expects x = ws_revision w \<and> ws_caller x = ws_parent w
       \<and> checked_add (ws_revision w) 1 = Some r \<and> ws_revision w' = r
       \<and> ws_parent w' = ws_parent w \<and> ws_limits w' = ws_limits w"
proof (cases x)
  case (WsWrite p v n d)
  then show ?thesis using assms Workspace_write_Ok [OF assms(1), of p v n d w' r] by simp
next
  case (WsAppend p v n d)
  then show ?thesis
    using assms
      Workspace_write_Ok [OF assms(1), of p v n "(case bt_get (ws_artifacts w) n of None \<Rightarrow> [] | Some d \<Rightarrow> d) @ d" w' r]
    by (simp add: Workspace_append_eq)
next
  case (WsDelete p v n)
  then show ?thesis using assms Workspace_delete_Ok [OF assms(1), of p v n w' r] by simp
qed

text \<open>
  The contract of a store with optimistic revisions: a successful change names the current
  revision and moves to the next one, a refused change leaves the store alone. A client that
  knows only this much knows that no update is lost.
\<close>

locale versioned_store =
  fixes step :: "'op \<Rightarrow> 's \<Rightarrow> 's \<times> ('e + 'a::len word)"
    and revision_of :: "'s \<Rightarrow> 'a word"
    and expects :: "'op \<Rightarrow> 'a word"
    and good :: "'s \<Rightarrow> bool"
  assumes ok_names_current: "good s \<Longrightarrow> step x s = (s', Inr r) \<Longrightarrow> expects x = revision_of s"
    and ok_advances: "good s \<Longrightarrow> step x s = (s', Inr r) \<Longrightarrow>
          revision_of s' = r \<and> unat r = Suc (unat (revision_of s))"
    and err_keeps: "step x s = (s', Inl e) \<Longrightarrow> s' = s"
    and good_step: "good s \<Longrightarrow> good (fst (step x s))"
begin

lemma good_final: "good s \<Longrightarrow> good (run_final step s xs)"
  by (induction xs arbitrary: s) (auto intro: good_step)

lemma revision_mono: "good s \<Longrightarrow> unat (revision_of s) \<le> unat (revision_of (run_final step s xs))"
proof (induction xs arbitrary: s)
  case (Cons x xs)
  obtain s' r where st: "step x s = (s', r)" by fastforce
  have "good s'" using good_step [OF Cons.prems, of x] st by simp
  moreover have "unat (revision_of s) \<le> unat (revision_of s')"
    using st ok_advances [OF Cons.prems] err_keeps by (cases r) fastforce+
  ultimately show ?case using Cons.IH [of s'] st by simp
qed simp

lemma successes_strictly_ordered:
  assumes "good s"
  shows "sorted_wrt (\<lambda>x y. unat (expects x) < unat (expects y))
           (map fst (filter (\<lambda>(x, r). is_ok r) (run_results step s xs)))
       \<and> (\<forall>(x, r) \<in> set (run_results step s xs). is_ok r \<longrightarrow> unat (revision_of s) \<le> unat (expects x))"
  using assms
proof (induction xs arbitrary: s)
  case (Cons x xs)
  obtain s' r where st: "step x s = (s', r)" by fastforce
  have good: "good s'" using good_step [OF Cons.prems, of x] st by simp
  note IH = Cons.IH [OF good]
  show ?case
  proof (cases r)
    case (Inl e)
    then have "s' = s" using st err_keeps by simp
    with IH st Inl show ?thesis by auto
  next
    case (Inr v)
    then have "expects x = revision_of s" "unat (revision_of s') = Suc (unat (revision_of s))"
      using st ok_names_current ok_advances Cons.prems by blast+
    then show ?thesis using IH st Inr by force
  qed
qed simp

lemma stale_refused:
  "good s \<Longrightarrow> expects x \<noteq> revision_of s \<Longrightarrow> \<exists>e. step x s = (s, Inl e)"
  using ok_names_current err_keeps by (cases "step x s"; cases "snd (step x s)") fastforce+

end

lemma checked_add_1_unat: "checked_add r 1 = Some q \<Longrightarrow> unat q = Suc (unat (r::u64))"
  by (drule checked_add_unat) simp

interpretation ws: versioned_store ws_step ws_revision ws_expects workspace_inv
proof (unfold_locales, goal_cases)
  case 1 then show ?case by (auto dest: ws_step_Ok)
next
  case 2 then show ?case by (auto dest!: ws_step_Ok dest: checked_add_1_unat)
next
  case 3 then show ?case by (rule ws_step_Err)
next
  case 4 then show ?case by (rule ws_step_inv)
qed

section \<open>Search against its reference\<close>

text \<open>All matches of one artifact and of a list of artifacts, with no limit.\<close>

definition file_matches :: "bytes \<Rightarrow> string \<times> bytes \<Rightarrow> Match list" where
  "file_matches pat f =
     (if utf8_valid (snd f)
      then map (\<lambda>(i, l). \<lparr>match_name = fst f, match_line = i + 1, match_text = l\<rparr>)
             (filter (\<lambda>(i, l). contains_seq pat l) (enumerate 0 (str_lines (snd f))))
      else [])"

definition all_matches :: "bytes \<Rightarrow> (string, bytes) btree \<Rightarrow> Match list" where
  "all_matches pat fs = concat (map (file_matches pat) fs)"

definition line_matches :: "bytes \<Rightarrow> string \<Rightarrow> nat \<Rightarrow> bytes list \<Rightarrow> Match list" where
  "line_matches pat name i ls =
     map (\<lambda>(i, l). \<lparr>match_name = name, match_line = i + 1, match_text = l\<rparr>)
       (filter (\<lambda>(i, l). contains_seq pat l) (enumerate i ls))"

lemma line_matches_simps [simp]:
  "line_matches pat name i [] = []"
  "line_matches pat name i (l # ls) =
     (if contains_seq pat l then [\<lparr>match_name = name, match_line = i + 1, match_text = l\<rparr>] else [])
     @ line_matches pat name (Suc i) ls"
  by (simp_all add: line_matches_def)

lemma search_lines_take:
  "search_lines pat limit name i ls acc = (out, stop) \<Longrightarrow> length acc \<le> limit \<Longrightarrow>
     (if stop then out = take limit (acc @ line_matches pat name i ls)
                   \<and> limit \<le> length (acc @ line_matches pat name i ls)
      else out = acc @ line_matches pat name i ls \<and> length out \<le> limit)"
proof (induction pat limit name i ls acc rule: search_lines.induct)
  case (2 pat limit name index l ls acc)
  let ?m = "\<lparr>match_name = name, match_line = index + 1, match_text = l\<rparr>"
  consider "\<not> contains_seq pat l" | "contains_seq pat l" "limit \<le> length acc"
    | "contains_seq pat l" "length acc < limit" by linarith
  then show ?case
  proof cases
    case 1
    with 2 show ?thesis by (cases stop) (auto simp del: take_append)
  next
    case 2
    with "2.prems" show ?thesis by auto
  next
    case 3
    with "2.IH"(2) "2.prems" show ?thesis by (cases stop) (auto simp del: take_append)
  qed
qed simp

lemma search_files_take:
  "length acc \<le> limit \<Longrightarrow> search_files pat limit fs acc = take limit (acc @ all_matches pat fs)"
proof (induction pat limit fs acc rule: search_files.induct)
  case (2 pat limit name data fs acc)
  let ?lm = "line_matches pat name 0 (str_lines data)"
  have am: "all_matches pat ((name, data) # fs) = (if utf8_valid data then ?lm else []) @ all_matches pat fs"
    by (simp add: all_matches_def file_matches_def line_matches_def)
  obtain out stop where sl: "search_lines pat limit name 0 (str_lines data) acc = (out, stop)"
    by fastforce
  note t = search_lines_take [OF sl "2.prems"]
  show ?case
  proof (cases "utf8_valid data")
    case False
    with 2 am show ?thesis by (simp del: take_append)
  next
    case True
    show ?thesis
    proof (cases stop)
      case stop: True
      with t have "take limit ((acc @ ?lm) @ all_matches pat fs) = out" by simp
      with True am sl stop show ?thesis by (simp del: take_append)
    next
      case False
      with t have out: "out = acc @ ?lm" "length out \<le> limit" by (metis (full_types))+
      with "2.IH"(2) [OF _ sl [symmetric]] True False
      have "search_files pat limit fs out = take limit (out @ all_matches pat fs)" by simp
      with out True am sl False show ?thesis by (simp del: take_append)
    qed
  qed
qed (simp add: all_matches_def)

section \<open>Properties\<close>

text \<open>
  C26: a workspace made by \<open>new\<close> stays within its limits whatever operations follow. The
  byte counter is exactly the stored bytes (so its subtraction never wraps), the number,
  names and sizes of the artifacts stay bounded, and parent and limits never change.
\<close>

theorem workspace_stays_within_limits:
  assumes "Workspace_new parent l = Inr w0"
  shows "workspace_inv (run_final ws_step w0 xs)
       \<and> ws_parent (run_final ws_step w0 xs) = parent
       \<and> ws_limits (run_final ws_step w0 xs) = l"
proof -
  let ?P = "\<lambda>w. workspace_inv w \<and> ws_parent w = parent \<and> ws_limits w = l"
  have "?P (fst (ws_step x w))" if P: "?P w" for x w
  proof -
    obtain w' res where st: "ws_step x w = (w', res)" by fastforce
    moreover have "workspace_inv w'" using ws_step_inv [of w x] P st by simp
    ultimately show ?thesis
      using P ws_step_Ok [of w x w'] ws_step_Err [of x w w'] by (cases res) auto
  qed
  moreover have "?P w0"
    using assms workspace_inv_new by (auto simp: Workspace_new_def split: if_splits)
  ultimately show ?thesis by (rule run_final_inv)
qed

definition sample_limits :: Limits where
  "sample_limits = \<lparr>lim_files = 2, lim_file_bytes = 8, lim_total_bytes = 10\<rparr>"

theorem workspace_stays_within_limits_witness:
  "\<exists>w0. Workspace_new (Hash ''p'') sample_limits = Inr w0
     \<and> workspace_inv (run_final ws_step w0 [WsWrite (Hash ''p'') 0 ''a'' [1, 2], WsDelete (Hash ''p'') 1 ''a''])"
proof -
  obtain w0 where w0: "Workspace_new (Hash ''p'') sample_limits = Inr w0"
    by (simp add: Workspace_new_def sample_limits_def)
  with workspace_stays_within_limits [OF w0] show ?thesis by blast
qed

text \<open>
  Read after write. A successful write by the owner makes exactly that artifact readable
  with exactly those bytes and leaves every other artifact as it was; a refused write
  changes nothing.
\<close>

theorem write_then_read:
  assumes "workspace_inv w"
  shows "case Workspace_write parent rv name data w of
           (w', Inr r) \<Rightarrow>
              Workspace_read w' parent name = Inr data
              \<and> (\<forall>other. other \<noteq> name \<longrightarrow> Workspace_read w' parent other = Workspace_read w parent other)
              \<and> unat r = Suc (unat rv)
         | (w', Inl e) \<Rightarrow> w' = w"
proof (cases "Workspace_write parent rv name data w")
  case (Pair w' res)
  show ?thesis
  proof (cases res)
    case (Inl e)
    with Pair show ?thesis by (auto dest: Workspace_write_Err)
  next
    case (Inr r)
    note ok = Workspace_write_Ok [OF assms, of parent rv name data w' r]
    have "bt_invar (ws_artifacts w)" using assms by (simp add: workspace_inv_def)
    with ok Pair Inr show ?thesis
      by (auto simp: Workspace_read_def Workspace_check_def bt_simps
          dest: checked_add_1_unat split: option.splits)
  qed
qed

theorem write_then_read_witness:
  "case Workspace_write (Hash ''p'') 0 ''a/b.txt'' [7, 8]
      \<lparr>ws_parent = Hash ''p'', ws_limits = sample_limits, ws_revision = 0, ws_bytes = 0, ws_artifacts = []\<rparr> of
     (w', Inr r) \<Rightarrow> Workspace_read w' (Hash ''p'') ''a/b.txt'' = Inr [7, 8] \<and> r = 1
   | (w', Inl e) \<Rightarrow> False"
proof -
  let ?w = "\<lparr>ws_parent = Hash ''p'', ws_limits = sample_limits, ws_revision = 0, ws_bytes = 0, ws_artifacts = []\<rparr>"
  have "workspace_inv ?w"
    by (simp add: workspace_inv_def limits_ok_def sample_limits_def total_len_def bt.invar_empty)
  note law = write_then_read [OF this, where parent = "Hash ''p''" and rv = 0 and name = "''a/b.txt''" and data = "[7, 8]"]
  have ok: "snd (Workspace_write (Hash ''p'') 0 ''a/b.txt'' [7, 8] ?w) = Inr 1"
    by (simp add: Workspace_write_def Workspace_check_def ws_name_ok_def ws_part_ok_def sample_limits_def
        checked_add_def usize_checked_add_def rust_std)
  from law ok show ?thesis by (auto split: prod.splits sum.splits)
qed

text \<open>
  No lost update. In any sequence of writes, appends and deletes, the successful ones
  name strictly increasing revisions, so for each revision at most one change succeeds; a
  change that names any other revision is refused and leaves the workspace as it was.
\<close>

theorem no_lost_update:
  assumes "workspace_inv w"
  shows "sorted_wrt (\<lambda>x y. unat (ws_expects x) < unat (ws_expects y))
           (map fst (filter (\<lambda>(x, r). is_ok r) (run_results ws_step w xs)))
       \<and> (ws_expects x \<noteq> ws_revision w \<longrightarrow> (\<exists>e. ws_step x w = (w, Inl e)))"
  using ws.successes_strictly_ordered [OF assms] ws.stale_refused [OF assms] by blast

theorem no_lost_update_witness:
  "workspace_inv \<lparr>ws_parent = Hash ''p'', ws_limits = sample_limits, ws_revision = 3, ws_bytes = 0, ws_artifacts = []\<rparr>
   \<and> (\<exists>e. ws_step (WsWrite (Hash ''p'') 2 ''a'' [1])
          \<lparr>ws_parent = Hash ''p'', ws_limits = sample_limits, ws_revision = 3, ws_bytes = 0, ws_artifacts = []\<rparr>
        = (\<lparr>ws_parent = Hash ''p'', ws_limits = sample_limits, ws_revision = 3, ws_bytes = 0, ws_artifacts = []\<rparr>, Inl e))"
proof -
  let ?w = "\<lparr>ws_parent = Hash ''p'', ws_limits = sample_limits, ws_revision = 3, ws_bytes = 0, ws_artifacts = []\<rparr>"
  have i: "workspace_inv ?w"
    by (simp add: workspace_inv_def limits_ok_def sample_limits_def total_len_def bt.invar_empty)
  with no_lost_update [OF i, of "[]" "WsWrite (Hash ''p'') 2 ''a'' [1]"] show ?thesis by simp
qed

text \<open>
  The search loop with its early return computes the first \<open>limit\<close> matching lines, in
  name order and then line order, of the artifacts that are valid UTF-8.
\<close>

theorem search_is_bounded_reference:
  assumes "parent = ws_parent w" "pattern \<noteq> []" "length pattern \<le> 256"
  shows "Workspace_search w parent pattern limit
       = Inr (take limit (all_matches (as_bytes pattern) (ws_artifacts w)))"
  using assms search_files_take [of "[]" limit "as_bytes pattern" "ws_artifacts w"]
  by (simp add: Workspace_search_def)

theorem search_is_bounded_reference_witness:
  "Workspace_search \<lparr>ws_parent = Hash ''p'', ws_limits = sample_limits, ws_revision = 3, ws_bytes = 3,
       ws_artifacts = [(''a'', [97, 10, 97])]\<rparr> (Hash ''p'') ''a'' 1
   = Inr (take 1 (all_matches (as_bytes ''a'') [(''a'', [97, 10, 97])]))"
  by (subst search_is_bounded_reference) simp_all

end
