(* ===== verification/Protocol.thy ===== *)
theory Protocol
  imports Prelude
begin

text \<open>
  \<open>celln-warden/src/parent_protocol.rs\<close> and \<open>parent_mailbox.rs\<close>: the bounded turn request a
  guest may send, and the byte mailbox that carries frames between host and guest. The JSON
  parser is the parameter \<open>from_slice\<close> (\<open>serde_json::from_slice\<close> at type \<open>TurnRequest\<close>).
  The mailbox is shown to refine a five-state exchange, from which permanence of poisoning
  and the round trip of a frame follow.
\<close>

section \<open>Turn requests\<close>

definition VERSION :: string where
  "VERSION = ''celln.parent-turn/v1''"

definition MAX_MESSAGE_BYTES :: nat where "MAX_MESSAGE_BYTES = 2048"
definition MAX_TURN_INPUT_BYTES :: nat where "MAX_TURN_INPUT_BYTES = 8192"
definition MAX_ANSWER_BYTES :: nat where "MAX_ANSWER_BYTES = 8192"
definition MAX_TASK_BYTES :: nat where "MAX_TASK_BYTES = 16384"
definition MAX_REQUEST_BYTES :: nat where "MAX_REQUEST_BYTES = 2 * MAX_TASK_BYTES + 1024"

record TurnRequest =
  api_version :: string
  turn_id :: string
  task :: string

datatype ProtocolError = PSize | PEnvelope | PVersion | PIdentity | PTask

definition turn_id_ok :: "string \<Rightarrow> bool" where
  "turn_id_ok i =
     (i \<noteq> [] \<and> length i \<le> 64
      \<and> list_all (\<lambda>b. is_ascii_alphanumeric b \<or> b = CHR ''-'' \<or> b = CHR ''_'') i)"

definition task_ok :: "string \<Rightarrow> bool" where
  "task_ok t = (\<not> trim_is_empty t \<and> length t \<le> MAX_TASK_BYTES \<and> CHR 0x00 \<notin> set t)"

definition TurnRequest_decode :: "(bytes \<Rightarrow> TurnRequest option) \<Rightarrow> bytes \<Rightarrow> ProtocolError + TurnRequest" where
  "TurnRequest_decode from_slice b =
     (if b = [] \<or> length b > MAX_REQUEST_BYTES then Err PSize
      else (case from_slice b of
              None \<Rightarrow> Err PEnvelope
            | Some request \<Rightarrow>
                if api_version request \<noteq> VERSION then Err PVersion
                else if \<not> turn_id_ok (turn_id request) then Err PIdentity
                else if \<not> task_ok (task request) then Err PTask
                else Ok request))"

lemma TurnRequest_decode_Ok:
  "TurnRequest_decode fs b = Inr r \<longleftrightarrow>
     b \<noteq> [] \<and> length b \<le> MAX_REQUEST_BYTES \<and> fs b = Some r \<and> api_version r = VERSION
     \<and> turn_id_ok (turn_id r) \<and> task_ok (task r)"
  by (auto simp: TurnRequest_decode_def split: option.splits if_splits)

section \<open>The mailbox\<close>

definition MAX_FRAME_BYTES :: nat where "MAX_FRAME_BYTES = 61440"

text \<open>The compile-time assertion beside the constant.\<close>

lemma MAX_FRAME_BYTES_fits:
  "MAX_FRAME_BYTES < 0xffff \<and> MAX_FRAME_BYTES \<ge> MAX_REQUEST_BYTES + 1024
   \<and> MAX_FRAME_BYTES \<ge> 6 * MAX_ANSWER_BYTES + 1024"
  by (simp add: MAX_FRAME_BYTES_def MAX_REQUEST_BYTES_def MAX_TASK_BYTES_def MAX_ANSWER_BYTES_def)

record ParentMailbox =
  mb_input :: bytes
  mb_output :: bytes
  mb_active :: bool
  mb_committed :: bool
  mb_poisoned :: bool

datatype MailboxError = MailboxError

definition ParentMailbox_default :: ParentMailbox where
  "ParentMailbox_default =
     \<lparr>mb_input = [], mb_output = [], mb_active = False, mb_committed = False, mb_poisoned = False\<rparr>"

definition to_le_bytes_u32 :: "u32 \<Rightarrow> bytes" where
  "to_le_bytes_u32 w = map (\<lambda>i. ucast (drop_bit (8 * i) w)) [0, 1, 2, 3]"

definition mailbox_deliver :: "bytes \<Rightarrow> ParentMailbox \<Rightarrow> ParentMailbox \<times> (MailboxError + unit)" where
  "mailbox_deliver b m =
     (if mb_poisoned m \<or> mb_active m \<or> b = [] \<or> length b > MAX_FRAME_BYTES
      then (m, Err MailboxError)
      else (m\<lparr>mb_input := mb_input m @ to_le_bytes_u32 (of_nat (length b)) @ b, mb_active := True\<rparr>, Ok ()))"

text \<open>One byte of the guest's read loop, then the loop over the destination slice.\<close>

definition mailbox_pop :: "ParentMailbox \<Rightarrow> ParentMailbox \<times> u8" where
  "mailbox_pop m =
     (if mb_poisoned m then (m, 0xff)
      else (case mb_input m of
              [] \<Rightarrow> (m, 0xff)
            | b # rest \<Rightarrow> (m\<lparr>mb_input := rest\<rparr>, b)))"

fun mailbox_read :: "nat \<Rightarrow> ParentMailbox \<Rightarrow> ParentMailbox \<times> bytes" where
  "mailbox_read 0 m = (m, [])"
| "mailbox_read (Suc n) m =
     (let (m1, b) = mailbox_pop m; (m2, bs) = mailbox_read n m1 in (m2, b # bs))"

definition mailbox_write :: "bytes \<Rightarrow> ParentMailbox \<Rightarrow> ParentMailbox" where
  "mailbox_write data m =
     (if mb_poisoned m \<or> \<not> mb_active m \<or> mb_committed m \<or> mb_input m \<noteq> []
         \<or> length data > MAX_FRAME_BYTES - length (mb_output m)
      then m\<lparr>mb_poisoned := True\<rparr>
      else m\<lparr>mb_output := mb_output m @ data\<rparr>)"

definition mailbox_commit :: "bytes \<Rightarrow> ParentMailbox \<Rightarrow> ParentMailbox" where
  "mailbox_commit data m =
     (if data \<noteq> [1] \<or> \<not> mb_active m \<or> mb_committed m \<or> mb_input m \<noteq> [] \<or> mb_output m = []
      then m\<lparr>mb_poisoned := True, mb_committed := True\<rparr>
      else m\<lparr>mb_committed := True\<rparr>)"

definition take_response :: "ParentMailbox \<Rightarrow> ParentMailbox \<times> (MailboxError + bytes option)" where
  "take_response m =
     (if mb_poisoned m then (m, Err MailboxError)
      else if \<not> mb_committed m then (m, Ok None)
      else (m\<lparr>mb_active := False, mb_committed := False, mb_output := []\<rparr>, Ok (Some (mb_output m))))"

datatype MailboxOp = Deliver bytes | ReadN nat | Write bytes | Commit bytes | Take

datatype MailboxResult =
    RDeliver "MailboxError + unit" | RRead bytes | RWrite | RCommit | RTake "MailboxError + bytes option"

fun mailbox_step :: "MailboxOp \<Rightarrow> ParentMailbox \<Rightarrow> ParentMailbox \<times> MailboxResult" where
  "mailbox_step (Deliver b) m = (let (m', r) = mailbox_deliver b m in (m', RDeliver r))"
| "mailbox_step (ReadN n) m = (let (m', r) = mailbox_read n m in (m', RRead r))"
| "mailbox_step (Write d) m = (mailbox_write d m, RWrite)"
| "mailbox_step (Commit d) m = (mailbox_commit d m, RCommit)"
| "mailbox_step Take m = (let (m', r) = take_response m in (m', RTake r))"

section \<open>The abstract exchange\<close>

text \<open>
  What the mailbox promises: one exchange at a time. A delivered frame must be read to its
  end before the guest replies, a reply is committed once, and anything else poisons.
\<close>

datatype Exchange = XIdle | XReading bytes | XReplying bytes | XCommitted bytes | XPoisoned

definition x_after :: "bytes \<Rightarrow> Exchange" where
  "x_after rest = (if rest = [] then XReplying [] else XReading rest)"

fun exchange_step :: "MailboxOp \<Rightarrow> Exchange \<Rightarrow> Exchange \<times> MailboxResult" where
  "exchange_step (Deliver b) XIdle =
     (if b = [] \<or> length b > MAX_FRAME_BYTES then (XIdle, RDeliver (Err MailboxError))
      else (XReading (to_le_bytes_u32 (of_nat (length b)) @ b), RDeliver (Ok ())))"
| "exchange_step (Deliver b) x = (x, RDeliver (Err MailboxError))"
| "exchange_step (ReadN n) (XReading rest) =
     (x_after (drop n rest), RRead (take n rest @ replicate (n - length rest) 0xff))"
| "exchange_step (ReadN n) x = (x, RRead (replicate n 0xff))"
| "exchange_step (Write d) (XReplying out) =
     (if length out + length d \<le> MAX_FRAME_BYTES then XReplying (out @ d) else XPoisoned, RWrite)"
| "exchange_step (Write d) x = (XPoisoned, RWrite)"
| "exchange_step (Commit d) (XReplying out) =
     (if d = [1] \<and> out \<noteq> [] then XCommitted out else XPoisoned, RCommit)"
| "exchange_step (Commit d) x = (XPoisoned, RCommit)"
| "exchange_step Take (XCommitted out) = (XIdle, RTake (Ok (Some out)))"
| "exchange_step Take XPoisoned = (XPoisoned, RTake (Err MailboxError))"
| "exchange_step Take x = (x, RTake (Ok None))"

definition exchange_of :: "ParentMailbox \<Rightarrow> Exchange" where
  "exchange_of m =
     (if mb_poisoned m then XPoisoned
      else if \<not> mb_active m then XIdle
      else if mb_committed m then XCommitted (mb_output m)
      else if mb_input m \<noteq> [] then XReading (mb_input m)
      else XReplying (mb_output m))"

definition mailbox_inv :: "ParentMailbox \<Rightarrow> bool" where
  "mailbox_inv m \<longleftrightarrow>
     length (mb_output m) \<le> MAX_FRAME_BYTES
     \<and> (\<not> mb_poisoned m \<longrightarrow>
          (\<not> mb_active m \<longrightarrow> mb_input m = [] \<and> mb_output m = [] \<and> \<not> mb_committed m)
        \<and> (mb_input m \<noteq> [] \<longrightarrow> mb_output m = [] \<and> \<not> mb_committed m)
        \<and> (mb_committed m \<longrightarrow> mb_output m \<noteq> []))"

lemma mailbox_inv_default [inv_intros]: "mailbox_inv ParentMailbox_default"
  by (simp add: mailbox_inv_def ParentMailbox_default_def)

lemma exchange_of_default [simp]: "exchange_of ParentMailbox_default = XIdle"
  by (simp add: exchange_of_def ParentMailbox_default_def)

lemma mailbox_read_eq:
  "mailbox_read n m =
     (if mb_poisoned m then (m, replicate n 0xff)
      else (m\<lparr>mb_input := drop n (mb_input m)\<rparr>,
            take n (mb_input m) @ replicate (n - length (mb_input m)) 0xff))"
proof (induction n arbitrary: m)
  case (Suc n)
  then show ?case
    by (cases "mb_input m") (auto simp: mailbox_pop_def)
qed simp

lemma to_le_bytes_u32_neq_Nil [simp]: "to_le_bytes_u32 w \<noteq> []"
  by (simp add: to_le_bytes_u32_def)

lemma length_to_le_bytes_u32 [simp]: "length (to_le_bytes_u32 w) = 4"
  by (simp add: to_le_bytes_u32_def)

lemma mailbox_inv_step [inv_intros]: "mailbox_inv m \<Longrightarrow> mailbox_inv (fst (mailbox_step x m))"
  by (cases x)
    (auto simp: mailbox_inv_def mailbox_deliver_def mailbox_read_eq mailbox_write_def
      mailbox_commit_def take_response_def Let_def)

lemma exchange_of_step:
  assumes "mailbox_inv m"
  shows "exchange_step x (exchange_of m) = (exchange_of (fst (mailbox_step x m)), snd (mailbox_step x m))"
proof (cases x)
  case (Deliver b)
  then show ?thesis
    using assms by (auto simp: exchange_of_def mailbox_inv_def mailbox_deliver_def)
next
  case (ReadN n)
  then show ?thesis
    using assms by (auto simp: exchange_of_def mailbox_inv_def mailbox_read_eq x_after_def)
next
  case (Write d)
  then show ?thesis
    using assms by (auto simp: exchange_of_def mailbox_inv_def mailbox_write_def)
next
  case (Commit d)
  then show ?thesis
    using assms by (auto simp: exchange_of_def mailbox_inv_def mailbox_commit_def)
next
  case Take
  then show ?thesis
    using assms by (auto simp: exchange_of_def mailbox_inv_def take_response_def)
qed

section \<open>Simulations of step functions\<close>

text \<open>
  A functional refinement: the abstraction of every reachable concrete state steps to the
  abstraction of the next one with the same result. Runs then agree, and invariants of the
  abstract machine hold of the concrete one.
\<close>

locale simulation =
  fixes cstep :: "'op \<Rightarrow> 'c \<Rightarrow> 'c \<times> 'r"
    and astep :: "'op \<Rightarrow> 'a \<Rightarrow> 'a \<times> 'r"
    and abst :: "'c \<Rightarrow> 'a"
    and cinv :: "'c \<Rightarrow> bool"
  assumes cinv_step: "cinv c \<Longrightarrow> cinv (fst (cstep x c))"
    and abst_step: "cinv c \<Longrightarrow> astep x (abst c) = (abst (fst (cstep x c)), snd (cstep x c))"
begin

lemma run_cinv: "cinv c \<Longrightarrow> cinv (run_final cstep c xs)"
  by (rule run_final_inv) (rule cinv_step)

lemma run_abst: "cinv c \<Longrightarrow> abst (run_final cstep c xs) = run_final astep (abst c) xs"
  by (induction xs arbitrary: c) (simp_all add: abst_step cinv_step)

lemma run_same_results: "cinv c \<Longrightarrow> run_results cstep c xs = run_results astep (abst c) xs"
  by (induction xs arbitrary: c) (simp_all add: abst_step cinv_step)

end

interpretation mailbox: simulation mailbox_step exchange_step exchange_of mailbox_inv
  by unfold_locales (auto intro: inv_intros exchange_of_step)

section \<open>Consequences\<close>

lemma exchange_poisoned_stays: "fst (exchange_step x XPoisoned) = XPoisoned"
  by (cases x) auto

lemma exchange_poisoned_run: "run_final exchange_step XPoisoned xs = XPoisoned"
  by (induction xs) (simp_all add: exchange_poisoned_stays)

text \<open>Reading in chunks of any sizes drains the frame in order.\<close>

lemma exchange_read_chunks:
  assumes "sum_list ns = length rest" "rest \<noteq> []" "list_all (\<lambda>n. 0 < n) ns"
  shows "run_final exchange_step (XReading rest) (map ReadN ns) = XReplying []
       \<and> concat (map (\<lambda>(x, r). case r of RRead b \<Rightarrow> b | _ \<Rightarrow> [])
           (run_results exchange_step (XReading rest) (map ReadN ns))) = rest"
  using assms
proof (induction ns arbitrary: rest)
  case (Cons n ns)
  then have n: "n \<le> length rest" "0 < n" by auto
  show ?case
  proof (cases "n = length rest")
    case True
    with Cons.prems have "ns = []"
      by (cases ns) auto
    with True show ?thesis by (simp add: x_after_def)
  next
    case False
    with n Cons.prems have "drop n rest \<noteq> []" "sum_list ns = length (drop n rest)" by auto
    with Cons.IH [of "drop n rest"] Cons.prems n show ?thesis
      by (simp add: x_after_def)
  qed
qed simp

lemma exchange_write_chunks:
  "length out + length (concat ds) \<le> MAX_FRAME_BYTES \<Longrightarrow>
     run_final exchange_step (XReplying out) (map Write ds) = XReplying (out @ concat ds)"
  by (induction ds arbitrary: out) simp_all

lemma take_response_replying: "exchange_of m = XReplying out \<Longrightarrow> snd (take_response m) = Inr None"
  by (auto simp: take_response_def exchange_of_def split: if_splits)

lemma take_response_committed:
  "exchange_of m = XCommitted out \<Longrightarrow>
     snd (take_response m) = Inr (Some out) \<and> exchange_of (fst (take_response m)) = XIdle"
  by (auto simp: take_response_def exchange_of_def split: if_splits)

lemma mailbox_refines_exchange_run:
  "run_results mailbox_step ParentMailbox_default xs = run_results exchange_step XIdle xs"
  "exchange_of (run_final mailbox_step ParentMailbox_default xs) = run_final exchange_step XIdle xs"
  using mailbox.run_same_results [OF mailbox_inv_default] mailbox.run_abst [OF mailbox_inv_default]
  by simp_all

section \<open>Properties\<close>

text \<open>
  C39: refinement of the mailbox. From a fresh mailbox, any sequence of host and guest
  operations returns exactly what the five-state exchange returns, and never holds more
  than one frame of output.
\<close>

theorem mailbox_refines_exchange:
  "run_results mailbox_step ParentMailbox_default xs = run_results exchange_step XIdle xs
   \<and> exchange_of (run_final mailbox_step ParentMailbox_default xs) = run_final exchange_step XIdle xs
   \<and> length (mb_output (run_final mailbox_step ParentMailbox_default xs)) \<le> MAX_FRAME_BYTES"
  using mailbox_refines_exchange_run [of xs] mailbox.run_cinv [OF mailbox_inv_default, of xs]
  by (simp add: mailbox_inv_def)

text \<open>
  A poisoned mailbox stays poisoned under every later sequence of operations; it never
  yields a response, accepts no delivery, and the guest reads only 0xff from it.
\<close>

theorem poisoning_is_permanent:
  assumes "mailbox_inv m" "mb_poisoned m"
  shows "mb_poisoned (run_final mailbox_step m xs)
       \<and> snd (take_response (run_final mailbox_step m xs)) = Inl MailboxError
       \<and> snd (mailbox_deliver b (run_final mailbox_step m xs)) = Inl MailboxError
       \<and> snd (mailbox_read n (run_final mailbox_step m xs)) = replicate n 0xff"
proof -
  have "exchange_of m = XPoisoned" using assms by (simp add: exchange_of_def)
  then have "exchange_of (run_final mailbox_step m xs) = XPoisoned"
    using mailbox.run_abst [OF assms(1)] exchange_poisoned_run by simp
  then have "mb_poisoned (run_final mailbox_step m xs)"
    by (simp add: exchange_of_def split: if_splits)
  then show ?thesis
    by (simp add: take_response_def mailbox_deliver_def mailbox_read_eq)
qed

theorem poisoning_is_permanent_witness:
  "mb_poisoned (mailbox_write [1] ParentMailbox_default)
   \<and> snd (take_response (run_final mailbox_step (mailbox_write [1] ParentMailbox_default)
        [Deliver [104], ReadN 5, Write [7], Commit [1]])) = Inl MailboxError"
proof -
  let ?m = "mailbox_write [1] ParentMailbox_default"
  have "mailbox_inv ?m" using mailbox_inv_step [OF mailbox_inv_default, of "Write [1]"] by simp
  moreover have p: "mb_poisoned ?m" by (simp add: mailbox_write_def ParentMailbox_default_def)
  ultimately show ?thesis using poisoning_is_permanent [of ?m] by blast
qed

text \<open>
  A frame makes the round trip. The host delivers a frame; the guest reads it in any
  positive chunk sizes and sees its little-endian length followed by its bytes, replies in
  any chunks within the frame bound and commits; the host takes exactly the concatenated
  reply, and the mailbox is idle again for the next exchange.
\<close>

theorem frame_round_trip:
  assumes "b \<noteq> []" "length b \<le> MAX_FRAME_BYTES"
    and "sum_list ns = 4 + length b" "list_all (\<lambda>n. 0 < n) ns"
    and "concat ds \<noteq> []" "length (concat ds) \<le> MAX_FRAME_BYTES"
  defines "m1 \<equiv> run_final mailbox_step ParentMailbox_default (Deliver b # map ReadN ns)"
    and "m2 \<equiv> run_final mailbox_step ParentMailbox_default (Deliver b # map ReadN ns @ map Write ds @ [Commit [1]])"
  shows "concat (map (\<lambda>(x, r). case r of RRead c \<Rightarrow> c | _ \<Rightarrow> [])
           (run_results mailbox_step ParentMailbox_default (Deliver b # map ReadN ns)))
         = to_le_bytes_u32 (of_nat (length b)) @ b
       \<and> snd (take_response m1) = Inr None
       \<and> snd (take_response m2) = Inr (Some (concat ds))
       \<and> exchange_of (fst (take_response m2)) = XIdle"
proof -
  let ?frame = "to_le_bytes_u32 (of_nat (length b)) @ b"
  note sim = mailbox_refines_exchange_run [of "Deliver b # map ReadN ns"]
    mailbox_refines_exchange_run [of "Deliver b # map ReadN ns @ map Write ds @ [Commit [1]]"]
  have rd: "run_final exchange_step (XReading ?frame) (map ReadN ns) = XReplying []"
    "concat (map (\<lambda>(x, r). case r of RRead c \<Rightarrow> c | _ \<Rightarrow> [])
           (run_results exchange_step (XReading ?frame) (map ReadN ns))) = ?frame"
    using exchange_read_chunks [of ns ?frame] assms by simp_all
  have "exchange_of m1 = XReplying []"
    using sim rd assms by (simp add: m1_def)
  moreover have "exchange_of m2 = XCommitted (concat ds)"
    using sim rd assms exchange_write_chunks [of "[]" ds] by (simp add: m2_def run_final_append)
  moreover have "concat (map (\<lambda>(x, r). case r of RRead c \<Rightarrow> c | _ \<Rightarrow> [])
           (run_results mailbox_step ParentMailbox_default (Deliver b # map ReadN ns))) = ?frame"
    unfolding sim(1) using rd assms by simp
  ultimately show ?thesis
    using take_response_replying take_response_committed by blast
qed

theorem frame_round_trip_witness:
  "snd (take_response (run_final mailbox_step ParentMailbox_default
      (Deliver [104, 105] # map ReadN [2, 4] @ map Write [[111], [107]] @ [Commit [1]]))) = Inr (Some [111, 107])"
  using frame_round_trip [of "[104, 105]" "[2, 4]" "[[111], [107]]"]
  by (simp add: MAX_FRAME_BYTES_def)

text \<open>
  What a decoded turn request is known to be. Decoding succeeds exactly on a bounded
  envelope whose version is the supported one, whose identity is 1 to 64 letters, digits,
  dashes or underscores, and whose task is bounded, not blank and free of NUL.
\<close>

theorem decode_accepts_iff:
  "TurnRequest_decode from_slice b = Inr r \<longleftrightarrow>
     0 < length b \<and> length b \<le> 33792 \<and> from_slice b = Some r
     \<and> api_version r = ''celln.parent-turn/v1''
     \<and> 0 < length (turn_id r) \<and> length (turn_id r) \<le> 64
     \<and> (\<forall>c \<in> set (turn_id r). is_ascii_alphanumeric c \<or> c = CHR ''-'' \<or> c = CHR ''_'')
     \<and> length (task r) \<le> 16384 \<and> CHR 0x00 \<notin> set (task r) \<and> \<not> trim_is_empty (task r)"
  by (auto simp: TurnRequest_decode_Ok MAX_REQUEST_BYTES_def MAX_TASK_BYTES_def VERSION_def
      turn_id_ok_def task_ok_def list_all_iff)

definition sample_request :: TurnRequest where
  "sample_request = \<lparr>api_version = ''celln.parent-turn/v1'', turn_id = ''t-1'', task = ''hello''\<rparr>"

theorem decode_accepts_iff_witness:
  "TurnRequest_decode (\<lambda>_. Some sample_request) [123] = Inr sample_request"
  using decode_accepts_iff [of "\<lambda>_. Some sample_request" "[123]" sample_request]
  by (simp add: sample_request_def rust_std trim_is_empty_def)

end
