(* ===== verification/Lease.thy ===== *)
theory Lease
  imports Protocol
begin

text \<open>
  \<open>celln-warden/src/parent_lease.rs\<close>: the in-memory ledger of one parent. Every turn is
  reserved in full before its child launches, and nothing is ever refunded. Parameters:
  \<open>from_slice\<close> (JSON decoding of a turn request), \<open>hash_of\<close> (\<open>Hash::of\<close>) and \<open>to_vec\<close>
  (\<open>serde_json::to_vec\<close> of the pair that names a child). Instants are arguments where the
  source reads the clock.
\<close>

section \<open>Data\<close>

record TurnLimits =
  memory_bytes :: u64
  timeout :: duration
  model_requests :: u64
  output_tokens :: u64

record ReservedTurn =
  rt_parent :: hash
  rt_child :: hash
  rt_request :: TurnRequest
  rt_limits :: TurnLimits

record ParentLease =
  pl_parent :: hash
  pl_deadline :: instant
  pl_limits :: TurnLimits
  pl_turns_left :: nat
  pl_requests_left :: u64
  pl_tokens_left :: u64
  pl_seen :: "string set"
  pl_active :: "hash option"
  pl_stopped :: bool

datatype LeaseError =
    LConfiguration | LProtocol | LStopped | LReplay | LBusy | LBudget | LOwner

section \<open>Operations\<close>

definition ParentLease_new ::
  "instant \<Rightarrow> hash \<Rightarrow> duration \<Rightarrow> TurnLimits \<Rightarrow> nat \<Rightarrow> u64 \<Rightarrow> u64 \<Rightarrow> LeaseError + ParentLease" where
  "ParentLease_new now parent lifetime limits max_turns total_model_requests total_output_tokens =
     (case Instant_checked_add now lifetime of
        None \<Rightarrow> Err LConfiguration
      | Some deadline \<Rightarrow>
          if lifetime = 0 \<or> timeout limits = 0 \<or> memory_bytes limits = 0
             \<or> \<not> (1 \<le> max_turns \<and> max_turns \<le> 1024)
             \<or> (model_requests limits = 0) \<noteq> (output_tokens limits = 0)
             \<or> model_requests limits > total_model_requests
             \<or> output_tokens limits > total_output_tokens
          then Err LConfiguration
          else Ok \<lparr>pl_parent = parent, pl_deadline = deadline, pl_limits = limits,
                   pl_turns_left = max_turns, pl_requests_left = total_model_requests,
                   pl_tokens_left = total_output_tokens, pl_seen = {}, pl_active = None,
                   pl_stopped = False\<rparr>)"

text \<open>The child's identity: the hash of the JSON tuple of parent and turn.\<close>

definition child_identity :: "(bytes \<Rightarrow> hash) \<Rightarrow> (string \<times> string \<Rightarrow> bytes) \<Rightarrow> hash \<Rightarrow> string \<Rightarrow> hash" where
  "child_identity hash_of to_vec parent turn = hash_of (to_vec (hash_str parent, turn))"

definition reserve_at ::
  "(bytes \<Rightarrow> TurnRequest option) \<Rightarrow> (bytes \<Rightarrow> hash) \<Rightarrow> (string \<times> string \<Rightarrow> bytes)
   \<Rightarrow> bytes \<Rightarrow> instant \<Rightarrow> ParentLease \<Rightarrow> ParentLease \<times> (LeaseError + ReservedTurn)" where
  "reserve_at from_slice hash_of to_vec b now p0 =
     (let p = (if now \<ge> pl_deadline p0 then p0\<lparr>pl_stopped := True\<rparr> else p0)
      in if pl_stopped p then (p, Err LStopped)
         else (case TurnRequest_decode from_slice b of
                 Inl _ \<Rightarrow> (p, Err LProtocol)
               | Inr request \<Rightarrow>
                   if turn_id request \<in> pl_seen p then (p, Err LReplay)
                   else if pl_active p \<noteq> None then (p, Err LBusy)
                   else if pl_turns_left p = 0
                           \<or> pl_requests_left p < model_requests (pl_limits p)
                           \<or> pl_tokens_left p < output_tokens (pl_limits p)
                   then (p, Err LBudget)
                   else
                     (let child = child_identity hash_of to_vec (pl_parent p) (turn_id request);
                          limits = (pl_limits p)\<lparr>timeout := min (timeout (pl_limits p)) (pl_deadline p - now)\<rparr>
                      in (p\<lparr>pl_turns_left := pl_turns_left p - 1,
                            pl_requests_left := pl_requests_left p - model_requests (pl_limits p),
                            pl_tokens_left := pl_tokens_left p - output_tokens (pl_limits p),
                            pl_seen := insert (turn_id request) (pl_seen p),
                            pl_active := Some child\<rparr>,
                          Ok \<lparr>rt_parent = pl_parent p, rt_child = child, rt_request = request,
                              rt_limits = limits\<rparr>))))"

definition confirm_child_destroyed :: "hash \<Rightarrow> ParentLease \<Rightarrow> ParentLease \<times> (LeaseError + unit)" where
  "confirm_child_destroyed child p =
     (if pl_active p \<noteq> Some child then (p, Err LOwner) else (p\<lparr>pl_active := None\<rparr>, Ok ()))"

definition lease_stop :: "ParentLease \<Rightarrow> ParentLease \<times> hash option" where
  "lease_stop p = (p\<lparr>pl_stopped := True\<rparr>, pl_active p)"

definition lease_expired :: "instant \<Rightarrow> ParentLease \<Rightarrow> ParentLease \<times> bool" where
  "lease_expired now p0 =
     (let p = (if now \<ge> pl_deadline p0 then p0\<lparr>pl_stopped := True\<rparr> else p0) in (p, pl_stopped p))"

datatype LeaseOp = OpReserve bytes instant | OpConfirm hash | OpStop | OpExpired instant

datatype LeaseResult =
    ResReserve "LeaseError + ReservedTurn" | ResConfirm "LeaseError + unit"
  | ResStop "hash option" | ResExpired bool

fun lease_step ::
  "(bytes \<Rightarrow> TurnRequest option) \<Rightarrow> (bytes \<Rightarrow> hash) \<Rightarrow> (string \<times> string \<Rightarrow> bytes)
   \<Rightarrow> LeaseOp \<Rightarrow> ParentLease \<Rightarrow> ParentLease \<times> LeaseResult" where
  "lease_step fs ho tv (OpReserve b now) p = (let (p', r) = reserve_at fs ho tv b now p in (p', ResReserve r))"
| "lease_step fs ho tv (OpConfirm c) p = (let (p', r) = confirm_child_destroyed c p in (p', ResConfirm r))"
| "lease_step fs ho tv OpStop p = (let (p', r) = lease_stop p in (p', ResStop r))"
| "lease_step fs ho tv (OpExpired now) p = (let (p', r) = lease_expired now p in (p', ResExpired r))"

section \<open>The ledger balances\<close>

text \<open>
  Against the totals the lease was created with: every turn seen was paid for once, in
  turns, model requests and output tokens, and the counters never wrapped.
\<close>

definition lease_inv :: "nat \<Rightarrow> u64 \<Rightarrow> u64 \<Rightarrow> ParentLease \<Rightarrow> bool" where
  "lease_inv max_turns reqs toks p \<longleftrightarrow>
     finite (pl_seen p)
     \<and> pl_turns_left p + card (pl_seen p) = max_turns
     \<and> unat (pl_requests_left p) + card (pl_seen p) * unat (model_requests (pl_limits p)) = unat reqs
     \<and> unat (pl_tokens_left p) + card (pl_seen p) * unat (output_tokens (pl_limits p)) = unat toks"

lemma ParentLease_new_Ok:
  "ParentLease_new now parent lifetime limits mt reqs toks = Inr p \<longleftrightarrow>
     now + lifetime \<le> instant_max \<and> 0 < lifetime \<and> 0 < timeout limits \<and> memory_bytes limits \<noteq> 0
     \<and> 1 \<le> mt \<and> mt \<le> 1024 \<and> (model_requests limits = 0) = (output_tokens limits = 0)
     \<and> model_requests limits \<le> reqs \<and> output_tokens limits \<le> toks
     \<and> p = \<lparr>pl_parent = parent, pl_deadline = now + lifetime, pl_limits = limits,
            pl_turns_left = mt, pl_requests_left = reqs, pl_tokens_left = toks,
            pl_seen = {}, pl_active = None, pl_stopped = False\<rparr>"
  by (auto simp: ParentLease_new_def Instant_checked_add_def not_less split: if_splits)

lemma lease_inv_new:
  "ParentLease_new now parent lifetime limits mt reqs toks = Inr p \<Longrightarrow> lease_inv mt reqs toks p"
  by (auto simp: ParentLease_new_Ok lease_inv_def)

text \<open>The one branch of \<open>reserve_at\<close> that spends.\<close>

lemma reserve_at_Ok:
  assumes "reserve_at fs ho tv b now p = (p', Inr t)"
  obtains request where
    "now < pl_deadline p" "\<not> pl_stopped p" "TurnRequest_decode fs b = Inr request"
    "turn_id request \<notin> pl_seen p" "pl_active p = None" "pl_turns_left p \<noteq> 0"
    "model_requests (pl_limits p) \<le> pl_requests_left p" "output_tokens (pl_limits p) \<le> pl_tokens_left p"
    "p' = p\<lparr>pl_turns_left := pl_turns_left p - 1,
            pl_requests_left := pl_requests_left p - model_requests (pl_limits p),
            pl_tokens_left := pl_tokens_left p - output_tokens (pl_limits p),
            pl_seen := insert (turn_id request) (pl_seen p),
            pl_active := Some (child_identity ho tv (pl_parent p) (turn_id request))\<rparr>"
    "t = \<lparr>rt_parent = pl_parent p, rt_child = child_identity ho tv (pl_parent p) (turn_id request),
          rt_request = request,
          rt_limits = (pl_limits p)\<lparr>timeout := min (timeout (pl_limits p)) (pl_deadline p - now)\<rparr>\<rparr>"
  using assms
  by (auto simp: reserve_at_def Let_def not_le not_less split: sum.splits if_splits)

lemma reserve_at_Err:
  "reserve_at fs ho tv b now p = (p', Inl e) \<Longrightarrow>
     p' = (if now \<ge> pl_deadline p then p\<lparr>pl_stopped := True\<rparr> else p)"
  by (auto simp: reserve_at_def Let_def split: sum.splits if_splits)

lemma lease_inv_reserve:
  assumes "lease_inv mt reqs toks p"
  shows "lease_inv mt reqs toks (fst (reserve_at fs ho tv b now p))"
proof (cases "reserve_at fs ho tv b now p")
  case (Pair p' res)
  show ?thesis
  proof (cases res)
    case (Inl e)
    with Pair assms show ?thesis by (auto dest!: reserve_at_Err simp: lease_inv_def)
  next
    case (Inr t)
    with Pair have "reserve_at fs ho tv b now p = (p', Inr t)" by simp
    then show ?thesis
    proof (cases rule: reserve_at_Ok)
      case (1 request)
      then show ?thesis
        using assms Pair Inr by (auto simp: lease_inv_def word_le_nat_alt)
    qed
  qed
qed

lemma lease_inv_step [inv_intros]:
  "lease_inv mt reqs toks p \<Longrightarrow> lease_inv mt reqs toks (fst (lease_step fs ho tv x p))"
proof (cases x)
  case (OpReserve b now)
  moreover assume "lease_inv mt reqs toks p"
  ultimately show ?thesis
    using lease_inv_reserve [of mt reqs toks p fs ho tv b now]
    by (cases "reserve_at fs ho tv b now p") simp
qed (auto simp: lease_inv_def confirm_child_destroyed_def lease_stop_def lease_expired_def Let_def)

text \<open>Fields no operation writes, and flags that only ever close.\<close>

lemma lease_step_frame:
  "pl_parent (fst (lease_step fs ho tv x p)) = pl_parent p
   \<and> pl_deadline (fst (lease_step fs ho tv x p)) = pl_deadline p
   \<and> pl_limits (fst (lease_step fs ho tv x p)) = pl_limits p
   \<and> (pl_stopped p \<longrightarrow> pl_stopped (fst (lease_step fs ho tv x p)))
   \<and> pl_seen p \<subseteq> pl_seen (fst (lease_step fs ho tv x p))"
  by (cases x)
    (auto simp: reserve_at_def confirm_child_destroyed_def lease_stop_def lease_expired_def Let_def
      split: sum.splits)

lemma lease_run_frame:
  "pl_parent (run_final (lease_step fs ho tv) p xs) = pl_parent p
   \<and> pl_deadline (run_final (lease_step fs ho tv) p xs) = pl_deadline p
   \<and> pl_limits (run_final (lease_step fs ho tv) p xs) = pl_limits p
   \<and> (pl_stopped p \<longrightarrow> pl_stopped (run_final (lease_step fs ho tv) p xs))
   \<and> pl_seen p \<subseteq> pl_seen (run_final (lease_step fs ho tv) p xs)"
proof (induction xs arbitrary: p)
  case (Cons x xs)
  with lease_step_frame [of fs ho tv x p] show ?case
    by (auto dest: subset_trans)
qed simp

text \<open>The turns a run reserved, in order.\<close>

definition reserved_turns :: "(LeaseOp \<times> LeaseResult) list \<Rightarrow> ReservedTurn list" where
  "reserved_turns rs =
     List.map_filter (\<lambda>(x, r). case r of ResReserve (Inr t) \<Rightarrow> Some t | _ \<Rightarrow> None) rs"

lemma reserved_turns_Cons [simp]:
  "reserved_turns ((x, r) # rs) =
     (case r of ResReserve (Inr t) \<Rightarrow> t # reserved_turns rs | _ \<Rightarrow> reserved_turns rs)"
  by (simp add: reserved_turns_def split: LeaseResult.splits sum.splits)

lemma reserved_turns_Nil [simp]: "reserved_turns [] = []"
  by (simp add: reserved_turns_def)

lemma lease_step_reserved:
  assumes "lease_step fs ho tv x p = (p', ResReserve (Inr t))"
  shows "turn_id (rt_request t) \<notin> pl_seen p
       \<and> pl_seen p' = insert (turn_id (rt_request t)) (pl_seen p)
       \<and> rt_parent t = pl_parent p
       \<and> rt_child t = child_identity ho tv (pl_parent p) (turn_id (rt_request t))
       \<and> \<not> pl_stopped p \<and> pl_active p = None \<and> pl_active p' = Some (rt_child t)"
proof -
  from assms obtain b now where "x = OpReserve b now" "reserve_at fs ho tv b now p = (p', Inr t)"
    by (cases x) (auto split: prod.splits)
  from this(2) show ?thesis by (cases rule: reserve_at_Ok) auto
qed

lemma lease_step_not_reserved:
  assumes "lease_step fs ho tv x p = (p', r)" "\<nexists>t. r = ResReserve (Inr t)"
  shows "pl_seen p' = pl_seen p"
proof (cases x)
  case (OpReserve b now)
  then obtain e where "reserve_at fs ho tv b now p = (p', Inl e)"
    using assms by (cases "snd (reserve_at fs ho tv b now p)") (auto split: prod.splits)
  then show ?thesis by (auto dest!: reserve_at_Err split: if_splits)
qed (use assms in \<open>auto simp: confirm_child_destroyed_def lease_stop_def lease_expired_def Let_def split: if_splits\<close>)

lemma run_reserved_seen:
  "pl_seen (run_final (lease_step fs ho tv) p xs)
     = pl_seen p \<union> set (map (turn_id \<circ> rt_request) (reserved_turns (run_results (lease_step fs ho tv) p xs)))
   \<and> distinct (map (turn_id \<circ> rt_request) (reserved_turns (run_results (lease_step fs ho tv) p xs)))
   \<and> pl_seen p \<inter> set (map (turn_id \<circ> rt_request) (reserved_turns (run_results (lease_step fs ho tv) p xs))) = {}"
proof (induction xs arbitrary: p)
  case (Cons x xs)
  obtain p' r where st: "lease_step fs ho tv x p = (p', r)" by fastforce
  show ?case
  proof (cases "\<exists>t. r = ResReserve (Inr t)")
    case True
    then obtain t where t: "r = ResReserve (Inr t)" by blast
    note f = lease_step_reserved [OF st [unfolded t]]
    show ?thesis using Cons.IH [of p'] st t f by (auto simp: comp_def)
  next
    case False
    then have "reserved_turns ((x, r) # ys) = reserved_turns ys" for ys
      by (auto split: LeaseResult.splits sum.splits)
    with Cons.IH [of p'] st lease_step_not_reserved [OF st False] show ?thesis
      by simp
  qed
qed simp

lemma run_reserved_card:
  assumes "lease_inv mt reqs toks p" "pl_seen p = {}"
  shows "card (pl_seen (run_final (lease_step fs ho tv) p xs))
       = length (reserved_turns (run_results (lease_step fs ho tv) p xs))"
  using run_reserved_seen [of fs ho tv p xs] assms(2)
  by (metis distinct_card length_map sup_bot.left_neutral)

lemma stopped_reserves_nothing:
  "pl_stopped p \<Longrightarrow> reserved_turns (run_results (lease_step fs ho tv) p xs) = []"
proof (induction xs arbitrary: p)
  case (Cons x xs)
  obtain p' r where st: "lease_step fs ho tv x p = (p', r)" by fastforce
  have "pl_stopped p'" using lease_step_frame [of fs ho tv x p] st Cons.prems by simp
  moreover have "\<nexists>t. r = ResReserve (Inr t)" using lease_step_reserved [of fs ho tv x p p'] st Cons.prems by auto
  ultimately show ?case using Cons.IH [of p'] st by (auto split: LeaseResult.splits sum.splits)
qed simp

lemma reserved_children:
  "t \<in> set (reserved_turns (run_results (lease_step fs ho tv) p xs)) \<Longrightarrow>
     rt_parent t = pl_parent p \<and> rt_child t = child_identity ho tv (pl_parent p) (turn_id (rt_request t))"
proof (induction xs arbitrary: p)
  case (Cons x xs)
  obtain p' r where st: "lease_step fs ho tv x p = (p', r)" by fastforce
  have "pl_parent p' = pl_parent p" using lease_step_frame [of fs ho tv x p] st by simp
  then show ?case
    using Cons lease_step_reserved [of fs ho tv x p p'] st
    by (auto split: LeaseResult.splits sum.splits)
qed simp

section \<open>Properties\<close>

text \<open>
  C25: budgets. For a lease created with \<open>max_turns\<close> turns and the given totals, in any
  sequence of operations (failures, confirmations, stops included) no turn identity is
  reserved twice, at most \<open>max_turns\<close> turns are reserved, and the model requests and output
  tokens reserved in full for them never exceed the totals.
\<close>

theorem lease_never_overspends:
  fixes fs :: "bytes \<Rightarrow> TurnRequest option" and ho :: "bytes \<Rightarrow> hash"
    and tv :: "string \<times> string \<Rightarrow> bytes" and xs :: "LeaseOp list"
  assumes "ParentLease_new now parent lifetime limits max_turns reqs toks = Inr p"
  defines "ts \<equiv> reserved_turns (run_results (lease_step fs ho tv) p xs)"
  shows "distinct (map (turn_id \<circ> rt_request) ts)
       \<and> length ts \<le> max_turns \<and> max_turns \<le> 1024
       \<and> length ts * unat (model_requests limits) \<le> unat reqs
       \<and> length ts * unat (output_tokens limits) \<le> unat toks"
proof -
  note new = assms(1) [unfolded ParentLease_new_Ok]
  let ?q = "run_final (lease_step fs ho tv) p xs"
  have inv: "lease_inv max_turns reqs toks p" using assms(1) by (rule lease_inv_new)
  have seen: "pl_seen p = {}" using new by simp
  have "lease_inv max_turns reqs toks ?q"
    using inv by (intro run_final_inv [of "lease_inv max_turns reqs toks"] inv_intros)
  moreover have "card (pl_seen ?q) = length ts"
    unfolding ts_def by (rule run_reserved_card [OF inv seen])
  moreover have "pl_limits ?q = limits" using lease_run_frame [of fs ho tv p xs] new by simp
  ultimately have "pl_turns_left ?q + length ts = max_turns"
    "unat (pl_requests_left ?q) + length ts * unat (model_requests limits) = unat reqs"
    "unat (pl_tokens_left ?q) + length ts * unat (output_tokens limits) = unat toks"
    by (auto simp: lease_inv_def)
  with new run_reserved_seen [of fs ho tv p xs] show ?thesis unfolding ts_def by linarith
qed

definition sample_turn_limits :: TurnLimits where
  "sample_turn_limits = \<lparr>memory_bytes = 4096, timeout = 10, model_requests = 2, output_tokens = 64\<rparr>"

theorem lease_never_overspends_witness:
  "\<exists>p. ParentLease_new 0 (Hash ''p'') 100 sample_turn_limits 4 5 128 = Inr p
     \<and> length (reserved_turns (run_results
          (lease_step (\<lambda>_. Some sample_request) (\<lambda>b. Hash ''c'') frame_pair) p
          [OpReserve [1] 3, OpReserve [1] 4, OpConfirm (Hash ''c''), OpReserve [1] 5])) \<le> 4"
proof -
  obtain p where p: "ParentLease_new 0 (Hash ''p'') 100 sample_turn_limits 4 5 128 = Inr p"
    by (simp add: ParentLease_new_Ok sample_turn_limits_def instant_max_def)
  with lease_never_overspends [OF p] show ?thesis by blast
qed

text \<open>
  A reservation never reaches past the lease. A reserved turn is granted while the lease
  is open, with no other child active and a timeout that is positive and ends no later than
  the deadline; once the lease is stopped, or any operation has observed the deadline, no
  later sequence of operations reserves anything.
\<close>

theorem reservation_within_lease:
  assumes "timeout (pl_limits p) > 0"
  shows "(\<forall>p' t. reserve_at fs ho tv b now p = (p', Inr t) \<longrightarrow>
            now < pl_deadline p \<and> pl_active p = None
            \<and> 0 < timeout (rt_limits t) \<and> now + timeout (rt_limits t) \<le> pl_deadline p
            \<and> timeout (rt_limits t) \<le> timeout (pl_limits p)
            \<and> model_requests (rt_limits t) = model_requests (pl_limits p)
            \<and> output_tokens (rt_limits t) = output_tokens (pl_limits p))
       \<and> reserved_turns (run_results (lease_step fs ho tv) (fst (lease_stop p)) xs) = []
       \<and> (now \<ge> pl_deadline p \<longrightarrow>
            reserved_turns (run_results (lease_step fs ho tv) (fst (reserve_at fs ho tv b now p)) xs) = []
            \<and> reserved_turns (run_results (lease_step fs ho tv) (fst (lease_expired now p)) xs) = [])"
proof (intro conjI impI allI)
  fix p' t assume "reserve_at fs ho tv b now p = (p', Inr t)"
  then show "now < pl_deadline p" "pl_active p = None" "0 < timeout (rt_limits t)"
    "now + timeout (rt_limits t) \<le> pl_deadline p" "timeout (rt_limits t) \<le> timeout (pl_limits p)"
    "model_requests (rt_limits t) = model_requests (pl_limits p)"
    "output_tokens (rt_limits t) = output_tokens (pl_limits p)"
    using assms by (cases rule: reserve_at_Ok; auto)+
next
  show "reserved_turns (run_results (lease_step fs ho tv) (fst (lease_stop p)) xs) = []"
    by (rule stopped_reserves_nothing) (simp add: lease_stop_def)
next
  assume "now \<ge> pl_deadline p"
  then show "reserved_turns (run_results (lease_step fs ho tv) (fst (reserve_at fs ho tv b now p)) xs) = []"
    "reserved_turns (run_results (lease_step fs ho tv) (fst (lease_expired now p)) xs) = []"
    by (auto intro!: stopped_reserves_nothing simp: reserve_at_def lease_expired_def)
qed

definition sample_lease :: ParentLease where
  "sample_lease = \<lparr>pl_parent = Hash ''p'', pl_deadline = 100, pl_limits = sample_turn_limits,
     pl_turns_left = 4, pl_requests_left = 5, pl_tokens_left = 128, pl_seen = {}, pl_active = None,
     pl_stopped = False\<rparr>"

theorem reservation_within_lease_witness:
  "\<exists>p' t. reserve_at (\<lambda>_. Some sample_request) (\<lambda>b. Hash ''c'') frame_pair [1] 95 sample_lease = (p', Inr t)
     \<and> timeout (rt_limits t) = 5 \<and> 95 + timeout (rt_limits t) \<le> pl_deadline sample_lease"
proof -
  have dec: "TurnRequest_decode (\<lambda>_. Some sample_request) [1] = Inr sample_request"
    by (simp add: TurnRequest_decode_def MAX_REQUEST_BYTES_def MAX_TASK_BYTES_def VERSION_def
        turn_id_ok_def task_ok_def sample_request_def rust_std trim_is_empty_def)
  obtain p' t where r: "reserve_at (\<lambda>_. Some sample_request) (\<lambda>b. Hash ''c'') frame_pair [1] 95 sample_lease = (p', Inr t)"
    and t: "timeout (rt_limits t) = 5"
    using dec by (simp add: reserve_at_def sample_lease_def sample_turn_limits_def Let_def)
  have "timeout (pl_limits sample_lease) > 0" by (simp add: sample_lease_def sample_turn_limits_def)
  from reservation_within_lease [OF this, where xs = "[]"] r t show ?thesis by blast
qed

text \<open>
  Distinct turns get distinct children. When the JSON framing of the pair is injective
  and the hash does not collide on the pairs of this parent and the turns it reserved, the
  child identities of a run are pairwise different.
\<close>

theorem children_distinct:
  assumes "inj tv"
    and "pl_seen p = {}"
    and "inj_on ho (tv ` ({hash_str (pl_parent p)} \<times> pl_seen (run_final (lease_step fs ho tv) p xs)))"
  shows "distinct (map rt_child (reserved_turns (run_results (lease_step fs ho tv) p xs)))"
proof -
  let ?ts = "reserved_turns (run_results (lease_step fs ho tv) p xs)"
  let ?id = "turn_id \<circ> rt_request"
  have ids: "distinct (map ?id ?ts)" "set (map ?id ?ts) = pl_seen (run_final (lease_step fs ho tv) p xs)"
    using run_reserved_seen [of fs ho tv p xs] assms(2) by auto
  have child: "rt_child t = child_identity ho tv (pl_parent p) (?id t)" if "t \<in> set ?ts" for t
    using reserved_children [OF that] by simp
  have "inj_on (child_identity ho tv (pl_parent p)) (set (map ?id ?ts))"
  proof (rule inj_onI)
    fix a b assume "a \<in> set (map ?id ?ts)" "b \<in> set (map ?id ?ts)"
      and "child_identity ho tv (pl_parent p) a = child_identity ho tv (pl_parent p) b"
    then have "tv (hash_str (pl_parent p), a) = tv (hash_str (pl_parent p), b)"
      using assms(3) ids(2) by (auto simp: child_identity_def dest!: inj_onD)
    with assms(1) show "a = b" by (auto dest: injD)
  qed
  with ids(1) have "distinct (map (child_identity ho tv (pl_parent p)) (map ?id ?ts))"
    by (simp only: distinct_map)
  moreover have "map (child_identity ho tv (pl_parent p)) (map ?id ?ts) = map rt_child ?ts"
    using child by simp
  ultimately show ?thesis by argo
qed

theorem children_distinct_witness:
  "inj frame_pair \<and> distinct (map rt_child (reserved_turns (run_results
      (lease_step (\<lambda>_. Some sample_request) frame_hash frame_pair) sample_lease [OpReserve [1] 3])))"
proof (intro conjI frame_pair_inj children_distinct)
  show "pl_seen sample_lease = {}" by (simp add: sample_lease_def)
qed (rule inj_on_subset [OF frame_hash_inj subset_UNIV])

end
