(* ===== verification/Control.thy ===== *)
theory Control
  imports Lease
begin

text \<open>
  \<open>celln-control/src/lib.rs\<close>: cooperative cancellation with inherited deadlines, and its use
  in \<open>celln-warden/src/parent_child_control.rs\<close>: the rendezvous through which exactly one
  child of a parent can be cancelled.

  A \<open>Control\<close> is an immutable chain of nodes (deadline, parent) shared by reference; the only
  mutable part is each node's atomic \<open>stop\<close> byte. The model keeps the chain as a datatype
  whose nodes name their byte in an explicit store. Every write to a byte is a
  compare-exchange from zero, one \<open>cas\<close> below. The clock is an argument: \<open>clk n\<close> is the
  instant read while the node of byte \<open>n\<close> is examined.
\<close>

section \<open>Control\<close>

datatype Stopped = Cancelled | Deadline

datatype Control = Control (ctl_stop: nat) (ctl_deadline: instant) (ctl_parent: "Control option")

type_synonym stops = "nat \<Rightarrow> u8"

definition cas :: "nat \<Rightarrow> u8 \<Rightarrow> stops \<Rightarrow> stops" where
  "cas n code st = (if st n = 0 then st(n := code) else st)"

definition Control_new :: "instant \<Rightarrow> nat \<Rightarrow> duration \<Rightarrow> Control option" where
  "Control_new now fresh lifetime =
     (case Instant_checked_add now lifetime of
        None \<Rightarrow> None
      | Some deadline \<Rightarrow> Some (Control fresh deadline None))"

definition Control_child :: "instant \<Rightarrow> nat \<Rightarrow> duration \<Rightarrow> Control \<Rightarrow> Control option" where
  "Control_child now fresh lifetime self =
     (case Instant_checked_add now lifetime of
        None \<Rightarrow> None
      | Some requested \<Rightarrow> Some (Control fresh (min requested (ctl_deadline self)) (Some self)))"

fun stop_code :: "Stopped \<Rightarrow> u8" where
  "stop_code Cancelled = 1"
| "stop_code Deadline = 2"

definition stop_of :: "u8 \<Rightarrow> Stopped option" where
  "stop_of b = (if b = 1 then Some Cancelled else if b = 2 then Some Deadline else None)"

definition observe_self :: "instant \<Rightarrow> nat \<Rightarrow> instant \<Rightarrow> stops \<Rightarrow> stops \<times> Stopped option" where
  "observe_self now n d st =
     (let st' = (if now \<ge> d then cas n 2 st else st) in (st', stop_of (st' n)))"

fun Control_reason :: "(nat \<Rightarrow> instant) \<Rightarrow> Control \<Rightarrow> stops \<Rightarrow> stops \<times> Stopped option" where
  "Control_reason clk (Control n d None) st = observe_self (clk n) n d st"
| "Control_reason clk (Control n d (Some p)) st =
     (case Control_reason clk p st of
        (st1, None) \<Rightarrow> observe_self (clk n) n d st1
      | (st1, Some r) \<Rightarrow> observe_self (clk n) n d (cas n (stop_code r) st1))"

definition Control_cancel :: "(nat \<Rightarrow> instant) \<Rightarrow> Control \<Rightarrow> stops \<Rightarrow> stops" where
  "Control_cancel clk c st = cas (ctl_stop c) 1 (fst (Control_reason clk c st))"

definition Control_check :: "(nat \<Rightarrow> instant) \<Rightarrow> Control \<Rightarrow> stops \<Rightarrow> stops \<times> (Stopped + unit)" where
  "Control_check clk c st =
     (case Control_reason clk c st of (st', Some r) \<Rightarrow> (st', Err r) | (st', None) \<Rightarrow> (st', Ok ()))"

definition Control_remaining :: "instant \<Rightarrow> Control \<Rightarrow> duration" where
  "Control_remaining now c = ctl_deadline c - now"

text \<open>
  \<open>scope\<close> installs the control in the thread-local slot for the duration of the closure and
  restores the previous one; the closure sees and may itself change the slot.
\<close>

definition Control_scope :: "Control \<Rightarrow> (Control option \<Rightarrow> Control option \<times> 't) \<Rightarrow> Control option \<Rightarrow> Control option \<times> 't" where
  "Control_scope c f current = (let (inner, r) = f (Some c) in (current, r))"

subsection \<open>Chains\<close>

fun ctl_chain :: "Control \<Rightarrow> nat list" where
  "ctl_chain (Control n d None) = [n]"
| "ctl_chain (Control n d (Some p)) = n # ctl_chain p"

text \<open>Nodes share no byte, and deadlines never grow towards the leaves.\<close>

fun ctl_wf :: "Control \<Rightarrow> bool" where
  "ctl_wf (Control n d None) = True"
| "ctl_wf (Control n d (Some p)) = (n \<notin> set (ctl_chain p) \<and> d \<le> ctl_deadline p \<and> ctl_wf p)"

lemma Control_child_wf:
  "ctl_wf p \<Longrightarrow> fresh \<notin> set (ctl_chain p) \<Longrightarrow> Control_child now fresh t p = Some c \<Longrightarrow>
     ctl_wf c \<and> ctl_parent c = Some p \<and> ctl_stop c = fresh \<and> ctl_deadline c \<le> ctl_deadline p"
  by (auto simp: Control_child_def split: option.splits)

lemma Control_new_wf: "Control_new now fresh t = Some c \<Longrightarrow> ctl_wf c \<and> ctl_chain c = [fresh]"
  by (auto simp: Control_new_def split: option.splits)

lemma ctl_chain_ne [simp]: "ctl_stop c \<in> set (ctl_chain c)"
  by (cases c rule: ctl_chain.cases) auto

subsection \<open>Bytes are write-once\<close>

definition stops_le :: "stops \<Rightarrow> stops \<Rightarrow> bool" where
  "stops_le a b \<longleftrightarrow> (\<forall>n. a n \<noteq> 0 \<longrightarrow> b n = a n)"

lemma stops_le_refl [simp]: "stops_le a a"
  by (simp add: stops_le_def)

lemma stops_le_trans: "stops_le a b \<Longrightarrow> stops_le b c \<Longrightarrow> stops_le a c"
  by (simp add: stops_le_def)

lemma stops_le_cas [simp]: "stops_le st (cas n code st)"
  by (simp add: stops_le_def cas_def)

lemma cas_other [simp]: "m \<noteq> n \<Longrightarrow> cas n code st m = st m"
  by (simp add: cas_def)

lemma observe_self_le: "stops_le st (fst (observe_self now n d st))"
  by (simp add: observe_self_def Let_def)

lemma observe_self_other: "m \<noteq> n \<Longrightarrow> fst (observe_self now n d st) m = st m"
  by (simp add: observe_self_def Let_def)

lemma Control_reason_le: "stops_le st (fst (Control_reason clk c st))"
proof (induction clk c st rule: Control_reason.induct)
  case (2 clk n d p st)
  have step: "stops_le st st1 \<Longrightarrow> stops_le st (fst (observe_self now n d (cas n code st1)))" for st1 now code
    using observe_self_le stops_le_cas stops_le_trans by blast
  from 2 show ?case
    by (auto split: prod.splits option.splits intro: step stops_le_trans observe_self_le)
qed (simp add: observe_self_le)

lemma Control_reason_other: "m \<notin> set (ctl_chain c) \<Longrightarrow> fst (Control_reason clk c st) m = st m"
proof (induction clk c st rule: Control_reason.induct)
  case (2 clk n d p st)
  then show ?case
    by (auto simp: observe_self_other split: prod.splits option.splits)
qed (simp add: observe_self_other)

lemma Control_cancel_le: "stops_le st (Control_cancel clk c st)"
  unfolding Control_cancel_def using Control_reason_le stops_le_cas stops_le_trans by blast

text \<open>
  The stop bytes hold only 0, 1 and 2. A node then reports a reason exactly when its byte is
  set after the observation.
\<close>

definition stops_ok :: "stops \<Rightarrow> bool" where
  "stops_ok st \<longleftrightarrow> (\<forall>n. st n \<in> {0, 1, 2})"

lemma stops_ok_cas: "stops_ok st \<Longrightarrow> code \<in> {0, 1, 2} \<Longrightarrow> stops_ok (cas n code st)"
  by (auto simp: stops_ok_def cas_def)

lemma stop_code_in [simp]: "stop_code r \<in> {0, 1, 2}" "stop_code r \<noteq> 0" "stop_of (stop_code r) = Some r"
  by (cases r; simp add: stop_of_def)+

lemma stops_ok_observe_self: "stops_ok st \<Longrightarrow> stops_ok (fst (observe_self now n d st))"
  by (simp add: observe_self_def Let_def stops_ok_cas)

lemma stops_ok_reason: "stops_ok st \<Longrightarrow> stops_ok (fst (Control_reason clk c st))"
proof (induction clk c st rule: Control_reason.induct)
  case (2 clk n d p st)
  then show ?case
    by (auto simp: stops_ok_observe_self stops_ok_cas simp del: stop_code_in(1) insert_iff
        split: prod.splits option.splits) (metis stop_code_in(1) stops_ok_cas stops_ok_observe_self)+
qed (simp add: stops_ok_observe_self)

lemma Control_reason_result:
  "snd (Control_reason clk c st) = stop_of (fst (Control_reason clk c st) (ctl_stop c))"
  by (cases c rule: ctl_chain.cases) (auto simp: observe_self_def Let_def split: prod.splits option.splits)

lemma stop_of_Some_iff: "stops_ok st \<Longrightarrow> stop_of (st n) = None \<longleftrightarrow> st n = 0"
  by (auto simp: stops_ok_def stop_of_def)

lemma stop_of_Some_imp: "stop_of b = Some r \<Longrightarrow> b \<noteq> 0"
  by (auto simp: stop_of_def split: if_splits)

text \<open>A reason once reported is reported by every later observation, whatever the clock.\<close>

lemma Control_reason_sticky:
  assumes "stop_of (st (ctl_stop c)) = Some r" "stops_le st st'"
  shows "snd (Control_reason clk c st') = Some r"
proof -
  have "st' (ctl_stop c) = st (ctl_stop c)" using assms stop_of_Some_imp by (auto simp: stops_le_def)
  moreover have "fst (Control_reason clk c st') (ctl_stop c) = st' (ctl_stop c)"
    using Control_reason_le [of st' clk c] calculation assms(1) stop_of_Some_imp
    by (auto simp: stops_le_def)
  ultimately show ?thesis using assms(1) by (simp add: Control_reason_result)
qed

text \<open>A stopped ancestor stops the node.\<close>

lemma Control_reason_parent:
  assumes "snd (Control_reason clk p st) = Some r"
  shows "snd (Control_reason clk (Control n d (Some p)) st) \<noteq> None \<or>
         (fst (Control_reason clk p st) n \<noteq> 0 \<and> fst (Control_reason clk p st) n \<notin> {1, 2})"
proof -
  obtain st1 where r: "Control_reason clk p st = (st1, Some r)"
    using assms by (cases "Control_reason clk p st") auto
  then show ?thesis
    by (cases r) (auto simp: observe_self_def Let_def cas_def stop_of_def)
qed

text \<open>With no stopped ancestor and no deadline reached, observing changes nothing.\<close>

fun ctl_open :: "(nat \<Rightarrow> instant) \<Rightarrow> Control \<Rightarrow> stops \<Rightarrow> bool" where
  "ctl_open clk (Control n d None) st = (st n = 0 \<and> clk n < d)"
| "ctl_open clk (Control n d (Some p)) st = (st n = 0 \<and> clk n < d \<and> ctl_open clk p st)"

lemma ctl_open_reason: "ctl_open clk c st \<Longrightarrow> Control_reason clk c st = (st, None)"
  by (induction clk c st rule: Control_reason.induct)
    (auto simp: observe_self_def Let_def stop_of_def)

lemma ctl_open_cong: "(\<And>m. m \<in> set (ctl_chain c) \<Longrightarrow> st m = st' m) \<Longrightarrow> ctl_open clk c st = ctl_open clk c st'"
  by (induction clk c st rule: Control_reason.induct) auto

lemma Control_reason_None_open:
  "stops_ok st \<Longrightarrow> ctl_wf c \<Longrightarrow> snd (Control_reason clk c st) = None \<Longrightarrow> ctl_open clk c st"
proof (induction clk c st rule: Control_reason.induct)
  case (1 clk n d st)
  then show ?case
    by (cases "clk n \<ge> d"; cases "st n = 0")
      (auto simp: observe_self_def Let_def cas_def stop_of_def stops_ok_def split: if_splits)
next
  case (2 clk n d p st)
  obtain st1 r where r: "Control_reason clk p st = (st1, r)" by fastforce
  have ok1: "stops_ok st1" using stops_ok_reason [OF "2.prems"(1), of clk p] r by simp
  show ?case
  proof (cases r)
    case (Some s)
    have "st1 n \<in> {0, 1, 2}" using ok1 by (simp add: stops_ok_def)
    then show ?thesis
      using "2.prems"(3) Control_reason_parent [of clk p st s n d] r Some by auto
  next
    case None
    then have p: "ctl_open clk p st" using "2.IH" "2.prems" r by simp
    then have "st1 = st" using ctl_open_reason r by fastforce
    with p None r "2.prems" ok1 show ?thesis
      by (cases "clk n \<ge> d"; cases "st n = 0")
        (auto simp: observe_self_def Let_def cas_def stop_of_def stops_ok_def split: if_splits)
  qed
qed

lemma Control_check_Ok_iff:
  "stops_ok st \<Longrightarrow> ctl_wf c \<Longrightarrow> Control_check clk c st = (st', Inr u) \<longleftrightarrow> ctl_open clk c st \<and> st' = st"
  using Control_reason_None_open [of st c clk] ctl_open_reason [of clk c st]
  by (cases "Control_reason clk c st")
    (auto simp: Control_check_def split: option.splits)

lemma Control_cancel_stops:
  assumes "stops_ok st"
  shows "Control_cancel clk c st (ctl_stop c) \<noteq> 0"
  by (simp add: Control_cancel_def cas_def)

lemma stops_ok_cancel: "stops_ok st \<Longrightarrow> stops_ok (Control_cancel clk c st)"
  by (simp add: Control_cancel_def stops_ok_cas stops_ok_reason)

section \<open>The child control slot\<close>

record Identity =
  id_parent :: hash
  id_turn :: string
  id_child :: hash

record SlotState =
  slot_active :: "(Identity \<times> Control) option"
  slot_seen :: "string set"

text \<open>
  \<open>slot_poisoned\<close> is the mutex: a panic inside a critical section would set it. None of the
  operations below contains a panicking step, so none sets it.
\<close>

record ChildControlSlot =
  slot_parent :: hash
  slot_control :: Control
  slot_state :: SlotState
  slot_poisoned :: bool

datatype SlotError =
    InvalidTurn | DiffersFromReservation | SlotUnavailable | ParentStopped
  | ActiveExhaustedOrRepeated | InvalidChildLifetime | NoRegisteredChild | IdentityMismatch

definition ChildControlSlot_new :: "hash \<Rightarrow> Control \<Rightarrow> ChildControlSlot" where
  "ChildControlSlot_new parent c =
     \<lparr>slot_parent = parent, slot_control = c,
      slot_state = \<lparr>slot_active = None, slot_seen = {}\<rparr>, slot_poisoned = False\<rparr>"

definition slot_register ::
  "(TurnRequest \<Rightarrow> bytes) \<Rightarrow> (bytes \<Rightarrow> TurnRequest option) \<Rightarrow> (bytes \<Rightarrow> hash) \<Rightarrow> (string \<times> string \<Rightarrow> bytes)
   \<Rightarrow> (nat \<Rightarrow> instant) \<Rightarrow> instant \<Rightarrow> nat \<Rightarrow> ReservedTurn
   \<Rightarrow> ChildControlSlot \<times> stops \<Rightarrow> (ChildControlSlot \<times> stops) \<times> (SlotError + Identity \<times> Control)" where
  "slot_register enc from_slice hash_of to_vec clk now fresh turn s =
     (let (slot, st) = s in
      case TurnRequest_decode from_slice (enc (rt_request turn)) of
        Inl _ \<Rightarrow> ((slot, st), Err InvalidTurn)
      | Inr _ \<Rightarrow>
          (let child = child_identity hash_of to_vec (slot_parent slot) (turn_id (rt_request turn))
           in if rt_parent turn \<noteq> slot_parent slot \<or> rt_child turn \<noteq> child \<or> timeout (rt_limits turn) = 0
              then ((slot, st), Err DiffersFromReservation)
              else if slot_poisoned slot then ((slot, st), Err SlotUnavailable)
              else (case Control_check clk (slot_control slot) st of
                      (st1, Inl _) \<Rightarrow> ((slot, st1), Err ParentStopped)
                    | (st1, Inr _) \<Rightarrow>
                        if slot_active (slot_state slot) \<noteq> None
                           \<or> card (slot_seen (slot_state slot)) \<ge> 1024
                           \<or> turn_id (rt_request turn) \<in> slot_seen (slot_state slot)
                        then ((slot, st1), Err ActiveExhaustedOrRepeated)
                        else (case Control_child now fresh (timeout (rt_limits turn)) (slot_control slot) of
                                None \<Rightarrow> ((slot, st1), Err InvalidChildLifetime)
                              | Some control \<Rightarrow>
                                  (let identity = \<lparr>id_parent = slot_parent slot,
                                         id_turn = turn_id (rt_request turn), id_child = child\<rparr>
                                   in ((slot\<lparr>slot_state :=
                                          \<lparr>slot_active = Some (identity, control),
                                           slot_seen = insert (id_turn identity) (slot_seen (slot_state slot))\<rparr>\<rparr>,
                                        st1(fresh := 0)),
                                       Ok (identity, control)))))))"

definition slot_cancel ::
  "(nat \<Rightarrow> instant) \<Rightarrow> Identity \<Rightarrow> ChildControlSlot \<times> stops \<Rightarrow> (ChildControlSlot \<times> stops) \<times> (SlotError + unit)" where
  "slot_cancel clk expected s =
     (let (slot, st) = s in
      if slot_poisoned slot then (s, Err SlotUnavailable)
      else (case slot_active (slot_state slot) of
              None \<Rightarrow> (s, Err NoRegisteredChild)
            | Some (identity, control) \<Rightarrow>
                if identity \<noteq> expected then (s, Err IdentityMismatch)
                else ((slot, Control_cancel clk control st), Ok ())))"

definition slot_retire ::
  "Identity \<Rightarrow> ChildControlSlot \<times> stops \<Rightarrow> (ChildControlSlot \<times> stops) \<times> (SlotError + unit)" where
  "slot_retire expected s =
     (let (slot, st) = s in
      if slot_poisoned slot then (s, Err SlotUnavailable)
      else (case slot_active (slot_state slot) of
              None \<Rightarrow> (s, Err IdentityMismatch)
            | Some (identity, control) \<Rightarrow>
                if identity \<noteq> expected then (s, Err IdentityMismatch)
                else ((slot\<lparr>slot_state := (slot_state slot)\<lparr>slot_active := None\<rparr>\<rparr>, st), Ok ())))"

definition slot_drop :: "(nat \<Rightarrow> instant) \<Rightarrow> ChildControlSlot \<Rightarrow> stops \<Rightarrow> stops" where
  "slot_drop clk slot st =
     (case slot_active (slot_state slot) of
        None \<Rightarrow> st
      | Some (identity, control) \<Rightarrow> Control_cancel clk control st)"

subsection \<open>Invariant\<close>

text \<open>
  The active child is this parent's, its turn is among the consumed ones, and its control
  hangs below the slot's own.
\<close>

definition slot_inv :: "ChildControlSlot \<times> stops \<Rightarrow> bool" where
  "slot_inv s \<longleftrightarrow>
     (let (slot, st) = s in
      stops_ok st \<and> ctl_wf (slot_control slot)
      \<and> finite (slot_seen (slot_state slot)) \<and> card (slot_seen (slot_state slot)) \<le> 1024
      \<and> (\<forall>i c. slot_active (slot_state slot) = Some (i, c) \<longrightarrow>
           id_parent i = slot_parent slot \<and> id_turn i \<in> slot_seen (slot_state slot)
           \<and> ctl_parent c = Some (slot_control slot) \<and> ctl_wf c))"

lemma slot_register_cases:
  assumes "slot_inv (slot, st)" "fresh \<notin> set (ctl_chain (slot_control slot))"
  shows "case slot_register enc fs ho tv clk now fresh turn (slot, st) of
     ((slot', st'), Inr (i, c)) \<Rightarrow>
        ctl_open clk (slot_control slot) st \<and> st' = st(fresh := 0)
        \<and> slot_active (slot_state slot) = None
        \<and> id_turn i = turn_id (rt_request turn) \<and> id_turn i \<notin> slot_seen (slot_state slot)
        \<and> id_parent i = slot_parent slot \<and> id_child i = rt_child turn
        \<and> card (slot_seen (slot_state slot)) < 1024
        \<and> Control_child now fresh (timeout (rt_limits turn)) (slot_control slot) = Some c
        \<and> slot' = slot\<lparr>slot_state := \<lparr>slot_active = Some (i, c),
                         slot_seen = insert (id_turn i) (slot_seen (slot_state slot))\<rparr>\<rparr>
   | ((slot', st'), Inl e) \<Rightarrow> slot' = slot \<and> stops_le st st' \<and> stops_ok st'"
proof -
  have ok: "stops_ok st" "ctl_wf (slot_control slot)" using assms by (simp_all add: slot_inv_def)
  obtain st1 r where ck: "Control_check clk (slot_control slot) st = (st1, r)" by fastforce
  then have st1: "stops_le st st1" "stops_ok st1"
    using Control_reason_le [of st clk "slot_control slot"] stops_ok_reason [OF ok(1), of clk "slot_control slot"]
    by (auto simp: Control_check_def split: prod.splits option.splits)
  show ?thesis
  proof (cases r)
    case (Inl e)
    then show ?thesis using ck st1 ok
      by (auto simp: slot_register_def Let_def split: sum.splits)
  next
    case (Inr u)
    then have "ctl_open clk (slot_control slot) st" "st1 = st"
      using Control_check_Ok_iff [OF ok, of clk st1 u] ck by auto
    then show ?thesis using ck Inr ok
      by (cases "slot_active (slot_state slot)")
        (auto simp: slot_register_def Let_def split: sum.splits option.splits)
  qed
qed

lemma stops_ok_fresh: "stops_ok st \<Longrightarrow> stops_ok (st(n := 0))"
  by (simp add: stops_ok_def)

lemma slot_inv_register:
  assumes "slot_inv (slot, st)" "fresh \<notin> set (ctl_chain (slot_control slot))"
  shows "slot_inv (fst (slot_register enc fs ho tv clk now fresh turn (slot, st)))"
proof -
  obtain slot' st' r where reg: "slot_register enc fs ho tv clk now fresh turn (slot, st) = ((slot', st'), r)"
    by (metis prod.exhaust)
  note c = slot_register_cases [OF assms, where enc = enc and fs = fs and ho = ho and tv = tv and clk = clk and now = now and turn = turn, unfolded reg]
  show ?thesis
  proof (cases r)
    case (Inl e)
    with c reg assms show ?thesis by (simp add: slot_inv_def)
  next
    case (Inr ic)
    obtain i ct where "ic = (i, ct)" by fastforce
    with c Inr reg assms show ?thesis
      using Control_child_wf [of "slot_control slot" fresh now "timeout (rt_limits turn)" ct]
      by (auto simp: slot_inv_def stops_ok_fresh)
  qed
qed

lemma slot_inv_cancel: "slot_inv s \<Longrightarrow> slot_inv (fst (slot_cancel clk i s))"
  by (cases s) (auto simp: slot_inv_def slot_cancel_def Let_def stops_ok_cancel split: option.splits)

lemma slot_inv_retire: "slot_inv s \<Longrightarrow> slot_inv (fst (slot_retire i s))"
  by (cases s) (auto simp: slot_inv_def slot_retire_def Let_def split: option.splits)

subsection \<open>Reachable slots\<close>

text \<open>
  Threads interleave on a slot: the owning runtime registers and retires, callers cancel, and
  anyone may observe or cancel a control, which only ever sets stop bytes. The log is the
  list of turns registered so far.
\<close>

inductive slot_reach ::
  "(TurnRequest \<Rightarrow> bytes) \<Rightarrow> (bytes \<Rightarrow> TurnRequest option) \<Rightarrow> (bytes \<Rightarrow> hash) \<Rightarrow> (string \<times> string \<Rightarrow> bytes)
   \<Rightarrow> ChildControlSlot \<times> stops \<Rightarrow> string list \<Rightarrow> bool"
  for enc fs ho tv where
  start: "ctl_wf c \<Longrightarrow> stops_ok st \<Longrightarrow> slot_reach enc fs ho tv (ChildControlSlot_new parent c, st) []"
| registers: "slot_reach enc fs ho tv (slot, st) ts \<Longrightarrow> fresh \<notin> set (ctl_chain (slot_control slot)) \<Longrightarrow>
     slot_register enc fs ho tv clk now fresh turn (slot, st) = (s', Inr (i, c)) \<Longrightarrow>
     slot_reach enc fs ho tv s' (ts @ [id_turn i])"
| refuses: "slot_reach enc fs ho tv (slot, st) ts \<Longrightarrow> fresh \<notin> set (ctl_chain (slot_control slot)) \<Longrightarrow>
     slot_register enc fs ho tv clk now fresh turn (slot, st) = (s', Inl e) \<Longrightarrow>
     slot_reach enc fs ho tv s' ts"
| cancels: "slot_reach enc fs ho tv s ts \<Longrightarrow> slot_reach enc fs ho tv (fst (slot_cancel clk i s)) ts"
| retires: "slot_reach enc fs ho tv s ts \<Longrightarrow> slot_reach enc fs ho tv (fst (slot_retire i s)) ts"
| observes: "slot_reach enc fs ho tv (slot, st) ts \<Longrightarrow> stops_le st st' \<Longrightarrow> stops_ok st' \<Longrightarrow>
     slot_reach enc fs ho tv (slot, st') ts"

lemma slot_reach_inv:
  "slot_reach enc fs ho tv s ts \<Longrightarrow>
     slot_inv s \<and> slot_seen (slot_state (fst s)) = set ts \<and> distinct ts"
proof (induction rule: slot_reach.induct)
  case (start c st parent)
  then show ?case by (simp add: slot_inv_def ChildControlSlot_new_def)
next
  case (registers slot st ts fresh clk now turn s' i c)
  obtain slot' st' where s': "s' = (slot', st')" by fastforce
  have "slot_inv (slot, st)" using registers by simp
  note inv = slot_inv_register [OF this registers.hyps(2), where enc = enc and fs = fs and ho = ho and tv = tv and clk = clk and now = now and turn = turn]
    and c = slot_register_cases [OF this registers.hyps(2), where enc = enc and fs = fs and ho = ho and tv = tv and clk = clk and now = now and turn = turn]
  show ?case using registers inv c s' by auto
next
  case (refuses slot st ts fresh clk now turn s' e)
  obtain slot' st' where s': "s' = (slot', st')" by fastforce
  have "slot_inv (slot, st)" using refuses by simp
  note inv = slot_inv_register [OF this refuses.hyps(2), where enc = enc and fs = fs and ho = ho and tv = tv and clk = clk and now = now and turn = turn]
    and c = slot_register_cases [OF this refuses.hyps(2), where enc = enc and fs = fs and ho = ho and tv = tv and clk = clk and now = now and turn = turn]
  show ?case using refuses inv c s' by auto
next
  case (cancels s ts clk i)
  then show ?case
    using slot_inv_cancel [of s clk i]
    by (cases s) (auto simp: slot_cancel_def Let_def split: option.splits)
next
  case (retires s ts i)
  then show ?case
    using slot_inv_retire [of s i]
    by (cases s) (auto simp: slot_retire_def Let_def split: option.splits)
next
  case (observes slot st ts st')
  then show ?case by (auto simp: slot_inv_def)
qed

section \<open>Properties\<close>

text \<open>
  Lifetimes are inherited. A child control never has a later deadline than its parent,
  and once the parent is stopped, by cancellation or deadline, every later check of the
  child fails, whatever the child's own clock reads.
\<close>

theorem child_lifetime_inherited:
  assumes "Control_child now fresh t p = Some c" "stops_ok st" "ctl_wf p" "fresh \<notin> set (ctl_chain p)"
  shows "ctl_deadline c \<le> ctl_deadline p
       \<and> (snd (Control_reason clk p st) \<noteq> None \<longrightarrow> is_err (snd (Control_check clk c st)))"
proof -
  have c: "c = Control fresh (ctl_deadline c) (Some p)"
    using assms(1) by (auto simp: Control_child_def split: option.splits)
  have "snd (Control_reason clk c st) \<noteq> None" if r: "snd (Control_reason clk p st) = Some r" for r
  proof -
    have "fst (Control_reason clk p st) fresh \<in> {0, 1, 2}"
      using stops_ok_reason [OF assms(2), of clk p] by (simp add: stops_ok_def)
    then show ?thesis
      using Control_reason_parent [OF r, of fresh "ctl_deadline c"] c by auto
  qed
  then show ?thesis
    using assms(1) by (auto simp: Control_check_def Control_child_def split: prod.splits option.splits)
qed

theorem child_lifetime_inherited_witness:
  "\<exists>c. Control_child 5 1 50 (Control 0 20 None) = Some c \<and> ctl_deadline c = 20
     \<and> is_err (snd (Control_check (\<lambda>_. 7) c ((\<lambda>_. 0)(0 := 1))))"
proof -
  obtain c where c: "Control_child 5 1 50 (Control 0 20 None) = Some c" "ctl_deadline c = 20"
    by (simp add: Control_child_def Instant_checked_add_def instant_max_def)
  have "snd (Control_reason (\<lambda>_. 7) (Control 0 20 None) ((\<lambda>_. 0)(0 := 1))) \<noteq> None"
    by (simp add: observe_self_def stop_of_def)
  then show ?thesis
    using c child_lifetime_inherited [OF c(1), of "(\<lambda>_. 0)(0 := 1)" "\<lambda>_. 7"] by (auto simp: stops_ok_def)
qed

text \<open>
  The first reason is final. Whatever observations and cancellations follow, in any
  order and at any clock, a control that has reported a reason reports the same reason.
\<close>

theorem stop_reason_is_final:
  assumes "snd (Control_reason clk c st) = Some r"
    and "stops_le (fst (Control_reason clk c st)) st'"
  shows "snd (Control_reason clk' c st') = Some r
       \<and> snd (Control_reason clk'' c (Control_cancel clk' d st')) = Some r"
proof -
  have b: "stop_of (fst (Control_reason clk c st) (ctl_stop c)) = Some r"
    using assms(1) by (simp add: Control_reason_result)
  show ?thesis
    using Control_reason_sticky [OF b assms(2)]
      Control_reason_sticky [OF b stops_le_trans [OF assms(2) Control_cancel_le]] by simp
qed

theorem stop_reason_is_final_witness:
  "snd (Control_reason (\<lambda>_. 99) (Control 0 20 None) (Control_cancel (\<lambda>_. 7) (Control 0 20 None) (\<lambda>_. 0))) = Some Cancelled"
proof -
  let ?c = "Control 0 20 None" and ?st = "Control_cancel (\<lambda>_. 7) (Control 0 20 None) (\<lambda>_. 0)"
  have "snd (Control_reason (\<lambda>_. 7) ?c ?st) = Some Cancelled"
    by (simp add: Control_cancel_def observe_self_def cas_def stop_of_def)
  moreover have "stops_le (fst (Control_reason (\<lambda>_. 7) ?c ?st)) ?st"
    by (simp add: Control_cancel_def observe_self_def cas_def stop_of_def)
  ultimately show ?thesis using stop_reason_is_final by blast
qed

text \<open>
  Turns are consumed once. In every interleaving of registrations, cancellations,
  retirements and control activity on a slot, the registered turns are pairwise distinct, at
  most 1024 of them are ever registered, and the active child belongs to this parent and to
  one of them.
\<close>

theorem slot_turns_consumed_once:
  assumes "slot_reach enc fs ho tv (slot, st) ts"
  shows "distinct ts \<and> length ts \<le> 1024
       \<and> (\<forall>i c. slot_active (slot_state slot) = Some (i, c) \<longrightarrow>
            id_parent i = slot_parent slot \<and> id_turn i \<in> set ts
            \<and> ctl_deadline c \<le> ctl_deadline (slot_control slot))"
proof -
  note r = slot_reach_inv [OF assms]
  have "card (set ts) \<le> 1024" using r by (auto simp: slot_inv_def)
  moreover have "ctl_deadline c \<le> ctl_deadline p" if "ctl_wf c" "ctl_parent c = Some p" for c p
    using that by (cases c) auto
  ultimately show ?thesis using r by (auto simp: slot_inv_def distinct_card)
qed

definition sample_reserved :: ReservedTurn where
  "sample_reserved = \<lparr>rt_parent = Hash ''p'', rt_child = frame_hash (frame_pair (''p'', ''t-1'')),
     rt_request = sample_request, rt_limits = sample_turn_limits\<rparr>"

lemma sample_slot_registers:
  "\<exists>s i c. slot_register (\<lambda>_. [1]) (\<lambda>_. Some sample_request) frame_hash frame_pair (\<lambda>_. 7) 7 1 sample_reserved
       (ChildControlSlot_new (Hash ''p'') (Control 0 20 None), \<lambda>_. 0) = (s, Inr (i, c)) \<and> id_turn i = ''t-1''"
proof -
  have "TurnRequest_decode (\<lambda>_. Some sample_request) [1] = Inr sample_request"
    by (simp add: TurnRequest_decode_def MAX_REQUEST_BYTES_def MAX_TASK_BYTES_def VERSION_def
        turn_id_ok_def task_ok_def sample_request_def rust_std trim_is_empty_def)
  then show ?thesis
    by (simp add: slot_register_def sample_reserved_def ChildControlSlot_new_def child_identity_def
        Control_check_def observe_self_def stop_of_def Control_child_def sample_turn_limits_def
        sample_request_def Instant_checked_add_def instant_max_def Let_def)
qed

theorem slot_turns_consumed_once_witness:
  "\<exists>slot st. slot_reach (\<lambda>_. [1]) (\<lambda>_. Some sample_request) frame_hash frame_pair (slot, st) [''t-1'']
     \<and> (\<forall>i c. slot_active (slot_state slot) = Some (i, c) \<longrightarrow> id_turn i \<in> set [''t-1''])"
proof -
  obtain s i c where reg: "slot_register (\<lambda>_. [1]) (\<lambda>_. Some sample_request) frame_hash frame_pair (\<lambda>_. 7) 7 1 sample_reserved
       (ChildControlSlot_new (Hash ''p'') (Control 0 20 None), \<lambda>_. 0) = (s, Inr (i, c))" and i: "id_turn i = ''t-1''"
    using sample_slot_registers by blast
  obtain slot st where s: "s = (slot, st)" by fastforce
  have "slot_reach (\<lambda>_. [1]) (\<lambda>_. Some sample_request) frame_hash frame_pair
      (ChildControlSlot_new (Hash ''p'') (Control 0 20 None), \<lambda>_. 0) []"
    by (rule slot_reach.start) (simp_all add: stops_ok_def)
  from slot_reach.registers [OF this _ reg] s i
  have "slot_reach (\<lambda>_. [1]) (\<lambda>_. Some sample_request) frame_hash frame_pair (slot, st) [''t-1'']"
    by (simp add: ChildControlSlot_new_def)
  with slot_turns_consumed_once [OF this] show ?thesis by blast
qed

text \<open>
  Cancellation is exact. A cancel that does not name the registered child changes
  nothing. One that does, on a parent whose own control is open, stops that child with
  \<open>Cancelled\<close> (when it was still running) and leaves the parent's control open.
\<close>

theorem exact_cancellation:
  assumes "slot_inv (slot, st)"
  shows "(\<forall>e s'. slot_cancel clk expected (slot, st) = (s', Inl e) \<longrightarrow> s' = (slot, st))
       \<and> (\<forall>slot' st' u. slot_cancel clk expected (slot, st) = ((slot', st'), Inr u) \<longrightarrow>
            slot' = slot
            \<and> (\<exists>c. slot_active (slot_state slot) = Some (expected, c)
                 \<and> snd (Control_reason clk' c st') \<noteq> None
                 \<and> (ctl_open clk c st \<longrightarrow> snd (Control_reason clk' c st') = Some Cancelled)
                 \<and> (ctl_open clk (slot_control slot) st \<longrightarrow> ctl_open clk (slot_control slot) st')))"
proof (intro conjI allI impI)
  fix e s' assume "slot_cancel clk expected (slot, st) = (s', Inl e)"
  then show "s' = (slot, st)" by (auto simp: slot_cancel_def split: if_splits option.splits)
next
  fix slot' st' u assume "slot_cancel clk expected (slot, st) = ((slot', st'), Inr u)"
  then obtain c where c: "slot_active (slot_state slot) = Some (expected, c)"
    and st': "st' = Control_cancel clk c st" and slot': "slot' = slot"
    by (auto simp: slot_cancel_def split: if_splits option.splits)
  have ok: "stops_ok st" and wf: "ctl_wf c" and par: "ctl_parent c = Some (slot_control slot)"
    using assms c by (auto simp: slot_inv_def)
  obtain n d where cn: "c = Control n d (Some (slot_control slot))" using par by (cases c) auto
  have ok': "stops_ok st'" using st' ok by (simp add: stops_ok_cancel)
  have ne: "stop_of (st' n) \<noteq> None"
    using Control_cancel_stops [OF ok, of clk c] stop_of_Some_iff [OF ok', of n] cn st' by simp
  have stopped: "snd (Control_reason clk' c st') = stop_of (st' n)"
    using ne Control_reason_sticky [of st' c _ st' clk'] cn by fastforce
  have cancelled: "stop_of (st' n) = Some Cancelled" if "ctl_open clk c st"
    using that ctl_open_reason [OF that] cn st' by (simp add: Control_cancel_def cas_def stop_of_def)
  have parent: "ctl_open clk (slot_control slot) st'" if o: "ctl_open clk (slot_control slot) st"
  proof -
    have "Control_reason clk (slot_control slot) st = (st, None)" using o by (rule ctl_open_reason)
    then have "st' m = st m" if "m \<in> set (ctl_chain (slot_control slot))" for m
      using that wf cn st'
      by (auto simp: Control_cancel_def observe_self_def Let_def cas_def)
    then show ?thesis using o ctl_open_cong [of "slot_control slot" st st'] by simp
  qed
  show "slot' = slot" by (rule slot')
  show "\<exists>c. slot_active (slot_state slot) = Some (expected, c)
                 \<and> snd (Control_reason clk' c st') \<noteq> None
                 \<and> (ctl_open clk c st \<longrightarrow> snd (Control_reason clk' c st') = Some Cancelled)
                 \<and> (ctl_open clk (slot_control slot) st \<longrightarrow> ctl_open clk (slot_control slot) st')"
    using c ne stopped cancelled parent by auto
qed

definition sample_identity :: Identity where
  "sample_identity = \<lparr>id_parent = Hash ''p'', id_turn = ''t'', id_child = Hash ''c''\<rparr>"

definition sample_slot :: ChildControlSlot where
  "sample_slot = \<lparr>slot_parent = Hash ''p'', slot_control = Control 0 20 None,
     slot_state = \<lparr>slot_active = Some (sample_identity, Control 1 10 (Some (Control 0 20 None))), slot_seen = {''t''}\<rparr>,
     slot_poisoned = False\<rparr>"

theorem exact_cancellation_witness:
  "\<exists>st'. slot_cancel (\<lambda>_. 7) sample_identity (sample_slot, \<lambda>_. 0) = ((sample_slot, st'), Inr ())
     \<and> snd (Control_reason (\<lambda>_. 8) (Control 1 10 (Some (Control 0 20 None))) st') = Some Cancelled
     \<and> ctl_open (\<lambda>_. 7) (Control 0 20 None) st'"
proof -
  obtain st' where c: "slot_cancel (\<lambda>_. 7) sample_identity (sample_slot, \<lambda>_. 0) = ((sample_slot, st'), Inr ())"
    by (simp add: slot_cancel_def sample_slot_def)
  have i: "slot_inv (sample_slot, \<lambda>_. 0)"
    by (simp add: slot_inv_def sample_slot_def sample_identity_def stops_ok_def)
  from exact_cancellation [OF i, of "\<lambda>_. 7" sample_identity "\<lambda>_. 8"] c show ?thesis
    by (auto simp: sample_slot_def)
qed

end
