(* ===== verification/Owner.thy ===== *)
theory Owner
  imports Control
begin

text \<open>
  \<open>celln-warden/src/parent_owner.rs\<close>: the serving thread that owns a persistent parent
  runtime, and the handle through which callers submit turns to it.

  The thread is a program counter and one function \<open>thread_step\<close> that performs the next
  atomic action of the closure passed to \<open>thread::Builder::spawn\<close>: one lock, one channel
  operation, one atomic store or one call of foreign code per step. What the environment
  decides in a step (the clock, the outcome of the runtime's constructor and handler, whether
  a receive timed out) is the argument \<open>env\<close>. A caller's \<open>submit\<close> is three atomic actions,
  so that concurrent submissions and the thread interleave freely in \<open>owner_reach\<close>.
\<close>

section \<open>State\<close>

datatype OwnerError =
    InitializationFailed string | OwnerStopped Stopped | InputExceedsBound | ExchangeActive
  | OwnerUnavailable | HandlerFailed string | ResponseExceedsBound | NoChildContract
  | ChildRefused SlotError | OwnerPanicked

type_synonym Reply = "OwnerError + bytes"

record Command =
  cmd_bytes :: bytes
  cmd_reply :: nat

datatype ThreadPc =
    TStart | TInit | TInitFailed string | TInitReject string
  | TLoop | TRecv | TServe Command | TRun Command | TCheckOutput Command bytes
  | TResult Command Reply | TRelease Command Reply | TReply Command Reply
  | TExit | TExitBusy | TFinished | TPanicked

text \<open>
  The handle and the shared cells behind its \<open>Arc\<close>s. \<open>ow_replies\<close> are the
  acknowledgements sent, \<open>ow_results\<close> the results of the turns taken from the queue, both
  in order, by reply channel. \<open>ow_sender\<close> says whether the handle still holds the sender.
\<close>

record ParentOwner =
  ow_control :: Control
  ow_busy :: bool
  ow_initialized :: bool
  ow_initialization_error :: "OwnerError option"
  ow_children :: "ChildControlSlot option"
  ow_queue :: "Command list"
  ow_sender :: bool
  ow_pc :: ThreadPc
  ow_results :: "(nat \<times> Reply) list"
  ow_replies :: "(nat \<times> Reply) list"

datatype 'a outcome = Returns 'a | Panics

record ThreadEnv =
  env_clock :: "nat \<Rightarrow> instant"
  env_initialize :: "(string + unit) outcome"
  env_runtime :: "(string + bytes) outcome"
  env_timeout :: bool

section \<open>Spawning\<close>

definition spawn_controlled :: "Control \<Rightarrow> ChildControlSlot option \<Rightarrow> ParentOwner" where
  "spawn_controlled control children =
     \<lparr>ow_control = control, ow_busy = False, ow_initialized = False,
      ow_initialization_error = None, ow_children = children, ow_queue = [], ow_sender = True,
      ow_pc = TStart, ow_results = [], ow_replies = []\<rparr>"

definition owner_spawn :: "instant \<Rightarrow> nat \<Rightarrow> duration \<Rightarrow> ParentOwner option" where
  "owner_spawn now fresh lifetime =
     (case Control_new now fresh lifetime of
        None \<Rightarrow> None
      | Some control \<Rightarrow> Some (spawn_controlled control None))"

definition spawn_with_children :: "hash \<Rightarrow> instant \<Rightarrow> nat \<Rightarrow> duration \<Rightarrow> ParentOwner option" where
  "spawn_with_children parent now fresh lifetime =
     (case Control_new now fresh lifetime of
        None \<Rightarrow> None
      | Some control \<Rightarrow>
          Some (spawn_controlled control (Some (ChildControlSlot_new parent control))))"

section \<open>The serving thread\<close>

definition init_reason :: "string \<Rightarrow> string" where
  "init_reason error = ''parent initialization failed: '' @ chars_take 512 error"

text \<open>The \<open>and_then\<close> after the handler returned: check the control again, then the bound.\<close>

definition bound_output :: "(nat \<Rightarrow> instant) \<Rightarrow> Control \<Rightarrow> bytes \<Rightarrow> stops \<Rightarrow> stops \<times> Reply" where
  "bound_output clk control output st =
     (case Control_check clk control st of
        (st', Inl e) \<Rightarrow> (st', Err (OwnerStopped e))
      | (st', Inr _) \<Rightarrow>
          (st', if length output > MAX_FRAME_BYTES then Err ResponseExceedsBound else Ok output))"

fun thread_step :: "ThreadEnv \<Rightarrow> ParentOwner \<times> stops \<Rightarrow> ParentOwner \<times> stops" where
  "thread_step env (ow, st) =
     (case ow_pc ow of
        TStart \<Rightarrow>
          (case Control_check (env_clock env) (ow_control ow) st of
             (st', Inl _) \<Rightarrow> (ow\<lparr>ow_pc := TExit\<rparr>, st')
           | (st', Inr _) \<Rightarrow> (ow\<lparr>ow_pc := TInit\<rparr>, st'))
      | TInit \<Rightarrow>
          (case env_initialize env of
             Panics \<Rightarrow> (ow\<lparr>ow_pc := TPanicked, ow_queue := []\<rparr>, st)
           | Returns (Inl error) \<Rightarrow>
               (ow\<lparr>ow_initialization_error := Some (InitializationFailed (init_reason error)),
                   ow_pc := TInitFailed (init_reason error)\<rparr>, st)
           | Returns (Inr _) \<Rightarrow> (ow\<lparr>ow_initialized := True, ow_pc := TLoop\<rparr>, st))
      | TInitFailed reason \<Rightarrow>
          (ow\<lparr>ow_pc := TInitReject reason\<rparr>, Control_cancel (env_clock env) (ow_control ow) st)
      | TInitReject reason \<Rightarrow>
          (case ow_queue ow of
             [] \<Rightarrow> (ow\<lparr>ow_pc := TExit\<rparr>, st)
           | command # rest \<Rightarrow>
               (ow\<lparr>ow_queue := rest, ow_pc := TExit,
                   ow_replies := ow_replies ow @ [(cmd_reply command, Err (InitializationFailed reason))]\<rparr>, st))
      | TLoop \<Rightarrow>
          (case Control_check (env_clock env) (ow_control ow) st of
             (st', Inl _) \<Rightarrow> (ow\<lparr>ow_pc := TExit\<rparr>, st')
           | (st', Inr _) \<Rightarrow> (ow\<lparr>ow_pc := TRecv\<rparr>, st'))
      | TRecv \<Rightarrow>
          (case ow_queue ow of
             command # rest \<Rightarrow> (ow\<lparr>ow_queue := rest, ow_pc := TServe command\<rparr>, st)
           | [] \<Rightarrow>
               if \<not> ow_sender ow then (ow\<lparr>ow_pc := TExit\<rparr>, st)
               else if env_timeout env then (ow\<lparr>ow_pc := TLoop\<rparr>, st)
               else (ow, st))
      | TServe command \<Rightarrow>
          (case Control_check (env_clock env) (ow_control ow) st of
             (st', Inl e) \<Rightarrow>
               (ow\<lparr>ow_pc := TResult command (Err (OwnerStopped e)),
                   ow_results := ow_results ow @ [(cmd_reply command, Err (OwnerStopped e))]\<rparr>, st')
           | (st', Inr _) \<Rightarrow> (ow\<lparr>ow_pc := TRun command\<rparr>, st'))
      | TRun command \<Rightarrow>
          (case env_runtime env of
             Panics \<Rightarrow> (ow\<lparr>ow_pc := TPanicked, ow_queue := []\<rparr>, st)
           | Returns (Inl error) \<Rightarrow>
               (ow\<lparr>ow_pc := TResult command (Err (HandlerFailed error)),
                   ow_results := ow_results ow @ [(cmd_reply command, Err (HandlerFailed error))]\<rparr>, st)
           | Returns (Inr output) \<Rightarrow> (ow\<lparr>ow_pc := TCheckOutput command output\<rparr>, st))
      | TCheckOutput command output \<Rightarrow>
          (case bound_output (env_clock env) (ow_control ow) output st of
             (st', result) \<Rightarrow>
               (ow\<lparr>ow_pc := TResult command result,
                   ow_results := ow_results ow @ [(cmd_reply command, result)]\<rparr>, st'))
      | TResult command result \<Rightarrow>
          (ow\<lparr>ow_pc := TRelease command result\<rparr>,
           if is_err result then Control_cancel (env_clock env) (ow_control ow) st else st)
      | TRelease command result \<Rightarrow>
          (ow\<lparr>ow_busy := False, ow_pc := TReply command result\<rparr>, st)
      | TReply command result \<Rightarrow>
          (ow\<lparr>ow_replies := ow_replies ow @ [(cmd_reply command, result)],
              ow_pc := (if is_err result then TExit else TLoop)\<rparr>, st)
      | TExit \<Rightarrow> (ow\<lparr>ow_pc := TExitBusy\<rparr>, Control_cancel (env_clock env) (ow_control ow) st)
      | TExitBusy \<Rightarrow> (ow\<lparr>ow_busy := False, ow_pc := TFinished, ow_queue := []\<rparr>, st)
      | TFinished \<Rightarrow> (ow, st)
      | TPanicked \<Rightarrow> (ow, st))"

section \<open>The handle\<close>

definition receiver_gone :: "ParentOwner \<Rightarrow> bool" where
  "receiver_gone ow = (ow_pc ow = TFinished \<or> ow_pc ow = TPanicked)"

text \<open>The checks of \<open>submit\<close>, the compare-exchange on \<open>busy\<close>, and \<open>try_send\<close>.\<close>

definition submit_check ::
  "(nat \<Rightarrow> instant) \<Rightarrow> bytes \<Rightarrow> ParentOwner \<times> stops \<Rightarrow> stops \<times> (OwnerError + unit)" where
  "submit_check clk bytes s =
     (let (ow, st) = s in
      case ow_initialization_error ow of
        Some e \<Rightarrow> (st, Err e)
      | None \<Rightarrow>
          (case Control_check clk (ow_control ow) st of
             (st', Inl e) \<Rightarrow> (st', Err (OwnerStopped e))
           | (st', Inr _) \<Rightarrow>
               (st', if bytes = [] \<or> length bytes > MAX_FRAME_BYTES then Err InputExceedsBound else Ok ())))"

definition submit_claim :: "ParentOwner \<Rightarrow> ParentOwner \<times> (OwnerError + unit)" where
  "submit_claim ow = (if ow_busy ow then (ow, Err ExchangeActive) else (ow\<lparr>ow_busy := True\<rparr>, Ok ()))"

definition submit_send :: "bytes \<Rightarrow> nat \<Rightarrow> ParentOwner \<Rightarrow> ParentOwner \<times> (OwnerError + nat)" where
  "submit_send bytes reply ow =
     (if receiver_gone ow \<or> length (ow_queue ow) \<ge> 1
      then (ow\<lparr>ow_busy := False\<rparr>, Err OwnerUnavailable)
      else (ow\<lparr>ow_queue := ow_queue ow @ [\<lparr>cmd_bytes = bytes, cmd_reply = reply\<rparr>]\<rparr>, Ok reply))"

definition owner_submit ::
  "(nat \<Rightarrow> instant) \<Rightarrow> bytes \<Rightarrow> nat \<Rightarrow> ParentOwner \<times> stops
   \<Rightarrow> (ParentOwner \<times> stops) \<times> (OwnerError + nat)" where
  "owner_submit clk bytes reply s =
     (case submit_check clk bytes s of
        (st, Inl e) \<Rightarrow> ((fst s, st), Err e)
      | (st, Inr _) \<Rightarrow>
          (case submit_claim (fst s) of
             (ow, Inl e) \<Rightarrow> ((ow, st), Err e)
           | (ow, Inr _) \<Rightarrow>
               (case submit_send bytes reply ow of (ow', r) \<Rightarrow> ((ow', st), r))))"

definition owner_cancel :: "(nat \<Rightarrow> instant) \<Rightarrow> ParentOwner \<times> stops \<Rightarrow> ParentOwner \<times> stops" where
  "owner_cancel clk s = (fst s, Control_cancel clk (ow_control (fst s)) (snd s))"

definition owner_cancel_child ::
  "(nat \<Rightarrow> instant) \<Rightarrow> Identity \<Rightarrow> ParentOwner \<times> stops \<Rightarrow> (ParentOwner \<times> stops) \<times> (OwnerError + unit)" where
  "owner_cancel_child clk identity s =
     (let (ow, st) = s in
      case Control_check clk (ow_control ow) st of
        (st1, Inl e) \<Rightarrow> ((ow, st1), Err (OwnerStopped e))
      | (st1, Inr _) \<Rightarrow>
          (case ow_children ow of
             None \<Rightarrow> ((ow, st1), Err NoChildContract)
           | Some slot \<Rightarrow>
               (case slot_cancel clk identity (slot, st1) of
                  ((slot', st2), Inl e) \<Rightarrow> ((ow\<lparr>ow_children := Some slot'\<rparr>, st2), Err (ChildRefused e))
                | ((slot', st2), Inr _) \<Rightarrow> ((ow\<lparr>ow_children := Some slot'\<rparr>, st2), Ok ()))))"

datatype OwnerStatus = OInitializing | OReady | OTurnActive | OStopping | OContextLost

definition owner_is_finished :: "ParentOwner \<Rightarrow> bool" where
  "owner_is_finished ow = (ow_pc ow = TFinished \<or> ow_pc ow = TPanicked)"

definition owner_status :: "(nat \<Rightarrow> instant) \<Rightarrow> ParentOwner \<times> stops \<Rightarrow> stops \<times> OwnerStatus" where
  "owner_status clk s =
     (let (ow, st) = s in
      if owner_is_finished ow then (st, OContextLost)
      else (case Control_check clk (ow_control ow) st of
              (st', Inl _) \<Rightarrow> (st', OStopping)
            | (st', Inr _) \<Rightarrow>
                (st', if \<not> ow_initialized ow then OInitializing
                      else if ow_busy ow then OTurnActive
                      else OReady)))"

text \<open>
  \<open>stop_and_join\<close> cancels and blocks in \<open>join\<close>: it has no result until the thread has ended,
  which is \<open>None\<close> here, and then reports whether it ended by panic. \<open>Drop\<close> cancels and
  releases the sender.
\<close>

definition join_result :: "ParentOwner \<Rightarrow> (OwnerError + unit) option" where
  "join_result ow =
     (case ow_pc ow of TFinished \<Rightarrow> Some (Ok ()) | TPanicked \<Rightarrow> Some (Err OwnerPanicked) | _ \<Rightarrow> None)"

definition stop_and_join ::
  "(nat \<Rightarrow> instant) \<Rightarrow> ParentOwner \<times> stops \<Rightarrow> (ParentOwner \<times> stops) \<times> (OwnerError + unit) option" where
  "stop_and_join clk s = (owner_cancel clk s, join_result (fst s))"

definition owner_drop :: "(nat \<Rightarrow> instant) \<Rightarrow> ParentOwner \<times> stops \<Rightarrow> ParentOwner \<times> stops" where
  "owner_drop clk s = (fst s\<lparr>ow_sender := False\<rparr>, Control_cancel clk (ow_control (fst s)) (snd s))"

section \<open>Interleavings\<close>

text \<open>
  A submission attempt is identified by its reply channel and moves through the three atomic
  actions of \<open>submit\<close>; any number of attempts are in progress at once.
\<close>

datatype ClientPc = CNew | CChecked bytes | CClaimed bytes | CAccepted | CRefused OwnerError

type_synonym owner_system = "ParentOwner \<times> stops \<times> (nat \<Rightarrow> ClientPc)"

inductive owner_reach :: "owner_system \<Rightarrow> bool" where
  spawned: "owner_reach (spawn_controlled control children, st, \<lambda>_. CNew)"
| thread: "owner_reach (ow, st, cs) \<Longrightarrow> thread_step env (ow, st) = (ow', st') \<Longrightarrow> owner_reach (ow', st', cs)"
| checked: "owner_reach (ow, st, cs) \<Longrightarrow> cs i = CNew \<Longrightarrow> submit_check clk b (ow, st) = (st', Inr u) \<Longrightarrow>
     owner_reach (ow, st', cs(i := CChecked b))"
| check_fails: "owner_reach (ow, st, cs) \<Longrightarrow> cs i = CNew \<Longrightarrow> submit_check clk b (ow, st) = (st', Inl e) \<Longrightarrow>
     owner_reach (ow, st', cs(i := CRefused e))"
| claimed: "owner_reach (ow, st, cs) \<Longrightarrow> cs i = CChecked b \<Longrightarrow> submit_claim ow = (ow', Inr u) \<Longrightarrow>
     owner_reach (ow', st, cs(i := CClaimed b))"
| claim_fails: "owner_reach (ow, st, cs) \<Longrightarrow> cs i = CChecked b \<Longrightarrow> submit_claim ow = (ow', Inl e) \<Longrightarrow>
     owner_reach (ow', st, cs(i := CRefused e))"
| sent: "owner_reach (ow, st, cs) \<Longrightarrow> cs i = CClaimed b \<Longrightarrow> submit_send b i ow = (ow', Inr r) \<Longrightarrow>
     owner_reach (ow', st, cs(i := CAccepted))"
| send_fails: "owner_reach (ow, st, cs) \<Longrightarrow> cs i = CClaimed b \<Longrightarrow> submit_send b i ow = (ow', Inl e) \<Longrightarrow>
     owner_reach (ow', st, cs(i := CRefused e))"
| cancelled: "owner_reach (ow, st, cs) \<Longrightarrow> owner_reach (ow, Control_cancel clk c st, cs)"
| child_cancel: "owner_reach (ow, st, cs) \<Longrightarrow> owner_cancel_child clk i (ow, st) = ((ow', st'), r) \<Longrightarrow>
     owner_reach (ow', st', cs)"
| observed: "owner_reach (ow, st, cs) \<Longrightarrow> owner_status clk (ow, st) = (st', r) \<Longrightarrow> owner_reach (ow, st', cs)"
| dropped: "owner_reach (ow, st, cs) \<Longrightarrow> owner_drop clk (ow, st) = (ow', st') \<Longrightarrow> owner_reach (ow', st', cs)"

text \<open>The exchange in the thread's hands, and the turns that have been taken or answered.\<close>

fun pc_serving :: "ThreadPc \<Rightarrow> nat list" where
  "pc_serving (TServe c) = [cmd_reply c]"
| "pc_serving (TRun c) = [cmd_reply c]"
| "pc_serving (TCheckOutput c b) = [cmd_reply c]"
| "pc_serving (TResult c r) = [cmd_reply c]"
| "pc_serving (TRelease c r) = [cmd_reply c]"
| "pc_serving _ = []"

fun pc_unresolved :: "ThreadPc \<Rightarrow> nat list" where
  "pc_unresolved (TServe c) = [cmd_reply c]"
| "pc_unresolved (TRun c) = [cmd_reply c]"
| "pc_unresolved (TCheckOutput c b) = [cmd_reply c]"
| "pc_unresolved _ = []"

definition claimants :: "(nat \<Rightarrow> ClientPc) \<Rightarrow> nat set" where
  "claimants cs = {i. \<exists>b. cs i = CClaimed b}"

definition exchanges :: "ParentOwner \<Rightarrow> (nat \<Rightarrow> ClientPc) \<Rightarrow> nat" where
  "exchanges ow cs = card (claimants cs) + length (ow_queue ow) + length (pc_serving (ow_pc ow))"

text \<open>While the thread has not left its closure, \<open>busy\<close> accounts for every open exchange.\<close>

definition single_inv :: "ParentOwner \<Rightarrow> (nat \<Rightarrow> ClientPc) \<Rightarrow> bool" where
  "single_inv ow cs \<longleftrightarrow>
     finite (claimants cs)
     \<and> (ow_pc ow \<noteq> TFinished \<longrightarrow> exchanges ow cs \<le> (if ow_busy ow then 1 else 0))
     \<and> (receiver_gone ow \<longrightarrow> ow_queue ow = [])"

lemma claimants_upd_claimed [simp]: "claimants (cs(i := CClaimed b)) = insert i (claimants cs)"
  by (auto simp: claimants_def)

lemma claimants_upd_other [simp]:
  "(\<And>b. p \<noteq> CClaimed b) \<Longrightarrow> claimants (cs(i := p)) = claimants cs - {i}"
  by (auto simp: claimants_def)

lemma claimants_not [simp]: "cs i = CNew \<Longrightarrow> i \<notin> claimants cs" "cs i = CChecked b \<Longrightarrow> i \<notin> claimants cs"
  by (auto simp: claimants_def)

lemma claimants_mem: "cs i = CClaimed b \<Longrightarrow> i \<in> claimants cs"
  by (auto simp: claimants_def)

lemma card_claimants_remove:
  "finite (claimants cs) \<Longrightarrow> cs i = CClaimed b \<Longrightarrow> card (claimants cs) = Suc (card (claimants cs - {i}))"
  by (metis card_Suc_Diff1 claimants_mem)

lemma thread_step_single:
  "single_inv ow cs \<Longrightarrow> thread_step env (ow, st) = (ow', st') \<Longrightarrow> single_inv ow' cs"
  by (cases "ow_pc ow")
    (auto simp: single_inv_def exchanges_def receiver_gone_def
       split: prod.splits sum.splits outcome.splits list.splits if_splits)

lemma owner_reach_single: "owner_reach (ow, st, cs) \<Longrightarrow> single_inv ow cs"
proof (induction "(ow, st, cs)" arbitrary: ow st cs rule: owner_reach.induct)
  case (spawned control children st)
  show ?case by (simp add: single_inv_def exchanges_def spawn_controlled_def receiver_gone_def claimants_def)
next
  case (thread ow st cs env ow' st')
  then show ?case using thread_step_single by blast
next
  case (claimed ow st cs i b ow' u)
  then show ?case
    by (auto simp: single_inv_def exchanges_def submit_claim_def receiver_gone_def split: if_splits)
next
  case (claim_fails ow st cs i b ow' e)
  then show ?case
    by (auto simp: single_inv_def exchanges_def submit_claim_def receiver_gone_def split: if_splits)
next
  case (sent ow st cs i b ow' r)
  then show ?case
    using card_claimants_remove [of cs i b]
    by (auto simp: single_inv_def exchanges_def submit_send_def receiver_gone_def split: if_splits)
next
  case (send_fails ow st cs i b ow' e)
  then show ?case
    using card_claimants_remove [of cs i b]
    by (auto simp: single_inv_def exchanges_def submit_send_def receiver_gone_def split: if_splits)
next
  case (child_cancel ow st cs clk i ow' st' r)
  then show ?case
    by (auto simp: single_inv_def exchanges_def owner_cancel_child_def receiver_gone_def Let_def
        split: prod.splits sum.splits option.splits)
next
  case (dropped ow st cs clk ow' st')
  then show ?case by (auto simp: single_inv_def exchanges_def owner_drop_def receiver_gone_def)
qed (auto simp: single_inv_def exchanges_def)

text \<open>Turns reach the runtime once, are acknowledged once, and a failure is the last result.\<close>

fun pc_unreplied :: "ThreadPc \<Rightarrow> nat list" where
  "pc_unreplied (TReply c r) = [cmd_reply c]"
| "pc_unreplied p = pc_serving p"

fun pc_may_run :: "ThreadPc \<Rightarrow> bool" where
  "pc_may_run TStart = True"
| "pc_may_run TInit = True"
| "pc_may_run TLoop = True"
| "pc_may_run TRecv = True"
| "pc_may_run (TServe c) = True"
| "pc_may_run (TRun c) = True"
| "pc_may_run (TCheckOutput c b) = True"
| "pc_may_run _ = False"

fun pc_result :: "ThreadPc \<Rightarrow> (nat \<times> Reply) option" where
  "pc_result (TResult c r) = Some (cmd_reply c, r)"
| "pc_result (TRelease c r) = Some (cmd_reply c, r)"
| "pc_result (TReply c r) = Some (cmd_reply c, r)"
| "pc_result _ = None"

definition turn_ok :: "nat \<times> Reply \<Rightarrow> bool" where
  "turn_ok x = is_ok (snd x)"

lemma turn_ok_pair [simp]: "turn_ok (i, r) \<longleftrightarrow> is_ok r"
  by (simp add: turn_ok_def)

definition failure_inv :: "ParentOwner \<Rightarrow> bool" where
  "failure_inv ow \<longleftrightarrow>
     list_all turn_ok (butlast (ow_results ow))
     \<and> (pc_may_run (ow_pc ow) \<longrightarrow> list_all turn_ok (ow_results ow))
     \<and> (\<forall>x. pc_result (ow_pc ow) = Some x \<longrightarrow> ow_results ow \<noteq> [] \<and> last (ow_results ow) = x)"

lemma list_all_butlast_last:
  "list_all P (butlast xs) \<Longrightarrow> xs \<noteq> [] \<Longrightarrow> P (last xs) \<Longrightarrow> list_all P xs"
  by (cases xs rule: rev_cases) auto

lemma list_all_butlast: "list_all P xs \<Longrightarrow> list_all P (butlast xs)"
  by (auto simp: list_all_iff dest: in_set_butlastD)

lemma thread_step_failure:
  "failure_inv ow \<Longrightarrow> thread_step env (ow, st) = (ow', st') \<Longrightarrow> failure_inv ow'"
  by (cases "ow_pc ow"; cases "ow_queue ow"; cases "ow_results ow" rule: rev_cases)
    (auto simp: failure_inv_def is_err_iff butlast_append split: prod.splits sum.splits outcome.splits if_splits)

definition run_once :: "ParentOwner \<Rightarrow> bool" where
  "run_once ow \<longleftrightarrow>
     distinct (map fst (ow_results ow) @ pc_unresolved (ow_pc ow) @ map cmd_reply (ow_queue ow))"

definition reply_once :: "ParentOwner \<Rightarrow> bool" where
  "reply_once ow \<longleftrightarrow>
     distinct (map fst (ow_replies ow) @ pc_unreplied (ow_pc ow) @ map cmd_reply (ow_queue ow))"

definition turn_ids :: "ParentOwner \<Rightarrow> nat set" where
  "turn_ids ow = fst ` set (ow_results ow) \<union> fst ` set (ow_replies ow) \<union> set (pc_unreplied (ow_pc ow))
                 \<union> cmd_reply ` set (ow_queue ow)"

lemma thread_step_run_once: "run_once ow \<Longrightarrow> run_once (fst (thread_step env (ow, st)))"
  unfolding run_once_def
  by (cases "ow_pc ow"; cases "ow_queue ow")
    (simp_all split: prod.split sum.split outcome.split)

lemma thread_step_reply_once: "reply_once ow \<Longrightarrow> reply_once (fst (thread_step env (ow, st)))"
  unfolding reply_once_def
  by (cases "ow_pc ow"; cases "ow_queue ow")
    (simp_all split: prod.split sum.split outcome.split)

lemma thread_step_turn_ids: "turn_ids (fst (thread_step env (ow, st))) \<subseteq> turn_ids ow"
  unfolding turn_ids_def
  by (cases "ow_pc ow"; cases "ow_queue ow")
    (auto split: prod.split sum.split outcome.split)

definition once_inv :: "ParentOwner \<Rightarrow> (nat \<Rightarrow> ClientPc) \<Rightarrow> bool" where
  "once_inv ow cs \<longleftrightarrow> failure_inv ow \<and> run_once ow \<and> reply_once ow \<and> (\<forall>i\<in>turn_ids ow. cs i = CAccepted)"

lemma once_inv_thread:
  "once_inv ow cs \<Longrightarrow> thread_step env (ow, st) = (ow', st') \<Longrightarrow> once_inv ow' cs"
  using thread_step_failure [of ow env st ow' st'] thread_step_run_once [of ow env st]
    thread_step_reply_once [of ow env st] thread_step_turn_ids [of env ow st]
  by (auto simp: once_inv_def)

lemma once_inv_client:
  "once_inv ow cs \<Longrightarrow> cs i \<noteq> CAccepted \<Longrightarrow> once_inv ow (cs(i := p))"
  by (auto simp: once_inv_def)

lemma once_inv_cong:
  "once_inv ow cs \<Longrightarrow> ow_pc ow' = ow_pc ow \<Longrightarrow> ow_queue ow' = ow_queue ow \<Longrightarrow>
   ow_results ow' = ow_results ow \<Longrightarrow> ow_replies ow' = ow_replies ow \<Longrightarrow> once_inv ow' cs"
  by (simp add: once_inv_def failure_inv_def run_once_def reply_once_def turn_ids_def)

lemma once_inv_send:
  assumes "once_inv ow cs" "cs i = CClaimed b" "submit_send b i ow = (ow', Inr r)"
  shows "once_inv ow' (cs(i := CAccepted))"
proof -
  have i: "i \<notin> turn_ids ow" using assms by (auto simp: once_inv_def)
  have ow': "ow' = ow\<lparr>ow_queue := [\<lparr>cmd_bytes = b, cmd_reply = i\<rparr>]\<rparr>" "ow_queue ow = []"
    using assms(3) by (auto simp: submit_send_def Suc_le_eq split: if_splits)
  have "set (pc_unresolved p) \<subseteq> set (pc_unreplied p)" for p by (cases p) auto
  then have "run_once ow'" using i assms ow' by (force simp: once_inv_def run_once_def turn_ids_def)
  moreover have "reply_once ow'" using i assms ow' by (auto simp: once_inv_def reply_once_def turn_ids_def)
  ultimately show ?thesis using assms ow'
    by (auto simp: once_inv_def failure_inv_def turn_ids_def)
qed

lemma owner_reach_once: "owner_reach (ow, st, cs) \<Longrightarrow> once_inv ow cs"
proof (induction "(ow, st, cs)" arbitrary: ow st cs rule: owner_reach.induct)
  case (spawned control children st)
  show ?case
    by (simp add: once_inv_def failure_inv_def run_once_def reply_once_def turn_ids_def spawn_controlled_def)
next
  case (thread ow st cs env ow' st')
  then show ?case using once_inv_thread by blast
next
  case (sent ow st cs i b ow' r)
  then show ?case using once_inv_send by blast
next
  case (claimed ow st cs i b ow' u)
  then have "once_inv ow (cs(i := CClaimed b))" by (intro once_inv_client) auto
  then show ?case using claimed by (auto simp: submit_claim_def split: if_splits intro: once_inv_cong)
next
  case (claim_fails ow st cs i b ow' e)
  then have "once_inv ow (cs(i := CRefused e))" by (intro once_inv_client) auto
  then show ?case using claim_fails by (auto simp: submit_claim_def split: if_splits intro: once_inv_cong)
next
  case (send_fails ow st cs i b ow' e)
  then have "once_inv ow (cs(i := CRefused e))" by (intro once_inv_client) auto
  then show ?case using send_fails by (auto simp: submit_send_def split: if_splits intro: once_inv_cong)
next
  case (child_cancel ow st cs clk i ow' st' r)
  then show ?case
    by (auto simp: owner_cancel_child_def Let_def intro: once_inv_cong
        split: prod.splits sum.splits option.splits)
next
  case (dropped ow st cs clk ow' st')
  then show ?case by (auto simp: owner_drop_def intro: once_inv_cong)
qed (auto simp: once_inv_client)

section \<open>Teardown\<close>

text \<open>
  Once the control is stopped every further step of the thread makes progress to its end, a
  receive that has not yet timed out excepted.
\<close>

fun pc_rank :: "ThreadPc \<Rightarrow> nat" where
  "pc_rank TFinished = 0"
| "pc_rank TPanicked = 0"
| "pc_rank TExitBusy = 1"
| "pc_rank TExit = 2"
| "pc_rank TLoop = 3"
| "pc_rank (TInitReject r) = 3"
| "pc_rank (TInitFailed r) = 4"
| "pc_rank (TReply c r) = 4"
| "pc_rank (TRelease c r) = 5"
| "pc_rank (TResult c r) = 6"
| "pc_rank (TCheckOutput c b) = 7"
| "pc_rank (TRun c) = 8"
| "pc_rank (TServe c) = 9"
| "pc_rank TInit = 9"
| "pc_rank TRecv = 10"
| "pc_rank TStart = 10"

definition stopped_at :: "Control \<Rightarrow> stops \<Rightarrow> bool" where
  "stopped_at c st \<longleftrightarrow> stop_of (st (ctl_stop c)) \<noteq> None"

lemma stopped_at_mono: "stopped_at c st \<Longrightarrow> stops_le st st' \<Longrightarrow> stopped_at c st'"
  using stop_of_Some_imp by (fastforce simp: stopped_at_def stops_le_def)

lemma stopped_at_check:
  assumes "stopped_at c st"
  obtains st' e where "Control_check clk c st = (st', Inl e)" "stopped_at c st'"
proof -
  obtain r where "stop_of (st (ctl_stop c)) = Some r" using assms by (auto simp: stopped_at_def)
  then have "snd (Control_reason clk c st) = Some r" by (rule Control_reason_sticky) simp
  moreover have "stopped_at c (fst (Control_reason clk c st))"
    using assms Control_reason_le stopped_at_mono by blast
  ultimately show ?thesis
    using that by (cases "Control_reason clk c st") (auto simp: Control_check_def)
qed

lemma stopped_at_cancel: "stops_ok st \<Longrightarrow> stopped_at c (Control_cancel clk c st)"
  using Control_cancel_stops [of st clk c] stop_of_Some_iff [OF stops_ok_cancel, of st clk c]
  by (simp add: stopped_at_def)

lemma thread_step_progress:
  assumes "stopped_at (ow_control ow) st" "env_timeout env" "thread_step env (ow, st) = (ow', st')"
  shows "stopped_at (ow_control ow') st' \<and> pc_rank (ow_pc ow') \<le> pc_rank (ow_pc ow) - 1"
proof -
  obtain st1 e where ck: "Control_check (env_clock env) (ow_control ow) st = (st1, Inl e)" "stopped_at (ow_control ow) st1"
    using stopped_at_check [OF assms(1)] by blast
  have cn: "stopped_at (ow_control ow) (Control_cancel (env_clock env) (ow_control ow) st)"
    using assms(1) Control_cancel_le stopped_at_mono by blast
  show ?thesis
    using assms ck cn
    by (cases "ow_pc ow"; cases "ow_queue ow")
      (auto simp: bound_output_def split: outcome.splits sum.splits if_splits)
qed

definition thread_run :: "ThreadEnv list \<Rightarrow> ParentOwner \<times> stops \<Rightarrow> ParentOwner \<times> stops" where
  "thread_run envs s = fold thread_step envs s"

lemma thread_run_rank:
  "stopped_at (ow_control ow) st \<Longrightarrow> list_all env_timeout envs \<Longrightarrow>
     thread_run envs (ow, st) = (ow', st') \<Longrightarrow> pc_rank (ow_pc ow') \<le> pc_rank (ow_pc ow) - length envs"
proof (induction envs arbitrary: ow st)
  case (Cons env envs)
  obtain ow1 st1 where s: "thread_step env (ow, st) = (ow1, st1)" by fastforce
  have p: "stopped_at (ow_control ow1) st1 \<and> pc_rank (ow_pc ow1) \<le> pc_rank (ow_pc ow) - 1"
    using thread_step_progress [OF _ _ s] Cons.prems by simp
  then have "pc_rank (ow_pc ow') \<le> pc_rank (ow_pc ow1) - length envs"
    using Cons.IH [of ow1 st1] Cons.prems s by (simp add: thread_run_def del: thread_step.simps)
  also have "\<dots> \<le> pc_rank (ow_pc ow) - 1 - length envs" using p diff_le_mono by blast
  finally show ?case by simp
qed (simp add: thread_run_def)

lemma pc_rank_le: "pc_rank p \<le> 10"
  by (cases p) auto

lemma pc_rank_0: "pc_rank (ow_pc ow) = 0 \<Longrightarrow> join_result ow \<noteq> None"
  by (cases "ow_pc ow") (auto simp: join_result_def)

section \<open>Properties\<close>

text \<open>
  One exchange at a time. In every interleaving of submissions, cancellations and the
  serving thread, until the thread has left its closure at most one turn is claimed, queued or
  being served, \<open>busy\<close> is set while one is, and a claimed turn is accepted by the channel
  unless the thread has gone.
\<close>

theorem owner_single_exchange:
  assumes "owner_reach (ow, st, cs)" "ow_pc ow \<noteq> TFinished"
  shows "exchanges ow cs \<le> 1 \<and> (exchanges ow cs = 1 \<longrightarrow> ow_busy ow)
       \<and> (\<forall>i b. cs i = CClaimed b \<and> \<not> receiver_gone ow \<longrightarrow> snd (submit_send b i ow) = Inr i)"
proof -
  have inv: "single_inv ow cs" using owner_reach_single [OF assms(1)] .
  have "ow_queue ow = []" if "cs i = CClaimed b" for i b
    using inv assms(2) card_claimants_remove [of cs i b] that
    by (auto simp: single_inv_def exchanges_def split: if_splits)
  then show ?thesis using inv assms(2)
    by (auto simp: single_inv_def submit_send_def split: if_splits)
qed

definition sample_owner :: ParentOwner where
  "sample_owner = spawn_controlled (Control 0 20 None) None"

lemma sample_claim_reach:
  "owner_reach (sample_owner\<lparr>ow_busy := True\<rparr>, \<lambda>_. 0, (\<lambda>_. CNew)(0 := CClaimed [1]))"
proof -
  have 0: "owner_reach (sample_owner, \<lambda>_. 0, \<lambda>_. CNew)"
    unfolding sample_owner_def by (rule owner_reach.spawned)
  have "submit_check (\<lambda>_. 7) [1] (sample_owner, \<lambda>_. 0) = (\<lambda>_. 0, Inr ())"
    by (simp add: submit_check_def sample_owner_def spawn_controlled_def Control_check_def
        observe_self_def stop_of_def MAX_FRAME_BYTES_def MAX_REQUEST_BYTES_def MAX_MESSAGE_BYTES_def)
  from owner_reach.checked [OF 0 _ this, of 0]
  have 1: "owner_reach (sample_owner, \<lambda>_. 0, (\<lambda>_. CNew)(0 := CChecked [1]))" by simp
  have "submit_claim sample_owner = (sample_owner\<lparr>ow_busy := True\<rparr>, Inr ())"
    by (simp add: submit_claim_def sample_owner_def spawn_controlled_def)
  from owner_reach.claimed [OF 1 _ this, of 0] show ?thesis by simp
qed

theorem owner_single_exchange_witness:
  "owner_reach (sample_owner\<lparr>ow_busy := True\<rparr>, \<lambda>_. 0, (\<lambda>_. CNew)(0 := CClaimed [1]))
   \<and> snd (submit_send [1] 0 (sample_owner\<lparr>ow_busy := True\<rparr>)) = Inr 0"
proof -
  have "ow_pc (sample_owner\<lparr>ow_busy := True\<rparr>) \<noteq> TFinished" "\<not> receiver_gone (sample_owner\<lparr>ow_busy := True\<rparr>)"
    by (simp_all add: sample_owner_def spawn_controlled_def receiver_gone_def)
  then show ?thesis
    using owner_single_exchange [OF sample_claim_reach] sample_claim_reach by auto
qed

text \<open>
  C37: every turn runs and is acknowledged at most once, and a failure is final. In every
  interleaving, results and acknowledgements belong to pairwise distinct accepted turns; a
  failed turn is the last one the runtime ever sees, so no turn runs against a reset runtime.
\<close>

theorem owner_turns_once_and_failure_final:
  assumes "owner_reach (ow, st, cs)"
  shows "distinct (map fst (ow_results ow)) \<and> distinct (map fst (ow_replies ow))
       \<and> (\<forall>i \<in> fst ` set (ow_results ow) \<union> fst ` set (ow_replies ow). cs i = CAccepted)
       \<and> (\<forall>k < length (ow_results ow). is_err (snd (ow_results ow ! k)) \<longrightarrow>
            k = length (ow_results ow) - 1 \<and> \<not> pc_may_run (ow_pc ow))"
proof -
  have inv: "once_inv ow cs" using owner_reach_once [OF assms] .
  have "k = length (ow_results ow) - 1 \<and> \<not> pc_may_run (ow_pc ow)"
    if "k < length (ow_results ow)" "is_err (snd (ow_results ow ! k))" for k
  proof -
    have "\<not> turn_ok (ow_results ow ! k)" using that by (simp add: turn_ok_def is_err_iff)
    moreover have "turn_ok (ow_results ow ! k)" if "k < length (ow_results ow) - 1"
      using inv that nth_butlast [of k "ow_results ow"]
      by (simp add: once_inv_def failure_inv_def list_all_length) metis
    moreover have "turn_ok (ow_results ow ! k)" if "pc_may_run (ow_pc ow)"
      using inv that \<open>k < length (ow_results ow)\<close> by (simp add: once_inv_def failure_inv_def list_all_length)
    ultimately show ?thesis using \<open>k < length (ow_results ow)\<close> by linarith
  qed
  then show ?thesis using inv
    by (auto simp: once_inv_def run_once_def reply_once_def turn_ids_def)
qed

theorem owner_turns_once_and_failure_final_witness:
  "\<exists>ow st cs. owner_reach (ow, st, cs) \<and> ow_queue ow = [\<lparr>cmd_bytes = [1], cmd_reply = 0\<rparr>]
     \<and> distinct (map fst (ow_results ow))"
proof -
  have "submit_send [1] 0 (sample_owner\<lparr>ow_busy := True\<rparr>)
      = (sample_owner\<lparr>ow_busy := True, ow_queue := [\<lparr>cmd_bytes = [1], cmd_reply = 0\<rparr>]\<rparr>, Inr 0)"
    by (simp add: submit_send_def sample_owner_def spawn_controlled_def receiver_gone_def)
  from owner_reach.sent [OF sample_claim_reach _ this]
  have r: "owner_reach (sample_owner\<lparr>ow_busy := True, ow_queue := [\<lparr>cmd_bytes = [1], cmd_reply = 0\<rparr>]\<rparr>,
      \<lambda>_. 0, (\<lambda>_. CNew)(0 := CClaimed [1], 0 := CAccepted))" by simp
  show ?thesis using r owner_turns_once_and_failure_final [OF r] by fastforce
qed

text \<open>
  C38: a stop terminates. After \<open>stop_and_join\<close> has cancelled, ten further actions of the
  thread, whatever its handler and constructor return and provided its receives time out, end
  it: the join returns.
\<close>

theorem stop_and_join_returns:
  assumes "stops_ok st" "stop_and_join clk (ow, st) = (s, j)"
    and "list_all env_timeout envs" "10 \<le> length envs"
  shows "join_result (fst (thread_run envs s)) \<noteq> None"
proof -
  have s: "s = (ow, Control_cancel clk (ow_control ow) st)"
    using assms(2) by (auto simp: stop_and_join_def owner_cancel_def)
  obtain ow' st' where r: "thread_run envs s = (ow', st')" by fastforce
  have "pc_rank (ow_pc ow') \<le> pc_rank (ow_pc ow) - length envs"
    using thread_run_rank [OF stopped_at_cancel [OF assms(1)] assms(3)] r s by blast
  then have "pc_rank (ow_pc ow') = 0" using pc_rank_le [of "ow_pc ow"] assms(4) by simp
  then show ?thesis using r pc_rank_0 by simp
qed

theorem stop_and_join_returns_witness:
  "\<exists>s. stop_and_join (\<lambda>_. 7) (sample_owner, \<lambda>_. 0) = (s, None)
     \<and> join_result (fst (thread_run (replicate 10
          \<lparr>env_clock = \<lambda>_. 7, env_initialize = Returns (Inr ()), env_runtime = Panics, env_timeout = True\<rparr>) s)) \<noteq> None"
proof -
  obtain s where s: "stop_and_join (\<lambda>_. 7) (sample_owner, \<lambda>_. 0) = (s, None)"
    by (simp add: stop_and_join_def join_result_def sample_owner_def spawn_controlled_def)
  show ?thesis
    using s stop_and_join_returns [OF _ s, of "replicate 10
      \<lparr>env_clock = \<lambda>_. 7, env_initialize = Returns (Inr ()), env_runtime = Panics, env_timeout = True\<rparr>"]
    by (auto simp: stops_ok_def list_all_length)
qed

end
