(* ===== verification/Registry.thy ===== *)
theory Registry
  imports Owner Btree
begin

text \<open>
  \<open>celln-warden/src/parent_registry.rs\<close>: caller-scoped routing to live parent owners, with the
  memory and egress reservations of every owner charged until its thread has been joined.

  The registry's mutex makes each lock section one atomic function on the registry and the
  store of stop bytes. \<open>stop\<close> and \<open>reap_finished\<close> are two sections with a join between
  them, so owners in the hands of a joining caller are part of the reachable configurations
  below. A join blocks until the owner's thread has ended: the whole handlers take the
  thread's remaining actions as an argument and are \<open>None\<close> when those do not end it.
\<close>

section \<open>State\<close>

datatype RegStatus = Initializing | Ready | TurnActive | ContextLost | Stopping | RegStopped | TeardownUncertain

record RegEntry =
  en_principal :: string
  en_owner :: "ParentOwner option"
  en_status :: RegStatus
  en_bytes :: u64
  en_egress :: u32

record RegState =
  rs_entries :: "(string, RegEntry) btree"
  rs_bytes :: u64
  rs_egress :: u32
  rs_draining :: bool

text \<open>\<open>rg_poisoned\<close>: a panic occurred inside a lock section of the mutex.\<close>

record ParentRegistry =
  rg_state :: RegState
  rg_poisoned :: bool
  rg_max_entries :: nat
  rg_memory_bytes :: u64

record ReservedCapacity =
  rc_owners :: u32
  rc_memory_bytes :: u64
  rc_egress_slots :: u32

datatype RegError =
    RegistryUnavailable | InvalidCapacity | InvalidBinding | RegDraining | AlreadyClaimed
  | MemoryExhausted | RegistryExhausted | EgressExhausted | SpawnFailed | OwnerNotFound
  | OwnerLost | OwnerRefused OwnerError | OriginalOwnerUnavailable | TeardownPending
  | TeardownFailed OwnerError | DrainUncertain

definition registry_new :: "nat \<Rightarrow> u64 \<Rightarrow> RegError + ParentRegistry" where
  "registry_new max_entries memory =
     (if \<not> (1 \<le> max_entries \<and> max_entries \<le> 1024) \<or> memory = 0 then Err InvalidCapacity
      else Ok \<lparr>rg_state = \<lparr>rs_entries = [], rs_bytes = 0, rs_egress = 0, rs_draining = False\<rparr>,
               rg_poisoned = False, rg_max_entries = max_entries, rg_memory_bytes = memory\<rparr>)"

definition reg_entries :: "ParentRegistry \<Rightarrow> (string, RegEntry) btree" where
  "reg_entries reg = rs_entries (rg_state reg)"

definition update_entry :: "string \<Rightarrow> (RegEntry \<Rightarrow> RegEntry) \<Rightarrow> ParentRegistry \<Rightarrow> ParentRegistry" where
  "update_entry key f reg =
     reg\<lparr>rg_state := (rg_state reg)\<lparr>rs_entries := bt_adjust key f (reg_entries reg)\<rparr>\<rparr>"

definition put_owner :: "string \<Rightarrow> ParentOwner \<Rightarrow> ParentRegistry \<Rightarrow> ParentRegistry" where
  "put_owner key ow reg = update_entry key (\<lambda>e. e\<lparr>en_owner := Some ow\<rparr>) reg"

fun status_of_owner :: "OwnerStatus \<Rightarrow> RegStatus" where
  "status_of_owner OInitializing = Initializing"
| "status_of_owner OReady = Ready"
| "status_of_owner OTurnActive = TurnActive"
| "status_of_owner OStopping = Stopping"
| "status_of_owner OContextLost = ContextLost"

definition observed :: "(nat \<Rightarrow> instant) \<Rightarrow> RegEntry \<Rightarrow> stops \<Rightarrow> stops \<times> RegStatus" where
  "observed clk entry st =
     (case en_owner entry of
        Some ow \<Rightarrow> (case owner_status clk (ow, st) of (st', s) \<Rightarrow> (st', status_of_owner s))
      | None \<Rightarrow> (st, en_status entry))"

definition scoped :: "RegState \<Rightarrow> string \<Rightarrow> hash \<Rightarrow> RegError + RegEntry" where
  "scoped state who incarnation =
     (case bt_get (rs_entries state) (hash_str incarnation) of
        None \<Rightarrow> Err OwnerNotFound
      | Some e \<Rightarrow> if en_principal e = who then Ok e else Err OwnerNotFound)"

section \<open>Admission\<close>

definition insert_admitted ::
  "string \<Rightarrow> hash \<Rightarrow> u64 \<Rightarrow> u32 \<Rightarrow> ParentOwner option \<Rightarrow> ParentRegistry \<Rightarrow> ParentRegistry \<times> (RegError + unit)" where
  "insert_admitted who incarnation bytes egress spawned reg =
     (let state = rg_state reg in
      if who = [] \<or> length who > 512 \<or> bytes = 0 then (reg, Err InvalidBinding)
      else if rg_poisoned reg then (reg, Err RegistryUnavailable)
      else if rs_draining state then (reg, Err RegDraining)
      else if bt_contains_key (rs_entries state) (hash_str incarnation) then (reg, Err AlreadyClaimed)
      else case checked_add (rs_bytes state) bytes of
        None \<Rightarrow> (reg, Err MemoryExhausted)
      | Some sum_bytes \<Rightarrow>
          if length (rs_entries state) \<ge> rg_max_entries reg \<or> sum_bytes > rg_memory_bytes reg
          then (reg, Err RegistryExhausted)
          else (case checked_add (rs_egress state) egress of
                  None \<Rightarrow> (reg, Err EgressExhausted)
                | Some sum_egress \<Rightarrow>
                    (case spawned of
                       None \<Rightarrow> (reg, Err SpawnFailed)
                     | Some owner \<Rightarrow>
                         (reg\<lparr>rg_state :=
                            \<lparr>rs_entries = bt_insert (hash_str incarnation)
                               \<lparr>en_principal = who, en_owner = Some owner, en_status = Initializing,
                                en_bytes = bytes, en_egress = egress\<rparr> (rs_entries state),
                             rs_bytes = sum_bytes, rs_egress = sum_egress, rs_draining = rs_draining state\<rparr>\<rparr>,
                          Ok ()))))"

definition spawn_admitted ::
  "string \<Rightarrow> hash \<Rightarrow> instant \<Rightarrow> nat \<Rightarrow> duration \<Rightarrow> u64 \<Rightarrow> u32 \<Rightarrow> ParentRegistry \<Rightarrow> ParentRegistry \<times> (RegError + unit)" where
  "spawn_admitted who incarnation now fresh lifetime bytes egress reg =
     insert_admitted who incarnation bytes egress (owner_spawn now fresh lifetime) reg"

definition spawn_admitted_with_children ::
  "string \<Rightarrow> hash \<Rightarrow> instant \<Rightarrow> nat \<Rightarrow> duration \<Rightarrow> u64 \<Rightarrow> u32 \<Rightarrow> ParentRegistry \<Rightarrow> ParentRegistry \<times> (RegError + unit)" where
  "spawn_admitted_with_children who incarnation now fresh lifetime bytes egress reg =
     insert_admitted who incarnation bytes egress (spawn_with_children incarnation now fresh lifetime) reg"

definition spawn_admitted_with_child_broker ::
  "string \<Rightarrow> hash \<Rightarrow> instant \<Rightarrow> nat \<Rightarrow> duration \<Rightarrow> u64 \<Rightarrow> ParentRegistry \<Rightarrow> ParentRegistry \<times> (RegError + unit)" where
  "spawn_admitted_with_child_broker who incarnation now fresh lifetime bytes reg =
     insert_admitted who incarnation bytes 1 (spawn_with_children incarnation now fresh lifetime) reg"

section \<open>Routing\<close>

type_synonym reg_world = "ParentRegistry \<times> stops"

definition registry_submit ::
  "(nat \<Rightarrow> instant) \<Rightarrow> string \<Rightarrow> hash \<Rightarrow> bytes \<Rightarrow> nat \<Rightarrow> reg_world \<Rightarrow> reg_world \<times> (RegError + nat)" where
  "registry_submit clk who incarnation bytes reply w =
     (let (reg, st) = w in
      if rg_poisoned reg then (w, Err RegistryUnavailable)
      else case scoped (rg_state reg) who incarnation of
        Inl e \<Rightarrow> (w, Err e)
      | Inr entry \<Rightarrow>
          if rs_draining (rg_state reg) then (w, Err RegDraining)
          else (case en_owner entry of
                  None \<Rightarrow> (w, Err OwnerLost)
                | Some ow \<Rightarrow>
                    (case owner_submit clk bytes reply (ow, st) of
                       ((ow', st'), Inl e) \<Rightarrow> ((put_owner (hash_str incarnation) ow' reg, st'), Err (OwnerRefused e))
                     | ((ow', st'), Inr r) \<Rightarrow> ((put_owner (hash_str incarnation) ow' reg, st'), Ok r))))"

definition registry_status ::
  "(nat \<Rightarrow> instant) \<Rightarrow> string \<Rightarrow> hash \<Rightarrow> reg_world \<Rightarrow> reg_world \<times> (RegError + RegStatus)" where
  "registry_status clk who incarnation w =
     (let (reg, st) = w in
      if rg_poisoned reg then (w, Err RegistryUnavailable)
      else case scoped (rg_state reg) who incarnation of
        Inl e \<Rightarrow> (w, Err e)
      | Inr entry \<Rightarrow> (case observed clk entry st of (st', s) \<Rightarrow> ((reg, st'), Ok s)))"

fun observe_all :: "(nat \<Rightarrow> instant) \<Rightarrow> (string, RegEntry) btree \<Rightarrow> stops \<Rightarrow> stops \<times> (hash \<times> RegStatus) list" where
  "observe_all clk [] st = (st, [])"
| "observe_all clk ((key, entry) # m) st =
     (let (st1, s) = observed clk entry st; (st2, rest) = observe_all clk m st1
      in (st2, (Hash key, s) # rest))"

definition registry_statuses :: "(nat \<Rightarrow> instant) \<Rightarrow> reg_world \<Rightarrow> reg_world \<times> (RegError + (hash \<times> RegStatus) list)" where
  "registry_statuses clk w =
     (let (reg, st) = w in
      if rg_poisoned reg then (w, Err RegistryUnavailable)
      else (case observe_all clk (reg_entries reg) st of (st', l) \<Rightarrow> ((reg, st'), Ok l)))"

definition reserved_capacity :: "ParentRegistry \<Rightarrow> RegError + ReservedCapacity" where
  "reserved_capacity reg =
     (if rg_poisoned reg then Err RegistryUnavailable
      else Ok \<lparr>rc_owners = of_nat (length (filter (\<lambda>e. en_bytes e \<noteq> 0) (bt_values (reg_entries reg)))),
               rc_memory_bytes = rs_bytes (rg_state reg), rc_egress_slots = rs_egress (rg_state reg)\<rparr>)"

definition registry_cancel ::
  "(nat \<Rightarrow> instant) \<Rightarrow> string \<Rightarrow> hash \<Rightarrow> reg_world \<Rightarrow> reg_world \<times> (RegError + unit)" where
  "registry_cancel clk who incarnation w =
     (let (reg, st) = w in
      if rg_poisoned reg then (w, Err RegistryUnavailable)
      else case scoped (rg_state reg) who incarnation of
        Inl e \<Rightarrow> (w, Err e)
      | Inr entry \<Rightarrow>
          (case en_owner entry of
             None \<Rightarrow> (w, Ok ())
           | Some ow \<Rightarrow> ((reg, snd (owner_cancel clk (ow, st))), Ok ())))"

definition registry_cancel_child ::
  "(nat \<Rightarrow> instant) \<Rightarrow> string \<Rightarrow> Identity \<Rightarrow> reg_world \<Rightarrow> reg_world \<times> (RegError + unit)" where
  "registry_cancel_child clk who identity w =
     (let (reg, st) = w in
      if rg_poisoned reg then (w, Err RegistryUnavailable)
      else case scoped (rg_state reg) who (id_parent identity) of
        Inl e \<Rightarrow> (w, Err e)
      | Inr entry \<Rightarrow>
          (case en_owner entry of
             None \<Rightarrow> (w, Err OriginalOwnerUnavailable)
           | Some ow \<Rightarrow>
               (case owner_cancel_child clk identity (ow, st) of
                  ((ow', st'), Inl e) \<Rightarrow> ((put_owner (hash_str (id_parent identity)) ow' reg, st'), Err (OwnerRefused e))
                | ((ow', st'), Inr _) \<Rightarrow> ((put_owner (hash_str (id_parent identity)) ow' reg, st'), Ok ()))))"

section \<open>Teardown\<close>

text \<open>
  The second lock section of a teardown: release the reservation after a successful join, else
  keep it charged. \<open>get_mut(&key).unwrap()\<close> would panic, and poison the mutex, on a missing entry.
\<close>

definition settle :: "string \<Rightarrow> RegStatus \<Rightarrow> bool \<Rightarrow> ParentRegistry \<Rightarrow> ParentRegistry" where
  "settle key status joined reg =
     (case bt_get (reg_entries reg) key of
        None \<Rightarrow> reg\<lparr>rg_poisoned := True\<rparr>
      | Some e \<Rightarrow>
          if joined
          then reg\<lparr>rg_state := (rg_state reg)\<lparr>
                 rs_entries := bt_adjust key (\<lambda>e. e\<lparr>en_status := status, en_bytes := 0, en_egress := 0\<rparr>) (reg_entries reg),
                 rs_bytes := rs_bytes (rg_state reg) - en_bytes e,
                 rs_egress := rs_egress (rg_state reg) - en_egress e\<rparr>\<rparr>
          else update_entry key (\<lambda>e. e\<lparr>en_status := TeardownUncertain\<rparr>) reg)"

definition take_owner :: "RegEntry \<Rightarrow> RegEntry" where
  "take_owner e = e\<lparr>en_owner := None, en_status := Stopping\<rparr>"

definition stop_take ::
  "string \<Rightarrow> hash \<Rightarrow> ParentRegistry \<Rightarrow> ParentRegistry \<times> (RegError + ParentOwner option)" where
  "stop_take who incarnation reg =
     (if rg_poisoned reg then (reg, Err RegistryUnavailable)
      else case scoped (rg_state reg) who incarnation of
        Inl e \<Rightarrow> (reg, Err e)
      | Inr entry \<Rightarrow>
          if en_status entry = RegStopped \<or> (en_status entry = ContextLost \<and> en_bytes entry = 0)
          then (reg, Ok None)
          else (case en_owner entry of
                  None \<Rightarrow> (reg, Err TeardownPending)
                | Some ow \<Rightarrow> (update_entry (hash_str incarnation) take_owner reg, Ok (Some ow))))"

definition registry_stop ::
  "(nat \<Rightarrow> instant) \<Rightarrow> ThreadEnv list \<Rightarrow> string \<Rightarrow> hash \<Rightarrow> reg_world \<Rightarrow> (reg_world \<times> (RegError + unit)) option" where
  "registry_stop clk envs who incarnation w =
     (let (reg, st) = w in
      case stop_take who incarnation reg of
        (reg1, Inl e) \<Rightarrow> Some ((reg1, st), Err e)
      | (reg1, Inr None) \<Rightarrow> Some ((reg1, st), Ok ())
      | (reg1, Inr (Some ow)) \<Rightarrow>
          (case thread_run envs (owner_cancel clk (ow, st)) of
             (ow', st') \<Rightarrow>
               (case join_result ow' of
                  None \<Rightarrow> None
                | Some result \<Rightarrow>
                    (if rg_poisoned reg1 then Some ((reg1, st'), Err RegistryUnavailable)
                     else Some ((settle (hash_str incarnation) RegStopped (is_ok result) reg1, st'),
                            case result of Inl e \<Rightarrow> Err (TeardownFailed e) | Inr _ \<Rightarrow> Ok ())))))"

definition reap_take :: "ParentRegistry \<Rightarrow> ParentRegistry \<times> (string \<times> ParentOwner) list" where
  "reap_take reg =
     (let ready = (\<lambda>e. case en_owner e of None \<Rightarrow> False | Some ow \<Rightarrow> owner_is_finished ow)
      in (reg\<lparr>rg_state := (rg_state reg)\<lparr>rs_entries :=
                bt_map (\<lambda>_ e. if ready e then take_owner e else e) (reg_entries reg)\<rparr>\<rparr>,
          map (\<lambda>(key, e). (key, the (en_owner e))) (filter (\<lambda>(key, e). ready e) (reg_entries reg))))"

text \<open>The owners reaped have finished: their joins return at once.\<close>

fun reap_join ::
  "(nat \<Rightarrow> instant) \<Rightarrow> (string \<times> ParentOwner) list \<Rightarrow> reg_world \<Rightarrow> nat \<Rightarrow> reg_world \<times> (RegError + nat)" where
  "reap_join clk [] w released = (w, Ok released)"
| "reap_join clk ((key, ow) # rest) (reg, st) released =
     (let ((ow', st'), j) = stop_and_join clk (ow, st); joined = (j = Some (Ok ())) in
      if rg_poisoned reg then ((reg, st'), Err RegistryUnavailable)
      else reap_join clk rest (settle key ContextLost joined reg, st') (if joined then released + 1 else released))"

definition reap_finished :: "(nat \<Rightarrow> instant) \<Rightarrow> reg_world \<Rightarrow> reg_world \<times> (RegError + nat)" where
  "reap_finished clk w =
     (let (reg, st) = w in
      if rg_poisoned reg then (w, Err RegistryUnavailable)
      else (case reap_take reg of (reg1, finished) \<Rightarrow> reap_join clk finished (reg1, st) 0))"

fun cancel_all :: "(nat \<Rightarrow> instant) \<Rightarrow> (string, RegEntry) btree \<Rightarrow> stops \<Rightarrow> stops" where
  "cancel_all clk [] st = st"
| "cancel_all clk ((key, e) # m) st =
     cancel_all clk m (case en_owner e of None \<Rightarrow> st | Some ow \<Rightarrow> snd (owner_cancel clk (ow, st)))"

definition drain_close :: "(nat \<Rightarrow> instant) \<Rightarrow> reg_world \<Rightarrow> reg_world \<times> (string \<times> hash) list" where
  "drain_close clk w =
     (let (reg, st) = w in
      ((reg\<lparr>rg_state := (rg_state reg)\<lparr>rs_draining := True\<rparr>\<rparr>, cancel_all clk (reg_entries reg) st),
       map (\<lambda>(key, e). (en_principal e, Hash key)) (reg_entries reg)))"

fun drain_stops ::
  "(nat \<Rightarrow> instant) \<Rightarrow> (hash \<Rightarrow> ThreadEnv list) \<Rightarrow> (string \<times> hash) list \<Rightarrow> bool \<Rightarrow> reg_world
   \<Rightarrow> (reg_world \<times> bool) option" where
  "drain_stops clk envs [] uncertain w = Some (w, uncertain)"
| "drain_stops clk envs ((who, key) # rest) uncertain w =
     (case registry_stop clk (envs key) who key w of
        None \<Rightarrow> None
      | Some (w', r) \<Rightarrow> drain_stops clk envs rest (uncertain \<or> is_err r) w')"

definition registry_drain ::
  "(nat \<Rightarrow> instant) \<Rightarrow> (hash \<Rightarrow> ThreadEnv list) \<Rightarrow> reg_world \<Rightarrow> (reg_world \<times> (RegError + unit)) option" where
  "registry_drain clk envs w =
     (if rg_poisoned (fst w) then Some (w, Err RegistryUnavailable)
      else case drain_close clk w of
        (w1, owners) \<Rightarrow>
          (case drain_stops clk envs owners False w1 of
             None \<Rightarrow> None
           | Some (w2, uncertain) \<Rightarrow> Some (w2, if uncertain then Err DrainUncertain else Ok ())))"

definition is_draining :: "ParentRegistry \<Rightarrow> bool" where
  "is_draining reg = (if rg_poisoned reg then True else rs_draining (rg_state reg))"

section \<open>Configurations\<close>

text \<open>
  A configuration is the registry, the stop bytes, and the owners taken out by callers that
  are joining them, each with the status a successful join will record. The rules are the
  lock sections of every operation and the actions of the owners' threads, in any order.
\<close>

type_synonym reg_config = "ParentRegistry \<times> stops \<times> (string \<times> ParentOwner \<times> RegStatus) list"

inductive reg_step :: "reg_config \<Rightarrow> reg_config \<Rightarrow> bool" where
  admit: "insert_admitted who inc b eg spawned reg = (reg', r) \<Longrightarrow> reg_step (reg, st, js) (reg', st, js)"
| submit: "registry_submit clk who inc b reply (reg, st) = ((reg', st'), r) \<Longrightarrow> reg_step (reg, st, js) (reg', st', js)"
| status: "registry_status clk who inc (reg, st) = ((reg', st'), r) \<Longrightarrow> reg_step (reg, st, js) (reg', st', js)"
| statuses: "registry_statuses clk (reg, st) = ((reg', st'), r) \<Longrightarrow> reg_step (reg, st, js) (reg', st', js)"
| cancel: "registry_cancel clk who inc (reg, st) = ((reg', st'), r) \<Longrightarrow> reg_step (reg, st, js) (reg', st', js)"
| cancel_child: "registry_cancel_child clk who i (reg, st) = ((reg', st'), r) \<Longrightarrow> reg_step (reg, st, js) (reg', st', js)"
| drain: "\<not> rg_poisoned reg \<Longrightarrow> drain_close clk (reg, st) = ((reg', st'), l) \<Longrightarrow> reg_step (reg, st, js) (reg', st', js)"
| stop: "stop_take who inc reg = (reg', Inr (Some ow)) \<Longrightarrow>
     reg_step (reg, st, js) (reg', snd (owner_cancel clk (ow, st)), js @ [(hash_str inc, ow, RegStopped)])"
| reap: "\<not> rg_poisoned reg \<Longrightarrow> reap_take reg = (reg', l) \<Longrightarrow>
     reg_step (reg, st, js) (reg', st, js @ map (\<lambda>(k, ow). (k, ow, ContextLost)) l)"
| settles: "\<not> rg_poisoned reg \<Longrightarrow> join_result ow = Some r \<Longrightarrow>
     reg_step (reg, st, as @ (k, ow, s) # bs) (settle k s (is_ok r) reg, st, as @ bs)"
| thread_live: "bt_get (reg_entries reg) k = Some e \<Longrightarrow> en_owner e = Some ow \<Longrightarrow>
     thread_step env (ow, st) = (ow', st') \<Longrightarrow> reg_step (reg, st, js) (put_owner k ow' reg, st', js)"
| thread_joining: "thread_step env (ow, st) = (ow', st') \<Longrightarrow>
     reg_step (reg, st, as @ (k, ow, s) # bs) (reg, st', as @ (k, ow', s) # bs)"

definition bytes_sum :: "(string, RegEntry) btree \<Rightarrow> nat" where
  "bytes_sum m = sum_list (map (\<lambda>(k, e). unat (en_bytes e)) m)"

definition egress_sum :: "(string, RegEntry) btree \<Rightarrow> nat" where
  "egress_sum m = sum_list (map (\<lambda>(k, e). unat (en_egress e)) m)"

text \<open>
  What is charged for an entry: everything while it has an owner or a caller joins that
  owner, everything after an uncertain teardown, nothing after a confirmed one.
\<close>

definition entry_ok :: "bool \<Rightarrow> RegEntry \<Rightarrow> bool" where
  "entry_ok joining e \<longleftrightarrow>
     (if joining then en_owner e = None \<and> en_status e = Stopping \<and> en_bytes e \<noteq> 0
      else if en_owner e = None
      then (en_status e = TeardownUncertain \<and> en_bytes e \<noteq> 0)
           \<or> ((en_status e = RegStopped \<or> en_status e = ContextLost) \<and> en_bytes e = 0 \<and> en_egress e = 0)
      else en_bytes e \<noteq> 0)"

definition totals_ok :: "ParentRegistry \<Rightarrow> bool" where
  "totals_ok reg \<longleftrightarrow>
     bt_invar (reg_entries reg) \<and> \<not> rg_poisoned reg
     \<and> length (reg_entries reg) \<le> rg_max_entries reg
     \<and> unat (rs_bytes (rg_state reg)) = bytes_sum (reg_entries reg)
     \<and> unat (rs_egress (rg_state reg)) = egress_sum (reg_entries reg)
     \<and> rs_bytes (rg_state reg) \<le> rg_memory_bytes reg"

definition entries_ok :: "ParentRegistry \<Rightarrow> string set \<Rightarrow> bool" where
  "entries_ok reg J \<longleftrightarrow>
     (\<forall>k e. bt_get (reg_entries reg) k = Some e \<longrightarrow> entry_ok (k \<in> J) e)
     \<and> (\<forall>k\<in>J. bt_get (reg_entries reg) k \<noteq> None)"

definition reg_inv :: "reg_config \<Rightarrow> bool" where
  "reg_inv c \<longleftrightarrow>
     (let (reg, st, js) = c in
      totals_ok reg \<and> entries_ok reg (fst ` set js) \<and> distinct (map fst js)
      \<and> (\<forall>(k, ow, s) \<in> set js. s = RegStopped \<or> s = ContextLost))"

subsection \<open>Updates of one entry\<close>

lemma reg_entries_update [simp]: "reg_entries (update_entry k f reg) = bt_adjust k f (reg_entries reg)"
  by (simp add: update_entry_def reg_entries_def)

lemma update_entry_fields [simp]:
  "rg_poisoned (update_entry k f reg) = rg_poisoned reg"
  "rg_max_entries (update_entry k f reg) = rg_max_entries reg"
  "rg_memory_bytes (update_entry k f reg) = rg_memory_bytes reg"
  "rs_bytes (rg_state (update_entry k f reg)) = rs_bytes (rg_state reg)"
  "rs_egress (rg_state (update_entry k f reg)) = rs_egress (rg_state reg)"
  "rs_draining (rg_state (update_entry k f reg)) = rs_draining (rg_state reg)"
  by (simp_all add: update_entry_def)

lemma bt_map_sums:
  assumes "\<And>k e. en_bytes (f k e) = en_bytes e" "\<And>k e. en_egress (f k e) = en_egress e"
  shows "bytes_sum (bt_map f m) = bytes_sum m" "egress_sum (bt_map f m) = egress_sum m"
  by (simp_all add: bytes_sum_def egress_sum_def bt_sum_map assms)

lemma totals_ok_update:
  assumes "totals_ok reg" "\<And>e. en_bytes (f e) = en_bytes e" "\<And>e. en_egress (f e) = en_egress e"
  shows "totals_ok (update_entry k f reg)"
  using assms(1) bt_map_sums [of "\<lambda>j v. if j = k then f v else v" "reg_entries reg"] assms(2,3)
  by (simp add: totals_ok_def bt_adjust_def)

lemma entries_okD: "entries_ok reg J \<Longrightarrow> bt_get (reg_entries reg) k = Some e \<Longrightarrow> entry_ok (k \<in> J) e"
  by (simp add: entries_ok_def)

lemma entries_ok_adjust:
  assumes "entries_ok reg J" "bt_get (reg_entries reg) k = Some e" "entry_ok (k \<in> J') (f e)"
    and "J' - {k} = J - {k}" "reg_entries reg' = bt_adjust k f (reg_entries reg)"
  shows "entries_ok reg' J'"
proof -
  have "j \<in> J' \<longleftrightarrow> j \<in> J" if "j \<noteq> k" for j using assms(4) that by blast
  then show ?thesis using assms by (auto simp: entries_ok_def bt_get_adjust split: if_splits)
qed

lemma put_owner_inv:
  assumes "reg_inv (reg, st, js)" "bt_get (reg_entries reg) k = Some e" "en_owner e \<noteq> None"
  shows "reg_inv (put_owner k ow reg, st', js)"
proof -
  have "totals_ok (put_owner k ow reg)"
    using assms(1) totals_ok_update by (simp add: put_owner_def reg_inv_def)
  moreover have "entries_ok (put_owner k ow reg) (fst ` set js)"
  proof (rule entries_ok_adjust)
    show ok: "entries_ok reg (fst ` set js)" using assms(1) by (simp add: reg_inv_def)
    show "bt_get (reg_entries reg) k = Some e" by (rule assms(2))
    show "entry_ok (k \<in> fst ` set js) (e\<lparr>en_owner := Some ow\<rparr>)"
      using entries_okD [OF ok assms(2)] assms(3) by (simp add: entry_ok_def split: if_splits)
  qed (simp_all add: put_owner_def)
  ultimately show ?thesis using assms(1) by (simp add: reg_inv_def)
qed

lemma reg_inv_stops: "reg_inv (reg, st, js) \<Longrightarrow> reg_inv (reg, st', js)"
  by (simp add: reg_inv_def)

lemma scoped_Ok:
  "scoped (rg_state reg) who inc = Inr e \<longleftrightarrow> bt_get (reg_entries reg) (hash_str inc) = Some e \<and> en_principal e = who"
  by (auto simp: scoped_def reg_entries_def split: option.splits)

subsection \<open>Every step keeps the invariant\<close>

lemma insert_admitted_Ok:
  assumes "insert_admitted who inc b eg spawned reg = (reg', Inr u)"
  obtains ow where "spawned = Some ow" "b \<noteq> 0" "\<not> rg_poisoned reg" "\<not> rs_draining (rg_state reg)"
    "bt_get (reg_entries reg) (hash_str inc) = None"
    "unat (rs_bytes (rg_state reg)) + unat b \<le> unat (rg_memory_bytes reg)"
    "length (reg_entries reg) < rg_max_entries reg"
    "unat (rs_bytes (rg_state reg')) = unat (rs_bytes (rg_state reg)) + unat b"
    "unat (rs_egress (rg_state reg')) = unat (rs_egress (rg_state reg)) + unat eg"
    "reg_entries reg' = bt_insert (hash_str inc) \<lparr>en_principal = who, en_owner = Some ow, en_status = Initializing,
         en_bytes = b, en_egress = eg\<rparr> (reg_entries reg)"
    "rg_max_entries reg' = rg_max_entries reg" "rg_memory_bytes reg' = rg_memory_bytes reg"
    "rg_poisoned reg' = rg_poisoned reg" "rs_draining (rg_state reg') = rs_draining (rg_state reg)"
proof -
  obtain sb where sb: "checked_add (rs_bytes (rg_state reg)) b = Some sb"
    using assms by (auto simp: insert_admitted_def Let_def split: if_splits option.splits)
  obtain se where se: "checked_add (rs_egress (rg_state reg)) eg = Some se"
    using assms sb by (auto simp: insert_admitted_def Let_def split: if_splits option.splits)
  have "sb \<le> rg_memory_bytes reg"
    using assms sb se by (auto simp: insert_admitted_def Let_def split: if_splits)
  then have le: "unat (rs_bytes (rg_state reg)) + unat b \<le> unat (rg_memory_bytes reg)"
    using checked_add_unat [OF sb] by (simp add: word_le_nat_alt)
  show ?thesis
    using assms sb se le that checked_add_unat [OF sb] checked_add_unat [OF se]
    by (auto simp: insert_admitted_def Let_def reg_entries_def bt_contains_key_def split: if_splits option.splits)
qed

lemma insert_admitted_Err: "insert_admitted who inc b eg spawned reg = (reg', Inl e) \<Longrightarrow> reg' = reg"
  by (auto simp: insert_admitted_def Let_def split: if_splits option.splits)

lemma admit_inv:
  assumes "reg_inv (reg, st, js)" "insert_admitted who inc b eg spawned reg = (reg', r)"
  shows "reg_inv (reg', st, js)"
proof (cases r)
  case (Inl e)
  then show ?thesis using assms insert_admitted_Err by blast
next
  case (Inr u)
  with assms(2) have ins: "insert_admitted who inc b eg spawned reg = (reg', Inr u)" by simp
  have t: "totals_ok reg" and e: "entries_ok reg (fst ` set js)" using assms(1) by (simp_all add: reg_inv_def)
  have inv: "bt_invar (reg_entries reg)" using t by (simp add: totals_ok_def)
  from ins show ?thesis
  proof (rule insert_admitted_Ok)
    fix ow
    assume *: "b \<noteq> 0" "bt_get (reg_entries reg) (hash_str inc) = None"
      "unat (rs_bytes (rg_state reg)) + unat b \<le> unat (rg_memory_bytes reg)"
      "length (reg_entries reg) < rg_max_entries reg"
      "unat (rs_bytes (rg_state reg')) = unat (rs_bytes (rg_state reg)) + unat b"
      "unat (rs_egress (rg_state reg')) = unat (rs_egress (rg_state reg)) + unat eg"
      "reg_entries reg' = bt_insert (hash_str inc) \<lparr>en_principal = who, en_owner = Some ow, en_status = Initializing,
         en_bytes = b, en_egress = eg\<rparr> (reg_entries reg)"
      "rg_max_entries reg' = rg_max_entries reg" "rg_memory_bytes reg' = rg_memory_bytes reg"
      "rg_poisoned reg' = rg_poisoned reg"
    have "totals_ok reg'"
      using t * bt.sum_insert_fresh [OF inv *(2)] bt.length_insert_fresh [OF inv *(2)]
      by (auto simp: totals_ok_def bytes_sum_def egress_sum_def bt_simps word_le_nat_alt)
    moreover have "hash_str inc \<notin> fst ` set js" using e *(2) by (auto simp: entries_ok_def)
    then have "entries_ok reg' (fst ` set js)"
      using e *(1,7) inv by (auto simp: entries_ok_def bt_simps entry_ok_def)
    ultimately show ?thesis using assms(1) by (simp add: reg_inv_def)
  qed
qed

lemma settle_inv:
  assumes "reg_inv (reg, st, as @ (k, ow, s) # bs)"
  shows "reg_inv (settle k s joined reg, st, as @ bs)"
proof -
  let ?J = "fst ` set (as @ (k, ow, s) # bs)" and ?J' = "fst ` set (as @ bs)"
  have t: "totals_ok reg" and e: "entries_ok reg ?J" and d: "distinct (map fst (as @ (k, ow, s) # bs))"
    and st: "s = RegStopped \<or> s = ContextLost" using assms by (simp_all add: reg_inv_def)
  obtain en where en: "bt_get (reg_entries reg) k = Some en" using e by (auto simp: entries_ok_def)
  have eok: "en_owner en = None" "en_bytes en \<noteq> 0" using entries_okD [OF e en] by (auto simp: entry_ok_def)
  have k: "k \<notin> ?J'" using d by (auto simp: image_iff)
  have inv: "bt_invar (reg_entries reg)" using t by (simp add: totals_ok_def)
  have J: "?J' - {k} = ?J - {k}" by auto
  have "totals_ok (settle k s joined reg) \<and> entries_ok (settle k s joined reg) ?J'"
  proof (cases joined)
    case False
    then have set: "settle k s joined reg = update_entry k (\<lambda>e. e\<lparr>en_status := TeardownUncertain\<rparr>) reg"
      using en by (simp add: settle_def)
    have "totals_ok (update_entry k (\<lambda>e. e\<lparr>en_status := TeardownUncertain\<rparr>) reg)"
      using t by (rule totals_ok_update) simp_all
    moreover have "entries_ok (update_entry k (\<lambda>e. e\<lparr>en_status := TeardownUncertain\<rparr>) reg) ?J'"
      by (rule entries_ok_adjust [OF e en _ J]) (use eok k in \<open>auto simp: entry_ok_def\<close>)
    ultimately show ?thesis by (simp add: set)
  next
    case True
    let ?f = "\<lambda>e. e\<lparr>en_status := s, en_bytes := 0, en_egress := 0\<rparr>"
    have ent: "reg_entries (settle k s joined reg) = bt_adjust k ?f (reg_entries reg)"
      using True en by (simp add: settle_def reg_entries_def)
    have sums: "bytes_sum (bt_adjust k ?f (reg_entries reg)) + unat (en_bytes en) = bytes_sum (reg_entries reg)"
        "egress_sum (bt_adjust k ?f (reg_entries reg)) + unat (en_egress en) = egress_sum (reg_entries reg)"
      using bt_sum_adjust [OF inv en, of "\<lambda>(k, e). unat (en_bytes e)" ?f]
        bt_sum_adjust [OF inv en, of "\<lambda>(k, e). unat (en_egress e)" ?f]
      by (simp_all add: bytes_sum_def egress_sum_def)
    have le: "en_bytes en \<le> rs_bytes (rg_state reg)" "en_egress en \<le> rs_egress (rg_state reg)"
      using sums t by (simp_all add: totals_ok_def word_le_nat_alt)
    have "rs_bytes (rg_state reg) - en_bytes en \<le> rs_bytes (rg_state reg)"
      using le by (simp add: word_le_nat_alt)
    then have "totals_ok (settle k s joined reg)"
      using t sums True en le
      by (auto simp: totals_ok_def ent settle_def reg_entries_def)
    moreover have "entries_ok (settle k s joined reg) ?J'"
      by (rule entries_ok_adjust [OF e en _ J ent]) (use eok k st in \<open>auto simp: entry_ok_def\<close>)
    ultimately show ?thesis by simp
  qed
  then show ?thesis using assms d by (simp add: reg_inv_def)
qed

lemma stop_take_Some:
  assumes "stop_take who inc reg = (reg', Inr (Some ow))"
  obtains e where "bt_get (reg_entries reg) (hash_str inc) = Some e" "en_principal e = who"
    "en_owner e = Some ow" "reg' = update_entry (hash_str inc) take_owner reg" "\<not> rg_poisoned reg"
  using assms that by (auto simp: stop_take_def scoped_Ok split: if_splits sum.splits option.splits)

lemma stop_inv:
  assumes "reg_inv (reg, st, js)" "stop_take who inc reg = (reg', Inr (Some ow))"
  shows "reg_inv (reg', st', js @ [(hash_str inc, ow, RegStopped)])"
proof -
  obtain e where e: "bt_get (reg_entries reg) (hash_str inc) = Some e" "en_owner e = Some ow"
    and reg': "reg' = update_entry (hash_str inc) take_owner reg" using stop_take_Some [OF assms(2)] by metis
  have ok: "entries_ok reg (fst ` set js)" using assms(1) by (simp add: reg_inv_def)
  have eok: "hash_str inc \<notin> fst ` set js" "en_bytes e \<noteq> 0"
    using entries_okD [OF ok e(1)] e(2) by (auto simp: entry_ok_def split: if_splits)
  have "totals_ok reg'" unfolding reg'
    using assms(1) by (intro totals_ok_update) (simp_all add: reg_inv_def take_owner_def)
  moreover have "entries_ok reg' (fst ` set (js @ [(hash_str inc, ow, RegStopped)]))"
    by (rule entries_ok_adjust [OF ok e(1), where f = take_owner])
      (use eok in \<open>auto simp: reg' entry_ok_def take_owner_def\<close>)
  ultimately show ?thesis using assms(1) eok(1) by (auto simp: reg_inv_def)
qed

definition reap_ready :: "RegEntry \<Rightarrow> bool" where
  "reap_ready e = (case en_owner e of None \<Rightarrow> False | Some ow \<Rightarrow> owner_is_finished ow)"

lemma reap_take_eq:
  "reap_take reg =
     (reg\<lparr>rg_state := (rg_state reg)\<lparr>rs_entries :=
        bt_map (\<lambda>_ e. if reap_ready e then take_owner e else e) (reg_entries reg)\<rparr>\<rparr>,
      map (\<lambda>(k, e). (k, the (en_owner e))) (filter (\<lambda>(k, e). reap_ready e) (reg_entries reg)))"
  by (simp add: reap_take_def reap_ready_def [abs_def])

lemma reap_take_keys:
  assumes "bt_invar (reg_entries reg)" "reap_take reg = (reg', l)"
  shows "k \<in> fst ` set l \<longleftrightarrow> (\<exists>e. bt_get (reg_entries reg) k = Some e \<and> reap_ready e)"
proof -
  have l: "l = map (\<lambda>(k, e). (k, the (en_owner e))) (filter (\<lambda>(k, e). reap_ready e) (reg_entries reg))"
    using assms(2) by (simp add: reap_take_eq)
  have "k \<in> fst ` set l \<longleftrightarrow> (\<exists>e. (k, e) \<in> set (reg_entries reg) \<and> reap_ready e)"
    unfolding l by force
  then show ?thesis by (simp add: bt.in_entries_iff [OF assms(1)])
qed

lemma distinct_keys_filter: "distinct (map fst xs) \<Longrightarrow> distinct (map fst (filter P xs))"
  by (induction xs) auto

lemma reap_take_fields:
  assumes "reap_take reg = (reg', l)"
  shows "reg_entries reg' = bt_map (\<lambda>_ e. if reap_ready e then take_owner e else e) (reg_entries reg)"
    and "l = map (\<lambda>(k, e). (k, the (en_owner e))) (filter (\<lambda>(k, e). reap_ready e) (reg_entries reg))"
    and "rg_poisoned reg' = rg_poisoned reg" "rg_max_entries reg' = rg_max_entries reg"
    and "rg_memory_bytes reg' = rg_memory_bytes reg" "rs_bytes (rg_state reg') = rs_bytes (rg_state reg)"
    and "rs_egress (rg_state reg') = rs_egress (rg_state reg)" "rs_draining (rg_state reg') = rs_draining (rg_state reg)"
  using assms unfolding reap_take_eq prod.inject by (auto simp: reg_entries_def)

lemma reap_take_totals:
  assumes "totals_ok reg" "reap_take reg = (reg', l)"
  shows "totals_ok reg'"
proof -
  have "bytes_sum (reg_entries reg') = bytes_sum (reg_entries reg)"
    unfolding reap_take_fields(1) [OF assms(2)] by (rule bt_map_sums) (simp_all add: take_owner_def)
  moreover have "egress_sum (reg_entries reg') = egress_sum (reg_entries reg)"
    unfolding reap_take_fields(1) [OF assms(2)] by (rule bt_map_sums) (simp_all add: take_owner_def)
  ultimately show ?thesis using assms(1) reap_take_fields [OF assms(2)] by (simp add: totals_ok_def)
qed

lemma reap_ready_live: "reap_ready e \<Longrightarrow> en_owner e \<noteq> None"
  by (auto simp: reap_ready_def split: option.splits)

lemma reap_take_fresh:
  assumes "bt_invar (reg_entries reg)" "entries_ok reg J" "reap_take reg = (reg', l)" "k \<in> fst ` set l"
  shows "k \<notin> J"
proof -
  obtain e where e: "bt_get (reg_entries reg) k = Some e" "reap_ready e"
    using reap_take_keys [OF assms(1,3), of k] assms(4) by blast
  then show ?thesis
    using reap_ready_live [OF e(2)] entries_okD [OF assms(2) e(1)] by (auto simp: entry_ok_def)
qed

lemma reap_take_entries:
  assumes "bt_invar (reg_entries reg)" "entries_ok reg J" "reap_take reg = (reg', l)"
  shows "entries_ok reg' (J \<union> fst ` set l)"
proof -
  note keys = reap_take_keys [OF assms(1,3)]
  have upd: "entry_ok (k \<in> J \<union> fst ` set l) (if reap_ready e then take_owner e else e)"
    if g: "bt_get (reg_entries reg) k = Some e" for k e
  proof (cases "reap_ready e")
    case True
    then have "k \<in> fst ` set l" using keys [of k] g by blast
    then show ?thesis
      using True reap_ready_live [OF True] entries_okD [OF assms(2) g] reap_take_fresh [OF assms, of k]
      by (simp add: entry_ok_def take_owner_def)
  next
    case False
    then have "k \<notin> fst ` set l" using keys [of k] g by auto
    then show ?thesis using False entries_okD [OF assms(2) g] by simp
  qed
  show ?thesis
    unfolding entries_ok_def reap_take_fields(1) [OF assms(3)] bt_get_map
  proof (intro conjI allI impI ballI)
    fix k e assume "map_option (\<lambda>e. if reap_ready e then take_owner e else e) (bt_get (reg_entries reg) k) = Some e"
    then show "entry_ok (k \<in> J \<union> fst ` set l) e" using upd by auto
  next
    fix k assume "k \<in> J \<union> fst ` set l"
    then have "bt_get (reg_entries reg) k \<noteq> None" using assms(2) keys [of k] by (auto simp: entries_ok_def)
    then show "map_option (\<lambda>e. if reap_ready e then take_owner e else e) (bt_get (reg_entries reg) k) \<noteq> None" by simp
  qed
qed

lemma reap_take_distinct:
  assumes "bt_invar (reg_entries reg)" "reap_take reg = (reg', l)"
  shows "distinct (map fst l)"
proof -
  have "map fst l = map fst (filter (\<lambda>(k, e). reap_ready e) (reg_entries reg))"
    unfolding reap_take_fields(2) [OF assms(2)] by simp
  then show ?thesis using distinct_keys_filter [OF bt.distinct_keys [OF assms(1)]] by simp
qed

lemma reap_inv:
  assumes "reg_inv (reg, st, js)" "reap_take reg = (reg', l)"
  shows "reg_inv (reg', st, js @ map (\<lambda>(k, ow). (k, ow, ContextLost)) l)"
proof -
  let ?m = "map (\<lambda>(k, ow). (k, ow, ContextLost)) l"
  have t: "totals_ok reg" and ok: "entries_ok reg (fst ` set js)" and d: "distinct (map fst js)"
    and s: "\<forall>(k, ow, s) \<in> set js. s = RegStopped \<or> s = ContextLost"
    using assms(1) by (simp_all add: reg_inv_def)
  have inv: "bt_invar (reg_entries reg)" using t by (simp add: totals_ok_def)
  have m: "map fst ?m = map fst l" by (simp add: case_prod_beta)
  have fm: "fst ` set ?m = fst ` set l" using m by (metis list.set_map)
  have "entries_ok reg' (fst ` set (js @ ?m))"
    using reap_take_entries [OF inv ok assms(2)] fm by (simp only: set_append image_Un)
  moreover have "fst ` set js \<inter> fst ` set l = {}"
    using reap_take_fresh [OF inv ok assms(2)] by blast
  then have "distinct (map fst (js @ ?m))"
    using d reap_take_distinct [OF inv assms(2)] unfolding map_append m distinct_append by simp
  moreover have "\<forall>(k, ow, s) \<in> set (js @ ?m). s = RegStopped \<or> s = ContextLost" using s by auto
  ultimately show ?thesis using reap_take_totals [OF t assms(2)] by (simp only: reg_inv_def Let_def prod.case)
qed

lemma registry_submit_inv:
  assumes "reg_inv (reg, st, js)" "registry_submit clk who inc b reply (reg, st) = ((reg', st'), r)"
  shows "reg_inv (reg', st', js)"
  using assms
  by (auto simp: registry_submit_def scoped_Ok split: if_splits sum.splits option.splits prod.splits
      intro: reg_inv_stops put_owner_inv)

lemma registry_cancel_child_inv:
  assumes "reg_inv (reg, st, js)" "registry_cancel_child clk who i (reg, st) = ((reg', st'), r)"
  shows "reg_inv (reg', st', js)"
  using assms
  by (auto simp: registry_cancel_child_def scoped_Ok split: if_splits sum.splits option.splits prod.splits
      intro: reg_inv_stops put_owner_inv)

lemma registry_observers_keep:
  "registry_status clk who inc (reg, st) = ((reg', st'), r) \<Longrightarrow> reg' = reg"
  "registry_statuses clk (reg, st) = ((reg', st'), r2) \<Longrightarrow> reg' = reg"
  "registry_cancel clk who inc (reg, st) = ((reg', st'), r3) \<Longrightarrow> reg' = reg"
  by (auto simp: registry_status_def registry_statuses_def registry_cancel_def
      split: if_splits sum.splits option.splits prod.splits)

lemma drain_close_inv:
  "reg_inv (reg, st, js) \<Longrightarrow> drain_close clk (reg, st) = ((reg', st'), l) \<Longrightarrow> reg_inv (reg', st', js)"
  by (auto simp: drain_close_def reg_inv_def totals_ok_def entries_ok_def reg_entries_def)

lemma reg_step_inv: "reg_step c c' \<Longrightarrow> reg_inv c \<Longrightarrow> reg_inv c'"
proof (induction rule: reg_step.induct)
  case (thread_joining env ow st ow' st' reg as k s bs)
  then show ?case by (simp add: reg_inv_def)
next
  case (thread_live reg k e ow env st ow' st' js)
  then show ?case using put_owner_inv by blast
qed (use admit_inv registry_submit_inv registry_cancel_child_inv drain_close_inv stop_inv reap_inv settle_inv
      registry_observers_keep reg_inv_stops in \<open>metis+\<close>)

definition reg_start :: "ParentRegistry \<Rightarrow> reg_config" where
  "reg_start reg = (reg, \<lambda>_. 0, [])"

definition reg_reach :: "reg_config \<Rightarrow> reg_config \<Rightarrow> bool" where
  "reg_reach = reg_step\<^sup>*\<^sup>*"

lemma reg_reach_inv: "reg_reach c c' \<Longrightarrow> reg_inv c \<Longrightarrow> reg_inv c'"
  unfolding reg_reach_def by (induction rule: rtranclp_induct) (auto intro: reg_step_inv)

lemma registry_new_inv: "registry_new n m = Inr reg \<Longrightarrow> reg_inv (reg_start reg)"
  by (auto simp: registry_new_def reg_start_def reg_inv_def totals_ok_def entries_ok_def reg_entries_def
      bytes_sum_def egress_sum_def bt_invar_def split: if_splits)

subsection \<open>Charges and identities\<close>

definition same_charge :: "RegEntry \<Rightarrow> RegEntry \<Rightarrow> bool" where
  "same_charge e e' \<longleftrightarrow>
     en_principal e' = en_principal e \<and> en_bytes e' = en_bytes e \<and> en_egress e' = en_egress e"

definition keeps_entries :: "ParentRegistry \<Rightarrow> ParentRegistry \<Rightarrow> bool" where
  "keeps_entries reg reg' \<longleftrightarrow>
     (rs_draining (rg_state reg) \<longrightarrow> rs_draining (rg_state reg'))
     \<and> (\<forall>k e. bt_get (reg_entries reg) k = Some e \<longrightarrow>
          (\<exists>e'. bt_get (reg_entries reg') k = Some e' \<and> same_charge e e'))"

lemma same_charge_refl [simp]: "same_charge e e"
  by (simp add: same_charge_def)

lemma keeps_entries_refl [simp]: "keeps_entries reg reg"
  by (simp add: keeps_entries_def)

lemma keeps_entries_update: "(\<And>e. same_charge e (f e)) \<Longrightarrow> keeps_entries reg (update_entry k f reg)"
  by (auto simp: keeps_entries_def bt_get_adjust)

lemma keeps_entries_put [simp]: "keeps_entries reg (put_owner k ow reg)"
  unfolding put_owner_def by (rule keeps_entries_update) (simp add: same_charge_def)

lemma keeps_entries_admit:
  assumes "bt_invar (reg_entries reg)" "insert_admitted who inc b eg spawned reg = (reg', r)"
  shows "keeps_entries reg reg'"
proof (cases r)
  case (Inl e)
  then show ?thesis using assms insert_admitted_Err by fastforce
next
  case (Inr u)
  with assms(2) have "insert_admitted who inc b eg spawned reg = (reg', Inr u)" by simp
  then show ?thesis
    by (rule insert_admitted_Ok) (use assms(1) in \<open>auto simp: keeps_entries_def bt_simps\<close>)
qed

lemma keeps_entries_reap: "reap_take reg = (reg', l) \<Longrightarrow> keeps_entries reg reg'"
  using reap_take_fields [of reg reg' l] by (auto simp: keeps_entries_def same_charge_def take_owner_def)

lemma keeps_entries_settle_uncertain:
  "bt_get (reg_entries reg) k \<noteq> None \<Longrightarrow> keeps_entries reg (settle k s False reg)"
  by (auto simp: settle_def same_charge_def intro!: keeps_entries_update)

lemma join_result_ok: "join_result ow = Some r \<Longrightarrow> is_ok r \<longleftrightarrow> ow_pc ow = TFinished"
  by (cases "ow_pc ow") (auto simp: join_result_def)

lemma registry_routing_keeps:
  "registry_submit clk who inc b reply (reg, st) = ((reg', st'), r) \<Longrightarrow> keeps_entries reg reg'"
  "registry_cancel_child clk who i (reg, st) = ((reg', st'), r2) \<Longrightarrow> keeps_entries reg reg'"
  "drain_close clk (reg, st) = ((reg', st'), l) \<Longrightarrow> keeps_entries reg reg'"
    apply (auto simp: registry_submit_def split: if_splits sum.splits option.splits prod.splits)[1]
   apply (auto simp: registry_cancel_child_def split: if_splits sum.splits option.splits prod.splits)[1]
  apply (auto simp: drain_close_def keeps_entries_def reg_entries_def)
  done

lemma stop_take_keeps: "stop_take who inc reg = (reg', Inr (Some ow)) \<Longrightarrow> keeps_entries reg reg'"
  by (erule stop_take_Some) (auto intro: keeps_entries_update simp: same_charge_def take_owner_def)

text \<open>One step either keeps all charges or releases one, of an owner whose thread has finished.\<close>

lemma reg_step_charges:
  assumes "reg_step (reg, st, js) (reg', st', js')" "reg_inv (reg, st, js)"
  shows "keeps_entries reg reg'
       \<or> (\<exists>k ow s. (k, ow, s) \<in> set js \<and> ow_pc ow = TFinished \<and> reg' = settle k s True reg)"
  using assms
proof (cases rule: reg_step.cases)
  case (admit who inc b eg spawned r)
  then show ?thesis using assms(2) keeps_entries_admit by (auto simp: reg_inv_def totals_ok_def)
next
  case (settles ow r as k s bs)
  have "bt_get (reg_entries reg) k \<noteq> None" using assms(2) settles by (auto simp: reg_inv_def entries_ok_def)
  then show ?thesis
    using settles join_result_ok [of ow r] keeps_entries_settle_uncertain [of reg k s]
    by (cases "is_ok r") auto
qed (use registry_routing_keeps registry_observers_keep keeps_entries_refl stop_take_keeps keeps_entries_reap
      keeps_entries_put in metis)+

lemma settle_True_get:
  assumes "bt_get (reg_entries reg) k = Some e"
  shows "bt_get (reg_entries (settle k s True reg)) j =
     (if j = k then Some (e\<lparr>en_status := s, en_bytes := 0, en_egress := 0\<rparr>) else bt_get (reg_entries reg) j)"
    and "rs_draining (rg_state (settle k s True reg)) = rs_draining (rg_state reg)"
  using assms by (simp_all add: settle_def reg_entries_def bt_get_adjust)

lemma reg_reach_identity:
  assumes "reg_reach (reg, st, js) (reg', st', js')" "reg_inv (reg, st, js)"
  shows "(rs_draining (rg_state reg) \<longrightarrow> rs_draining (rg_state reg'))
       \<and> (\<forall>k e. bt_get (reg_entries reg) k = Some e \<longrightarrow>
            (\<exists>e'. bt_get (reg_entries reg') k = Some e' \<and> en_principal e' = en_principal e))"
  using assms unfolding reg_reach_def
proof (induction "(reg', st', js')" arbitrary: reg' st' js' rule: rtranclp_induct)
  case (step c)
  obtain r1 s1 j1 where c: "c = (r1, s1, j1)" by (cases c)
  have inv: "reg_inv (r1, s1, j1)" using step c reg_reach_inv unfolding reg_reach_def by blast
  have one: "(rs_draining (rg_state r1) \<longrightarrow> rs_draining (rg_state reg'))
       \<and> (\<forall>k e. bt_get (reg_entries r1) k = Some e \<longrightarrow>
            (\<exists>e'. bt_get (reg_entries reg') k = Some e' \<and> en_principal e' = en_principal e))"
    using reg_step_charges [OF step(2) [unfolded c] inv]
  proof
    assume "\<exists>k ow s. (k, ow, s) \<in> set j1 \<and> ow_pc ow = TFinished \<and> reg' = settle k s True r1"
    then obtain k ow s where k: "(k, ow, s) \<in> set j1" "reg' = settle k s True r1" by blast
    obtain e where "bt_get (reg_entries r1) k = Some e" using inv k by (fastforce simp: reg_inv_def entries_ok_def)
    from settle_True_get [OF this, of s] k(2) show ?thesis using \<open>bt_get (reg_entries r1) k = Some e\<close> by auto
  qed (fastforce simp: keeps_entries_def same_charge_def)
  then show ?case using step c by fastforce
qed auto

section \<open>Properties\<close>

text \<open>
  C4: exact accounting. In every interleaving of admissions, routing, teardowns and owner
  threads from a new registry, the two running totals are exactly the sums of the entries'
  reservations without wrap-around, memory never exceeds the configured budget, and the number
  of identities never exceeds its bound.
\<close>

theorem registry_accounting_exact:
  assumes "registry_new n m = Inr reg0" "reg_reach (reg_start reg0) (reg, st, js)"
  shows "unat (rs_bytes (rg_state reg)) = sum_list (map (\<lambda>(k, e). unat (en_bytes e)) (reg_entries reg))
       \<and> unat (rs_egress (rg_state reg)) = sum_list (map (\<lambda>(k, e). unat (en_egress e)) (reg_entries reg))
       \<and> rs_bytes (rg_state reg) \<le> rg_memory_bytes reg
       \<and> length (reg_entries reg) \<le> rg_max_entries reg \<and> \<not> rg_poisoned reg"
  using reg_reach_inv [OF assms(2) registry_new_inv [OF assms(1)]]
  by (simp add: reg_inv_def totals_ok_def bytes_sum_def egress_sum_def)

definition sample_registry :: ParentRegistry where
  "sample_registry = \<lparr>rg_state = \<lparr>rs_entries = [], rs_bytes = 0, rs_egress = 0, rs_draining = False\<rparr>,
     rg_poisoned = False, rg_max_entries = 4, rg_memory_bytes = 100\<rparr>"

definition sample_reg_entry :: RegEntry where
  "sample_reg_entry = \<lparr>en_principal = ''p'', en_owner = Some sample_owner, en_status = Initializing, en_bytes = 40, en_egress = 2\<rparr>"

definition sample_admitted :: ParentRegistry where
  "sample_admitted = \<lparr>rg_state = \<lparr>rs_entries = [(''a'', sample_reg_entry)], rs_bytes = 40, rs_egress = 2, rs_draining = False\<rparr>,
     rg_poisoned = False, rg_max_entries = 4, rg_memory_bytes = 100\<rparr>"

lemma sample_registry_new: "registry_new 4 100 = Inr sample_registry"
  by (simp add: registry_new_def sample_registry_def)

lemma sample_admit:
  "insert_admitted ''p'' (Hash ''a'') 40 2 (Some sample_owner) sample_registry = (sample_admitted, Inr ())"
  by (simp add: insert_admitted_def sample_registry_def sample_admitted_def sample_reg_entry_def
      bt_contains_key_def checked_add_def Let_def)

lemma sample_reach: "reg_reach (reg_start sample_registry) (sample_admitted, \<lambda>_. 0, [])"
  unfolding reg_reach_def reg_start_def
  by (rule r_into_rtranclp) (rule reg_step.admit [OF sample_admit])

theorem registry_accounting_exact_witness:
  "registry_new 4 100 = Inr sample_registry \<and> reg_reach (reg_start sample_registry) (sample_admitted, \<lambda>_. 0, [])
   \<and> unat (rs_bytes (rg_state sample_admitted)) = sum_list (map (\<lambda>(k, e). unat (en_bytes e)) (reg_entries sample_admitted))"
  using registry_accounting_exact [OF sample_registry_new sample_reach] sample_registry_new sample_reach by simp

text \<open>
  An incarnation is claimed once. Once an identity is in the registry it stays, bound to
  the same principal, through every later teardown, reap and drain, and no later admission of
  it succeeds, whoever asks.
\<close>

theorem incarnation_claimed_once:
  assumes "registry_new n m = Inr reg0" "reg_reach (reg_start reg0) (reg, st, js)"
    and "bt_get (reg_entries reg) (hash_str inc) = Some e" "reg_reach (reg, st, js) (reg', st', js')"
  shows "(\<exists>e'. bt_get (reg_entries reg') (hash_str inc) = Some e' \<and> en_principal e' = en_principal e)
       \<and> is_err (snd (insert_admitted who inc b eg spawned reg'))"
proof -
  have inv: "reg_inv (reg, st, js)" using reg_reach_inv [OF assms(2) registry_new_inv [OF assms(1)]] .
  obtain e' where e': "bt_get (reg_entries reg') (hash_str inc) = Some e'" "en_principal e' = en_principal e"
    using reg_reach_identity [OF assms(4) inv] assms(3) by blast
  have "is_err (snd (insert_admitted who inc b eg spawned reg'))"
  proof (cases "insert_admitted who inc b eg spawned reg'")
    case (Pair reg'' r)
    show ?thesis
    proof (cases r)
      case (Inr u)
      with Pair have "insert_admitted who inc b eg spawned reg' = (reg'', Inr u)" by simp
      then show ?thesis by (rule insert_admitted_Ok) (use e'(1) in simp)
    qed (simp add: Pair)
  qed
  with e' show ?thesis by blast
qed

theorem incarnation_claimed_once_witness:
  "is_err (snd (insert_admitted ''q'' (Hash ''a'') 1 0 (Some sample_owner) sample_admitted))"
proof -
  have "bt_get (reg_entries sample_admitted) (hash_str (Hash ''a'')) = Some sample_reg_entry"
    by (simp add: sample_admitted_def reg_entries_def bt_get_def)
  moreover have "reg_reach (sample_admitted, \<lambda>_. 0, []) (sample_admitted, \<lambda>_. 0, [])"
    by (simp add: reg_reach_def)
  ultimately show ?thesis using incarnation_claimed_once [OF sample_registry_new sample_reach] by blast
qed

text \<open>
  A reservation is released only by a confirmed join. Whenever a step changes what an
  entry charges, the charge becomes zero, some caller was joining that very owner, and its
  thread had finished without panicking.
\<close>

theorem charge_released_only_after_join:
  assumes "registry_new n m = Inr reg0" "reg_reach (reg_start reg0) (reg, st, js)"
    and "reg_step (reg, st, js) (reg', st', js')"
    and "bt_get (reg_entries reg) k = Some e" "bt_get (reg_entries reg') k = Some e'"
    and "en_bytes e' \<noteq> en_bytes e \<or> en_egress e' \<noteq> en_egress e"
  shows "en_bytes e' = 0 \<and> en_egress e' = 0 \<and> en_owner e = None
       \<and> (\<exists>ow s. (k, ow, s) \<in> set js \<and> ow_pc ow = TFinished)"
proof -
  have inv: "reg_inv (reg, st, js)" using reg_reach_inv [OF assms(2) registry_new_inv [OF assms(1)]] .
  have "\<not> keeps_entries reg reg'"
  proof
    assume "keeps_entries reg reg'"
    then obtain e2 where "bt_get (reg_entries reg') k = Some e2" "same_charge e e2"
      using assms(4) unfolding keeps_entries_def by blast
    then show False using assms(5,6) by (simp add: same_charge_def)
  qed
  then obtain j ow s where j: "(j, ow, s) \<in> set js" "ow_pc ow = TFinished" "reg' = settle j s True reg"
    using reg_step_charges [OF assms(3) inv] by blast
  obtain d where d: "bt_get (reg_entries reg) j = Some d"
    using inv j by (fastforce simp: reg_inv_def entries_ok_def)
  have "j = k" using settle_True_get(1) [OF d, of s k] j(3) assms(4-6) by (auto split: if_splits)
  have "k \<in> fst ` set js" using j(1) \<open>j = k\<close> by force
  moreover have "entries_ok reg (fst ` set js)" using inv by (simp add: reg_inv_def)
  ultimately have "en_owner e = None" using entries_okD [OF _ assms(4), of "fst ` set js"] by (simp add: entry_ok_def)
  moreover have "en_bytes e' = 0 \<and> en_egress e' = 0"
    using settle_True_get(1) [OF d, of s k] j(3) \<open>j = k\<close> assms(5) by auto
  ultimately show ?thesis using j(1,2) \<open>j = k\<close> by blast
qed

definition sample_taken :: ParentRegistry where
  "sample_taken = update_entry ''a'' take_owner sample_admitted"

definition stopped_stops :: stops where
  "stopped_stops = (\<lambda>_. 0)(0 := 1)"

lemma sample_stop_step:
  "reg_step (sample_admitted, \<lambda>_. 0, []) (sample_taken, stopped_stops, [(''a'', sample_owner, RegStopped)])"
proof -
  have "stop_take ''p'' (Hash ''a'') sample_admitted = (sample_taken, Inr (Some sample_owner))"
    by (simp add: stop_take_def sample_admitted_def sample_taken_def scoped_def bt_get_def sample_reg_entry_def)
  from reg_step.stop [OF this, of "\<lambda>_. 0" "[]" "\<lambda>_. 7"] show ?thesis
    by (simp add: owner_cancel_def Control_cancel_def sample_owner_def spawn_controlled_def
        observe_self_def cas_def stop_of_def stopped_stops_def)
qed

lemma sample_thread_steps:
  fixes env :: ThreadEnv
  defines "env \<equiv> \<lparr>env_clock = \<lambda>_. 7, env_initialize = Panics, env_runtime = Panics, env_timeout = True\<rparr>"
  shows "thread_step env (sample_owner, stopped_stops) = (sample_owner\<lparr>ow_pc := TExit\<rparr>, stopped_stops)"
    and "thread_step env (sample_owner\<lparr>ow_pc := TExit\<rparr>, stopped_stops) = (sample_owner\<lparr>ow_pc := TExitBusy\<rparr>, stopped_stops)"
    and "thread_step env (sample_owner\<lparr>ow_pc := TExitBusy\<rparr>, stopped_stops) = (sample_owner\<lparr>ow_pc := TFinished\<rparr>, stopped_stops)"
  by (simp_all add: env_def sample_owner_def spawn_controlled_def Control_check_def Control_cancel_def
      observe_self_def cas_def stop_of_def stopped_stops_def)

lemma sample_finished_reach:
  "reg_reach (reg_start sample_registry) (sample_taken, stopped_stops, [(''a'', sample_owner\<lparr>ow_pc := TFinished\<rparr>, RegStopped)])"
proof -
  note t = sample_thread_steps [THEN reg_step.thread_joining [of _ _ _ _ _ sample_taken "[]" "''a''" RegStopped "[]"]]
  have "reg_reach (reg_start sample_registry) (sample_taken, stopped_stops, [(''a'', sample_owner, RegStopped)])"
    using sample_reach sample_stop_step unfolding reg_reach_def by (rule rtranclp.rtrancl_into_rtrancl)
  then show ?thesis unfolding reg_reach_def
    using t(1)[simplified] t(2)[simplified] t(3)[simplified]
    by (meson rtranclp.rtrancl_into_rtrancl)
qed

theorem charge_released_only_after_join_witness:
  "\<exists>reg' st' e'. reg_step (sample_taken, stopped_stops, [(''a'', sample_owner\<lparr>ow_pc := TFinished\<rparr>, RegStopped)]) (reg', st', [])
     \<and> bt_get (reg_entries reg') ''a'' = Some e' \<and> en_bytes e' = 0"
proof -
  let ?ow = "sample_owner\<lparr>ow_pc := TFinished\<rparr>"
  let ?reg' = "settle ''a'' RegStopped True sample_taken"
  have g: "bt_get (reg_entries sample_taken) ''a'' = Some (take_owner sample_reg_entry)"
    by (simp add: sample_taken_def bt_get_adjust) (simp add: sample_admitted_def reg_entries_def bt_get_def)
  have step: "reg_step (sample_taken, stopped_stops, [(''a'', ?ow, RegStopped)]) (?reg', stopped_stops, [])"
    using reg_step.settles [of sample_taken ?ow "Inr ()" stopped_stops "[]" "''a''" RegStopped "[]"]
    by (simp add: join_result_def sample_taken_def sample_admitted_def)
  have g': "bt_get (reg_entries ?reg') ''a'' =
      Some ((take_owner sample_reg_entry)\<lparr>en_status := RegStopped, en_bytes := 0, en_egress := 0\<rparr>)"
    using settle_True_get(1) [OF g] by simp
  have "en_bytes (take_owner sample_reg_entry) \<noteq> 0" by (simp add: take_owner_def sample_reg_entry_def)
  then show ?thesis
    using charge_released_only_after_join [OF sample_registry_new sample_finished_reach step g g'] step g' by fastforce
qed

text \<open>
  Routing is scoped to the principal. A caller that is not the principal an incarnation
  was admitted for gets the answer of an unknown incarnation from every operation, and changes
  neither the registry nor any stop byte.
\<close>

theorem foreign_principal_refused:
  assumes "\<not> rg_poisoned reg"
    and "\<forall>e. bt_get (reg_entries reg) (hash_str inc) = Some e \<longrightarrow> en_principal e \<noteq> who"
  shows "registry_submit clk who inc b reply (reg, st) = ((reg, st), Inl OwnerNotFound)
       \<and> registry_status clk who inc (reg, st) = ((reg, st), Inl OwnerNotFound)
       \<and> registry_cancel clk who inc (reg, st) = ((reg, st), Inl OwnerNotFound)
       \<and> (id_parent i = inc \<longrightarrow> registry_cancel_child clk who i (reg, st) = ((reg, st), Inl OwnerNotFound))
       \<and> registry_stop clk envs who inc (reg, st) = Some ((reg, st), Inl OwnerNotFound)"
proof -
  have "scoped (rg_state reg) who inc = Inl OwnerNotFound"
    using assms(2) by (auto simp: scoped_def reg_entries_def split: option.splits)
  then show ?thesis using assms(1)
    by (simp add: registry_submit_def registry_status_def registry_cancel_def registry_cancel_child_def
        registry_stop_def stop_take_def)
qed

theorem foreign_principal_refused_witness:
  "registry_submit (\<lambda>_. 7) ''q'' (Hash ''a'') [1] 0 (sample_admitted, \<lambda>_. 0) = ((sample_admitted, \<lambda>_. 0), Inl OwnerNotFound)"
proof -
  have "\<forall>e. bt_get (reg_entries sample_admitted) (hash_str (Hash ''a'')) = Some e \<longrightarrow> en_principal e \<noteq> ''q''"
    by (simp add: sample_admitted_def reg_entries_def bt_get_def sample_reg_entry_def)
  then show ?thesis
    using foreign_principal_refused [of sample_admitted "Hash ''a''" "''q''"] by (simp add: sample_admitted_def)
qed

text \<open>
  A drain is final. From the moment \<open>drain\<close> has closed the registry, in every later
  configuration no admission and no submission succeeds.
\<close>

theorem drain_closes_admission:
  assumes "reg_inv (reg, st, js)" "drain_close clk (reg, st) = ((reg1, st1), l)"
    and "reg_reach (reg1, st1, js) (reg', st', js')"
  shows "is_err (snd (insert_admitted who inc b eg spawned reg'))
       \<and> is_err (snd (registry_submit clk' who inc bytes reply (reg', st')))"
proof -
  have "rs_draining (rg_state reg1)" using assms(2) by (auto simp: drain_close_def)
  then have d: "rs_draining (rg_state reg')"
    using reg_reach_identity [OF assms(3) drain_close_inv [OF assms(1,2)]] by blast
  then show ?thesis
    by (auto simp: insert_admitted_def registry_submit_def Let_def split: sum.splits)
qed

theorem drain_closes_admission_witness:
  "\<exists>reg1 st1 l. drain_close (\<lambda>_. 7) (sample_admitted, \<lambda>_. 0) = ((reg1, st1), l)
     \<and> is_err (snd (insert_admitted ''q'' (Hash ''b'') 1 0 (Some sample_owner) reg1))"
proof -
  have inv: "reg_inv (sample_admitted, \<lambda>_. 0, [])"
    using reg_reach_inv [OF sample_reach registry_new_inv [OF sample_registry_new]] .
  obtain reg1 st1 l where d: "drain_close (\<lambda>_. 7) (sample_admitted, \<lambda>_. 0) = ((reg1, st1), l)"
    by (metis prod.exhaust)
  have "reg_reach (reg1, st1, []) (reg1, st1, [])" by (simp add: reg_reach_def)
  from drain_closes_admission [OF inv d this] d show ?thesis by blast
qed

end
