(* ===== verification/Fs.thy ===== *)
theory Fs
  imports Btree
begin

text \<open>
  The file-system calls the durable components make (\<open>std::fs\<close>, \<open>tempfile\<close>), on an explicit
  tree: absolute paths as lists of components, ordered as \<open>PathBuf\<close> orders them.

  Every call may fail. A world carries, beside the tree, the outcomes the environment has
  decided for the calls to come: the call runs, fails without effect, or fails after its
  effect. Calls beyond the list run. Temporary files have no published name until they are
  persisted, so writing one changes no path of the tree; \<open>sync_all\<close> changes none either.
\<close>

section \<open>Trees\<close>

type_synonym path = "string list"

datatype node = Dir | File bytes | Special

type_synonym fsys = "(path, node) btree"

datatype IoKind = NotFound | AlreadyExists | InvalidData | OtherIo

datatype fault = Runs | Fails | FailsAfter

record world =
  w_fs :: fsys
  w_faults :: "fault list"
  w_mtime :: "path \<Rightarrow> u64"

type_synonym 'a io = "world \<Rightarrow> world \<times> (IoKind + 'a)"

text \<open>The root directory always exists.\<close>

definition fs_kind :: "fsys \<Rightarrow> path \<Rightarrow> node option" where
  "fs_kind fs p = (if p = [] then Some Dir else bt_get fs p)"

lemma fs_kind_root [simp]: "fs_kind fs [] = Some Dir"
  by (simp add: fs_kind_def)

section \<open>Sequencing\<close>

definition io_return :: "'a \<Rightarrow> 'a io" where
  "io_return x w = (w, Inr x)"

definition io_fail :: "IoKind \<Rightarrow> 'a io" where
  "io_fail e w = (w, Inl e)"

definition io_bind :: "'a io \<Rightarrow> ('a \<Rightarrow> 'b io) \<Rightarrow> 'b io" where
  "io_bind m f w = (case m w of (w', Inl e) \<Rightarrow> (w', Inl e) | (w', Inr x) \<Rightarrow> f x w')"

definition io_seq :: "'a io \<Rightarrow> 'b io \<Rightarrow> 'b io" where
  "io_seq m n = io_bind m (\<lambda>_. n)"

text \<open>\<open>match\<close> on the result of a call.\<close>

definition io_match :: "'a io \<Rightarrow> (IoKind + 'a \<Rightarrow> 'b io) \<Rightarrow> 'b io" where
  "io_match m f w = (case m w of (w', r) \<Rightarrow> f r w')"

definition io_when :: "bool \<Rightarrow> IoKind \<Rightarrow> unit io" where
  "io_when b e = (if b then io_fail e else io_return ())"

text \<open>One call to the operating system.\<close>

definition io_call :: "(fsys \<Rightarrow> fsys \<times> (IoKind + 'a)) \<Rightarrow> 'a io" where
  "io_call eff w =
     (case w_faults w of
        [] \<Rightarrow> (case eff (w_fs w) of (fs, r) \<Rightarrow> (w\<lparr>w_fs := fs\<rparr>, r))
      | Runs # rest \<Rightarrow> (case eff (w_fs w) of (fs, r) \<Rightarrow> (w\<lparr>w_fs := fs, w_faults := rest\<rparr>, r))
      | Fails # rest \<Rightarrow> (w\<lparr>w_faults := rest\<rparr>, Inl OtherIo)
      | FailsAfter # rest \<Rightarrow> (case eff (w_fs w) of (fs, r) \<Rightarrow> (w\<lparr>w_fs := fs, w_faults := rest\<rparr>, Inl OtherIo)))"

section \<open>Calls\<close>

definition dir_effect :: "path \<Rightarrow> fsys \<Rightarrow> fsys \<times> (IoKind + unit)" where
  "dir_effect p fs =
     (if fs_kind fs p \<noteq> None then (fs, Inl AlreadyExists)
      else if fs_kind fs (butlast p) \<noteq> Some Dir then (fs, Inl NotFound)
      else (bt_insert p Dir fs, Inr ()))"

definition create_dir :: "path \<Rightarrow> unit io" where
  "create_dir p = io_call (dir_effect p)"

text \<open>\<open>create_dir_all\<close>: each missing ancestor in turn; an existing non-directory is an error.\<close>

fun dirs_effect :: "path \<Rightarrow> path \<Rightarrow> fsys \<Rightarrow> fsys \<times> (IoKind + unit)" where
  "dirs_effect done [] fs = (fs, Inr ())"
| "dirs_effect done (c # cs) fs =
     (case fs_kind fs (done @ [c]) of
        Some Dir \<Rightarrow> dirs_effect (done @ [c]) cs fs
      | Some _ \<Rightarrow> (fs, Inl AlreadyExists)
      | None \<Rightarrow> dirs_effect (done @ [c]) cs (bt_insert (done @ [c]) Dir fs))"

definition create_dir_all :: "path \<Rightarrow> unit io" where
  "create_dir_all p = io_call (dirs_effect [] p)"

text \<open>\<open>File::open(p)?.take(n).read_to_end(..)\<close>.\<close>

definition read_effect :: "nat \<Rightarrow> path \<Rightarrow> fsys \<Rightarrow> fsys \<times> (IoKind + bytes)" where
  "read_effect n p fs =
     (fs, case fs_kind fs p of Some (File b) \<Rightarrow> Inr (take n b) | None \<Rightarrow> Inl NotFound | _ \<Rightarrow> Inl OtherIo)"

definition read_limited :: "nat \<Rightarrow> path \<Rightarrow> bytes io" where
  "read_limited n p = io_call (read_effect n p)"

definition file_type_of :: "path \<Rightarrow> node io" where
  "file_type_of p = io_call (\<lambda>fs. (fs, case fs_kind fs p of None \<Rightarrow> Inl NotFound | Some k \<Rightarrow> Inr k))"

definition open_dir_sync :: "path \<Rightarrow> unit io" where
  "open_dir_sync p = io_call (\<lambda>fs. (fs, if fs_kind fs p = None then Inl NotFound else Inr ()))"

text \<open>\<open>NamedTempFile::new_in(dir)\<close>, \<open>write_all\<close> and \<open>sync_all\<close> of the temporary file.\<close>

definition stage_temp :: "path \<Rightarrow> unit io" where
  "stage_temp dir = io_call (\<lambda>fs. (fs, if fs_kind fs dir = Some Dir then Inr () else Inl NotFound))"

definition persist_effect :: "path \<Rightarrow> bytes \<Rightarrow> fsys \<Rightarrow> fsys \<times> (IoKind + unit)" where
  "persist_effect p b fs =
     (if fs_kind fs p \<noteq> None then (fs, Inl AlreadyExists)
      else if fs_kind fs (butlast p) \<noteq> Some Dir then (fs, Inl NotFound)
      else (bt_insert p (File b) fs, Inr ()))"

definition persist_noclobber :: "path \<Rightarrow> bytes \<Rightarrow> unit io" where
  "persist_noclobber p b = io_call (persist_effect p b)"

text \<open>\<open>read_dir\<close>: the names in a directory with their nodes.\<close>

definition read_dir :: "path \<Rightarrow> (path \<times> node) list io" where
  "read_dir dir =
     io_call (\<lambda>fs. (fs, if fs_kind fs dir = Some Dir
                        then Inr (filter (\<lambda>(p, k). p \<noteq> [] \<and> butlast p = dir) fs)
                        else Inl NotFound))"

lemmas io_defs = io_return_def io_fail_def io_bind_def io_seq_def io_match_def io_when_def
lemmas call_defs = create_dir_def create_dir_all_def read_limited_def file_type_of_def open_dir_sync_def
  stage_temp_def persist_noclobber_def read_dir_def

section \<open>Nothing published is ever changed\<close>

definition fs_le :: "fsys \<Rightarrow> fsys \<Rightarrow> bool" where
  "fs_le a b \<longleftrightarrow> (\<forall>p k. fs_kind a p = Some k \<longrightarrow> fs_kind b p = Some k)"

lemma fs_le_refl [simp]: "fs_le a a"
  by (simp add: fs_le_def)

lemma fs_le_trans: "fs_le a b \<Longrightarrow> fs_le b c \<Longrightarrow> fs_le a c"
  by (simp add: fs_le_def)

lemma fs_leD: "fs_le a b \<Longrightarrow> fs_kind a p = Some k \<Longrightarrow> fs_kind b p = Some k"
  by (simp add: fs_le_def)

text \<open>Every entry lies in a directory.\<close>

definition wf_fs :: "fsys \<Rightarrow> bool" where
  "wf_fs fs \<longleftrightarrow> bt_invar fs \<and> (\<forall>p k. p \<noteq> [] \<longrightarrow> fs_kind fs p = Some k \<longrightarrow> fs_kind fs (butlast p) = Some Dir)"

definition wf_world :: "world \<Rightarrow> bool" where
  "wf_world w = wf_fs (w_fs w)"

text \<open>The interface of an operation: it keeps the tree well formed and only ever adds to it.\<close>

definition grows :: "'a io \<Rightarrow> bool" where
  "grows m \<longleftrightarrow> (\<forall>w. wf_world w \<longrightarrow> wf_world (fst (m w)) \<and> fs_le (w_fs w) (w_fs (fst (m w))))"

named_theorems grow_intros \<open>operations only add to the tree\<close>

lemma fs_kind_insert: "bt_invar fs \<Longrightarrow> fs_kind (bt_insert p k fs) q = (if q = [] then Some Dir else if q = p then Some k else fs_kind fs q)"
  by (simp add: fs_kind_def bt_simps)

lemma fs_le_insert: "bt_invar fs \<Longrightarrow> fs_kind fs p = None \<Longrightarrow> fs_le fs (bt_insert p k fs)"
  by (auto simp: fs_le_def fs_kind_insert split: if_splits)

lemma wf_fs_invar: "wf_fs fs \<Longrightarrow> bt_invar fs"
  by (simp add: wf_fs_def)

lemma butlast_neq: "p \<noteq> [] \<Longrightarrow> butlast p \<noteq> p"
  by (cases p rule: rev_cases) auto

lemma wf_fs_insert:
  assumes "wf_fs fs" "fs_kind fs p = None" "fs_kind fs (butlast p) = Some Dir"
  shows "wf_fs (bt_insert p k fs)"
proof -
  have inv: "bt_invar fs" using assms(1) by (simp add: wf_fs_def)
  have "p \<noteq> []" using assms(2) by (auto simp: fs_kind_def)
  have up: "butlast q \<noteq> p" if "q \<noteq> p" "fs_kind fs q = Some j" "q \<noteq> []" for q j
    using assms(1,2) that by (auto simp: wf_fs_def)
  show ?thesis
    using assms inv up butlast_neq [OF \<open>p \<noteq> []\<close>]
    by (auto simp: wf_fs_def fs_kind_insert bt_simps)
qed

lemma wf_fs_child:
  "wf_fs fs \<Longrightarrow> fs_kind fs d = None \<Longrightarrow> fs_kind fs (d @ [x]) = None"
  by (cases "fs_kind fs (d @ [x])") (auto simp: wf_fs_def)

lemma grows_call:
  assumes "\<And>fs. wf_fs fs \<Longrightarrow> wf_fs (fst (eff fs)) \<and> fs_le fs (fst (eff fs))"
  shows "grows (io_call eff)"
  unfolding grows_def io_call_def wf_world_def
  using assms by (auto split: list.split fault.split prod.split) (metis fst_conv)+

lemma grows_bind [grow_intros]: "grows m \<Longrightarrow> (\<And>x. grows (f x)) \<Longrightarrow> grows (io_bind m f)"
  unfolding grows_def io_bind_def
  by (auto split: prod.splits sum.splits) (metis fst_conv fs_le_trans)+

lemma grows_match [grow_intros]: "grows m \<Longrightarrow> (\<And>r. grows (f r)) \<Longrightarrow> grows (io_match m f)"
  unfolding grows_def io_match_def
  by (auto split: prod.splits) (metis fst_conv fs_le_trans)+

lemma grows_return [grow_intros]: "grows (io_return x)"
  by (simp add: grows_def io_return_def)

lemma grows_fail [grow_intros]: "grows (io_fail e)"
  by (simp add: grows_def io_fail_def)

lemma grows_seq [grow_intros]: "grows m \<Longrightarrow> grows n \<Longrightarrow> grows (io_seq m n)"
  unfolding io_seq_def by (intro grow_intros)

lemma grows_when [grow_intros]: "grows (io_when b e)"
  by (simp add: io_when_def grow_intros)

lemma dirs_effect_grows:
  "wf_fs fs \<Longrightarrow> fs_kind fs d = Some Dir \<Longrightarrow>
     wf_fs (fst (dirs_effect d p fs)) \<and> fs_le fs (fst (dirs_effect d p fs))"
proof (induction d p fs rule: dirs_effect.induct)
  case (2 d c cs fs)
  show ?case
  proof (cases "fs_kind fs (d @ [c])")
    case None
    have wf: "wf_fs (bt_insert (d @ [c]) Dir fs)" using wf_fs_insert [of fs "d @ [c]" Dir] 2 None by simp
    have le: "fs_le fs (bt_insert (d @ [c]) Dir fs)" using None 2 by (simp add: fs_le_insert wf_fs_def)
    have "fs_kind (bt_insert (d @ [c]) Dir fs) (d @ [c]) = Some Dir"
      using 2 by (simp add: fs_kind_insert wf_fs_def)
    then show ?thesis using "2.IH"(1) [OF None wf] None le fs_le_trans by auto
  next
    case (Some k)
    then show ?thesis using 2 by (cases k) auto
  qed
qed simp

lemma grows_calls [grow_intros]:
  "grows (create_dir p)" "grows (create_dir_all p)" "grows (read_limited n p)" "grows (file_type_of p)"
  "grows (open_dir_sync p)" "grows (stage_temp p)" "grows (persist_noclobber p b)" "grows (read_dir p)"
  unfolding call_defs
  by (rule grows_call; simp add: dir_effect_def persist_effect_def read_effect_def wf_fs_invar wf_fs_insert
      fs_le_insert dirs_effect_grows)+

section \<open>Successful calls\<close>

lemma io_call_Ok:
  "io_call eff w = (w', Inr x) \<Longrightarrow> \<exists>fs. eff (w_fs w) = (fs, Inr x) \<and> w_fs w' = fs \<and> w_mtime w' = w_mtime w"
  by (auto simp: io_call_def split: list.splits fault.splits prod.splits)

lemma io_bind_Ok: "io_bind m f w = (w', Inr y) \<longleftrightarrow> (\<exists>w1 x. m w = (w1, Inr x) \<and> f x w1 = (w', Inr y))"
  by (auto simp: io_bind_def split: prod.splits sum.splits)

lemma io_seq_Ok: "io_seq m n w = (w', Inr y) \<longleftrightarrow> (\<exists>w1 x. m w = (w1, Inr x) \<and> n w1 = (w', Inr y))"
  by (simp add: io_seq_def io_bind_Ok)

lemma io_when_Ok [simp]: "io_when b e w = (w', Inr u) \<longleftrightarrow> \<not> b \<and> w' = w"
  by (auto simp: io_when_def io_fail_def io_return_def)

lemma io_return_Ok [simp]: "io_return x w = (w', Inr y) \<longleftrightarrow> w' = w \<and> y = x"
  by (auto simp: io_return_def)

lemma io_fail_Ok [simp]: "io_fail e w \<noteq> (w', Inr y)"
  by (simp add: io_fail_def)

lemmas io_Ok = io_bind_Ok io_seq_Ok

lemma create_dir_Ok:
  "create_dir p w = (w', Inr u) \<Longrightarrow> fs_kind (w_fs w) p = None \<and> w_fs w' = bt_insert p Dir (w_fs w)"
  unfolding create_dir_def by (drule io_call_Ok) (auto simp: dir_effect_def split: if_splits)

lemma persist_Ok:
  "persist_noclobber p b w = (w', Inr u) \<Longrightarrow> fs_kind (w_fs w) p = None \<and> w_fs w' = bt_insert p (File b) (w_fs w)"
  unfolding persist_noclobber_def by (drule io_call_Ok) (auto simp: persist_effect_def split: if_splits)

lemma read_limited_Ok:
  "read_limited n p w = (w', Inr x) \<Longrightarrow> \<exists>b. fs_kind (w_fs w) p = Some (File b) \<and> x = take n b \<and> w_fs w' = w_fs w"
  unfolding read_limited_def
  by (drule io_call_Ok) (auto simp: read_effect_def split: option.splits node.splits)

text \<open>Without further faults a read returns the file.\<close>

lemma read_limited_calm:
  "w_faults w = [] \<Longrightarrow> read_limited n p w =
     (w, case fs_kind (w_fs w) p of Some (File b) \<Rightarrow> Inr (take n b) | None \<Rightarrow> Inl NotFound | _ \<Rightarrow> Inl OtherIo)"
  by (simp add: read_limited_def io_call_def read_effect_def)

end
