(* ===== verification/Journal.thy ===== *)
theory Journal
  imports Fs Control "HOL-Library.Product_Lexorder"
begin

text \<open>
  \<open>celln-warden/src/parent_journal.rs\<close>: the durable tombstone of a parent incarnation and the
  immutable stages of its turns, on the file system of \<open>Fs\<close>.

  The JSON serializer and the hash function are the record \<open>Serde\<close> of functions; what the host
  reports of its own processes is the record \<open>ProcInfo\<close>. Theorems name what they need of them.
\<close>

section \<open>Records\<close>

record ParentRecord =
  pr_version :: u8
  pr_parent :: hash
  pr_recovery :: string

record OwnerRecord =
  or_version :: u8
  or_parent :: hash
  or_principal :: string

record ProcessRecord =
  px_version :: u8
  px_parent :: hash
  px_boot :: string
  px_namespace :: u64
  px_uid :: u32
  px_pid :: u32
  px_start_ticks :: u64

record Reservation =
  rv_version :: u8
  rv_parent :: hash
  rv_child :: hash
  rv_request :: TurnRequest
  rv_memory_bytes :: u64
  rv_timeout_nanos :: nat
  rv_model_requests :: u64
  rv_output_tokens :: u64

record DestroyedRecord =
  dr_version :: u8
  dr_parent :: hash
  dr_child :: hash
  dr_turn_id :: string
  dr_succeeded :: bool
  dr_answer :: string

record CommittedRecord =
  cr_version :: u8
  cr_parent :: hash
  cr_child :: hash
  cr_turn_id :: string

record NeverCreated =
  nc_parent :: hash
  nc_principal :: string

datatype Doc =
    DParent ParentRecord | DOwner OwnerRecord | DProcess ProcessRecord | DReserved Reservation
  | DDestroyed DestroyedRecord | DCommitted CommittedRecord | DNever NeverCreated

text \<open>
  \<open>se_enc\<close> is \<open>serde_json::to_vec\<close>, the typed decoders are \<open>serde_json::from_slice\<close>. \<open>se_never\<close>
  reads a document as an untyped JSON value: \<open>None\<close> if it is no JSON, and otherwise whether it
  equals a never-created proof and which.
\<close>

record Serde =
  se_hash :: "bytes \<Rightarrow> hash"
  se_pair :: "string \<times> string \<Rightarrow> bytes"
  se_request :: "TurnRequest \<Rightarrow> bytes"
  se_request_dec :: "bytes \<Rightarrow> TurnRequest option"
  se_enc :: "Doc \<Rightarrow> bytes"
  se_parent :: "bytes \<Rightarrow> ParentRecord option"
  se_owner :: "bytes \<Rightarrow> OwnerRecord option"
  se_process :: "bytes \<Rightarrow> ProcessRecord option"
  se_reserved :: "bytes \<Rightarrow> Reservation option"
  se_destroyed :: "bytes \<Rightarrow> DestroyedRecord option"
  se_committed :: "bytes \<Rightarrow> CommittedRecord option"
  se_never :: "bytes \<Rightarrow> NeverCreated option option"

datatype TurnStatus = Reserved Reservation | ChildDestroyed DestroyedRecord | ParentCommitted DestroyedRecord

record ParentJournal =
  jn_directory :: path
  jn_parent :: hash
  jn_reservations :: nat

definition MAX_RECORD_BYTES :: nat where
  "MAX_RECORD_BYTES = 65536"

definition recovery_text :: string where
  "recovery_text = ''context-lost-without-live-owner''"

section \<open>Publishing and reading records\<close>

definition read_record :: "(bytes \<Rightarrow> 'r option) \<Rightarrow> path \<Rightarrow> 'r io" where
  "read_record dec p =
     io_bind (read_limited (MAX_RECORD_BYTES + 1) p) (\<lambda>b.
       if length b > MAX_RECORD_BYTES then io_fail InvalidData
       else case dec b of None \<Rightarrow> io_fail InvalidData | Some r \<Rightarrow> io_return r)"

definition publish :: "Serde \<Rightarrow> path \<Rightarrow> string \<Rightarrow> Doc \<Rightarrow> unit io" where
  "publish sd directory name value =
     (let b = se_enc sd value in
      io_seq (io_when (length b > MAX_RECORD_BYTES) InvalidData)
      (io_seq (stage_temp directory)
      (io_seq (persist_noclobber (directory @ [name]) b)
              (open_dir_sync directory))))"

definition hash_name :: "hash \<Rightarrow> string" where
  "hash_name h = trim_start_matches ''blake3:'' (hash_str h)"

definition parent_directory :: "Serde \<Rightarrow> path \<Rightarrow> hash \<Rightarrow> path" where
  "parent_directory sd root parent = root @ [hash_name (se_hash sd (as_bytes (hash_str parent)))]"

definition journal_filename :: "Serde \<Rightarrow> string \<Rightarrow> string \<Rightarrow> string" where
  "journal_filename sd turn stage =
     hash_name (se_hash sd (as_bytes turn)) @ ''.'' @ stage @ ''.json''"

definition valid_principal :: "string \<Rightarrow> bool" where
  "valid_principal p = (p \<noteq> [] \<and> length p \<le> 512 \<and> \<not> has_control p)"

section \<open>Creation and fencing\<close>

fun sync_ancestors :: "nat \<Rightarrow> path \<Rightarrow> unit io" where
  "sync_ancestors 0 p = open_dir_sync []"
| "sync_ancestors (Suc n) p = io_seq (open_dir_sync p) (sync_ancestors n (butlast p))"

definition journal_create :: "Serde \<Rightarrow> path \<Rightarrow> hash \<Rightarrow> ParentJournal io" where
  "journal_create sd root parent =
     (let directory = parent_directory sd root parent in
      io_seq (create_dir_all root)
      (io_seq (create_dir directory)
      (io_seq (file_type_of directory)
      (io_seq (sync_ancestors (length directory) directory)
      (io_seq (publish sd directory ''parent.json''
                 (DParent \<lparr>pr_version = 1, pr_parent = parent, pr_recovery = recovery_text\<rparr>))
              (io_return \<lparr>jn_directory = directory, jn_parent = parent, jn_reservations = 0\<rparr>))))))"

definition fence_uncreated :: "Serde \<Rightarrow> path \<Rightarrow> hash \<Rightarrow> string \<Rightarrow> bool io" where
  "fence_uncreated sd root parent who =
     (let directory = parent_directory sd root parent;
          proof_rec = \<lparr>nc_parent = parent, nc_principal = who\<rparr> in
      io_seq (io_when (\<not> valid_principal who) InvalidData)
      (io_seq (create_dir_all root)
      (io_match (create_dir directory) (\<lambda>r.
         case r of
           Inr _ \<Rightarrow>
             io_seq (publish sd directory ''never-created.json'' (DNever proof_rec))
             (io_seq (open_dir_sync root) (io_return True))
         | Inl AlreadyExists \<Rightarrow>
             io_bind (file_type_of directory) (\<lambda>k.
               if k \<noteq> Dir then io_return False
               else io_match (file_type_of (directory @ [''never-created.json''])) (\<lambda>o1.
                 case o1 of
                   Inl _ \<Rightarrow> io_return False
                 | Inr _ \<Rightarrow>
                     io_bind (file_type_of (directory @ [''never-created.json''])) (\<lambda>k2.
                       case k2 of
                         File _ \<Rightarrow>
                           io_bind (read_limited 16385 (directory @ [''never-created.json''])) (\<lambda>b.
                             if length b > 16384 then io_return False
                             else case se_never sd b of
                                    None \<Rightarrow> io_fail InvalidData
                                  | Some v \<Rightarrow> io_return (v = Some proof_rec))
                       | _ \<Rightarrow> io_return False)))
         | Inl e \<Rightarrow> io_fail e))))"

definition bind_owner :: "Serde \<Rightarrow> string \<Rightarrow> ParentJournal \<Rightarrow> unit io" where
  "bind_owner sd who j =
     io_seq (io_when (\<not> valid_principal who) InvalidData)
       (publish sd (jn_directory j) ''owner.json''
          (DOwner \<lparr>or_version = 1, or_parent = jn_parent j, or_principal = who\<rparr>))"

section \<open>Host process identity\<close>

text \<open>
  What \<open>/proc\<close> answers: the boot id file, the inode of the PID namespace, the owner of
  \<open>/proc/self\<close>, the stat file of a process (its first 16385 bytes), the own process id, and
  whether \<open>kill(pid, 0)\<close> fails with \<open>ESRCH\<close>.
\<close>

record ProcInfo =
  pi_boot :: "IoKind + string"
  pi_namespace :: "IoKind + u64"
  pi_uid :: "IoKind + u32"
  pi_stat :: "u32 \<Rightarrow> IoKind + string"
  pi_self :: u32
  pi_esrch :: "u32 \<Rightarrow> bool"

definition process_context :: "ProcInfo \<Rightarrow> IoKind + string \<times> u64" where
  "process_context pi =
     (case pi_boot pi of
        Inl e \<Rightarrow> Inl e
      | Inr raw \<Rightarrow>
          (let boot = str_trim raw in
           if length boot \<noteq> 36 \<or> \<not> list_all (\<lambda>b. is_ascii_hexdigit b \<or> b = CHR ''-'') boot then Inl InvalidData
           else case pi_namespace pi of Inl e \<Rightarrow> Inl e | Inr ns \<Rightarrow> Inr (boot, ns)))"

definition process_start :: "ProcInfo \<Rightarrow> u32 \<Rightarrow> IoKind + u64" where
  "process_start pi pid =
     (case pi_stat pi pid of
        Inl e \<Rightarrow> Inl e
      | Inr stat \<Rightarrow>
          if length stat > 16384 then Inl InvalidData
          else (case rsplit_after (CHR '')'') stat of
            None \<Rightarrow> Inl InvalidData
          | Some rest \<Rightarrow>
              (let ws = split_whitespace rest in
               if length ws \<le> 19 then Inl InvalidData
               else case parse_u64 (ws ! 19) of
                      None \<Rightarrow> Inl InvalidData
                    | Some ticks \<Rightarrow> if ticks = 0 then Inl InvalidData else Inr ticks)))"

definition io_of :: "IoKind + 'a \<Rightarrow> 'a io" where
  "io_of r = (case r of Inl e \<Rightarrow> io_fail e | Inr x \<Rightarrow> io_return x)"

definition bind_process :: "Serde \<Rightarrow> ProcInfo \<Rightarrow> ParentJournal \<Rightarrow> unit io" where
  "bind_process sd pi j =
     io_bind (io_of (process_context pi)) (\<lambda>(boot, ns).
     io_bind (io_of (pi_uid pi)) (\<lambda>uid.
     io_bind (io_of (process_start pi (pi_self pi))) (\<lambda>start.
       publish sd (jn_directory j) ''process.json''
         (DProcess \<lparr>px_version = 1, px_parent = jn_parent j, px_boot = boot, px_namespace = ns,
                    px_uid = uid, px_pid = pi_self pi, px_start_ticks = start\<rparr>))))"

section \<open>Turn stages\<close>

definition child_hash :: "Serde \<Rightarrow> hash \<Rightarrow> string \<Rightarrow> hash" where
  "child_hash sd parent turn = se_hash sd (se_pair sd (hash_str parent, turn))"

definition request_ok :: "Serde \<Rightarrow> TurnRequest \<Rightarrow> bool" where
  "request_ok sd r = is_ok (TurnRequest_decode (se_request_dec sd) (se_request sd r))"

definition reservation_of :: "ReservedTurn \<Rightarrow> Reservation" where
  "reservation_of turn =
     \<lparr>rv_version = 1, rv_parent = rt_parent turn, rv_child = rt_child turn,
      rv_request = rt_request turn, rv_memory_bytes = memory_bytes (rt_limits turn),
      rv_timeout_nanos = timeout (rt_limits turn), rv_model_requests = model_requests (rt_limits turn),
      rv_output_tokens = output_tokens (rt_limits turn)\<rparr>"

text \<open>\<open>reserve\<close> changes the journal value too; the count is consumed even when publishing fails.\<close>

definition journal_reserve ::
  "Serde \<Rightarrow> ReservedTurn \<Rightarrow> ParentJournal \<times> world \<Rightarrow> (ParentJournal \<times> world) \<times> (IoKind + unit)" where
  "journal_reserve sd turn s =
     (let (j, w) = s in
      if jn_reservations j \<ge> 1024 \<or> rt_parent turn \<noteq> jn_parent j \<or> \<not> request_ok sd (rt_request turn)
         \<or> rt_child turn \<noteq> child_hash sd (rt_parent turn) (turn_id (rt_request turn))
      then (s, Inl InvalidData)
      else (case publish sd (jn_directory j) (journal_filename sd (turn_id (rt_request turn)) ''reserved'')
                   (DReserved (reservation_of turn)) w of
              (w', r) \<Rightarrow> ((j\<lparr>jn_reservations := jn_reservations j + 1\<rparr>, w'), r)))"

definition journal_reservation :: "Serde \<Rightarrow> ParentJournal \<Rightarrow> string \<Rightarrow> Reservation io" where
  "journal_reservation sd j turn =
     io_bind (read_record (se_reserved sd) (jn_directory j @ [journal_filename sd turn ''reserved''])) (\<lambda>record.
       if rv_version record \<noteq> 1 \<or> rv_parent record \<noteq> jn_parent j \<or> turn_id (rv_request record) \<noteq> turn
          \<or> \<not> request_ok sd (rv_request record) \<or> rv_child record \<noteq> child_hash sd (jn_parent j) turn
       then io_fail InvalidData else io_return record)"

definition journal_destroyed :: "Serde \<Rightarrow> ParentJournal \<Rightarrow> string \<Rightarrow> hash \<Rightarrow> DestroyedRecord io" where
  "journal_destroyed sd j turn child =
     io_bind (read_record (se_destroyed sd) (jn_directory j @ [journal_filename sd turn ''destroyed''])) (\<lambda>record.
       if dr_version record \<noteq> 1 \<or> dr_parent record \<noteq> jn_parent j \<or> dr_child record \<noteq> child
          \<or> dr_turn_id record \<noteq> turn \<or> length (dr_answer record) > MAX_ANSWER_BYTES
       then io_fail InvalidData else io_return record)"

definition turn_status :: "Serde \<Rightarrow> ParentJournal \<Rightarrow> string \<Rightarrow> TurnStatus io" where
  "turn_status sd j turn =
     io_bind (journal_reservation sd j turn) (\<lambda>reservation.
     io_bind (io_match (read_record (se_committed sd) (jn_directory j @ [journal_filename sd turn ''committed'']))
        (\<lambda>r. case r of
               Inr record \<Rightarrow>
                 if cr_version record \<noteq> 1 \<or> cr_parent record \<noteq> jn_parent j
                    \<or> cr_child record \<noteq> rv_child reservation \<or> cr_turn_id record \<noteq> turn
                 then io_fail InvalidData else io_return True
             | Inl NotFound \<Rightarrow> io_return False
             | Inl e \<Rightarrow> io_fail e)) (\<lambda>committed.
     io_match (journal_destroyed sd j turn (rv_child reservation)) (\<lambda>r.
       case r of
         Inr record \<Rightarrow> io_return (if committed then ParentCommitted record else ChildDestroyed record)
       | Inl e \<Rightarrow> if e = NotFound \<and> \<not> committed then io_return (Reserved reservation) else io_fail e)))"

definition child_destroyed :: "Serde \<Rightarrow> string \<Rightarrow> hash \<Rightarrow> bool \<Rightarrow> string \<Rightarrow> ParentJournal \<Rightarrow> unit io" where
  "child_destroyed sd turn child succeeded answer j =
     io_bind (journal_reservation sd j turn) (\<lambda>record.
     io_seq (io_when (rv_child record \<noteq> child \<or> length answer > MAX_ANSWER_BYTES) InvalidData)
       (publish sd (jn_directory j) (journal_filename sd turn ''destroyed'')
          (DDestroyed \<lparr>dr_version = 1, dr_parent = jn_parent j, dr_child = child, dr_turn_id = turn,
                       dr_succeeded = succeeded, dr_answer = answer\<rparr>)))"

definition parent_committed :: "Serde \<Rightarrow> string \<Rightarrow> hash \<Rightarrow> ParentJournal \<Rightarrow> unit io" where
  "parent_committed sd turn child j =
     io_bind (journal_reservation sd j turn) (\<lambda>record.
     io_seq (io_when (rv_child record \<noteq> child) InvalidData)
     (io_seq (journal_destroyed sd j turn child)
       (publish sd (jn_directory j) (journal_filename sd turn ''committed'')
          (DCommitted \<lparr>cr_version = 1, cr_parent = jn_parent j, cr_child = child, cr_turn_id = turn\<rparr>))))"

section \<open>Historical reads\<close>

definition historical_owner :: "Serde \<Rightarrow> path \<Rightarrow> hash \<Rightarrow> string \<Rightarrow> bool io" where
  "historical_owner sd root parent who =
     (let directory = parent_directory sd root parent in
      io_bind (read_record (se_parent sd) (directory @ [''parent.json''])) (\<lambda>identity.
      io_bind (read_record (se_owner sd) (directory @ [''owner.json''])) (\<lambda>owner.
        if pr_version identity \<noteq> 1 \<or> pr_parent identity \<noteq> parent \<or> pr_recovery identity \<noteq> recovery_text
           \<or> or_version owner \<noteq> 1 \<or> or_parent owner \<noteq> parent \<or> \<not> valid_principal (or_principal owner)
        then io_fail InvalidData else io_return (or_principal owner = who))))"

definition open_historical :: "Serde \<Rightarrow> path \<Rightarrow> hash \<Rightarrow> ParentJournal io" where
  "open_historical sd root parent =
     (let j = \<lparr>jn_directory = parent_directory sd root parent, jn_parent = parent, jn_reservations = 0\<rparr> in
      io_bind (read_record (se_parent sd) (jn_directory j @ [''parent.json''])) (\<lambda>identity.
        if pr_version identity \<noteq> 1 \<or> pr_parent identity \<noteq> parent \<or> pr_recovery identity \<noteq> recovery_text
        then io_fail InvalidData else io_return j))"

definition inspect_turn :: "Serde \<Rightarrow> path \<Rightarrow> hash \<Rightarrow> string \<Rightarrow> TurnStatus io" where
  "inspect_turn sd root parent turn = io_bind (open_historical sd root parent) (\<lambda>j. turn_status sd j turn)"

definition historical_teardown :: "Serde \<Rightarrow> ProcInfo \<Rightarrow> path \<Rightarrow> hash \<Rightarrow> string \<Rightarrow> bool io" where
  "historical_teardown sd pi root parent who =
     io_bind (historical_owner sd root parent who) (\<lambda>owns.
       if \<not> owns then io_return False
       else io_bind (read_record (se_process sd) (parent_directory sd root parent @ [''process.json''])) (\<lambda>process.
         io_bind (io_of (process_context pi)) (\<lambda>(boot, ns).
           if px_version process \<noteq> 1 \<or> px_parent process \<noteq> parent \<or> px_pid process = 0
              \<or> px_start_ticks process = 0 \<or> px_boot process \<noteq> boot \<or> px_namespace process \<noteq> ns
           then io_fail InvalidData
           else io_bind (io_of (pi_uid pi)) (\<lambda>uid.
             if px_uid process \<noteq> uid then io_fail InvalidData
             else case process_start pi (px_pid process) of
                    Inr start \<Rightarrow> io_return (start \<noteq> px_start_ticks process)
                  | Inl NotFound \<Rightarrow>
                      if unat (px_pid process) \<ge> 2 ^ 31 then io_fail InvalidData
                      else io_return (pi_esrch pi (px_pid process))
                  | Inl e \<Rightarrow> io_fail e))))"

section \<open>Operator listings\<close>

record TurnSummary =
  ts_turn_id :: string
  ts_stage :: string
  ts_child :: hash
  ts_succeeded :: "bool option"
  ts_timeout_nanos :: nat
  ts_reserved_ms :: u64

record ParentSummary =
  ps_parent :: hash
  ps_updated_ms :: u64
  ps_turns :: "TurnSummary list"
  ps_turns_total :: nat

definition io_ok :: "'a io \<Rightarrow> 'a option io" where
  "io_ok m = io_match m (\<lambda>r. case r of Inl _ \<Rightarrow> io_return None | Inr x \<Rightarrow> io_return (Some x))"

definition modified_ms :: "path \<Rightarrow> u64 io" where
  "modified_ms p w = (w, Inr (w_mtime w p))"

fun with_mtimes :: "path list \<Rightarrow> (u64 \<times> path) list io" where
  "with_mtimes [] = io_return []"
| "with_mtimes (p # ps) =
     io_bind (modified_ms p) (\<lambda>t. io_bind (with_mtimes ps) (\<lambda>rest. io_return ((t, p) # rest)))"

text \<open>\<open>filter_map\<close>, and \<open>filter_map\<close> followed by \<open>take\<close>, which stops once it has enough.\<close>

fun io_filter_map :: "('a \<Rightarrow> 'b option io) \<Rightarrow> 'a list \<Rightarrow> 'b list io" where
  "io_filter_map f [] = io_return []"
| "io_filter_map f (x # xs) =
     io_bind (f x) (\<lambda>r. io_bind (io_filter_map f xs) (\<lambda>ys.
       io_return (case r of None \<Rightarrow> ys | Some y \<Rightarrow> y # ys)))"

fun io_filter_take :: "('a \<Rightarrow> 'b option io) \<Rightarrow> nat \<Rightarrow> 'a list \<Rightarrow> 'b list io" where
  "io_filter_take f n [] = io_return []"
| "io_filter_take f n (x # xs) =
     (if n = 0 then io_return []
      else io_bind (f x) (\<lambda>r.
             case r of
               None \<Rightarrow> io_filter_take f n xs
             | Some y \<Rightarrow> io_bind (io_filter_take f (n - 1) xs) (\<lambda>ys. io_return (y # ys))))"

fun stage_view :: "TurnStatus \<Rightarrow> string \<times> hash \<times> bool option" where
  "stage_view (Reserved r) = (''reserved'', rv_child r, None)"
| "stage_view (ChildDestroyed d) = (''child-destroyed'', dr_child d, Some (dr_succeeded d))"
| "stage_view (ParentCommitted d) = (''parent-committed'', dr_child d, Some (dr_succeeded d))"

definition summarize_turn :: "Serde \<Rightarrow> ParentJournal \<Rightarrow> u64 \<times> path \<Rightarrow> TurnSummary option io" where
  "summarize_turn sd j x =
     (let (reserved_ms, p) = x in
      io_bind (io_ok (read_record (se_reserved sd) p)) (\<lambda>r.
        case r of
          None \<Rightarrow> io_return None
        | Some record \<Rightarrow>
            (let turn = turn_id (rv_request record) in
             if last p \<noteq> journal_filename sd turn ''reserved'' then io_return None
             else io_bind (io_ok (turn_status sd j turn)) (\<lambda>s.
                    case s of
                      None \<Rightarrow> io_return None
                    | Some status \<Rightarrow>
                        (case stage_view status of (stage, child, succeeded) \<Rightarrow>
                           io_return (Some \<lparr>ts_turn_id = turn, ts_stage = stage, ts_child = child,
                             ts_succeeded = succeeded, ts_timeout_nanos = rv_timeout_nanos record,
                             ts_reserved_ms = reserved_ms\<rparr>))))))"

definition newest_first :: "(u64 \<times> path) list \<Rightarrow> (u64 \<times> path) list" where
  "newest_first xs = rev (sort xs)"

definition summarize_parent :: "Serde \<Rightarrow> path \<Rightarrow> hash \<Rightarrow> nat \<Rightarrow> ParentSummary io" where
  "summarize_parent sd root parent max_turns =
     io_bind (open_historical sd root parent) (\<lambda>j.
     io_seq (file_type_of (jn_directory j))
     (io_bind (modified_ms (jn_directory j)) (\<lambda>updated.
     io_bind (read_dir (jn_directory j)) (\<lambda>entries.
     io_bind (with_mtimes (map fst (filter (\<lambda>(p, k). ends_with ''.reserved.json'' (last p)) entries))) (\<lambda>reserved.
     io_bind (io_filter_map (summarize_turn sd j) (take max_turns (newest_first reserved))) (\<lambda>turns.
       io_return \<lparr>ps_parent = parent, ps_updated_ms = updated, ps_turns = turns,
                  ps_turns_total = length reserved\<rparr>))))))"

definition summarize_directory :: "Serde \<Rightarrow> path \<Rightarrow> nat \<Rightarrow> u64 \<times> path \<Rightarrow> ParentSummary option io" where
  "summarize_directory sd root max_turns x =
     (let directory = snd x in
      io_bind (io_ok (read_record (se_parent sd) (directory @ [''parent.json'']))) (\<lambda>r.
        case r of
          None \<Rightarrow> io_return None
        | Some identity \<Rightarrow>
            if parent_directory sd root (pr_parent identity) = directory
            then io_ok (summarize_parent sd root (pr_parent identity) max_turns)
            else io_return None))"

definition list_parents :: "Serde \<Rightarrow> path \<Rightarrow> nat \<Rightarrow> nat \<Rightarrow> ParentSummary list io" where
  "list_parents sd root max_parents max_turns =
     io_match (read_dir root) (\<lambda>r.
       case r of
         Inl _ \<Rightarrow> io_return []
       | Inr entries \<Rightarrow>
           io_bind (with_mtimes (map fst (filter (\<lambda>(p, k). k = Dir) entries))) (\<lambda>directories.
             io_filter_take (summarize_directory sd root max_turns) max_parents (newest_first directories)))"

section \<open>Every operation only adds records\<close>

lemma grows_read_record [grow_intros]: "grows (read_record dec p)"
  unfolding read_record_def by (auto intro!: grow_intros split: option.split)

lemma grows_publish [grow_intros]: "grows (publish sd d name v)"
  unfolding publish_def Let_def by (intro grow_intros)

lemma grows_sync_ancestors [grow_intros]: "grows (sync_ancestors n p)"
  by (induction n p rule: sync_ancestors.induct) (auto intro: grow_intros)

lemma grows_create [grow_intros]: "grows (journal_create sd root parent)"
  unfolding journal_create_def Let_def by (intro grow_intros)

lemma grows_fence [grow_intros]: "grows (fence_uncreated sd root parent who)"
  unfolding fence_uncreated_def Let_def
  by (auto intro!: grow_intros split: sum.split IoKind.split node.split option.split)

lemma grows_io_of [grow_intros]: "grows (io_of r)"
  by (auto simp: io_of_def intro: grow_intros split: sum.split)

lemma grows_binds [grow_intros]: "grows (bind_owner sd who j)" "grows (bind_process sd pi j)"
  unfolding bind_owner_def bind_process_def by (auto intro!: grow_intros split: prod.split)

lemma grows_stage_reads [grow_intros]:
  "grows (journal_reservation sd j turn)" "grows (journal_destroyed sd j turn child)"
  unfolding journal_reservation_def journal_destroyed_def by (auto intro!: grow_intros)

lemma grows_stages [grow_intros]:
  "grows (child_destroyed sd turn child ok answer j)" "grows (parent_committed sd turn child j)"
  "grows (turn_status sd j turn)"
  unfolding child_destroyed_def parent_committed_def turn_status_def
  by (auto intro!: grow_intros split: sum.split IoKind.split)

lemma reserve_grows:
  assumes "wf_world w" "journal_reserve sd turn (j, w) = ((j', w'), r)"
  shows "wf_world w' \<and> fs_le (w_fs w) (w_fs w') \<and> jn_directory j' = jn_directory j \<and> jn_parent j' = jn_parent j"
  using assms grows_publish [unfolded grows_def]
  by (auto simp: journal_reserve_def Let_def split: if_splits prod.splits) (metis fst_conv)+

lemma growsD:
  "grows m \<Longrightarrow> wf_world w \<Longrightarrow> m w = (w', r) \<Longrightarrow> wf_world w' \<and> fs_le (w_fs w) (w_fs w')"
  unfolding grows_def by (metis fst_conv)

section \<open>Journal runs\<close>

text \<open>
  Operations on one journal root by any callers. A journal value exists only where a create
  returned it; \<open>jr_open\<close> holds those, and the stage operations name one by position.
\<close>

datatype JournalOp =
    OpCreate hash | OpFence hash string | OpBindOwner nat string | OpBindProcess nat ProcInfo
  | OpReserve nat ReservedTurn | OpDestroyed nat string hash bool string | OpCommitted nat string hash

datatype JournalResult = RCreated | RFenced bool | RDone | RFailed IoKind | RNoJournal

record journal_run =
  jr_world :: world
  jr_open :: "ParentJournal list"

definition result_unit :: "world \<times> (IoKind + unit) \<Rightarrow> journal_run \<Rightarrow> journal_run \<times> JournalResult" where
  "result_unit x s = (s\<lparr>jr_world := fst x\<rparr>, case snd x of Inl e \<Rightarrow> RFailed e | Inr _ \<Rightarrow> RDone)"

definition on_journal ::
  "nat \<Rightarrow> (ParentJournal \<Rightarrow> journal_run \<times> JournalResult) \<Rightarrow> journal_run \<Rightarrow> journal_run \<times> JournalResult" where
  "on_journal i f s = (if i < length (jr_open s) then f (jr_open s ! i) else (s, RNoJournal))"

fun journal_step :: "Serde \<Rightarrow> path \<Rightarrow> JournalOp \<Rightarrow> journal_run \<Rightarrow> journal_run \<times> JournalResult" where
  "journal_step sd root (OpCreate parent) s =
     (case journal_create sd root parent (jr_world s) of
        (w, Inl e) \<Rightarrow> (s\<lparr>jr_world := w\<rparr>, RFailed e)
      | (w, Inr j) \<Rightarrow> (s\<lparr>jr_world := w, jr_open := jr_open s @ [j]\<rparr>, RCreated))"
| "journal_step sd root (OpFence parent who) s =
     (case fence_uncreated sd root parent who (jr_world s) of
        (w, Inl e) \<Rightarrow> (s\<lparr>jr_world := w\<rparr>, RFailed e)
      | (w, Inr b) \<Rightarrow> (s\<lparr>jr_world := w\<rparr>, RFenced b))"
| "journal_step sd root (OpBindOwner i who) s =
     on_journal i (\<lambda>j. result_unit (bind_owner sd who j (jr_world s)) s) s"
| "journal_step sd root (OpBindProcess i pi) s =
     on_journal i (\<lambda>j. result_unit (bind_process sd pi j (jr_world s)) s) s"
| "journal_step sd root (OpReserve i turn) s =
     on_journal i (\<lambda>j. case journal_reserve sd turn (j, jr_world s) of
        ((j', w), r) \<Rightarrow> result_unit (w, r) (s\<lparr>jr_open := (jr_open s)[i := j']\<rparr>)) s"
| "journal_step sd root (OpDestroyed i turn child ok answer) s =
     on_journal i (\<lambda>j. result_unit (child_destroyed sd turn child ok answer j (jr_world s)) s) s"
| "journal_step sd root (OpCommitted i turn child) s =
     on_journal i (\<lambda>j. result_unit (parent_committed sd turn child j (jr_world s)) s) s"

lemma unit_step_grows:
  assumes "\<And>j. grows (f j)" "wf_world (jr_world s)"
    and "on_journal i (\<lambda>j. result_unit (f j (jr_world s)) s) s = (s', r)"
  shows "wf_world (jr_world s') \<and> fs_le (w_fs (jr_world s)) (w_fs (jr_world s'))"
  using assms growsD [OF assms(1,2), of "jr_open s ! i"]
  by (cases "f (jr_open s ! i) (jr_world s)") (auto simp: on_journal_def result_unit_def split: if_splits)

lemma journal_step_grows:
  assumes "wf_world (jr_world s)" "journal_step sd root op s = (s', r)"
  shows "wf_world (jr_world s') \<and> fs_le (w_fs (jr_world s)) (w_fs (jr_world s'))"
proof (cases op)
  case (OpCreate parent)
  then show ?thesis using assms growsD [OF grows_create, of "jr_world s"]
    by (auto split: prod.splits sum.splits)
next
  case (OpFence parent who)
  then show ?thesis using assms growsD [OF grows_fence, of "jr_world s"]
    by (auto split: prod.splits sum.splits)
next
  case (OpReserve i turn)
  then show ?thesis using assms reserve_grows [of "jr_world s" sd turn "jr_open s ! i"]
    by (cases "journal_reserve sd turn (jr_open s ! i, jr_world s)")
      (auto simp: on_journal_def result_unit_def split: prod.splits if_splits)
next
  case (OpBindOwner i who)
  then show ?thesis using unit_step_grows [OF grows_binds(1) assms(1)] assms(2) by simp
next
  case (OpBindProcess i pi)
  then show ?thesis using unit_step_grows [OF grows_binds(2) assms(1)] assms(2) by simp
next
  case (OpDestroyed i turn child ok answer)
  then show ?thesis using unit_step_grows [OF grows_stages(1) assms(1)] assms(2) by simp
next
  case (OpCommitted i turn child)
  then show ?thesis using unit_step_grows [OF grows_stages(2) assms(1)] assms(2) by simp
qed

section \<open>Which paths an operation may create\<close>

text \<open>Where \<open>d\<close> exists, the operation creates only paths that satisfy \<open>P\<close>.\<close>

definition adds :: "path \<Rightarrow> (path \<Rightarrow> bool) \<Rightarrow> 'a io \<Rightarrow> bool" where
  "adds d P m \<longleftrightarrow>
     (\<forall>w p. wf_world w \<longrightarrow> fs_kind (w_fs w) d \<noteq> None \<longrightarrow> fs_kind (w_fs (fst (m w))) p \<noteq> None \<longrightarrow>
        fs_kind (w_fs w) p \<noteq> None \<or> P p)"

named_theorems add_intros \<open>paths created by operations\<close>

lemma addsD:
  "adds d P m \<Longrightarrow> wf_world w \<Longrightarrow> fs_kind (w_fs w) d \<noteq> None \<Longrightarrow> m w = (w', r) \<Longrightarrow>
     fs_kind (w_fs w') p \<noteq> None \<Longrightarrow> fs_kind (w_fs w) p \<noteq> None \<or> P p"
  unfolding adds_def by (metis fst_conv)

lemma adds_match [add_intros]:
  assumes "grows m" "adds d P m" "\<And>r. adds d P (f r)"
  shows "adds d P (io_match m f)"
  unfolding adds_def
proof (intro allI impI)
  fix w p
  assume w: "wf_world w" "fs_kind (w_fs w) d \<noteq> None" and p: "fs_kind (w_fs (fst (io_match m f w))) p \<noteq> None"
  obtain w1 r where m: "m w = (w1, r)" by fastforce
  have g: "wf_world w1" "fs_le (w_fs w) (w_fs w1)" using growsD [OF assms(1) w(1) m] by auto
  then have d: "fs_kind (w_fs w1) d \<noteq> None" using w(2) fs_leD by fastforce
  have "io_match m f w = f r w1" using m by (simp add: io_match_def)
  then have "fs_kind (w_fs w1) p \<noteq> None \<or> P p"
    using addsD [OF assms(3) g(1) d, of r] p by (metis prod.collapse)
  then show "fs_kind (w_fs w) p \<noteq> None \<or> P p" using addsD [OF assms(2) w m] by blast
qed

lemma io_bind_match: "io_bind m f = io_match m (\<lambda>r. case r of Inl e \<Rightarrow> io_fail e | Inr x \<Rightarrow> f x)"
  by (rule ext) (simp add: io_bind_def io_match_def io_fail_def split: prod.split sum.split)

lemma adds_pure [add_intros]: "adds d P (io_return x)" "adds d P (io_fail e)" "adds d P (io_when b e)"
  by (simp_all add: adds_def io_return_def io_fail_def io_when_def)

lemma adds_bind [add_intros]:
  assumes "grows m" "adds d P m" "\<And>x. adds d P (f x)"
  shows "adds d P (io_bind m f)"
  unfolding io_bind_match using assms by (auto intro!: add_intros split: sum.split)

lemma adds_seq [add_intros]: "grows m \<Longrightarrow> adds d P m \<Longrightarrow> adds d P n \<Longrightarrow> adds d P (io_seq m n)"
  unfolding io_seq_def by (intro add_intros)

lemma adds_call:
  assumes "\<And>fs p. wf_fs fs \<Longrightarrow> fs_kind fs d \<noteq> None \<Longrightarrow> fs_kind (fst (eff fs)) p \<noteq> None \<Longrightarrow> fs_kind fs p \<noteq> None \<or> P p"
  shows "adds d P (io_call eff)"
  unfolding adds_def
proof (intro allI impI)
  fix w p
  assume w: "wf_world w" "fs_kind (w_fs w) d \<noteq> None" "fs_kind (w_fs (fst (io_call eff w))) p \<noteq> None"
  have "w_fs (fst (io_call eff w)) = w_fs w \<or> w_fs (fst (io_call eff w)) = fst (eff (w_fs w))"
    by (auto simp: io_call_def split: list.split fault.split prod.split)
  then show "fs_kind (w_fs w) p \<noteq> None \<or> P p" using w assms [of "w_fs w" p] by (auto simp: wf_world_def)
qed

lemma adds_reads [add_intros]:
  "adds d P (read_limited n p)" "adds d P (file_type_of p)" "adds d P (open_dir_sync p)" "adds d P (stage_temp p)"
  unfolding call_defs by (rule adds_call; simp add: read_effect_def)+

lemma adds_create_dir [add_intros]: "(p \<noteq> d \<Longrightarrow> P p) \<Longrightarrow> adds d P (create_dir p)"
  unfolding create_dir_def
  by (rule adds_call, cases "p = d") (auto simp: dir_effect_def fs_kind_insert wf_fs_invar split: if_splits)

lemma adds_persist [add_intros]: "P p \<Longrightarrow> adds d P (persist_noclobber p b)"
  unfolding persist_noclobber_def
  by (rule adds_call) (auto simp: persist_effect_def fs_kind_insert wf_fs_invar split: if_splits)

lemma dirs_effect_new:
  "wf_fs fs \<Longrightarrow> fs_kind fs e = Some Dir \<Longrightarrow> fs_kind (fst (dirs_effect e p fs)) q \<noteq> None \<Longrightarrow>
     fs_kind fs q \<noteq> None \<or> length q \<le> length e + length p"
proof (induction e p fs rule: dirs_effect.induct)
  case (2 e c cs fs)
  show ?case
  proof (cases "fs_kind fs (e @ [c])")
    case None
    have wf: "wf_fs (bt_insert (e @ [c]) Dir fs)" using wf_fs_insert [of fs "e @ [c]" Dir] 2 None by simp
    have k: "fs_kind (bt_insert (e @ [c]) Dir fs) (e @ [c]) = Some Dir"
      using 2 by (simp add: fs_kind_insert wf_fs_def)
    have "fs_kind (bt_insert (e @ [c]) Dir fs) q \<noteq> None \<or> length q \<le> length e + length (c # cs)"
      using "2.IH"(1) [OF None wf k] "2.prems"(3) None by auto
    then show ?thesis using 2 by (auto simp: fs_kind_insert wf_fs_def split: if_splits)
  next
    case (Some k)
    then show ?thesis using 2 by (cases k) auto
  qed
qed simp

lemma adds_create_dir_all [add_intros]: "(\<And>q. length q \<le> length p \<Longrightarrow> P q) \<Longrightarrow> adds d P (create_dir_all p)"
  unfolding create_dir_all_def
  by (rule adds_call) (use dirs_effect_new [of _ "[]" p] in fastforce)

lemma adds_sync_ancestors [add_intros]: "adds d P (sync_ancestors n p)"
  by (induction n p rule: sync_ancestors.induct) (auto intro!: add_intros grow_intros)

lemma adds_publish [add_intros]: "P (dir @ [name]) \<Longrightarrow> adds d P (publish sd dir name v)"
  unfolding publish_def Let_def by (intro add_intros grow_intros)

lemma adds_read_record [add_intros]: "adds d P (read_record dec p)"
  unfolding read_record_def by (auto intro!: add_intros grow_intros split: option.split)

lemma adds_stage_reads [add_intros]:
  "adds d P (journal_reservation sd j turn)" "adds d P (journal_destroyed sd j turn child)"
  unfolding journal_reservation_def journal_destroyed_def by (auto intro!: add_intros grow_intros)

section \<open>A created incarnation is never fenced\<close>

lemma filename_not_never:
  "journal_filename sd turn ''reserved'' \<noteq> ''never-created.json''"
  "journal_filename sd turn ''destroyed'' \<noteq> ''never-created.json''"
  "journal_filename sd turn ''committed'' \<noteq> ''never-created.json''"
proof -
  have "rev (x @ ''.reserved.json'') \<noteq> rev ''never-created.json''" for x by simp
  moreover have "rev (x @ ''.destroyed.json'') \<noteq> rev ''never-created.json''" for x by simp
  moreover have "rev (x @ ''.committed.json'') \<noteq> rev ''never-created.json''" for x by simp
  ultimately show "journal_filename sd turn ''reserved'' \<noteq> ''never-created.json''"
    "journal_filename sd turn ''destroyed'' \<noteq> ''never-created.json''"
    "journal_filename sd turn ''committed'' \<noteq> ''never-created.json''"
    unfolding journal_filename_def by (metis append_Cons append_Nil)+
qed

definition unfenced :: "path \<Rightarrow> fsys \<Rightarrow> bool" where
  "unfenced d fs \<longleftrightarrow> fs_kind fs d = Some Dir \<and> fs_kind fs (d @ [''never-created.json'']) = None"

text \<open>An operation that keeps every existing directory of the root unfenced.\<close>

definition keeps_unfenced :: "path \<Rightarrow> 'a io \<Rightarrow> bool" where
  "keeps_unfenced root m \<longleftrightarrow>
     (\<forall>h w w' r. wf_world w \<longrightarrow> unfenced (root @ [h]) (w_fs w) \<longrightarrow> m w = (w', r) \<longrightarrow> unfenced (root @ [h]) (w_fs w'))"

lemma keeps_unfencedI:
  assumes "grows m" "\<And>h. adds (root @ [h]) (\<lambda>p. p \<noteq> root @ [h, ''never-created.json'']) m"
  shows "keeps_unfenced root m"
  unfolding keeps_unfenced_def
proof (intro allI impI)
  fix h w w' r assume w: "wf_world w" "unfenced (root @ [h]) (w_fs w)" and m: "m w = (w', r)"
  have "fs_kind (w_fs w') (root @ [h]) = Some Dir"
    using growsD [OF assms(1) w(1) m] w(2) fs_leD by (auto simp: unfenced_def)
  moreover have "fs_kind (w_fs w') (root @ [h, ''never-created.json'']) = None"
    using addsD [OF assms(2) w(1) _ m, of h "root @ [h, ''never-created.json'']"] w(2)
    unfolding unfenced_def by (metis append.assoc append_Cons append_Nil option.simps(3))
  ultimately show "unfenced (root @ [h]) (w_fs w')" by (simp add: unfenced_def)
qed

lemma keeps_unfenced_publish:
  "name \<noteq> ''never-created.json'' \<Longrightarrow> keeps_unfenced root (publish sd (root @ [k]) name v)"
  by (rule keeps_unfencedI) (auto intro!: add_intros grow_intros)

lemma keeps_unfenced_create: "keeps_unfenced root (journal_create sd root parent)"
  unfolding journal_create_def Let_def parent_directory_def
  by (rule keeps_unfencedI) (auto intro!: add_intros grow_intros)

lemma adds_match_existing:
  assumes "\<And>e. adds d P (f (Inl e))"
  shows "adds d P (io_match (create_dir d) f)"
  unfolding adds_def
proof (intro allI impI)
  fix w p
  assume w: "wf_world w" "fs_kind (w_fs w) d \<noteq> None" and p: "fs_kind (w_fs (fst (io_match (create_dir d) f w))) p \<noteq> None"
  obtain w1 r where m: "create_dir d w = (w1, r)" by fastforce
  have same: "w_fs w1 = w_fs w" and "\<exists>e. r = Inl e"
    using m w(2) by (auto simp: create_dir_def io_call_def dir_effect_def split: list.splits fault.splits)
  then obtain e where e: "r = Inl e" by blast
  have "wf_world w1" "fs_kind (w_fs w1) d \<noteq> None" using same w by (simp_all add: wf_world_def)
  then have "fs_kind (w_fs w1) p \<noteq> None \<or> P p"
    using addsD [OF assms, of w1 e _ _ p] p m e by (metis io_match_def old.prod.case prod.collapse)
  then show "fs_kind (w_fs w) p \<noteq> None \<or> P p" using same by simp
qed

lemma keeps_unfenced_fence: "keeps_unfenced root (fence_uncreated sd root parent who)"
proof (rule keeps_unfencedI [OF grows_fence])
  fix h
  show "adds (root @ [h]) (\<lambda>p. p \<noteq> root @ [h, ''never-created.json'']) (fence_uncreated sd root parent who)"
  proof (cases "parent_directory sd root parent = root @ [h]")
    case True
    show ?thesis
      unfolding fence_uncreated_def Let_def True
      by (intro adds_seq adds_match_existing)
        (auto intro!: add_intros grow_intros split: IoKind.split node.split option.split sum.split)
  next
    case False
    then show ?thesis
      unfolding fence_uncreated_def Let_def
      by (auto simp: parent_directory_def intro!: add_intros grow_intros
          split: sum.split IoKind.split node.split option.split)
  qed
qed

lemma keeps_unfencedD:
  "keeps_unfenced root m \<Longrightarrow> wf_world w \<Longrightarrow> m w = (w', r) \<Longrightarrow> unfenced (root @ [h]) (w_fs w) \<Longrightarrow>
     unfenced (root @ [h]) (w_fs w')"
  unfolding keeps_unfenced_def by blast

lemma keeps_unfenced_ops:
  assumes "jn_directory j = root @ [k]"
  shows "keeps_unfenced root (bind_owner sd who j)" "keeps_unfenced root (bind_process sd pi j)"
    "keeps_unfenced root (child_destroyed sd turn child ok answer j)"
    "keeps_unfenced root (parent_committed sd turn child j)"
  unfolding bind_owner_def bind_process_def child_destroyed_def parent_committed_def io_of_def assms
  by (rule keeps_unfencedI;
      auto intro!: add_intros grow_intros simp: filename_not_never split: sum.split prod.split)+

definition open_inv :: "Serde \<Rightarrow> path \<Rightarrow> journal_run \<Rightarrow> bool" where
  "open_inv sd root s \<longleftrightarrow>
     wf_world (jr_world s)
     \<and> (\<forall>j \<in> set (jr_open s). jn_directory j = parent_directory sd root (jn_parent j)
          \<and> unfenced (jn_directory j) (w_fs (jr_world s)))"

lemma create_Ok:
  assumes "wf_world w" "journal_create sd root parent w = (w', Inr j)"
  shows "fs_kind (w_fs w) (parent_directory sd root parent) = None
       \<and> jn_directory j = parent_directory sd root parent \<and> jn_parent j = parent
       \<and> unfenced (jn_directory j) (w_fs w')"
proof -
  let ?d = "parent_directory sd root parent"
  obtain w1 w2 u1 u2 where a: "create_dir_all root w = (w1, Inr u1)" and c: "create_dir ?d w1 = (w2, Inr u2)"
    and rest: "io_seq (file_type_of ?d) (io_seq (sync_ancestors (length ?d) ?d)
       (io_seq (publish sd ?d ''parent.json'' (DParent \<lparr>pr_version = 1, pr_parent = parent, pr_recovery = recovery_text\<rparr>))
          (io_return \<lparr>jn_directory = ?d, jn_parent = parent, jn_reservations = 0\<rparr>))) w2 = (w', Inr j)"
    using assms(2) unfolding journal_create_def Let_def by (auto simp: io_seq_Ok)
  have w1: "wf_world w1" "fs_le (w_fs w) (w_fs w1)" using growsD [OF grows_calls(2) assms(1) a] by auto
  have w2: "wf_world w2" using growsD [OF grows_calls(1) w1(1) c] by auto
  have none: "fs_kind (w_fs w1) ?d = None" and ins: "w_fs w2 = bt_insert ?d Dir (w_fs w1)"
    using create_dir_Ok [OF c] by auto
  have dne: "?d \<noteq> []" by (simp add: parent_directory_def)
  have "unfenced ?d (w_fs w2)"
    using none ins w1(1) wf_fs_child [of "w_fs w1" ?d "''never-created.json''"] dne
    by (simp add: unfenced_def fs_kind_insert wf_world_def wf_fs_def)
  moreover have ku: "keeps_unfenced root (io_seq (file_type_of ?d) (io_seq (sync_ancestors (length ?d) ?d)
       (io_seq (publish sd ?d ''parent.json'' (DParent \<lparr>pr_version = 1, pr_parent = parent, pr_recovery = recovery_text\<rparr>))
          (io_return \<lparr>jn_directory = ?d, jn_parent = parent, jn_reservations = 0\<rparr>))))"
    by (rule keeps_unfencedI) (auto simp: parent_directory_def intro!: add_intros grow_intros)
  ultimately have "unfenced ?d (w_fs w')"
    using keeps_unfencedD [OF ku w2 rest] by (simp add: parent_directory_def)
  moreover have "fs_kind (w_fs w) ?d = None" using none w1(2) fs_leD by (cases "fs_kind (w_fs w) ?d") auto
  moreover have "j = \<lparr>jn_directory = ?d, jn_parent = parent, jn_reservations = 0\<rparr>"
    using rest by (auto simp: io_seq_Ok)
  ultimately show ?thesis by simp
qed

lemma file_type_of_result:
  "file_type_of p w = (w', r) \<Longrightarrow> w_fs w' = w_fs w \<and> (\<forall>k. r = Inr k \<longrightarrow> fs_kind (w_fs w) p = Some k)"
  by (auto simp: file_type_of_def io_call_def split: list.splits fault.splits option.splits)

lemma io_match_Ok: "io_match m f w = (w', Inr y) \<longleftrightarrow> (\<exists>w1 r. m w = (w1, r) \<and> f r w1 = (w', Inr y))"
  by (auto simp: io_match_def split: prod.splits)

text \<open>A fence that answers true either made the directory itself or found the proof in it.\<close>

lemma fence_true_cases:
  assumes "fence_uncreated sd root parent who w = (w', Inr True)"
  obtains (made) w1 w2 u where "create_dir_all root w = (w1, Inr ())"
      "create_dir (parent_directory sd root parent) w1 = (w2, Inr u)"
      "io_seq (publish sd (parent_directory sd root parent) ''never-created.json'' (DNever \<lparr>nc_parent = parent, nc_principal = who\<rparr>))
             (io_seq (open_dir_sync root) (io_return True)) w2 = (w', Inr True)"
    | (found) w1 w2 where "create_dir_all root w = (w1, Inr ())"
      "create_dir (parent_directory sd root parent) w1 = (w2, Inl AlreadyExists)"
      "fs_kind (w_fs w2) (parent_directory sd root parent) = Some Dir"
      "fs_kind (w_fs w2) (parent_directory sd root parent @ [''never-created.json'']) \<noteq> None"
proof -
  let ?d = "parent_directory sd root parent"
  let ?never = "\<lambda>k. if k \<noteq> Dir then io_return False
               else io_match (file_type_of (?d @ [''never-created.json''])) (\<lambda>o1.
                 case o1 of
                   Inl _ \<Rightarrow> io_return False
                 | Inr _ \<Rightarrow>
                     io_bind (file_type_of (?d @ [''never-created.json''])) (\<lambda>k2.
                       case k2 of
                         File _ \<Rightarrow>
                           io_bind (read_limited 16385 (?d @ [''never-created.json''])) (\<lambda>b.
                             if length b > 16384 then io_return False
                             else case se_never sd b of
                                    None \<Rightarrow> io_fail InvalidData
                                  | Some v \<Rightarrow> io_return (v = Some \<lparr>nc_parent = parent, nc_principal = who\<rparr>))
                       | _ \<Rightarrow> io_return False))"
  obtain w1 w2 r where a: "create_dir_all root w = (w1, Inr ())" and c: "create_dir ?d w1 = (w2, r)"
    and rest: "(case r of
           Inr _ \<Rightarrow>
             io_seq (publish sd ?d ''never-created.json'' (DNever \<lparr>nc_parent = parent, nc_principal = who\<rparr>))
             (io_seq (open_dir_sync root) (io_return True))
         | Inl AlreadyExists \<Rightarrow> io_bind (file_type_of ?d) ?never
         | Inl e \<Rightarrow> io_fail e) w2 = (w', Inr True)"
    using assms unfolding fence_uncreated_def Let_def by (auto simp: io_seq_Ok io_match_Ok)
  show ?thesis
  proof (cases r)
    case (Inr u)
    then show ?thesis using made a c rest by simp
  next
    case (Inl e)
    then have e: "e = AlreadyExists" using rest by (cases e) auto
    obtain w3 k where k: "file_type_of ?d w2 = (w3, Inr k)" "?never k w3 = (w', Inr True)"
      using rest Inl e by (auto simp: io_bind_Ok)
    then have dir: "k = Dir" by (auto split: if_splits)
    obtain w4 o1 where o1: "file_type_of (?d @ [''never-created.json'']) w3 = (w4, o1)" "\<exists>x. o1 = Inr x"
      using k(2) dir by (cases "file_type_of (?d @ [''never-created.json'']) w3")
        (auto simp: io_match_Ok split: sum.splits)
    show ?thesis
      using found [OF a, of w2] c Inl e file_type_of_result [OF k(1)] dir file_type_of_result [OF o1(1)] o1(2)
      by auto
  qed
qed

lemma fence_true:
  assumes "wf_world w" "fence_uncreated sd root parent who w = (w', Inr True)"
  shows "fs_kind (w_fs w') (parent_directory sd root parent) = Some Dir
       \<and> \<not> unfenced (parent_directory sd root parent) (w_fs w)"
proof -
  let ?d = "parent_directory sd root parent"
  have le: "fs_le (w_fs w) (w_fs w')" using growsD [OF grows_fence assms] by simp
  have dne: "?d \<noteq> []" by (simp add: parent_directory_def)
  from assms(2) show ?thesis
  proof (cases rule: fence_true_cases)
    case (made w1 w2 u)
    have w1: "wf_world w1" "fs_le (w_fs w) (w_fs w1)" using growsD [OF grows_calls(2) assms(1) made(1)] by auto
    have w2: "wf_world w2" using growsD [OF grows_calls(1) w1(1) made(2)] by simp
    have "grows (io_seq (publish sd ?d ''never-created.json'' (DNever \<lparr>nc_parent = parent, nc_principal = who\<rparr>))
             (io_seq (open_dir_sync root) (io_return True)))" by (intro grow_intros)
    from growsD [OF this w2 made(3)] have "fs_le (w_fs w2) (w_fs w')" by simp
    moreover have "fs_kind (w_fs w2) ?d = Some Dir"
      using create_dir_Ok [OF made(2)] w1(1) dne by (simp add: fs_kind_insert wf_world_def wf_fs_def)
    moreover have "fs_kind (w_fs w) ?d = None"
      using create_dir_Ok [OF made(2)] w1(2) fs_leD by (cases "fs_kind (w_fs w) ?d") auto
    ultimately show ?thesis using fs_leD by (auto simp: unfenced_def)
  next
    case (found w1 w2)
    have w1: "wf_world w1" "fs_le (w_fs w) (w_fs w1)" using growsD [OF grows_calls(2) assms(1) found(1)] by auto
    have same: "w_fs w2 = w_fs w1"
      using found(2) by (auto simp: create_dir_def io_call_def dir_effect_def split: list.splits fault.splits if_splits)
    have "adds [] (\<lambda>q. length q \<le> length root) (create_dir_all root)" by (intro add_intros)
    from addsD [OF this assms(1) _ found(1), of ?d] have ex: "fs_kind (w_fs w) ?d \<noteq> None"
      using found(3) same by (simp add: parent_directory_def)
    have "\<not> unfenced ?d (w_fs w)"
    proof
      assume u: "unfenced ?d (w_fs w)"
      have "keeps_unfenced root (create_dir_all root)"
        by (rule keeps_unfencedI) (auto intro!: add_intros grow_intros)
      from keeps_unfencedD [OF this assms(1) found(1)] u have "unfenced ?d (w_fs w1)"
        by (simp add: parent_directory_def)
      with found(4) same show False by (simp add: unfenced_def)
    qed
    moreover have "fs_kind (w_fs w) ?d = Some Dir"
      using ex fs_leD [OF w1(2)] found(3) same by (cases "fs_kind (w_fs w) ?d") auto
    then have "fs_kind (w_fs w') ?d = Some Dir" using le fs_leD by blast
    ultimately show ?thesis by blast
  qed
qed

lemma unit_step_open:
  assumes "\<And>j k. jn_directory j = root @ [k] \<Longrightarrow> keeps_unfenced root (f j)" "\<And>j. grows (f j)"
    and "open_inv sd root s" "on_journal i (\<lambda>j. result_unit (f j (jr_world s)) s) s = (s', r)"
  shows "open_inv sd root s'"
proof (cases "i < length (jr_open s)")
  case True
  let ?j = "jr_open s ! i"
  obtain w' u where f: "f ?j (jr_world s) = (w', u)" by fastforce
  have wf: "wf_world (jr_world s)" and dir: "jn_directory ?j = root @ [hash_name (se_hash sd (as_bytes (hash_str (jn_parent ?j))))]"
    using assms(3) True by (auto simp: open_inv_def parent_directory_def)
  have s': "s' = s\<lparr>jr_world := w'\<rparr>" using assms(4) True f by (simp add: on_journal_def result_unit_def)
  have "unfenced (root @ [h]) (w_fs (jr_world s)) \<Longrightarrow> unfenced (root @ [h]) (w_fs w')" for h
    using keeps_unfencedD [OF assms(1) [OF dir] wf f] by simp
  then show ?thesis
    using assms(3) growsD [OF assms(2) wf f] by (auto simp: open_inv_def s' parent_directory_def)
qed (use assms in \<open>auto simp: on_journal_def\<close>)

lemma io_open:
  assumes "keeps_unfenced root m" "grows m" "open_inv sd root s" "m (jr_world s) = (w', r)"
  shows "open_inv sd root (s\<lparr>jr_world := w'\<rparr>)"
proof -
  have wf: "wf_world (jr_world s)" using assms(3) by (simp add: open_inv_def)
  show ?thesis
    using assms(3) growsD [OF assms(2) wf assms(4)] keeps_unfencedD [OF assms(1) wf assms(4)]
    by (auto simp: open_inv_def parent_directory_def)
qed

lemma reserve_open:
  assumes "open_inv sd root s" "i < length (jr_open s)"
    and "journal_reserve sd turn (jr_open s ! i, jr_world s) = ((j', w'), r)"
  shows "open_inv sd root (s\<lparr>jr_open := (jr_open s)[i := j'], jr_world := w'\<rparr>)"
proof -
  let ?j = "jr_open s ! i"
  have wf: "wf_world (jr_world s)" and dir: "jn_directory ?j = root @ [hash_name (se_hash sd (as_bytes (hash_str (jn_parent ?j))))]"
    using assms by (auto simp: open_inv_def parent_directory_def)
  have j: "jn_directory j' = jn_directory ?j" "jn_parent j' = jn_parent ?j" "wf_world w'"
    using reserve_grows [OF wf assms(3)] by auto
  have "unfenced (root @ [h]) (w_fs (jr_world s)) \<Longrightarrow> unfenced (root @ [h]) (w_fs w')" for h
    using assms(3) keeps_unfencedD [OF keeps_unfenced_publish [OF filename_not_never(1)] wf] dir
    by (auto simp: journal_reserve_def Let_def split: if_splits prod.splits)
  note keep = this
  have "unfenced (jn_directory ?j) (w_fs (jr_world s))" using assms(1,2) by (metis nth_mem open_inv_def)
  then have "unfenced (jn_directory j') (w_fs w')" using keep j(1) unfolding dir by simp
  then show ?thesis
    using assms(1,2) j keep by (auto simp: open_inv_def parent_directory_def dest!: set_update_subset_insert [THEN subsetD])
qed

lemma journal_step_open:
  assumes "open_inv sd root s" "journal_step sd root op s = (s', r)"
  shows "open_inv sd root s'"
proof (cases op)
  case (OpCreate parent)
  obtain w' u where c: "journal_create sd root parent (jr_world s) = (w', u)" by fastforce
  have i: "open_inv sd root (s\<lparr>jr_world := w'\<rparr>)"
    by (rule io_open [OF keeps_unfenced_create grows_create assms(1) c])
  show ?thesis
    using assms(2) OpCreate c i create_Ok [of "jr_world s" sd root parent w'] assms(1)
    by (cases u) (auto simp: open_inv_def)
next
  case (OpFence parent who)
  obtain w' u where c: "fence_uncreated sd root parent who (jr_world s) = (w', u)" by fastforce
  have i: "open_inv sd root (s\<lparr>jr_world := w'\<rparr>)"
    by (rule io_open [OF keeps_unfenced_fence grows_fence assms(1) c])
  show ?thesis using assms(2) OpFence c i by (cases u) auto
next
  case (OpReserve i turn)
  then show ?thesis
    using assms reserve_open [OF assms(1), of i turn]
    by (cases "journal_reserve sd turn (jr_open s ! i, jr_world s)")
      (auto simp: on_journal_def result_unit_def split: prod.splits if_splits)
next
  case (OpBindOwner i who)
  then show ?thesis using unit_step_open [OF keeps_unfenced_ops(1) grows_binds(1) assms(1)] assms(2) by simp
next
  case (OpBindProcess i pi)
  then show ?thesis using unit_step_open [OF keeps_unfenced_ops(2) grows_binds(2) assms(1)] assms(2) by simp
next
  case (OpDestroyed i turn child ok answer)
  then show ?thesis using unit_step_open [OF keeps_unfenced_ops(3) grows_stages(1) assms(1)] assms(2) by simp
next
  case (OpCommitted i turn child)
  then show ?thesis using unit_step_open [OF keeps_unfenced_ops(4) grows_stages(2) assms(1)] assms(2) by simp
qed

lemma journal_run_open:
  "open_inv sd root s \<Longrightarrow> open_inv sd root (run_final (journal_step sd root) s ops)"
  by (rule run_final_inv [where P = "open_inv sd root"]) (use journal_step_open in \<open>metis prod.collapse\<close>)

lemma journal_run_grows:
  "wf_world (jr_world s) \<Longrightarrow>
     fs_le (w_fs (jr_world s)) (w_fs (jr_world (run_final (journal_step sd root) s ops)))"
proof (induction ops arbitrary: s)
  case (Cons op ops)
  obtain s1 r where s1: "journal_step sd root op s = (s1, r)" by fastforce
  show ?case
    using journal_step_grows [OF Cons.prems s1] Cons.IH [of s1] fs_le_trans s1 by auto
qed simp

lemma journal_step_parents:
  assumes "journal_step sd root op s = (s', r)"
  shows "set (map jn_parent (jr_open s)) \<subseteq> set (map jn_parent (jr_open s'))"
proof (cases op)
  case (OpReserve i turn)
  obtain j' w' u where rv: "journal_reserve sd turn (jr_open s ! i, jr_world s) = ((j', w'), u)" by (metis prod.exhaust)
  have "jn_parent j' = jn_parent (jr_open s ! i)"
    using rv by (auto simp: journal_reserve_def Let_def split: if_splits prod.splits)
  then have "map jn_parent ((jr_open s)[i := j']) = map jn_parent (jr_open s)"
    by (metis list_update_id map_update)
  then have "jn_parent ` set ((jr_open s)[i := j']) = jn_parent ` set (jr_open s)" by (metis list.set_map)
  then show ?thesis using assms OpReserve rv by (auto simp: on_journal_def result_unit_def split: if_splits)
qed (use assms in \<open>auto simp: on_journal_def result_unit_def split: if_splits prod.splits sum.splits\<close>)

lemma journal_run_parents:
  "set (map jn_parent (jr_open s)) \<subseteq> set (map jn_parent (jr_open (run_final (journal_step sd root) s ops)))"
proof (induction ops arbitrary: s)
  case (Cons op ops)
  obtain s1 r where s1: "journal_step sd root op s = (s1, r)" by fastforce
  show ?case using journal_step_parents [OF s1] Cons.IH [of s1] s1 by auto
qed simp

section \<open>Reading stages back\<close>

text \<open>What a read of a record sees when no call fails.\<close>

definition record_at :: "(bytes \<Rightarrow> 'r option) \<Rightarrow> fsys \<Rightarrow> path \<Rightarrow> IoKind + 'r" where
  "record_at dec fs p =
     (case fs_kind fs p of
        Some (File b) \<Rightarrow>
          if length (take (MAX_RECORD_BYTES + 1) b) > MAX_RECORD_BYTES then Inl InvalidData
          else (case dec (take (MAX_RECORD_BYTES + 1) b) of None \<Rightarrow> Inl InvalidData | Some r \<Rightarrow> Inr r)
      | None \<Rightarrow> Inl NotFound
      | _ \<Rightarrow> Inl OtherIo)"

lemma read_record_calm: "w_faults w = [] \<Longrightarrow> read_record dec p w = (w, record_at dec (w_fs w) p)"
  by (auto simp: read_record_def io_bind_def read_limited_calm record_at_def io_fail_def io_return_def
      split: option.split node.split)

text \<open>A record that can be read stays what it is.\<close>

lemma record_at_mono: "fs_le fs fs' \<Longrightarrow> record_at dec fs p \<noteq> Inl NotFound \<Longrightarrow> record_at dec fs' p = record_at dec fs p"
  by (cases "fs_kind fs p") (auto simp: record_at_def dest: fs_leD)

lemma record_at_written:
  "fs_kind fs p = Some (File b) \<Longrightarrow> length b \<le> MAX_RECORD_BYTES \<Longrightarrow> dec b = Some r \<Longrightarrow> record_at dec fs p = Inr r"
  by (simp add: record_at_def)

lemma publish_Ok:
  assumes "wf_world w" "publish sd d name v w = (w', Inr u)"
  shows "fs_kind (w_fs w') (d @ [name]) = Some (File (se_enc sd v)) \<and> length (se_enc sd v) \<le> MAX_RECORD_BYTES"
proof -
  obtain w1 w2 u1 u2 where t: "stage_temp d w = (w1, Inr u1)" and p: "persist_noclobber (d @ [name]) (se_enc sd v) w1 = (w2, Inr u2)"
    and sy: "open_dir_sync d w2 = (w', Inr u)" and len: "\<not> length (se_enc sd v) > MAX_RECORD_BYTES"
    using assms(2) unfolding publish_def Let_def by (auto simp: io_seq_Ok)
  have "wf_world w1" using growsD [OF grows_calls(6) assms(1) t] by simp
  then have "fs_kind (w_fs w2) (d @ [name]) = Some (File (se_enc sd v))"
    using persist_Ok [OF p] by (simp add: fs_kind_insert wf_world_def wf_fs_def)
  moreover have "w_fs w' = w_fs w2" using io_call_Ok [OF sy [unfolded open_dir_sync_def]] by auto
  ultimately show ?thesis using len by simp
qed

text \<open>\<open>turn_status\<close> as a function of what the three records are.\<close>

definition reservation_at :: "Serde \<Rightarrow> ParentJournal \<Rightarrow> string \<Rightarrow> fsys \<Rightarrow> IoKind + Reservation" where
  "reservation_at sd j turn fs =
     (case record_at (se_reserved sd) fs (jn_directory j @ [journal_filename sd turn ''reserved'']) of
        Inl e \<Rightarrow> Inl e
      | Inr record \<Rightarrow>
          if rv_version record \<noteq> 1 \<or> rv_parent record \<noteq> jn_parent j \<or> turn_id (rv_request record) \<noteq> turn
             \<or> \<not> request_ok sd (rv_request record) \<or> rv_child record \<noteq> child_hash sd (jn_parent j) turn
          then Inl InvalidData else Inr record)"

definition destroyed_at :: "Serde \<Rightarrow> ParentJournal \<Rightarrow> string \<Rightarrow> hash \<Rightarrow> fsys \<Rightarrow> IoKind + DestroyedRecord" where
  "destroyed_at sd j turn child fs =
     (case record_at (se_destroyed sd) fs (jn_directory j @ [journal_filename sd turn ''destroyed'']) of
        Inl e \<Rightarrow> Inl e
      | Inr record \<Rightarrow>
          if dr_version record \<noteq> 1 \<or> dr_parent record \<noteq> jn_parent j \<or> dr_child record \<noteq> child
             \<or> dr_turn_id record \<noteq> turn \<or> length (dr_answer record) > MAX_ANSWER_BYTES
          then Inl InvalidData else Inr record)"

definition committed_at :: "Serde \<Rightarrow> ParentJournal \<Rightarrow> string \<Rightarrow> hash \<Rightarrow> fsys \<Rightarrow> IoKind + bool" where
  "committed_at sd j turn child fs =
     (case record_at (se_committed sd) fs (jn_directory j @ [journal_filename sd turn ''committed'']) of
        Inr record \<Rightarrow>
          if cr_version record \<noteq> 1 \<or> cr_parent record \<noteq> jn_parent j
             \<or> cr_child record \<noteq> child \<or> cr_turn_id record \<noteq> turn
          then Inl InvalidData else Inr True
      | Inl e \<Rightarrow> if e = NotFound then Inr False else Inl e)"

lemma reservation_at_cong:
  "jn_directory j = jn_directory j' \<Longrightarrow> jn_parent j = jn_parent j' \<Longrightarrow> reservation_at sd j turn fs = reservation_at sd j' turn fs"
  unfolding reservation_at_def by (simp split: sum.split)

lemma stage_reads_calm:
  assumes "w_faults w = []"
  shows "journal_reservation sd j turn w = (w, reservation_at sd j turn (w_fs w))"
    and "journal_destroyed sd j turn child w = (w, destroyed_at sd j turn child (w_fs w))"
  using assms
  by (auto simp: journal_reservation_def journal_destroyed_def reservation_at_def destroyed_at_def io_bind_def
      read_record_calm io_fail_def io_return_def split: sum.split)

lemma read_record_Ok:
  "read_record dec p w = (w', Inr r) \<Longrightarrow> record_at dec (w_fs w) p = Inr r \<and> w_fs w' = w_fs w"
  unfolding read_record_def
  by (auto simp: io_bind_Ok record_at_def split: if_splits option.splits dest!: read_limited_Ok)

lemma stage_reads_Ok:
  "journal_reservation sd j turn w = (w', Inr rv) \<Longrightarrow> reservation_at sd j turn (w_fs w) = Inr rv \<and> w_fs w' = w_fs w"
  "journal_destroyed sd j turn child w = (w', Inr d) \<Longrightarrow> destroyed_at sd j turn child (w_fs w) = Inr d \<and> w_fs w' = w_fs w"
  unfolding journal_reservation_def journal_destroyed_def reservation_at_def destroyed_at_def
  by (auto simp: io_bind_Ok split: if_splits dest!: read_record_Ok)

lemma turn_status_calm:
  assumes "w_faults w = []"
  shows "turn_status sd j turn w =
     (w, case reservation_at sd j turn (w_fs w) of
           Inl e \<Rightarrow> Inl e
         | Inr rv \<Rightarrow>
             (case committed_at sd j turn (rv_child rv) (w_fs w) of
                Inl e \<Rightarrow> Inl e
              | Inr committed \<Rightarrow>
                  (case destroyed_at sd j turn (rv_child rv) (w_fs w) of
                     Inr record \<Rightarrow> Inr (if committed then ParentCommitted record else ChildDestroyed record)
                   | Inl e \<Rightarrow> if e = NotFound \<and> \<not> committed then Inr (Reserved rv) else Inl e)))"
  using assms
  by (auto simp: turn_status_def io_bind_def io_match_def stage_reads_calm read_record_calm committed_at_def
      io_fail_def io_return_def split: sum.split IoKind.split)

lemma turn_status_reads:
  assumes "w_faults w = []" "turn_status sd j turn w = (w1, Inr s)"
  obtains rv c where "w1 = w" "reservation_at sd j turn (w_fs w) = Inr rv"
    "committed_at sd j turn (rv_child rv) (w_fs w) = Inr c"
    "(\<exists>d. destroyed_at sd j turn (rv_child rv) (w_fs w) = Inr d \<and> s = (if c then ParentCommitted d else ChildDestroyed d))
     \<or> (destroyed_at sd j turn (rv_child rv) (w_fs w) = Inl NotFound \<and> \<not> c \<and> s = Reserved rv)"
  using assms(2) that unfolding turn_status_calm [OF assms(1)]
  by (auto split: sum.splits if_splits)

lemma reservation_at_mono:
  "fs_le fs fs' \<Longrightarrow> reservation_at sd j turn fs = Inr rv \<Longrightarrow> reservation_at sd j turn fs' = Inr rv"
  using record_at_mono [of fs fs' "se_reserved sd" "jn_directory j @ [journal_filename sd turn ''reserved'']"]
  by (auto simp: reservation_at_def split: sum.splits if_splits)

lemma destroyed_at_mono:
  "fs_le fs fs' \<Longrightarrow> destroyed_at sd j turn child fs = Inr d \<Longrightarrow> destroyed_at sd j turn child fs' = Inr d"
  using record_at_mono [of fs fs' "se_destroyed sd" "jn_directory j @ [journal_filename sd turn ''destroyed'']"]
  by (auto simp: destroyed_at_def split: sum.splits if_splits)

lemma committed_at_mono:
  "fs_le fs fs' \<Longrightarrow> committed_at sd j turn child fs = Inr True \<Longrightarrow> committed_at sd j turn child fs' = Inr True"
  using record_at_mono [of fs fs' "se_committed sd" "jn_directory j @ [journal_filename sd turn ''committed'']"]
  by (auto simp: committed_at_def split: sum.splits if_splits)

fun stage_rank :: "TurnStatus \<Rightarrow> nat" where
  "stage_rank (Reserved r) = 0"
| "stage_rank (ChildDestroyed d) = 1"
| "stage_rank (ParentCommitted d) = 2"

fun stage_record :: "TurnStatus \<Rightarrow> DestroyedRecord option" where
  "stage_record (Reserved r) = None"
| "stage_record (ChildDestroyed d) = Some d"
| "stage_record (ParentCommitted d) = Some d"

section \<open>Properties\<close>

text \<open>
  C32: an incarnation is created once, or fenced, never both. In any sequence of journal
  operations on one root, whatever calls fail and however, once a create of a parent has
  succeeded or a fence of it has answered true, no later create of it succeeds; and after a
  successful create no fence of it answers true.
\<close>

theorem incarnation_created_or_fenced_once:
  assumes "wf_world w"
    and "run_final (journal_step sd root) \<lparr>jr_world = w, jr_open = []\<rparr> ops1 = s1"
    and "journal_step sd root op s1 = (s2, r)"
    and "op = OpCreate parent \<and> r = RCreated \<or> op = OpFence parent who \<and> r = RFenced True"
    and "run_final (journal_step sd root) s2 ops2 = s3"
  shows "snd (journal_step sd root (OpCreate parent) s3) \<noteq> RCreated
       \<and> (r = RCreated \<longrightarrow> snd (journal_step sd root (OpFence parent who') s3) \<noteq> RFenced True)"
proof -
  let ?d = "parent_directory sd root parent"
  have "open_inv sd root \<lparr>jr_world = w, jr_open = []\<rparr>" using assms(1) by (simp add: open_inv_def)
  then have i1: "open_inv sd root s1" using journal_run_open assms(2) by blast
  then have i2: "open_inv sd root s2" using journal_step_open assms(3) by blast
  then have i3: "open_inv sd root s3" using journal_run_open assms(5) by blast
  have wf: "wf_world (jr_world s1)" "wf_world (jr_world s2)" "wf_world (jr_world s3)"
    using i1 i2 i3 by (simp_all add: open_inv_def)
  have le: "fs_le (w_fs (jr_world s2)) (w_fs (jr_world s3))"
    using journal_run_grows [OF wf(2)] assms(5) by blast
  have created: "\<exists>j \<in> set (jr_open s2). jn_parent j = parent" if "r = RCreated"
    using assms(3,4) that create_Ok [OF wf(1), of sd root parent] by (auto split: prod.splits sum.splits)
  have dir2: "fs_kind (w_fs (jr_world s2)) ?d = Some Dir"
    using assms(4)
  proof
    assume "op = OpCreate parent \<and> r = RCreated"
    then obtain j where "j \<in> set (jr_open s2)" "jn_parent j = parent" using created by fastforce
    then show ?thesis using i2 by (auto simp: open_inv_def unfenced_def)
  next
    assume "op = OpFence parent who \<and> r = RFenced True"
    then show ?thesis using assms(3) fence_true [OF wf(1), of sd root parent who] by (auto split: prod.splits sum.splits)
  qed
  then have dir3: "fs_kind (w_fs (jr_world s3)) ?d = Some Dir" using le fs_leD by blast
  have "snd (journal_step sd root (OpCreate parent) s3) \<noteq> RCreated"
    using create_Ok [OF wf(3), of sd root parent] dir3 by (auto split: prod.splits sum.splits)
  moreover have "snd (journal_step sd root (OpFence parent who') s3) \<noteq> RFenced True" if "r = RCreated"
  proof -
    have "parent \<in> set (map jn_parent (jr_open s2))" using created [OF that] by auto
    then have "parent \<in> set (map jn_parent (jr_open s3))" using journal_run_parents [of s2 sd root ops2] assms(5) by blast
    then have "unfenced ?d (w_fs (jr_world s3))" using i3 by (auto simp: open_inv_def)
    then show ?thesis using fence_true [OF wf(3), of sd root parent who'] by (auto split: prod.splits sum.splits)
  qed
  ultimately show ?thesis by blast
qed

definition sample_serde :: Serde where
  "sample_serde = \<lparr>se_hash = frame_hash, se_pair = frame_pair, se_request = (\<lambda>_. [1]),
     se_request_dec = (\<lambda>_. Some sample_request), se_enc = (\<lambda>_. [7]),
     se_parent = (\<lambda>_. Some \<lparr>pr_version = 1, pr_parent = Hash ''p'', pr_recovery = recovery_text\<rparr>),
     se_owner = (\<lambda>_. None), se_process = (\<lambda>_. None),
     se_reserved = (\<lambda>_. Some (reservation_of sample_reserved)),
     se_destroyed = (\<lambda>_. Some \<lparr>dr_version = 1, dr_parent = Hash ''p'', dr_child = rt_child sample_reserved,
        dr_turn_id = ''t-1'', dr_succeeded = True, dr_answer = ''ok''\<rparr>),
     se_committed = (\<lambda>_. Some \<lparr>cr_version = 1, cr_parent = Hash ''p'', cr_child = rt_child sample_reserved,
        cr_turn_id = ''t-1''\<rparr>), se_never = (\<lambda>_. None)\<rparr>"

definition empty_world :: world where
  "empty_world = \<lparr>w_fs = [], w_faults = [], w_mtime = (\<lambda>_. 0)\<rparr>"

lemma empty_world_wf: "wf_world empty_world"
  by (simp add: wf_world_def wf_fs_def empty_world_def bt_invar_def fs_kind_def)

lemma sample_created:
  "\<exists>s2. journal_step sample_serde [] (OpCreate (Hash ''p'')) \<lparr>jr_world = empty_world, jr_open = []\<rparr> = (s2, RCreated)"
  by (simp add: journal_create_def parent_directory_def hash_name_def sample_serde_def frame_hash_as_bytes
      trim_start_matches.simps io_seq_def io_bind_def io_call_def call_defs dir_effect_def empty_world_def fs_kind_def
      publish_def Let_def io_when_def io_return_def persist_effect_def MAX_RECORD_BYTES_def bt_get_def)

theorem incarnation_created_or_fenced_once_witness:
  "\<exists>s2. journal_step sample_serde [] (OpCreate (Hash ''p'')) \<lparr>jr_world = empty_world, jr_open = []\<rparr> = (s2, RCreated)
     \<and> snd (journal_step sample_serde [] (OpCreate (Hash ''p'')) s2) \<noteq> RCreated
     \<and> snd (journal_step sample_serde [] (OpFence (Hash ''p'') ''q'') s2) \<noteq> RFenced True"
proof -
  obtain s2 where s2: "journal_step sample_serde [] (OpCreate (Hash ''p'')) \<lparr>jr_world = empty_world, jr_open = []\<rparr> = (s2, RCreated)"
    using sample_created by blast
  have f1: "run_final (journal_step sample_serde []) \<lparr>jr_world = empty_world, jr_open = []\<rparr> [] = \<lparr>jr_world = empty_world, jr_open = []\<rparr>"
    and f2: "run_final (journal_step sample_serde []) s2 [] = s2" by simp_all
  show ?thesis
    using incarnation_created_or_fenced_once [OF empty_world_wf f1 s2 _ f2, of "Hash ''p''" "''q''" "''q''"] s2
    by blast
qed

definition calm :: "world \<Rightarrow> world" where
  "calm w = w\<lparr>w_faults := []\<rparr>"

lemma calm_simps [simp]: "w_faults (calm w) = []" "w_fs (calm w) = w_fs w"
  by (simp_all add: calm_def)

lemma stage_mono:
  assumes "fs_le (w_fs w) (w_fs w')" "w_faults w = []" "w_faults w' = []"
    and "turn_status sd j turn w = (w1, Inr a)" "turn_status sd j turn w' = (w2, Inr b)"
  shows "stage_rank a \<le> stage_rank b \<and> (stage_record a \<noteq> None \<longrightarrow> stage_record b = stage_record a)"
proof -
  obtain rv c where a: "reservation_at sd j turn (w_fs w) = Inr rv" "committed_at sd j turn (rv_child rv) (w_fs w) = Inr c"
    "(\<exists>d. destroyed_at sd j turn (rv_child rv) (w_fs w) = Inr d \<and> a = (if c then ParentCommitted d else ChildDestroyed d))
     \<or> (destroyed_at sd j turn (rv_child rv) (w_fs w) = Inl NotFound \<and> \<not> c \<and> a = Reserved rv)"
    using turn_status_reads [OF assms(2,4)] by metis
  obtain rv' c' where b: "reservation_at sd j turn (w_fs w') = Inr rv'" "committed_at sd j turn (rv_child rv') (w_fs w') = Inr c'"
    "(\<exists>d. destroyed_at sd j turn (rv_child rv') (w_fs w') = Inr d \<and> b = (if c' then ParentCommitted d else ChildDestroyed d))
     \<or> (destroyed_at sd j turn (rv_child rv') (w_fs w') = Inl NotFound \<and> \<not> c' \<and> b = Reserved rv')"
    using turn_status_reads [OF assms(3,5)] by metis
  have rv: "rv' = rv" using reservation_at_mono [OF assms(1) a(1)] b(1) by simp
  have c: "c' = True" if "c = True" using committed_at_mono [OF assms(1)] a(2) b(2) rv that by auto
  show ?thesis
  proof (cases a)
    case (Reserved r)
    then show ?thesis by simp
  next
    case (ChildDestroyed d)
    then have "destroyed_at sd j turn (rv_child rv) (w_fs w') = Inr d"
      using a(3) destroyed_at_mono [OF assms(1)] by (auto split: if_splits)
    then show ?thesis using ChildDestroyed b(3) rv by auto
  next
    case (ParentCommitted d)
    then have "c = True" "destroyed_at sd j turn (rv_child rv) (w_fs w') = Inr d"
      using a(3) destroyed_at_mono [OF assms(1)] by (auto split: if_splits)
    then show ?thesis using ParentCommitted b(3) rv c by auto
  qed
qed

text \<open>
  Turn stages never regress. Whatever journal operations follow, with whatever failures,
  a later successful reading of a turn reports the same or a later stage, and the record of
  the child's destruction, once reported, is the same record.
\<close>

theorem stages_never_regress:
  assumes "wf_world (jr_world s)" "run_final (journal_step sd root) s ops = s'"
    and "turn_status sd j turn (calm (jr_world s)) = (w1, Inr a)"
    and "turn_status sd j turn (calm (jr_world s')) = (w2, Inr b)"
  shows "stage_rank a \<le> stage_rank b \<and> (stage_record a \<noteq> None \<longrightarrow> stage_record b = stage_record a)"
  using stage_mono [OF _ _ _ assms(3,4)] journal_run_grows [OF assms(1), of sd root ops] assms(2) by simp

definition sample_journal :: ParentJournal where
  "sample_journal = \<lparr>jn_directory = [''p''], jn_parent = Hash ''p'', jn_reservations = 1\<rparr>"

definition sample_run :: journal_run where
  "sample_run = \<lparr>jr_world = empty_world\<lparr>w_fs := [([''p''], Dir), ([''p'', ''t-1.reserved.json''], File [7])]\<rparr>,
     jr_open = [sample_journal]\<rparr>"

lemma sample_names:
  "journal_filename sample_serde ''t-1'' ''reserved'' = ''t-1.reserved.json''"
  "journal_filename sample_serde ''t-1'' ''destroyed'' = ''t-1.destroyed.json''"
  "journal_filename sample_serde ''t-1'' ''committed'' = ''t-1.committed.json''"
  by (simp_all add: journal_filename_def hash_name_def sample_serde_def frame_hash_as_bytes trim_start_matches.simps)

lemma sample_request_ok: "request_ok sample_serde sample_request"
  by (simp add: request_ok_def sample_serde_def TurnRequest_decode_def MAX_REQUEST_BYTES_def MAX_TASK_BYTES_def VERSION_def
      turn_id_ok_def task_ok_def sample_request_def rust_std trim_is_empty_def)

lemma sample_reservation_at:
  "fs_kind fs [''p'', ''t-1.reserved.json''] = Some (File [7]) \<Longrightarrow>
   reservation_at sample_serde sample_journal ''t-1'' fs = Inr (reservation_of sample_reserved)"
  using sample_request_ok
  by (simp add: reservation_at_def sample_names sample_journal_def record_at_def MAX_RECORD_BYTES_def)
    (simp add: sample_serde_def reservation_of_def sample_reserved_def child_hash_def, simp add: sample_request_def)

lemma sample_fs_kind:
  "fs_kind [([''p''], Dir), ([''p'', ''t-1.reserved.json''], File [7])] p =
     (if p = [] then Some Dir else if p = [''p''] then Some Dir
      else if p = [''p'', ''t-1.reserved.json''] then Some (File [7]) else None)"
  by (simp add: fs_kind_def bt_get_def)

lemma sample_run_wf: "wf_world (jr_world sample_run)"
  by (simp add: sample_run_def wf_world_def wf_fs_def empty_world_def bt_invar_def sample_fs_kind)

lemma sample_destroy_step:
  "journal_step sample_serde [] (OpDestroyed 0 ''t-1'' (rt_child sample_reserved) True ''ok'') sample_run =
     (sample_run\<lparr>jr_world := (jr_world sample_run)\<lparr>w_fs := bt_insert [''p'', ''t-1.destroyed.json''] (File [7])
        (w_fs (jr_world sample_run))\<rparr>\<rparr>, RDone)"
proof -
  let ?w = "jr_world sample_run"
  have f: "w_faults ?w = []" and fs: "w_fs ?w = [([''p''], Dir), ([''p'', ''t-1.reserved.json''], File [7])]"
    by (simp_all add: sample_run_def empty_world_def)
  have "reservation_at sample_serde sample_journal ''t-1'' (w_fs ?w) = Inr (reservation_of sample_reserved)"
    by (rule sample_reservation_at) (simp add: fs sample_fs_kind)
  then have r: "journal_reservation sample_serde sample_journal ''t-1'' ?w = (?w, Inr (reservation_of sample_reserved))"
    by (simp add: stage_reads_calm [OF f])
  have "publish sample_serde [''p''] ''t-1.destroyed.json'' v ?w =
      (?w\<lparr>w_fs := bt_insert [''p'', ''t-1.destroyed.json''] (File [7]) (w_fs ?w)\<rparr>, Inr ())" for v
    by (simp add: publish_def Let_def io_seq_def io_bind_def io_when_def io_return_def call_defs io_call_def f fs
        persist_effect_def sample_fs_kind MAX_RECORD_BYTES_def sample_serde_def)
      (simp add: fs_kind_def bt_get_def)
  then show ?thesis using r
    by (simp add: on_journal_def result_unit_def child_destroyed_def io_bind_def io_seq_def io_when_def io_return_def
        reservation_of_def sample_names MAX_ANSWER_BYTES_def sample_run_def sample_journal_def)
qed

theorem stages_never_regress_witness:
  "\<exists>s' a b. run_final (journal_step sample_serde []) sample_run
        [OpDestroyed 0 ''t-1'' (rt_child sample_reserved) True ''ok''] = s'
     \<and> snd (turn_status sample_serde sample_journal ''t-1'' (calm (jr_world sample_run))) = Inr a
     \<and> snd (turn_status sample_serde sample_journal ''t-1'' (calm (jr_world s'))) = Inr b
     \<and> stage_rank a = 0 \<and> stage_rank b = 1 \<and> stage_rank a \<le> stage_rank b"
proof -
  obtain s' where run: "run_final (journal_step sample_serde []) sample_run
      [OpDestroyed 0 ''t-1'' (rt_child sample_reserved) True ''ok''] = s'" by blast
  let ?fs = "bt_insert [''p'', ''t-1.destroyed.json''] (File [7]) [([''p''], Dir), ([''p'', ''t-1.reserved.json''], File [7])]"
  let ?d = "\<lparr>dr_version = 1, dr_parent = Hash ''p'', dr_child = rt_child sample_reserved,
        dr_turn_id = ''t-1'', dr_succeeded = True, dr_answer = ''ok''\<rparr>"
  have fs0: "w_fs (jr_world sample_run) = [([''p''], Dir), ([''p'', ''t-1.reserved.json''], File [7])]"
    and fs1: "w_fs (jr_world s') = ?fs"
    using run unfolding run_final.simps sample_destroy_step fst_conv by (auto simp: sample_run_def empty_world_def)
  have k1: "fs_kind ?fs p = (if p = [''p'', ''t-1.destroyed.json''] then Some (File [7])
      else fs_kind [([''p''], Dir), ([''p'', ''t-1.reserved.json''], File [7])] p)" for p
    by (simp add: fs_kind_def bt_get_def)
  have a: "turn_status sample_serde sample_journal ''t-1'' (calm (jr_world sample_run))
      = (calm (jr_world sample_run), Inr (Reserved (reservation_of sample_reserved)))"
    using sample_reservation_at [of "w_fs (jr_world sample_run)"]
    by (simp add: turn_status_calm fs0 sample_fs_kind committed_at_def destroyed_at_def record_at_def sample_names sample_journal_def)
  have b: "turn_status sample_serde sample_journal ''t-1'' (calm (jr_world s'))
      = (calm (jr_world s'), Inr (ChildDestroyed ?d))"
  proof -
    have res: "reservation_at sample_serde sample_journal ''t-1'' ?fs = Inr (reservation_of sample_reserved)"
      by (rule sample_reservation_at) (simp only: k1 sample_fs_kind, simp)
    have com: "committed_at sample_serde sample_journal ''t-1'' (rt_child sample_reserved) ?fs = Inr False"
      unfolding committed_at_def record_at_def sample_names sample_journal_def k1 sample_fs_kind by simp
    have "fs_kind ?fs [''p'', ''t-1.destroyed.json''] = Some (File [7])" by (simp only: k1, simp)
    then have des: "destroyed_at sample_serde sample_journal ''t-1'' (rt_child sample_reserved) ?fs = Inr ?d"
      unfolding destroyed_at_def record_at_def sample_names
      by (simp add: sample_journal_def MAX_RECORD_BYTES_def MAX_ANSWER_BYTES_def sample_serde_def)
    show ?thesis
      unfolding turn_status_calm [OF calm_simps(1)] calm_simps fs1 res by (simp add: reservation_of_def com des del: bt_insert.simps)
  qed
  show ?thesis
    using stages_never_regress [OF sample_run_wf run a b] run a b by (intro exI [of _ s'] exI) auto
qed

lemma reserve_reads_back:
  assumes "wf_world w" "journal_reserve sd turn (j, w) = ((j', w'), Inr u)"
    and "se_reserved sd (se_enc sd (DReserved (reservation_of turn))) = Some (reservation_of turn)"
  shows "reservation_at sd j' (turn_id (rt_request turn)) (w_fs w') = Inr (reservation_of turn)"
proof -
  let ?t = "turn_id (rt_request turn)"
  have p: "publish sd (jn_directory j) (journal_filename sd ?t ''reserved'') (DReserved (reservation_of turn)) w = (w', Inr u)"
    and j': "j' = j\<lparr>jn_reservations := jn_reservations j + 1\<rparr>"
    and g: "rt_parent turn = jn_parent j" "request_ok sd (rt_request turn)" "rt_child turn = child_hash sd (rt_parent turn) ?t"
    using assms(2) by (auto simp: journal_reserve_def Let_def split: if_splits prod.splits)
  have w: "fs_kind (w_fs w') (jn_directory j @ [journal_filename sd ?t ''reserved'']) = Some (File (se_enc sd (DReserved (reservation_of turn))))"
    "length (se_enc sd (DReserved (reservation_of turn))) \<le> MAX_RECORD_BYTES"
    using publish_Ok [OF assms(1) p] by auto
  have rec: "record_at (se_reserved sd) (w_fs w') (jn_directory j @ [journal_filename sd ?t ''reserved'']) = Inr (reservation_of turn)"
    by (rule record_at_written [where dec = "se_reserved sd", OF w assms(3)])
  have fields: "rv_version (reservation_of turn) = 1" "rv_parent (reservation_of turn) = jn_parent j"
    "rv_request (reservation_of turn) = rt_request turn" "rv_child (reservation_of turn) = child_hash sd (jn_parent j) ?t"
    using g by (simp_all add: reservation_of_def)
  have "jn_directory j' = jn_directory j" "jn_parent j' = jn_parent j" by (simp_all add: j')
  then show ?thesis using rec g(2) by (simp add: reservation_at_def fields)
qed

lemma parent_committed_Ok:
  assumes "parent_committed sd t child j w = (w', Inr v)"
  obtains w1 w2 rv d where "journal_reservation sd j t w = (w1, Inr rv)" "rv_child rv = child"
    "journal_destroyed sd j t child w1 = (w2, Inr d)"
    "publish sd (jn_directory j) (journal_filename sd t ''committed'')
       (DCommitted \<lparr>cr_version = 1, cr_parent = jn_parent j, cr_child = child, cr_turn_id = t\<rparr>) w2 = (w', Inr v)"
  using assms that unfolding parent_committed_def by (auto simp: io_bind_Ok io_seq_Ok)

lemma commit_reads_back:
  fixes sd :: Serde and j :: ParentJournal and child :: hash and t :: string
  defines "c \<equiv> \<lparr>cr_version = 1, cr_parent = jn_parent j, cr_child = child, cr_turn_id = t\<rparr>"
  assumes "wf_world w" "parent_committed sd t child j w = (w', Inr v)"
    and dec: "se_committed sd (se_enc sd (DCommitted c)) = Some c"
  shows "\<exists>d. snd (turn_status sd j t (calm w')) = Inr (ParentCommitted d) \<and> dr_turn_id d = t \<and> dr_child d = child"
proof -
  obtain w1 w2 rv d where rv: "journal_reservation sd j t w = (w1, Inr rv)" "rv_child rv = child"
    and d: "journal_destroyed sd j t child w1 = (w2, Inr d)"
    and p: "publish sd (jn_directory j) (journal_filename sd t ''committed'') (DCommitted c) w2 = (w', Inr v)"
    using parent_committed_Ok [OF assms(3)] unfolding c_def by metis
  have wf1: "wf_world w1" using growsD [OF grows_stage_reads(1) assms(2) rv(1)] by simp
  have wf: "wf_world w2" using growsD [OF grows_stage_reads(2) wf1 d] by simp
  have r: "reservation_at sd j t (w_fs w) = Inr rv" and s1: "w_fs w1 = w_fs w" using stage_reads_Ok(1) [OF rv(1)] by auto
  have dd: "destroyed_at sd j t child (w_fs w) = Inr d" and s2: "w_fs w2 = w_fs w"
    using stage_reads_Ok(2) [OF d] s1 by auto
  have le: "fs_le (w_fs w) (w_fs w')" using growsD [OF grows_publish wf p] s2 by simp
  have r': "reservation_at sd j t (w_fs w') = Inr rv" by (rule reservation_at_mono [OF le r])
  have d': "destroyed_at sd j t child (w_fs w') = Inr d" by (rule destroyed_at_mono [OF le dd])
  have k: "fs_kind (w_fs w') (jn_directory j @ [journal_filename sd t ''committed'']) = Some (File (se_enc sd (DCommitted c)))"
    "length (se_enc sd (DCommitted c)) \<le> MAX_RECORD_BYTES" using publish_Ok [OF wf p] by auto
  have "committed_at sd j t child (w_fs w') = Inr True"
    unfolding committed_at_def record_at_written [where dec = "se_committed sd", OF k dec] by (simp add: c_def)
  then have "snd (turn_status sd j t (calm w')) = Inr (ParentCommitted d)"
    unfolding turn_status_calm [OF calm_simps(1)] calm_simps r' by (simp add: rv(2) d')
  moreover have "dr_turn_id d = t \<and> dr_child d = child"
    using dd by (auto simp: destroyed_at_def split: sum.splits if_splits)
  ultimately show ?thesis by blast
qed

text \<open>
  Stages read back. A reservation whose publication succeeded is what a later reading of
  the turn finds, with the limits it was made for; a turn whose commitment was published
  reads as committed, with the destruction record it rests on. The hypotheses are the
  serializer's round trip on the two records.
\<close>

theorem stages_read_back:
  assumes "wf_world w"
    and "se_reserved sd (se_enc sd (DReserved (reservation_of turn))) = Some (reservation_of turn)"
    and "se_committed sd (se_enc sd (DCommitted \<lparr>cr_version = 1, cr_parent = jn_parent j, cr_child = child, cr_turn_id = t\<rparr>))
         = Some \<lparr>cr_version = 1, cr_parent = jn_parent j, cr_child = child, cr_turn_id = t\<rparr>"
  shows "(journal_reserve sd turn (j, w) = ((j', w'), Inr u) \<longrightarrow>
            snd (journal_reservation sd j' (turn_id (rt_request turn)) (calm w')) = Inr (reservation_of turn))
       \<and> (parent_committed sd t child j w = (w', Inr v) \<longrightarrow>
            (\<exists>d. snd (turn_status sd j t (calm w')) = Inr (ParentCommitted d)
               \<and> dr_turn_id d = t \<and> dr_child d = child))"
proof (intro conjI impI)
  assume "journal_reserve sd turn (j, w) = ((j', w'), Inr u)"
  from reserve_reads_back [OF assms(1) this assms(2)]
  show "snd (journal_reservation sd j' (turn_id (rt_request turn)) (calm w')) = Inr (reservation_of turn)"
    by (simp add: stage_reads_calm)
next
  assume "parent_committed sd t child j w = (w', Inr v)"
  from commit_reads_back [OF assms(1) this assms(3)]
  show "\<exists>d. snd (turn_status sd j t (calm w')) = Inr (ParentCommitted d) \<and> dr_turn_id d = t \<and> dr_child d = child" .
qed

definition sample_tree :: world where
  "sample_tree = empty_world\<lparr>w_fs := [([''p''], Dir)]\<rparr>"

lemma sample_tree_wf: "wf_world sample_tree"
  by (simp add: sample_tree_def wf_world_def wf_fs_def empty_world_def bt_invar_def fs_kind_def bt_get_def)

lemma sample_reserve:
  "\<exists>j' w'. journal_reserve sample_serde sample_reserved (sample_journal, sample_tree) = ((j', w'), Inr ())"
proof -
  have id: "turn_id sample_request = ''t-1''" and pj: "jn_parent sample_journal = Hash ''p''" "jn_directory sample_journal = [''p'']"
    and f: "w_faults sample_tree = []" and fs: "w_fs sample_tree = [([''p''], Dir)]"
    by (simp_all add: sample_request_def sample_journal_def sample_tree_def empty_world_def)
  have k: "fs_kind [([''p''], Dir)] p = (if p = [] \<or> p = [''p''] then Some Dir else None)" for p
    by (simp add: fs_kind_def bt_get_def)
  have "publish sample_serde [''p''] ''t-1.reserved.json'' v sample_tree =
      (sample_tree\<lparr>w_fs := bt_insert [''p'', ''t-1.reserved.json''] (File [7]) (w_fs sample_tree)\<rparr>, Inr ())" for v
    by (simp add: publish_def Let_def io_seq_def io_bind_def io_when_def io_return_def call_defs io_call_def f fs
        persist_effect_def k MAX_RECORD_BYTES_def sample_serde_def) (simp add: fs_kind_def bt_get_def)
  moreover have "rt_child sample_reserved = child_hash sample_serde (Hash ''p'') ''t-1''"
    by (simp add: sample_reserved_def child_hash_def sample_serde_def)
  moreover have "rt_request sample_reserved = sample_request" "rt_parent sample_reserved = Hash ''p''"
    by (simp_all add: sample_reserved_def)
  ultimately show ?thesis
    using sample_request_ok
    by (simp add: journal_reserve_def id pj sample_names) (simp add: sample_journal_def)
qed

theorem stages_read_back_witness:
  "\<exists>j' w'. journal_reserve sample_serde sample_reserved (sample_journal, sample_tree) = ((j', w'), Inr ())
     \<and> snd (journal_reservation sample_serde j' ''t-1'' (calm w')) = Inr (reservation_of sample_reserved)"
proof -
  obtain j' w' where r: "journal_reserve sample_serde sample_reserved (sample_journal, sample_tree) = ((j', w'), Inr ())"
    using sample_reserve by blast
  have "turn_id (rt_request sample_reserved) = ''t-1''" by (simp add: sample_reserved_def sample_request_def)
  with stages_read_back [OF sample_tree_wf, of sample_serde sample_reserved sample_journal "rt_child sample_reserved" "''t-1''" j' w' "()"] r
  show ?thesis by (auto simp: sample_serde_def sample_journal_def)
qed

section \<open>Listings\<close>

lemma with_mtimes_eq: "with_mtimes ps w = (w, Inr (map (\<lambda>p. (w_mtime w p, p)) ps))"
  by (induction ps) (simp_all add: io_return_def io_bind_def modified_ms_def)

text \<open>If every result of \<open>f\<close> names its source by \<open>h y = g x\<close>, the results are no more repetitive than the sources.\<close>

lemma io_filter_map_keys:
  assumes "\<And>x w w' y. f x w = (w', Inr (Some y)) \<Longrightarrow> h y = g x"
  shows "io_filter_map f xs w = (w', Inr ys) \<Longrightarrow>
     set (map h ys) \<subseteq> set (map g xs) \<and> length ys \<le> length xs \<and> (distinct (map g xs) \<longrightarrow> distinct (map h ys))"
proof (induction xs arbitrary: w ys)
  case (Cons x xs)
  obtain w1 r zs where f: "f x w = (w1, Inr r)" and zs: "io_filter_map f xs w1 = (w', Inr zs)"
    and ys: "ys = (case r of None \<Rightarrow> zs | Some y \<Rightarrow> y # zs)"
    using Cons.prems by (auto simp: io_bind_Ok)
  note IH = Cons.IH [OF zs]
  show ?case
  proof (cases r)
    case (Some y)
    then have "h y = g x" using assms f by blast
    then show ?thesis using IH ys Some by auto
  qed (use IH ys in auto)
qed simp

lemma summarize_turn_name:
  "summarize_turn sd j x w = (w', Inr (Some y)) \<Longrightarrow> journal_filename sd (ts_turn_id y) ''reserved'' = last (snd x)"
  by (auto simp: summarize_turn_def io_bind_Ok Let_def case_prod_beta split: option.splits if_splits prod.splits)

lemma distinct_newest_first: "distinct (map g xs) \<Longrightarrow> distinct (map g (take n (newest_first xs)))"
proof -
  assume "distinct (map g xs)"
  then have "distinct (map g (newest_first xs))" by (simp add: newest_first_def distinct_map)
  then show ?thesis by (simp add: take_map [symmetric])
qed

lemma read_dir_Ok:
  assumes "wf_world w" "read_dir d w = (w', Inr es)"
  shows "distinct (map (last \<circ> fst) es)"
proof -
  have es: "es = filter (\<lambda>(p, k). p \<noteq> [] \<and> butlast p = d) (w_fs w)"
    using assms(2) unfolding read_dir_def by (drule_tac io_call_Ok) (auto split: if_splits)
  have "distinct (map fst (w_fs w))"
    using assms(1) by (simp add: wf_world_def wf_fs_def bt.distinct_keys)
  then have "distinct (map fst es)" unfolding es by (induction "w_fs w") (auto simp: distinct_map inj_on_def)
  moreover have "inj_on last (set (map fst es))"
    unfolding es by (auto simp: inj_on_def) (metis append_butlast_last_id)+
  ultimately show ?thesis by (metis distinct_map map_map)
qed

text \<open>
  A listing reports each turn once. The turns in an incarnation's summary are at most the
  requested number and at most the reservation files present, and no turn is listed twice,
  whatever records the directory holds.
\<close>

theorem summary_lists_each_turn_once:
  assumes "wf_world w" "summarize_parent sd root parent n w = (w', Inr sm)"
  shows "length (ps_turns sm) \<le> n \<and> length (ps_turns sm) \<le> ps_turns_total sm
       \<and> distinct (map ts_turn_id (ps_turns sm)) \<and> ps_parent sm = parent"
proof -
  obtain j w1 w2 w3 w4 k es ts where j: "open_historical sd root parent w = (w1, Inr j)"
    and k: "file_type_of (jn_directory j) w1 = (w2, Inr k)"
    and es: "read_dir (jn_directory j) w2 = (w3, Inr es)"
    and ts: "io_filter_map (summarize_turn sd j) (take n (newest_first
        (map (\<lambda>p. (w_mtime w3 p, p)) (map fst (filter (\<lambda>(p, k). ends_with ''.reserved.json'' (last p)) es))))) w3 = (w4, Inr ts)"
    and sm: "ps_turns sm = ts" "ps_turns_total sm = length (filter (\<lambda>(p, k). ends_with ''.reserved.json'' (last p)) es)" "ps_parent sm = parent"
    using assms(2) unfolding summarize_parent_def
    by (auto simp: io_bind_Ok io_seq_Ok modified_ms_def with_mtimes_eq)
  let ?xs = "map (\<lambda>p. (w_mtime w3 p, p)) (map fst (filter (\<lambda>(p, k). ends_with ''.reserved.json'' (last p)) es))"
  have "grows (open_historical sd root parent)" unfolding open_historical_def Let_def by (auto intro!: grow_intros)
  then have w1: "wf_world w1" using growsD assms(1) j by blast
  have w2: "wf_world w2" using growsD [OF grows_calls(4) w1 k] by simp
  have "distinct (map (last \<circ> fst) es)" by (rule read_dir_Ok [OF w2 es])
  then have "distinct (map (\<lambda>x. last (snd x)) ?xs)" by (auto simp: distinct_map inj_on_def comp_def)
  then have d: "distinct (map (\<lambda>x. last (snd x)) (take n (newest_first ?xs)))" by (rule distinct_newest_first)
  have fm: "length ts \<le> length (take n (newest_first ?xs))"
    "distinct (map (\<lambda>y. journal_filename sd (ts_turn_id y) ''reserved'') ts)"
    using io_filter_map_keys [where f = "summarize_turn sd j" and g = "\<lambda>x. last (snd x)"
      and h = "\<lambda>y. journal_filename sd (ts_turn_id y) ''reserved''", OF summarize_turn_name ts] d by auto
  have "distinct (map ts_turn_id ts)" using fm(2) by (auto simp: distinct_map inj_on_def)
  then show ?thesis using fm(1) sm by (auto simp: newest_first_def)
qed

definition sample_listing :: world where
  "sample_listing = empty_world\<lparr>w_fs := [([''p''], Dir), ([''p'', ''parent.json''], File [7]),
     ([''p'', ''t-1.reserved.json''], File [7])]\<rparr>"

lemma sample_summary:
  "\<exists>w' sm. summarize_parent sample_serde [] (Hash ''p'') 5 sample_listing = (w', Inr sm) \<and> length (ps_turns sm) = 1"
proof -
  let ?w = sample_listing and ?j = "\<lparr>jn_directory = [''p''], jn_parent = Hash ''p'', jn_reservations = 0\<rparr>"
  have f: "w_faults ?w = []" and fs: "w_fs ?w = [([''p''], Dir), ([''p'', ''parent.json''], File [7]), ([''p'', ''t-1.reserved.json''], File [7])]"
    by (simp_all add: sample_listing_def empty_world_def)
  have k: "fs_kind (w_fs ?w) p = (if p = [] \<or> p = [''p''] then Some Dir
      else if p = [''p'', ''parent.json''] \<or> p = [''p'', ''t-1.reserved.json''] then Some (File [7]) else None)" for p
    by (simp add: fs_kind_def bt_get_def fs)
  have dir: "parent_directory sample_serde [] (Hash ''p'') = [''p'']"
    by (simp add: parent_directory_def hash_name_def sample_serde_def frame_hash_as_bytes trim_start_matches.simps)
  have "record_at (se_parent sample_serde) (w_fs ?w) [''p'', ''parent.json'']
      = Inr \<lparr>pr_version = 1, pr_parent = Hash ''p'', pr_recovery = recovery_text\<rparr>"
    by (rule record_at_written [where dec = "se_parent sample_serde" and b = "[7]"])
      (simp_all add: k MAX_RECORD_BYTES_def, simp add: sample_serde_def)
  then have op: "open_historical sample_serde [] (Hash ''p'') ?w = (?w, Inr ?j)"
    by (simp add: open_historical_def Let_def dir io_bind_def read_record_calm [OF f] io_return_def)
  have rec: "record_at (se_reserved sample_serde) (w_fs ?w) [''p'', ''t-1.reserved.json''] = Inr (reservation_of sample_reserved)"
    by (rule record_at_written [where dec = "se_reserved sample_serde" and b = "[7]"])
      (simp_all add: k MAX_RECORD_BYTES_def, simp add: sample_serde_def)
  have "reservation_at sample_serde ?j ''t-1'' (w_fs ?w) = Inr (reservation_of sample_reserved)"
    using sample_reservation_at [of "w_fs ?w"] reservation_at_cong [of ?j sample_journal] by (simp add: k sample_journal_def)
  moreover have "committed_at sample_serde ?j ''t-1'' c (w_fs ?w) = Inr False"
    "destroyed_at sample_serde ?j ''t-1'' c (w_fs ?w) = Inl NotFound" for c
    by (simp_all add: committed_at_def destroyed_at_def record_at_def sample_names k)
  ultimately have st: "turn_status sample_serde ?j ''t-1'' ?w = (?w, Inr (Reserved (reservation_of sample_reserved)))"
    by (simp add: turn_status_calm [OF f])
  have id: "turn_id (rv_request (reservation_of sample_reserved)) = ''t-1''"
    by (simp add: reservation_of_def sample_reserved_def sample_request_def)
  obtain y where sumt: "summarize_turn sample_serde ?j (0, [''p'', ''t-1.reserved.json'']) ?w = (?w, Inr (Some y))"
    by (simp add: summarize_turn_def io_ok_def io_bind_def io_match_def read_record_calm [OF f] rec io_return_def Let_def
        id sample_names st)
  have "with_mtimes [[''p'', ''t-1.reserved.json'']] ?w = (?w, Inr [(0, [''p'', ''t-1.reserved.json''])])"
    unfolding with_mtimes_eq by (simp add: sample_listing_def empty_world_def)
  moreover have "read_dir [''p''] ?w = (?w, Inr [([''p'', ''parent.json''], File [7]), ([''p'', ''t-1.reserved.json''], File [7])])"
    by (simp add: read_dir_def io_call_def f k) (simp add: fs)
  moreover have "io_filter_map (summarize_turn sample_serde ?j) [(0, [''p'', ''t-1.reserved.json''])] ?w = (?w, Inr [y])"
    using sumt by (simp add: io_bind_def io_return_def)
  ultimately show ?thesis
    using op
    by (simp add: summarize_parent_def io_bind_def io_seq_def file_type_of_def io_call_def f k modified_ms_def
        io_return_def ends_with_def newest_first_def del: with_mtimes.simps io_filter_map.simps)
qed

theorem summary_lists_each_turn_once_witness:
  "\<exists>w' sm. summarize_parent sample_serde [] (Hash ''p'') 5 sample_listing = (w', Inr sm)
     \<and> length (ps_turns sm) = 1 \<and> distinct (map ts_turn_id (ps_turns sm))"
proof -
  obtain w' sm where s: "summarize_parent sample_serde [] (Hash ''p'') 5 sample_listing = (w', Inr sm)" "length (ps_turns sm) = 1"
    using sample_summary by blast
  have "wf_world sample_listing"
    by (simp add: sample_listing_def wf_world_def wf_fs_def empty_world_def bt_invar_def fs_kind_def bt_get_def)
  with summary_lists_each_turn_once [OF _ s(1)] s show ?thesis by blast
qed

end
