(* ===== verification/Closure.thy ===== *)
theory Closure
  imports Btree
begin

text \<open>
  \<open>celln-manifest/src/closure.rs\<close> and \<open>composition.rs\<close>: publisher-signed dependency
  closures and their deterministic composition.

  A \<open>BTreeSet<String>\<close> is the list of its elements in ascending order. The parameters are
  collected in \<open>Crypto\<close>: the JSON encoders and decoder of the three wire types, \<open>Hash::of\<close>,
  and Ed25519 (public key of a seed, signing, decoding a public key, strict verification).

  In the source \<open>validate\<close>, \<open>compose\<close>, \<open>Source::parse\<close> and \<open>verify\<close> call one another. A
  source is refused unless it is a version 1 closure without sources, so the recursion is
  one level deep; it is written here as two levels, \<open>verify_v1\<close> for such a closure and
  \<open>SignedClosure_verify\<close> for any, and \<open>Source_parse_verifies\<close> shows that the two agree
  where the source calls itself.
\<close>

section \<open>Wire types\<close>

record Source =
  so_hash :: string
  so_descriptor :: string

record Member =
  mb_hash :: string
  mb_dependencies :: "string list"

record Closure =
  cl_api_version :: string
  cl_toolfs :: string
  cl_entrypoint :: string
  cl_interpreter :: bool
  cl_members :: "(string, Member) btree"
  cl_sources :: "Source list"

record SignedClosure =
  sc_closure :: Closure
  sc_publisher :: string
  sc_signature :: string

record Crypto =
  cr_hash :: "bytes \<Rightarrow> hash"
  cr_sources_vec :: "Source list \<Rightarrow> bytes option"
  cr_closure_vec :: "Closure \<Rightarrow> string + bytes"
  cr_signed_vec :: "SignedClosure \<Rightarrow> string + bytes"
  cr_from_str :: "string \<Rightarrow> SignedClosure option"
  cr_public :: "bytes \<Rightarrow> bytes"
  cr_sign :: "bytes \<Rightarrow> bytes \<Rightarrow> bytes"
  cr_key_ok :: "bytes \<Rightarrow> bool"
  cr_verify :: "bytes \<Rightarrow> bytes \<Rightarrow> bytes \<Rightarrow> bool"

definition CLOSURE_V1 :: string where "CLOSURE_V1 = ''celln.dev/closure-v1''"
definition CLOSURE_V2 :: string where "CLOSURE_V2 = ''celln.dev/closure-v2''"
definition DOMAIN :: bytes where "DOMAIN = as_bytes ''celln.dev/closure-v1'' @ [0]"
definition COMPOSITION_DOMAIN :: bytes where "COMPOSITION_DOMAIN = as_bytes ''celln.dev/closure-v2'' @ [0]"
definition MAX_SOURCES :: nat where "MAX_SOURCES = 25"

lemma closure_versions [simp]: "CLOSURE_V1 \<noteq> CLOSURE_V2" "CLOSURE_V2 \<noteq> CLOSURE_V1"
  by (simp_all add: CLOSURE_V1_def CLOSURE_V2_def)

section \<open>Encodings\<close>

definition closure_hash :: "string \<Rightarrow> bool" where
  "closure_hash s =
     (case strip_prefix ''blake3:'' s of
        None \<Rightarrow> False
      | Some h \<Rightarrow> length h = 64 \<and> list_all (\<lambda>c. is_ascii_digit c \<or> (CHR ''a'' \<le> c \<and> c \<le> CHR ''f'')) h)"

definition path_part_ok :: "string \<Rightarrow> bool" where
  "path_part_ok p =
     (p \<noteq> [] \<and> p \<noteq> ''.'' \<and> p \<noteq> ''..''
      \<and> list_all (\<lambda>c. is_ascii_alphanumeric c \<or> c \<in> set ''-_.+'') p)"

definition canonical_path :: "string \<Rightarrow> bool" where
  "canonical_path p =
     (starts_with ''/'' p \<and> length p \<le> 1024 \<and> list_all path_part_ok (split_on CHR ''/'' (drop 1 p)))"

definition hex_digit :: "nat \<Rightarrow> char" where
  "hex_digit n = (if n < 10 then char_of (48 + n) else char_of (87 + n))"

definition hex :: "bytes \<Rightarrow> string" where
  "hex b = concat (map (\<lambda>w. [hex_digit (unat w div 16), hex_digit (unat w mod 16)]) b)"

text \<open>\<open>u8::from_str_radix(.., 16)\<close> on two digits already known to be lower-case hexadecimal.\<close>

definition hex_value :: "char \<Rightarrow> nat" where
  "hex_value c = (if is_ascii_digit c then of_char c - 48 else of_char c - 87)"

fun decode_pairs :: "string \<Rightarrow> bytes" where
  "decode_pairs (a # b # s) = of_nat (hex_value a * 16 + hex_value b) # decode_pairs s"
| "decode_pairs _ = []"

definition decode_hex :: "nat \<Rightarrow> string \<Rightarrow> string + bytes" where
  "decode_hex n s =
     (if length s \<noteq> n * 2 \<or> \<not> list_all is_lower_hex s
      then Err ''invalid closure key/signature encoding''
      else Ok (decode_pairs s))"

section \<open>The graph of a closure\<close>

text \<open>
  The search from the entry point: \<open>pending\<close> is a stack, \<open>seen\<close> a set. Indexing a path that
  is no member panics, which is the value \<open>None\<close>.
\<close>

function walk :: "(string, Member) btree \<Rightarrow> string list \<Rightarrow> string list \<Rightarrow> string list option" where
  "walk ms seen pending =
     (if pending = [] then Some seen
      else (let p = last pending; rest = butlast pending in
            if p \<in> set seen then walk ms seen rest
            else (case bt_get ms p of
                    None \<Rightarrow> None
                  | Some m \<Rightarrow> walk ms (insort_insert p seen) (rest @ mb_dependencies m))))"
  by pat_completeness auto
termination
proof (relation "measures [\<lambda>(ms, seen, pending). card (set (map fst ms) - set seen), \<lambda>(ms, seen, pending). length pending]",
    goal_cases)
  case (3 ms seen pending p rest m)
  then have "p \<in> set (map fst ms)" by (metis bt_get_in_set fst_conv image_eqI list.set_map)
  then have "card (set (map fst ms) - set (insort_insert p seen)) < card (set (map fst ms) - set seen)"
    using 3 by (intro psubset_card_mono) (auto simp: set_insort_insert)
  then show ?case by simp
qed auto

declare walk.simps [simp del]

definition member_ok :: "(string, Member) btree \<Rightarrow> string \<times> Member \<Rightarrow> bool" where
  "member_ok ms pm =
     (canonical_path (fst pm) \<and> closure_hash (mb_hash (snd pm))
      \<and> list_all (bt_contains_key ms) (mb_dependencies (snd pm)))"

text \<open>\<open>Closure::validate\<close> up to the composition check.\<close>

definition validate_graph :: "Closure \<Rightarrow> string + unit" where
  "validate_graph c =
     (if (cl_api_version c \<noteq> CLOSURE_V1 \<and> cl_api_version c \<noteq> CLOSURE_V2)
         \<or> (cl_api_version c = CLOSURE_V1 \<and> cl_sources c \<noteq> [])
         \<or> \<not> closure_hash (cl_toolfs c) \<or> cl_members c = [] \<or> length (cl_members c) > 256
         \<or> \<not> bt_contains_key (cl_members c) (cl_entrypoint c)
      then Err ''invalid closure identity, version, or entrypoint''
      else if \<not> list_all (member_ok (cl_members c)) (cl_members c)
      then Err ''invalid closure member or unresolved dependency''
      else if map_option length (walk (cl_members c) [] [cl_entrypoint c]) \<noteq> Some (length (cl_members c))
      then Err ''closure contains unreachable code members''
      else Ok ())"

section \<open>Signatures\<close>

text \<open>\<open>Closure::message\<close> after \<open>validate\<close>.\<close>

definition message_after :: "Crypto \<Rightarrow> string + unit \<Rightarrow> Closure \<Rightarrow> string + bytes" where
  "message_after E validated c =
     (case validated of
        Inl e \<Rightarrow> Inl e
      | Inr _ \<Rightarrow>
          (case cr_closure_vec E c of
             Inl e \<Rightarrow> Inl e
           | Inr b \<Rightarrow> Ok ((if cl_api_version c = CLOSURE_V2 then COMPOSITION_DOMAIN else DOMAIN) @ b)))"

text \<open>\<open>SignedClosure::verify\<close> around the check of the sources and the signed message.\<close>

definition verify_around ::
  "Crypto \<Rightarrow> string list \<Rightarrow> string + unit \<Rightarrow> string + bytes \<Rightarrow> SignedClosure \<Rightarrow> string + unit" where
  "verify_around E publishers sources_ok message s =
     (if sc_publisher s \<notin> set publishers then Err ''closure publisher is not authorized''
      else (case sources_ok of
        Inl e \<Rightarrow> Inl e
      | Inr _ \<Rightarrow>
          (case decode_hex 32 (sc_publisher s) of
             Inl e \<Rightarrow> Inl e
           | Inr key \<Rightarrow>
               if \<not> cr_key_ok E key then Err ''invalid closure publisher key''
               else (case message of
                 Inl e \<Rightarrow> Inl e
               | Inr msg \<Rightarrow>
                   (case decode_hex 64 (sc_signature s) of
                      Inl e \<Rightarrow> Inl e
                    | Inr sig \<Rightarrow>
                        if cr_verify E key msg sig then Ok ()
                        else Err ''closure signature verification failed'')))))"

definition verify_v1 :: "Crypto \<Rightarrow> string list \<Rightarrow> SignedClosure \<Rightarrow> string + unit" where
  "verify_v1 E publishers s =
     verify_around E publishers (Ok ()) (message_after E (validate_graph (sc_closure s)) (sc_closure s)) s"

definition Source_parse :: "Crypto \<Rightarrow> Source \<Rightarrow> string + SignedClosure" where
  "Source_parse E src =
     (if length (so_descriptor src) > 262144 \<or> hash_str (cr_hash E (as_bytes (so_descriptor src))) \<noteq> so_hash src
      then Err ''composition source identity or byte limit mismatch''
      else (case cr_from_str E (so_descriptor src) of
        None \<Rightarrow> Err ''invalid composition source''
      | Some parsed \<Rightarrow>
          if cl_api_version (sc_closure parsed) \<noteq> CLOSURE_V1 \<or> cl_sources (sc_closure parsed) \<noteq> []
          then Err ''composition requires original v1 signed sources''
          else (case verify_v1 E [sc_publisher parsed] parsed of
                  Inl e \<Rightarrow> Inl e
                | Inr _ \<Rightarrow> Ok parsed)))"

section \<open>Composition\<close>

fun collect_results :: "('a \<Rightarrow> 'e + 'b) \<Rightarrow> 'a list \<Rightarrow> 'e + 'b list" where
  "collect_results f [] = Ok []"
| "collect_results f (x # xs) =
     (case f x of
        Inl e \<Rightarrow> Inl e
      | Inr y \<Rightarrow> (case collect_results f xs of Inl e \<Rightarrow> Inl e | Inr ys \<Rightarrow> Ok (y # ys)))"

fun distinct_roots :: "string list \<Rightarrow> string list \<Rightarrow> (Source \<times> SignedClosure) list \<Rightarrow> string + string list" where
  "distinct_roots roots identities [] = Ok roots"
| "distinct_roots roots identities ((src, d) # rest) =
     (if cl_entrypoint (sc_closure d) \<in> set roots \<or> so_hash src \<in> set identities
      then Err ''duplicate composition source or entrypoint''
      else distinct_roots (insort_insert (cl_entrypoint (sc_closure d)) roots) (insort_insert (so_hash src) identities) rest)"

fun merge_members ::
  "string list \<Rightarrow> string \<Rightarrow> (string \<times> Member) list \<Rightarrow> (string, Member) btree \<Rightarrow> string + (string, Member) btree" where
  "merge_members roots entry [] ms = Ok ms"
| "merge_members roots entry ((p, m) # rest) ms =
     (if p \<in> set roots \<and> p \<noteq> entry
      then Err ''selected entrypoint collides with another source dependency''
      else (case bt_get ms p of
        Some existing \<Rightarrow>
          if existing \<noteq> m then Err ''composition member hash or dependency collision''
          else merge_members roots entry rest ms
      | None \<Rightarrow>
          (let ms' = bt_insert p m ms in
           if length ms' > 256 then Err ''composed graph exceeds 256 members''
           else merge_members roots entry rest ms')))"

fun merge_sources :: "string list \<Rightarrow> SignedClosure list \<Rightarrow> (string, Member) btree \<Rightarrow> string + (string, Member) btree" where
  "merge_sources roots [] ms = Ok ms"
| "merge_sources roots (s # rest) ms =
     (case merge_members roots (cl_entrypoint (sc_closure s)) (cl_members (sc_closure s)) ms of
        Inl e \<Rightarrow> Inl e
      | Inr ms' \<Rightarrow> merge_sources roots rest ms')"

text \<open>\<open>str::rsplit_once\<close>: the part before the last occurrence.\<close>

definition rsplit_before :: "char \<Rightarrow> string \<Rightarrow> string option" where
  "rsplit_before c s = (if c \<in> set s then Some (rev (tl (dropWhile (\<lambda>d. d \<noteq> c) (rev s)))) else None)"

lemma rsplit_before_shorter: "rsplit_before c s = Some p \<Longrightarrow> length p < length s"
  using length_dropWhile_le [of "\<lambda>d. d \<noteq> c" "rev s"]
  by (cases s) (auto simp: rsplit_before_def split: if_splits)

function parent_collides :: "(string, Member) btree \<Rightarrow> string \<Rightarrow> bool" where
  "parent_collides ms parent =
     (case rsplit_before CHR ''/'' parent of
        None \<Rightarrow> False
      | Some prefix \<Rightarrow> bt_contains_key ms prefix \<or> parent_collides ms prefix)"
  by pat_completeness auto
termination
  by (relation "measure (\<lambda>(ms, p). length p)") (auto dest: rsplit_before_shorter)

declare parent_collides.simps [simp del]

text \<open>
  \<open>signed[0]\<close> exists because there is at least one source, and its entry point is a merged
  member because every parsed source is valid.
\<close>

definition compose :: "Crypto \<Rightarrow> Source list \<Rightarrow> hash \<Rightarrow> string + Closure" where
  "compose E sources toolfs =
     (if sources = [] \<or> length sources > MAX_SOURCES \<or> \<not> closure_hash (hash_str toolfs)
      then Err ''composition requires 1..25 sources and a filesystem hash''
      else (case cr_sources_vec E sources of
        None \<Rightarrow> Err ''invalid sources''
      | Some source_bytes \<Rightarrow>
      if length source_bytes > 196608 then Err ''composition source envelope exceeds 192 KiB''
      else (case collect_results (Source_parse E) sources of
        Inl e \<Rightarrow> Inl e
      | Inr parsed \<Rightarrow>
      (case distinct_roots [] [] (zip sources parsed) of
        Inl e \<Rightarrow> Inl e
      | Inr roots \<Rightarrow>
      (case merge_sources roots parsed [] of
        Inl e \<Rightarrow> Inl e
      | Inr members \<Rightarrow>
      (let entrypoint = cl_entrypoint (sc_closure (parsed ! 0)) in
      if list_ex (parent_collides members) (bt_keys members)
      then Err ''composition file collides with a parent directory''
      else
        let extra = map (\<lambda>s. cl_entrypoint (sc_closure s)) (drop 1 parsed);
            composed = \<lparr>cl_api_version = CLOSURE_V2, cl_toolfs = hash_str toolfs, cl_entrypoint = entrypoint,
              cl_interpreter = list_ex (\<lambda>s. cl_interpreter (sc_closure s)) parsed,
              cl_members = bt_adjust entrypoint
                (\<lambda>m. m\<lparr>mb_dependencies := fold insort_insert extra (mb_dependencies m)\<rparr>) members,
              cl_sources = sources\<rparr>
        in (case cr_closure_vec E composed of
              Inl _ \<Rightarrow> Err ''invalid composition''
            | Inr b \<Rightarrow> if length b > 262144 - 512
                       then Err ''composed descriptor exceeds signed delivery envelope''
                       else Ok composed)))))))"

section \<open>Any closure\<close>

definition Closure_validate :: "Crypto \<Rightarrow> Closure \<Rightarrow> string + unit" where
  "Closure_validate E c =
     (case validate_graph c of
        Inl e \<Rightarrow> Inl e
      | Inr _ \<Rightarrow>
          if cl_api_version c = CLOSURE_V2
          then (case compose E (cl_sources c) (Hash (cl_toolfs c)) of
                  Inl e \<Rightarrow> Inl e
                | Inr expected \<Rightarrow>
                    if cl_entrypoint c \<noteq> cl_entrypoint expected \<or> cl_interpreter c \<noteq> cl_interpreter expected
                       \<or> cl_members c \<noteq> cl_members expected
                    then Err ''composed closure differs from its signed source graph''
                    else Ok ())
          else Ok ())"

definition Closure_message :: "Crypto \<Rightarrow> Closure \<Rightarrow> string + bytes" where
  "Closure_message E c = message_after E (Closure_validate E c) c"

definition Closure_sign :: "Crypto \<Rightarrow> Closure \<Rightarrow> bytes \<Rightarrow> string + SignedClosure" where
  "Closure_sign E c seed =
     (case Closure_message E c of
        Inl e \<Rightarrow> Inl e
      | Inr msg \<Rightarrow>
          Ok \<lparr>sc_closure = c, sc_publisher = hex (cr_public E seed), sc_signature = hex (cr_sign E seed msg)\<rparr>)"

fun verify_sources :: "Crypto \<Rightarrow> string list \<Rightarrow> Source list \<Rightarrow> string + unit" where
  "verify_sources E publishers [] = Ok ()"
| "verify_sources E publishers (src # rest) =
     (case Source_parse E src of
        Inl e \<Rightarrow> Inl e
      | Inr parsed \<Rightarrow>
          (case verify_v1 E publishers parsed of
             Inl e \<Rightarrow> Inl e
           | Inr _ \<Rightarrow> verify_sources E publishers rest))"

definition SignedClosure_verify :: "Crypto \<Rightarrow> string list \<Rightarrow> SignedClosure \<Rightarrow> string + unit" where
  "SignedClosure_verify E publishers s =
     verify_around E publishers (verify_sources E publishers (cl_sources (sc_closure s)))
       (Closure_message E (sc_closure s)) s"

definition SignedClosure_identity :: "Crypto \<Rightarrow> SignedClosure \<Rightarrow> string + hash" where
  "SignedClosure_identity E s =
     (case cr_signed_vec E s of Inl e \<Rightarrow> Inl e | Inr b \<Rightarrow> Ok (cr_hash E b))"

text \<open>On a closure that a composition source can hold the two levels are the same function.\<close>

lemma Source_parse_verifies:
  assumes "cl_api_version (sc_closure s) = CLOSURE_V1" "cl_sources (sc_closure s) = []"
  shows "SignedClosure_verify E publishers s = verify_v1 E publishers s"
  using assms
  by (simp add: SignedClosure_verify_def verify_v1_def Closure_message_def message_after_def
      Closure_validate_def split: sum.split)

section \<open>Reachability\<close>

definition edges :: "(string, Member) btree \<Rightarrow> (string \<times> string) set" where
  "edges ms = {(a, b). \<exists>m. bt_get ms a = Some m \<and> b \<in> set (mb_dependencies m)}"

definition reach :: "(string, Member) btree \<Rightarrow> string \<Rightarrow> string set" where
  "reach ms r = {p. (r, p) \<in> (edges ms)\<^sup>*}"

lemma reach_closed:
  assumes "r \<in> S" "\<And>a b. a \<in> S \<Longrightarrow> (a, b) \<in> edges ms \<Longrightarrow> b \<in> S"
  shows "reach ms r \<subseteq> S"
proof
  fix p assume "p \<in> reach ms r"
  then have "(r, p) \<in> (edges ms)\<^sup>*" by (simp add: reach_def)
  then show "p \<in> S" by (induction rule: rtrancl_induct) (auto intro: assms)
qed

text \<open>The search never panics on a graph with resolved dependencies and finds exactly what is reachable.\<close>

lemma walk_reach:
  assumes "edges ms \<subseteq> UNIV \<times> dom (bt_get ms)" "set pending \<subseteq> dom (bt_get ms)" "distinct seen"
    and "set seen \<union> set pending \<subseteq> reach ms r" "r \<in> set seen \<union> set pending"
    and "\<And>a b. a \<in> set seen \<Longrightarrow> (a, b) \<in> edges ms \<Longrightarrow> b \<in> set seen \<union> set pending"
  shows "\<exists>s. walk ms seen pending = Some s \<and> distinct s \<and> set s = reach ms r"
  using assms
proof (induction ms seen pending rule: walk.induct)
  case (1 ms seen pending)
  show ?case
  proof (cases pending rule: rev_cases)
    case Nil
    have "reach ms r \<subseteq> set seen" using 1 Nil by (intro reach_closed) auto
    then show ?thesis using 1 Nil by (subst walk.simps) auto
  next
    case (snoc rest p)
    have facts: "pending \<noteq> []" "last pending = p" "butlast pending = rest" using snoc by auto
    show ?thesis
    proof (cases "p \<in> set seen")
      case True
      have "\<exists>s. walk ms seen rest = Some s \<and> distinct s \<and> set s = reach ms r"
        using facts snoc True "1.prems" by (intro "1.IH"(1) [OF facts(1) refl refl, simplified facts]) auto
      then show ?thesis using facts True by (subst walk.simps) (simp add: Let_def)
    next
      case False
      obtain m where m: "bt_get ms p = Some m" using "1.prems"(2) snoc by auto
      have new: "(p, b) \<in> edges ms \<longleftrightarrow> b \<in> set (mb_dependencies m)" for b using m by (simp add: edges_def)
      have deps: "set (mb_dependencies m) \<subseteq> dom (bt_get ms)" using "1.prems"(1) new by auto
      have "p \<in> reach ms r" using "1.prems"(4) snoc by simp
      then have "set (mb_dependencies m) \<subseteq> reach ms r"
        using new by (auto simp: reach_def intro: rtrancl_into_rtrancl)
      then have "\<exists>s. walk ms (insort_insert p seen) (rest @ mb_dependencies m) = Some s \<and> distinct s \<and> set s = reach ms r"
        using "1.prems" snoc deps new False
        by (intro "1.IH"(2) [OF facts(1) refl refl, simplified facts])
          (auto simp: m set_insort_insert insort_insert_key_def distinct_insort set_insort_key)
      then show ?thesis using facts m False by (subst walk.simps) (simp add: Let_def)
    qed
  qed
qed

lemma member_ok_edges:
  assumes "bt_invar ms" "list_all (member_ok ms) ms"
  shows "edges ms \<subseteq> UNIV \<times> dom (bt_get ms)"
  using assms(2) bt_get_in_set [of ms]
  by (fastforce simp: edges_def list_all_iff member_ok_def bt_contains_key_iff)

lemma walk_members:
  assumes "bt_invar ms" "list_all (member_ok ms) ms" "bt_contains_key ms e"
  shows "map_option length (walk ms [] [e]) = Some (length ms) \<longleftrightarrow> dom (bt_get ms) \<subseteq> reach ms e"
proof -
  have e: "e \<in> dom (bt_get ms)" using assms(3) by (simp add: bt_contains_key_iff)
  have sub: "reach ms e \<subseteq> dom (bt_get ms)"
    using member_ok_edges [OF assms(1,2)] e by (intro reach_closed) auto
  have "e \<in> reach ms e" by (simp add: reach_def)
  then obtain s where s: "walk ms [] [e] = Some s" "distinct s" "set s = reach ms e"
    using walk_reach [OF member_ok_edges [OF assms(1,2)], of "[e]" "[]" e] e by auto
  have fin: "finite (dom (bt_get ms))" by (simp add: bt_get_def [abs_def] finite_dom_map_of)
  have "length ms = card (dom (bt_get ms))" using assms(1) by (simp add: bt.length_entries)
  moreover have "length s = card (reach ms e)" using s by (metis distinct_card)
  ultimately show ?thesis using s(1) sub card_subset_eq [OF fin sub] by auto
qed

text \<open>What \<open>validate_graph\<close> establishes.\<close>

definition graph_ok :: "Closure \<Rightarrow> bool" where
  "graph_ok c \<longleftrightarrow>
     closure_hash (cl_toolfs c) \<and> length (cl_members c) \<le> 256
     \<and> cl_entrypoint c \<in> dom (bt_get (cl_members c))
     \<and> (\<forall>p m. bt_get (cl_members c) p = Some m \<longrightarrow>
          canonical_path p \<and> closure_hash (mb_hash m) \<and> set (mb_dependencies m) \<subseteq> dom (bt_get (cl_members c)))
     \<and> dom (bt_get (cl_members c)) \<subseteq> reach (cl_members c) (cl_entrypoint c)"

lemma list_all_member_ok:
  "bt_invar ms \<Longrightarrow> list_all (member_ok ms) ms \<longleftrightarrow>
     (\<forall>p m. bt_get ms p = Some m \<longrightarrow>
        canonical_path p \<and> closure_hash (mb_hash m) \<and> set (mb_dependencies m) \<subseteq> dom (bt_get ms))"
  by (simp add: list_all_iff member_ok_def bt_contains_key_iff bt.in_entries_iff [symmetric] subset_iff) force

lemma validate_graph_iff:
  assumes "bt_invar (cl_members c)"
  shows "validate_graph c = Inr u \<longleftrightarrow>
     (cl_api_version c = CLOSURE_V2 \<or> cl_api_version c = CLOSURE_V1 \<and> cl_sources c = []) \<and> graph_ok c"
proof -
  have g: "graph_ok c \<longleftrightarrow> closure_hash (cl_toolfs c) \<and> length (cl_members c) \<le> 256
      \<and> bt_contains_key (cl_members c) (cl_entrypoint c) \<and> list_all (member_ok (cl_members c)) (cl_members c)
      \<and> dom (bt_get (cl_members c)) \<subseteq> reach (cl_members c) (cl_entrypoint c)"
    unfolding graph_ok_def list_all_member_ok [OF assms] bt_contains_key_iff by simp
  have "bt_contains_key (cl_members c) (cl_entrypoint c) \<Longrightarrow> cl_members c \<noteq> []"
    by (auto simp: bt_contains_key_iff)
  then show ?thesis
    using walk_members [OF assms, of "cl_entrypoint c"] unfolding validate_graph_def g
    by (auto simp del: map_option_eq_Some)
qed

section \<open>Composition is admissible\<close>

text \<open>Decoded maps are in key order: the documented behaviour of decoding a \<open>BTreeMap\<close>.\<close>

definition maps_decoded :: "Crypto \<Rightarrow> bool" where
  "maps_decoded E \<longleftrightarrow> (\<forall>s d. cr_from_str E s = Some d \<longrightarrow> bt_invar (cl_members (sc_closure d)))"

lemma collect_results_Ok:
  "collect_results f xs = Inr ys \<longleftrightarrow> length ys = length xs \<and> (\<forall>i < length xs. f (xs ! i) = Inr (ys ! i))"
proof (induction xs arbitrary: ys)
  case (Cons x xs)
  show ?case
  proof (cases ys)
    case Nil
    then show ?thesis by (auto split: sum.split)
  next
    case ys: (Cons z zs)
    show ?thesis
      using Cons.IH [of zs] by (cases "f x"; cases "collect_results f xs") (auto simp: ys All_less_Suc2)
  qed
qed auto

lemma Source_parse_Ok:
  assumes "Source_parse E src = Inr d"
  shows "cr_from_str E (so_descriptor src) = Some d" "cl_api_version (sc_closure d) = CLOSURE_V1"
    "cl_sources (sc_closure d) = []" "verify_v1 E [sc_publisher d] d = Ok ()"
    "length (so_descriptor src) \<le> 262144" "so_hash src = hash_str (cr_hash E (as_bytes (so_descriptor src)))"
  using assms by (auto simp: Source_parse_def split: if_splits option.splits sum.splits)

lemma verify_v1_Ok:
  "verify_v1 E publishers s = Inr u \<Longrightarrow> sc_publisher s \<in> set publishers \<and> validate_graph (sc_closure s) = Ok ()"
  by (auto simp: verify_v1_def verify_around_def message_after_def split: if_splits sum.splits)

lemma Source_parse_graph:
  "maps_decoded E \<Longrightarrow> Source_parse E src = Inr d \<Longrightarrow> graph_ok (sc_closure d) \<and> bt_invar (cl_members (sc_closure d))"
  using Source_parse_Ok [of E src d] verify_v1_Ok validate_graph_iff
  by (metis maps_decoded_def)

lemma merge_members_Ok:
  assumes "merge_members roots e L ms = Inr ms'" "bt_invar ms" "length ms \<le> 256"
  shows "bt_invar ms' \<and> length ms' \<le> 256
     \<and> (\<forall>p m. bt_get ms' p = Some m \<longleftrightarrow> bt_get ms p = Some m \<or> (p, m) \<in> set L)"
  using assms
proof (induction L arbitrary: ms)
  case (Cons x L)
  obtain p m where x: "x = (p, m)" by fastforce
  show ?case
  proof (cases "bt_get ms p")
    case None
    then have "merge_members roots e L (bt_insert p m ms) = Inr ms'" "length (bt_insert p m ms) \<le> 256"
      using Cons.prems x by (auto simp: Let_def split: if_splits)
    from Cons.IH [OF this(1) _ this(2)] show ?thesis
      using Cons.prems(2) None x by (auto simp: bt_simps split: if_splits)
  next
    case (Some m')
    then show ?thesis using Cons x by (auto split: if_splits)
  qed
qed auto

lemma merge_sources_Ok:
  assumes "merge_sources roots ds ms = Inr ms'" "bt_invar ms" "length ms \<le> 256"
    and "\<And>d. d \<in> set ds \<Longrightarrow> bt_invar (cl_members (sc_closure d))"
  shows "bt_invar ms' \<and> length ms' \<le> 256
     \<and> (\<forall>p m. bt_get ms' p = Some m \<longleftrightarrow>
          bt_get ms p = Some m \<or> (\<exists>d \<in> set ds. bt_get (cl_members (sc_closure d)) p = Some m))"
  using assms
proof (induction ds arbitrary: ms)
  case (Cons d ds)
  then obtain ms1 where
    m1: "merge_members roots (cl_entrypoint (sc_closure d)) (cl_members (sc_closure d)) ms = Inr ms1"
    and rest: "merge_sources roots ds ms1 = Inr ms'"
    by (auto split: sum.splits)
  have "bt_invar (cl_members (sc_closure d))" using Cons.prems(4) by simp
  then show ?case
    using merge_members_Ok [OF m1 Cons.prems(2,3)] Cons.IH [OF rest] Cons.prems(4)
    by (auto simp: bt.in_entries_iff)
qed simp

lemma set_fold_insort_insert: "set (fold insort_insert xs s) = set xs \<union> set s"
  by (induction xs arbitrary: s) (auto simp: set_insort_insert)

text \<open>The steps of a successful composition.\<close>

lemma compose_Ok:
  assumes "compose E sources toolfs = Inr c"
  obtains ds roots members where
    "sources \<noteq> []" "length sources \<le> 25" "closure_hash (hash_str toolfs)"
    "collect_results (Source_parse E) sources = Inr ds"
    "distinct_roots [] [] (zip sources ds) = Inr roots"
    "merge_sources roots ds [] = Inr members"
    "\<not> list_ex (parent_collides members) (bt_keys members)"
    "c = \<lparr>cl_api_version = CLOSURE_V2, cl_toolfs = hash_str toolfs,
          cl_entrypoint = cl_entrypoint (sc_closure (ds ! 0)),
          cl_interpreter = list_ex (\<lambda>s. cl_interpreter (sc_closure s)) ds,
          cl_members = bt_adjust (cl_entrypoint (sc_closure (ds ! 0)))
            (\<lambda>m. m\<lparr>mb_dependencies :=
               fold insort_insert (map (\<lambda>s. cl_entrypoint (sc_closure s)) (drop 1 ds)) (mb_dependencies m)\<rparr>) members,
          cl_sources = sources\<rparr>"
  using assms
  by (simp add: compose_def Let_def MAX_SOURCES_def split: if_splits option.splits sum.splits)

text \<open>
  Merging valid closures and adding their entry points to the dependencies of the first
  keeps everything reachable.
\<close>

lemma merged_graph:
  fixes ds :: "SignedClosure list" and ms :: "(string, Member) btree"
  defines "e \<equiv> cl_entrypoint (sc_closure (ds ! 0))"
  assumes ds: "ds \<noteq> []" "\<And>d. d \<in> set ds \<Longrightarrow> graph_ok (sc_closure d)"
    and ms: "\<And>p m. bt_get ms p = Some m \<longleftrightarrow> (\<exists>d \<in> set ds. bt_get (cl_members (sc_closure d)) p = Some m)"
    and g: "\<And>m. mb_hash (g m) = mb_hash m"
      "\<And>m. set (mb_dependencies (g m)) = (\<lambda>d. cl_entrypoint (sc_closure d)) ` set (tl ds) \<union> set (mb_dependencies m)"
  shows "e \<in> dom (bt_get (bt_adjust e g ms))"
    and "\<forall>p m. bt_get (bt_adjust e g ms) p = Some m \<longrightarrow>
      canonical_path p \<and> closure_hash (mb_hash m) \<and> set (mb_dependencies m) \<subseteq> dom (bt_get (bt_adjust e g ms))"
    and "dom (bt_get (bt_adjust e g ms)) \<subseteq> reach (bt_adjust e g ms) e"
proof -
  let ?M = "bt_adjust e g ms"
  have dom: "dom (bt_get ?M) = dom (bt_get ms)" by (auto simp: bt_get_adjust split: if_splits)
  have member: "dom (bt_get (cl_members (sc_closure d))) \<subseteq> dom (bt_get ms)" if "d \<in> set ds" for d
    using that ms by fastforce
  have entry: "cl_entrypoint (sc_closure d) \<in> dom (bt_get ms)" if "d \<in> set ds" for d
    using ds(2) [OF that] member [OF that] by (auto simp: graph_ok_def)
  have first: "ds ! 0 \<in> set ds" using ds(1) by simp
  show "e \<in> dom (bt_get ?M)" using entry [OF first] dom by (simp add: e_def)
  have old: "canonical_path p \<and> closure_hash (mb_hash m) \<and> set (mb_dependencies m) \<subseteq> dom (bt_get ms)"
    if at: "bt_get ms p = Some m" for p m
  proof -
    obtain d where "d \<in> set ds" "bt_get (cl_members (sc_closure d)) p = Some m" using at ms [of p m] by blast
    then show ?thesis using ds(2) [of d] member [of d] unfolding graph_ok_def by blast
  qed
  have extra: "(\<lambda>d. cl_entrypoint (sc_closure d)) ` set (tl ds) \<subseteq> dom (bt_get ms)"
  proof (rule image_subsetI)
    fix d assume "d \<in> set (tl ds)"
    then show "cl_entrypoint (sc_closure d) \<in> dom (bt_get ms)"
      using entry list.set_sel(2) [OF ds(1)] by blast
  qed
  show "\<forall>p m. bt_get ?M p = Some m \<longrightarrow>
      canonical_path p \<and> closure_hash (mb_hash m) \<and> set (mb_dependencies m) \<subseteq> dom (bt_get ?M)"
  proof (intro allI impI)
    fix p m assume m: "bt_get ?M p = Some m"
    show "canonical_path p \<and> closure_hash (mb_hash m) \<and> set (mb_dependencies m) \<subseteq> dom (bt_get ?M)"
    proof (cases "p = e")
      case True
      then obtain m1 where "bt_get ms p = Some m1" "m = g m1" using m by (auto simp: bt_get_adjust)
      then show ?thesis using old [of p m1] extra g [of m1] by (simp add: dom)
    next
      case False
      then show ?thesis using m old [of p m] by (simp add: dom bt_get_adjust)
    qed
  qed
  have sub: "edges (cl_members (sc_closure d)) \<subseteq> edges ?M" if "d \<in> set ds" for d
  proof (rule subrelI)
    fix a b assume "(a, b) \<in> edges (cl_members (sc_closure d))"
    then obtain m where m: "bt_get (cl_members (sc_closure d)) a = Some m" "b \<in> set (mb_dependencies m)"
      by (auto simp: edges_def)
    then have "bt_get ms a = Some m" using ms [of a m] that by blast
    then show "(a, b) \<in> edges ?M" using m(2) g(2) [of m] by (auto simp: edges_def bt_get_adjust)
  qed
  obtain m0 where m0: "bt_get ms e = Some m0" using entry [OF first] by (auto simp: e_def)
  have root: "(e, cl_entrypoint (sc_closure d)) \<in> (edges ?M)\<^sup>*" if "d \<in> set ds" for d
  proof (cases "d = ds ! 0")
    case False
    then have "d \<in> set (tl ds)" using that ds(1) by (cases ds) auto
    then show ?thesis using m0 g(2) [of m0] by (auto simp: edges_def bt_get_adjust)
  qed (simp add: e_def)
  show "dom (bt_get ?M) \<subseteq> reach ?M e"
  proof
    fix p assume "p \<in> dom (bt_get ?M)"
    then obtain d where d: "d \<in> set ds" "p \<in> dom (bt_get (cl_members (sc_closure d)))"
      using dom ms by fastforce
    then have "(cl_entrypoint (sc_closure d), p) \<in> (edges (cl_members (sc_closure d)))\<^sup>*"
      using ds(2) [OF d(1)] by (auto simp: graph_ok_def reach_def)
    then have "(cl_entrypoint (sc_closure d), p) \<in> (edges ?M)\<^sup>*"
      using rtrancl_mono [OF sub [OF d(1)]] by blast
    then show "p \<in> reach ?M e" using root [OF d(1)] by (simp add: reach_def)
  qed
qed

lemma compose_graph:
  assumes "maps_decoded E" "compose E sources toolfs = Inr c"
  shows "graph_ok c \<and> bt_invar (cl_members c)"
  using assms(2)
proof (cases rule: compose_Ok)
  case (1 ds roots members)
  have len: "length ds = length sources" and parsed: "\<And>i. i < length sources \<Longrightarrow> Source_parse E (sources ! i) = Inr (ds ! i)"
    using 1(4) by (auto simp: collect_results_Ok)
  have ok: "graph_ok (sc_closure d) \<and> bt_invar (cl_members (sc_closure d))" if "d \<in> set ds" for d
    using that Source_parse_graph [OF assms(1)] parsed len by (metis in_set_conv_nth)
  have merged: "bt_invar members \<and> length members \<le> 256
      \<and> (\<forall>p m. bt_get members p = Some m \<longleftrightarrow> (\<exists>d \<in> set ds. bt_get (cl_members (sc_closure d)) p = Some m))"
    using merge_sources_Ok [OF 1(6)] ok by (simp add: bt_invar_def)
  have ne: "ds \<noteq> []" using 1(1) len by auto
  let ?g = "\<lambda>m. m\<lparr>mb_dependencies := fold insort_insert (map (\<lambda>s. cl_entrypoint (sc_closure s)) (drop 1 ds)) (mb_dependencies m)\<rparr>"
  have g: "mb_hash (?g m) = mb_hash m"
    "set (mb_dependencies (?g m)) = (\<lambda>d. cl_entrypoint (sc_closure d)) ` set (tl ds) \<union> set (mb_dependencies m)" for m :: Member
    by (auto simp: set_fold_insort_insert drop_Suc)
  note graph = merged_graph [where g = ?g, OF ne conjunct1 [OF ok] _ g, of members]
  show ?thesis
    using graph merged 1(3,8) unfolding graph_ok_def by simp
qed

section \<open>Hexadecimal round trip\<close>

lemma hex_digit_lower: "n < 16 \<Longrightarrow> is_lower_hex (hex_digit n) \<and> hex_value (hex_digit n) = n"
proof -
  assume "n < 16"
  then have "n \<in> set [0..<16]" by simp
  moreover have "list_all (\<lambda>n. is_lower_hex (hex_digit n) \<and> hex_value (hex_digit n) = n) [0..<16]"
    by code_simp
  ultimately show ?thesis by (auto simp: list_all_iff)
qed

lemma hex_lower: "list_all is_lower_hex (hex b)"
  by (induction b) (auto simp: hex_def hex_digit_lower less_mult_imp_div_less)

lemma length_hex: "length (hex b) = length b * 2"
  by (induction b) (auto simp: hex_def)

lemma decode_pairs_hex: "decode_pairs (hex b) = b"
proof (induction b)
  case (Cons w b)
  have "unat w div 16 < 16" using unat_u8_less [of w] by (simp add: less_mult_imp_div_less)
  then have "hex_value (hex_digit (unat w div 16)) * 16 + hex_value (hex_digit (unat w mod 16)) = unat w"
    by (simp add: hex_digit_lower)
  then show ?case using Cons by (simp add: hex_def)
qed (simp add: hex_def)

lemma decode_hex_roundtrip: "length b = n \<Longrightarrow> decode_hex n (hex b) = Ok b"
  by (simp add: decode_hex_def length_hex hex_lower decode_pairs_hex)

section \<open>Signatures\<close>

definition ed25519_laws :: "Crypto \<Rightarrow> bytes \<Rightarrow> bool" where
  "ed25519_laws E seed \<longleftrightarrow>
     length (cr_public E seed) = 32 \<and> cr_key_ok E (cr_public E seed)
     \<and> (\<forall>m. length (cr_sign E seed m) = 64 \<and> cr_verify E (cr_public E seed) m (cr_sign E seed m))"

text \<open>A publisher set authorizes a source exactly when it holds the publisher of the parsed source.\<close>

lemma verify_around_mono:
  "verify_around E ps so m s = Inr u \<Longrightarrow>
     verify_around E qs so m s = (if sc_publisher s \<in> set qs then Ok () else Err ''closure publisher is not authorized'')"
  by (auto simp: verify_around_def split: if_splits sum.splits)

lemma verify_v1_parsed:
  "Source_parse E src = Inr d \<Longrightarrow>
     verify_v1 E qs d = (if sc_publisher d \<in> set qs then Ok () else Err ''closure publisher is not authorized'')"
  using Source_parse_Ok(4) [of E src d] unfolding verify_v1_def by (rule verify_around_mono)

lemma verify_sources_iff:
  "verify_sources E ps srcs = Ok () \<longleftrightarrow>
     (\<forall>src \<in> set srcs. \<exists>d. Source_parse E src = Ok d \<and> sc_publisher d \<in> set ps)"
proof (induction srcs)
  case (Cons src srcs)
  then show ?case by (cases "Source_parse E src") (auto simp: verify_v1_parsed)
qed simp

section \<open>Properties\<close>

text \<open>
  C36: The reachability search of \<open>validate\<close> is exact. A version 1 closure is valid exactly
  when it has no sources, its file-system hash is well formed, it has between 1 and 256
  members, the entry point is one of them, every member has a canonical path, a well-formed
  hash and only dependencies that are members, and every member is reachable from the entry
  point along dependencies, cycles allowed.
\<close>

theorem closure_valid_iff_reachable:
  assumes "bt_invar (cl_members c)" "cl_api_version c = CLOSURE_V1"
  shows "Closure_validate E c = Ok () \<longleftrightarrow>
     cl_sources c = [] \<and> closure_hash (cl_toolfs c) \<and> length (cl_members c) \<in> {1..256}
     \<and> cl_entrypoint c \<in> dom (bt_get (cl_members c))
     \<and> (\<forall>p m. bt_get (cl_members c) p = Some m \<longrightarrow>
          canonical_path p \<and> closure_hash (mb_hash m) \<and> set (mb_dependencies m) \<subseteq> dom (bt_get (cl_members c)))
     \<and> dom (bt_get (cl_members c)) \<subseteq> {p. (cl_entrypoint c, p) \<in> (edges (cl_members c))\<^sup>*}"
proof -
  have "Closure_validate E c = Ok () \<longleftrightarrow> validate_graph c = Ok ()"
    using assms(2) by (auto simp: Closure_validate_def split: sum.split)
  moreover have "cl_entrypoint c \<in> dom (bt_get (cl_members c)) \<Longrightarrow> 1 \<le> length (cl_members c)"
    by (cases "cl_members c") auto
  ultimately show ?thesis
    using validate_graph_iff [OF assms(1), of "()"] assms(2) by (auto simp: graph_ok_def reach_def)
qed

definition sample_member :: "string list \<Rightarrow> Member" where
  "sample_member deps = \<lparr>mb_hash = ''blake3:'' @ replicate 64 CHR ''a'', mb_dependencies = deps\<rparr>"

definition sample_closure :: Closure where
  "sample_closure =
     \<lparr>cl_api_version = CLOSURE_V1, cl_toolfs = ''blake3:'' @ replicate 64 CHR ''0'', cl_entrypoint = ''/b'',
      cl_interpreter = False, cl_members = [(''/b'', sample_member [''/l'']), (''/l'', sample_member [''/b''])],
      cl_sources = []\<rparr>"

theorem closure_valid_iff_reachable_witness:
  "\<forall>E. Closure_validate E sample_closure = Ok ()"
proof -
  let ?M = "cl_members sample_closure"
  have inv: "bt_invar ?M" by (simp add: sample_closure_def bt_invar_def)
  have api: "cl_api_version sample_closure = CLOSURE_V1" by (simp add: sample_closure_def)
  have "(''/b'', ''/l'') \<in> edges ?M" by (simp add: edges_def sample_closure_def sample_member_def bt_get_Cons)
  then have reach: "dom (bt_get ?M) \<subseteq> {p. (cl_entrypoint sample_closure, p) \<in> (edges ?M)\<^sup>*}"
    by (auto simp: sample_closure_def bt_get_Cons split: if_splits)
  have paths: "canonical_path ''/b''" "canonical_path ''/l''" by code_simp+
  have hashes: "closure_hash (cl_toolfs sample_closure)" "closure_hash (mb_hash (sample_member d))" for d
    by (simp_all add: sample_closure_def sample_member_def closure_hash_def is_ascii_digit_def list_all_iff)
  show ?thesis
    unfolding closure_valid_iff_reachable [OF inv api]
    using reach paths hashes
    by (auto simp: sample_closure_def bt_get_Cons sample_member_def split: if_splits)
qed

text \<open>
  C22: Composition never produces a closure the validator refuses: whenever composing signed
  sources succeeds, the composed closure passes \<open>validate\<close>, so merging the graphs of the
  sources and adding their entry points to the first one resolves every dependency, keeps
  every member reachable, stays within 256 members, and repeating the composition from the
  retained sources gives the same closure.
\<close>

theorem composition_validates:
  assumes "maps_decoded E" "compose E sources toolfs = Ok c"
  shows "Closure_validate E c = Ok ()"
proof -
  have fixed: "cl_api_version c = CLOSURE_V2" "cl_sources c = sources" "Hash (cl_toolfs c) = toolfs"
    using assms(2) by (auto elim: compose_Ok)
  then have "validate_graph c = Ok ()"
    using compose_graph [OF assms] validate_graph_iff [of c "()"] by simp
  then show ?thesis using assms(2) fixed by (simp add: Closure_validate_def)
qed

definition sample_signed :: SignedClosure where
  "sample_signed =
     \<lparr>sc_closure = sample_closure, sc_publisher = hex (replicate 32 0), sc_signature = hex (replicate 64 0)\<rparr>"

definition sample_crypto :: Crypto where
  "sample_crypto =
     \<lparr>cr_hash = frame_hash, cr_sources_vec = (\<lambda>_. Some []), cr_closure_vec = (\<lambda>_. Ok []), cr_signed_vec = (\<lambda>_. Ok []),
      cr_from_str = (\<lambda>s. if s = ''d'' then Some sample_signed else None), cr_public = (\<lambda>_. replicate 32 0),
      cr_sign = (\<lambda>_ _. replicate 64 0), cr_key_ok = (\<lambda>_. True), cr_verify = (\<lambda>k m g. g = replicate 64 0)\<rparr>"

lemma sample_crypto_laws: "maps_decoded sample_crypto" "ed25519_laws sample_crypto []"
  by (auto simp: maps_decoded_def ed25519_laws_def sample_crypto_def sample_signed_def sample_closure_def bt_invar_def
      split: if_splits)

lemma sample_closure_graph: "validate_graph sample_closure = Ok ()"
  by code_simp

lemma sample_verify: "verify_v1 sample_crypto [hex (replicate 32 0)] sample_signed = Ok ()"
  by (simp add: verify_v1_def verify_around_def message_after_def sample_signed_def sample_closure_graph
      decode_hex_roundtrip sample_crypto_def)

lemma sample_parse: "Source_parse sample_crypto \<lparr>so_hash = ''d'', so_descriptor = ''d''\<rparr> = Ok sample_signed"
  using sample_verify frame_hash_as_bytes [of "''d''"]
  by (simp add: Source_parse_def) (simp add: sample_crypto_def sample_signed_def sample_closure_def)

definition sample_composed :: Closure where
  "sample_composed = sample_closure\<lparr>cl_api_version := CLOSURE_V2, cl_sources := [\<lparr>so_hash = ''d'', so_descriptor = ''d''\<rparr>]\<rparr>"

lemma sample_compose:
  "compose sample_crypto [\<lparr>so_hash = ''d'', so_descriptor = ''d''\<rparr>] (Hash (cl_toolfs sample_closure)) = Ok sample_composed"
proof -
  have "merge_sources [''/b''] [sample_signed] [] = Ok (cl_members sample_closure)"
    by (simp add: sample_signed_def sample_closure_def Let_def bt_get_Cons)
  moreover have "\<not> list_ex (parent_collides (cl_members sample_closure)) (bt_keys (cl_members sample_closure))"
    by code_simp
  moreover have "closure_hash (cl_toolfs sample_closure)" by code_simp
  moreover have "cl_entrypoint (sc_closure sample_signed) = ''/b''" "\<not> cl_interpreter (sc_closure sample_signed)"
    by (simp_all add: sample_signed_def sample_closure_def)
  moreover have "cr_sources_vec sample_crypto x = Some []" "cr_closure_vec sample_crypto y = Ok []" for x y
    by (simp_all add: sample_crypto_def)
  moreover have "bt_adjust ''/b'' (\<lambda>m. m) (cl_members sample_closure) = cl_members sample_closure"
    by (simp add: sample_closure_def bt_adjust_Cons) (simp add: bt_adjust_def bt_map_def)
  ultimately have "compose sample_crypto [\<lparr>so_hash = ''d'', so_descriptor = ''d''\<rparr>] (Hash (cl_toolfs sample_closure)) =
      Ok \<lparr>cl_api_version = CLOSURE_V2, cl_toolfs = cl_toolfs sample_closure, cl_entrypoint = ''/b'',
        cl_interpreter = False, cl_members = cl_members sample_closure,
        cl_sources = [\<lparr>so_hash = ''d'', so_descriptor = ''d''\<rparr>]\<rparr>"
    by (simp add: compose_def sample_parse MAX_SOURCES_def Let_def insort_insert_key_def)
  then show ?thesis by (simp add: sample_composed_def sample_closure_def)
qed

theorem composition_validates_witness:
  "Closure_validate sample_crypto sample_composed = Ok ()"
  using composition_validates [OF sample_crypto_laws(1) sample_compose] .

text \<open>
  C35: Sign then verify. With an Ed25519 that verifies what it signed, a closure that signs
  under a seed verifies against exactly the publisher sets that hold the seed's public key
  and the publisher of every composition source.
\<close>

theorem sign_then_verify:
  assumes "ed25519_laws E seed" "Closure_sign E c seed = Ok s"
  shows "SignedClosure_verify E publishers s = Ok () \<longleftrightarrow>
     hex (cr_public E seed) \<in> set publishers
     \<and> (\<forall>src \<in> set (cl_sources c). \<exists>d. Source_parse E src = Ok d \<and> sc_publisher d \<in> set publishers)"
proof -
  obtain msg where msg: "Closure_message E c = Ok msg"
    and s: "s = \<lparr>sc_closure = c, sc_publisher = hex (cr_public E seed), sc_signature = hex (cr_sign E seed msg)\<rparr>"
    using assms(2) by (auto simp: Closure_sign_def split: sum.splits)
  show ?thesis
    unfolding verify_sources_iff [symmetric]
    using assms(1) msg
    by (auto simp: SignedClosure_verify_def verify_around_def s ed25519_laws_def decode_hex_roundtrip
        split: sum.split)
qed

theorem sign_then_verify_witness:
  "\<exists>s. Closure_sign sample_crypto sample_composed [] = Ok s
     \<and> SignedClosure_verify sample_crypto [hex (replicate 32 0)] s = Ok ()"
proof -
  have "Closure_validate sample_crypto sample_composed = Ok ()"
    using sample_compose sample_closure_graph compose_graph [OF sample_crypto_laws(1) sample_compose]
      validate_graph_iff [of sample_composed "()"]
    by (simp add: Closure_validate_def) (simp add: sample_composed_def sample_closure_def)
  then obtain s where s: "Closure_sign sample_crypto sample_composed [] = Ok s"
    by (simp add: Closure_sign_def Closure_message_def message_after_def) (simp add: sample_crypto_def)
  have "\<forall>src \<in> set (cl_sources sample_composed).
      \<exists>d. Source_parse sample_crypto src = Ok d \<and> sc_publisher d \<in> set [hex (replicate 32 0)]"
    using sample_parse by (simp add: sample_composed_def sample_signed_def)
  then show ?thesis
    using s sign_then_verify [OF sample_crypto_laws(2) s, of "[hex (replicate 32 0)]"]
    by (auto simp: sample_crypto_def)
qed

text \<open>
  C34: What a verified closure guarantees. If a signed closure verifies against a publisher
  set then its publisher is in the set, the closure is valid, every composition source is a
  valid version 1 closure that parses to its recorded hash and whose own publisher is in the
  set, and the publisher's key verified the signature over the version's domain prefix
  followed by the exact encoding of the closure.
\<close>

theorem verified_closure_authentic:
  assumes "maps_decoded E" "SignedClosure_verify E publishers s = Ok ()"
  shows "sc_publisher s \<in> set publishers \<and> Closure_validate E (sc_closure s) = Ok ()
    \<and> (\<forall>src \<in> set (cl_sources (sc_closure s)). \<exists>d. Source_parse E src = Ok d \<and> sc_publisher d \<in> set publishers
         \<and> so_hash src = hash_str (cr_hash E (as_bytes (so_descriptor src)))
         \<and> cl_api_version (sc_closure d) = CLOSURE_V1 \<and> cl_sources (sc_closure d) = []
         \<and> graph_ok (sc_closure d))
    \<and> (\<exists>key sig b. decode_hex 32 (sc_publisher s) = Ok key \<and> decode_hex 64 (sc_signature s) = Ok sig
         \<and> cr_key_ok E key \<and> cr_closure_vec E (sc_closure s) = Ok b
         \<and> cr_verify E key
             ((if cl_api_version (sc_closure s) = CLOSURE_V2 then COMPOSITION_DOMAIN else DOMAIN) @ b) sig)"
proof -
  have sources: "verify_sources E publishers (cl_sources (sc_closure s)) = Ok ()"
    and rest: "sc_publisher s \<in> set publishers" "Closure_validate E (sc_closure s) = Ok ()"
    and sig: "\<exists>key sig b. decode_hex 32 (sc_publisher s) = Ok key \<and> decode_hex 64 (sc_signature s) = Ok sig
         \<and> cr_key_ok E key \<and> cr_closure_vec E (sc_closure s) = Ok b
         \<and> cr_verify E key
             ((if cl_api_version (sc_closure s) = CLOSURE_V2 then COMPOSITION_DOMAIN else DOMAIN) @ b) sig"
    using assms(2)
    by (auto simp: SignedClosure_verify_def verify_around_def Closure_message_def message_after_def
        split: if_splits sum.splits)
  have "\<exists>d. Source_parse E src = Ok d \<and> sc_publisher d \<in> set publishers
         \<and> so_hash src = hash_str (cr_hash E (as_bytes (so_descriptor src)))
         \<and> cl_api_version (sc_closure d) = CLOSURE_V1 \<and> cl_sources (sc_closure d) = [] \<and> graph_ok (sc_closure d)"
    if "src \<in> set (cl_sources (sc_closure s))" for src
    using sources that Source_parse_Ok Source_parse_graph [OF assms(1)] unfolding verify_sources_iff by metis
  then show ?thesis using rest sig by blast
qed

theorem verified_closure_authentic_witness:
  "validate_graph sample_closure = Ok () \<and> sc_publisher sample_signed \<in> set [hex (replicate 32 0)]"
proof -
  have "SignedClosure_verify sample_crypto [hex (replicate 32 0)] sample_signed = Ok ()"
    using sample_verify Source_parse_verifies [of sample_signed]
    by (simp add: sample_signed_def sample_closure_def)
  from verified_closure_authentic [OF sample_crypto_laws(1) this] show ?thesis
    using sample_closure_graph by simp
qed

end
