(* ===== verification/Schema.thy ===== *)
theory Schema
  imports Btree
begin

text \<open>
  \<open>celln-manifest/src/tool_schema.rs\<close>: the closed JSON-schema subset that bounds tool
  arguments and results. \<open>Node\<close> is a schema, \<open>Value\<close> a decoded JSON document, \<open>Raw\<close> the
  document as the JSON deserializer presents it to the \<open>Bounded\<close> visitor, repeated keys
  included.

  Parameters: \<open>js_document\<close> is \<open>serde_json\<close>'s tokenizer (the value a byte slice starts
  with, and whether only white space follows it), \<open>js_node\<close> the derived decoder of a
  schema node, \<open>hash_of\<close> is \<open>Hash::of\<close>.
\<close>

section \<open>Documents and schemas\<close>

text \<open>A floating-point number is its IEEE 754 bit pattern.\<close>

datatype Raw =
    RNull | RBool bool | RI64 "64 word" | RU64 u64 | RF64 u64 | RStr string
  | RSeq "Raw list" | RMap "(string \<times> Raw) list"

datatype Number = PosInt u64 | NegInt "64 word" | Float u64

datatype Value =
    VNull | VBool bool | VNumber Number | VString string
  | VArray "Value list" | VObject "(string \<times> Value) list"

datatype Node =
    Object (properties: "(string \<times> Node) list") (required: "string list") (additional_properties: bool)
  | Array Node nat nat
  | String nat nat
  | Integer "64 word" "64 word"
  | Boolean

definition MAX_SCHEMA_BYTES :: nat where "MAX_SCHEMA_BYTES = 32768"
definition MAX_VALUE_BYTES :: nat where "MAX_VALUE_BYTES = 65536"
definition MAX_STRING_CHARS :: nat where "MAX_STRING_CHARS = 4096"

lemmas schema_limits = MAX_SCHEMA_BYTES_def MAX_VALUE_BYTES_def MAX_STRING_CHARS_def

text \<open>\<open>From<i64> for Value\<close>: only negative numbers are \<open>NegInt\<close>.\<close>

definition number_of_i64 :: "64 word \<Rightarrow> Number" where
  "number_of_i64 v = (if sint v < 0 then NegInt v else PosInt v)"

definition f64_finite :: "u64 \<Rightarrow> bool" where
  "f64_finite b = ((unat b div 2 ^ 52) mod 2048 \<noteq> 2047)"

definition Number_from_f64 :: "u64 \<Rightarrow> Number option" where
  "Number_from_f64 b = (if f64_finite b then Some (Float b) else None)"

definition Number_as_i64 :: "Number \<Rightarrow> 64 word option" where
  "Number_as_i64 n =
     (case n of PosInt u \<Rightarrow> if unat u \<le> 2 ^ 63 - 1 then Some u else None
              | NegInt i \<Rightarrow> Some i
              | Float _ \<Rightarrow> None)"

text \<open>\<open>s.chars().count()\<close> on UTF-8.\<close>

definition chars_count :: "string \<Rightarrow> nat" where
  "chars_count s = length (filter (\<lambda>c. \<not> utf8_cont (of_char c)) s)"

section \<open>Checking a schema\<close>

definition property_name_ok :: "string \<Rightarrow> bool" where
  "property_name_ok k =
     (k \<noteq> [] \<and> length k \<le> 64
      \<and> list_all (\<lambda>c. is_ascii_alphanumeric c \<or> c \<in> set ''_-'') k)"

definition object_schema_ok :: "(string \<times> Node) list \<Rightarrow> string list \<Rightarrow> bool \<Rightarrow> bool" where
  "object_schema_ok props req additional =
     (\<not> additional \<and> length props \<le> 32 \<and> length req \<le> length props
      \<and> length (remdups req) = length req
      \<and> list_all (bt_contains_key props) req
      \<and> list_all property_name_ok (bt_keys props))"

text \<open>\<open>Node::check\<close> threads the node counter through the whole schema.\<close>

fun Node_check :: "Node \<Rightarrow> nat \<Rightarrow> nat \<Rightarrow> nat \<times> (string + unit)"
and Node_check_values :: "(string \<times> Node) list \<Rightarrow> nat \<Rightarrow> nat \<Rightarrow> nat \<times> (string + unit)" where
  "Node_check node depth nodes =
     (let nodes = nodes + 1 in
      if depth > 4 \<or> nodes > 128 then (nodes, Err ''schema nesting or node limit exceeded'')
      else (case node of
        Object props req additional \<Rightarrow>
          (if \<not> object_schema_ok props req additional
           then (nodes, Err ''object schema must be closed with unique declared properties'')
           else Node_check_values props (depth + 1) nodes)
      | Array items min_items max_items \<Rightarrow>
          (if min_items > max_items \<or> max_items > 64 then (nodes, Err ''invalid array bounds'')
           else Node_check items (depth + 1) nodes)
      | String min_length max_length \<Rightarrow>
          (if min_length > max_length \<or> max_length > MAX_STRING_CHARS
           then (nodes, Err ''invalid string bounds'') else (nodes, Ok ()))
      | Integer minimum maximum \<Rightarrow>
          (if sint minimum > sint maximum then (nodes, Err ''invalid integer bounds'') else (nodes, Ok ()))
      | Boolean \<Rightarrow> (nodes, Ok ())))"
| "Node_check_values [] depth nodes = (nodes, Ok ())"
| "Node_check_values ((k, node) # rest) depth nodes =
     (case Node_check node depth nodes of
        (nodes', Inl e) \<Rightarrow> (nodes', Inl e)
      | (nodes', Inr _) \<Rightarrow> Node_check_values rest depth nodes')"

declare Node_check.simps [simp del]

section \<open>Matching a value\<close>

fun Node_matches :: "Node \<Rightarrow> Value \<Rightarrow> string + unit"
and matches_fields :: "(string \<times> Node) list \<Rightarrow> (string \<times> Value) list \<Rightarrow> string + unit"
and matches_items :: "Node \<Rightarrow> Value list \<Rightarrow> string + unit" where
  "Node_matches (Object props req additional) (VObject values) =
     (if \<not> list_all (bt_contains_key values) req then Err ''required tool field missing''
      else matches_fields props values)"
| "Node_matches (Array items min_items max_items) (VArray values) =
     (if length values < min_items \<or> length values > max_items then Err ''tool array outside bounds''
      else matches_items items values)"
| "Node_matches (String min_length max_length) (VString v) =
     (let n = chars_count v in
      if n < min_length \<or> n > max_length then Err ''tool string outside bounds'' else Ok ())"
| "Node_matches (Integer minimum maximum) (VNumber v) =
     (case Number_as_i64 v of
        None \<Rightarrow> Err ''unsupported non-i64 integer encoding''
      | Some i \<Rightarrow> if sint i < sint minimum \<or> sint i > sint maximum
                  then Err ''tool integer outside bounds'' else Ok ())"
| "Node_matches Boolean (VBool b) = Ok ()"
| "Node_matches _ _ = Err ''tool value type mismatch''"
| "matches_fields props [] = Ok ()"
| "matches_fields props ((key, v) # rest) =
     (case bt_get props key of
        None \<Rightarrow> Err ''undeclared tool field''
      | Some node \<Rightarrow>
          (case Node_matches node v of Inl e \<Rightarrow> Inl e | Inr _ \<Rightarrow> matches_fields props rest))"
| "matches_items items [] = Ok ()"
| "matches_items items (v # rest) =
     (case Node_matches items v of Inl e \<Rightarrow> Inl e | Inr _ \<Rightarrow> matches_items items rest)"

section \<open>Bounded decoding\<close>

fun Bounded_deserialize :: "Raw \<Rightarrow> nat \<Rightarrow> nat \<Rightarrow> nat \<times> (string + Value)"
and visit_seq :: "Raw list \<Rightarrow> Value list \<Rightarrow> nat \<Rightarrow> nat \<Rightarrow> nat \<times> (string + Value)"
and visit_map :: "(string \<times> Raw) list \<Rightarrow> (string, Value) btree \<Rightarrow> nat \<Rightarrow> nat \<Rightarrow> nat \<times> (string + Value)" where
  "Bounded_deserialize raw depth nodes =
     (let nodes = nodes + 1 in
      if depth > 16 \<or> nodes > 4096 then (nodes, Err ''JSON complexity exceeded'')
      else (case raw of
        RNull \<Rightarrow> (nodes, Ok VNull)
      | RBool b \<Rightarrow> (nodes, Ok (VBool b))
      | RI64 v \<Rightarrow> (nodes, Ok (VNumber (number_of_i64 v)))
      | RU64 v \<Rightarrow> (nodes, Ok (VNumber (PosInt v)))
      | RF64 v \<Rightarrow>
          (nodes, case Number_from_f64 v of None \<Rightarrow> Err ''non-finite number'' | Some x \<Rightarrow> Ok (VNumber x))
      | RStr s \<Rightarrow> (nodes, Ok (VString s))
      | RSeq rs \<Rightarrow> visit_seq rs [] depth nodes
      | RMap rs \<Rightarrow> visit_map rs [] depth nodes))"
| "visit_seq [] values depth nodes = (nodes, Ok (VArray values))"
| "visit_seq (r # rs) values depth nodes =
     (case Bounded_deserialize r (depth + 1) nodes of
        (nodes', Inl e) \<Rightarrow> (nodes', Inl e)
      | (nodes', Inr v) \<Rightarrow> visit_seq rs (values @ [v]) depth nodes')"
| "visit_map [] values depth nodes = (nodes, Ok (VObject values))"
| "visit_map ((key, r) # rs) values depth nodes =
     (if bt_contains_key values key then (nodes, Err ''duplicate JSON key'')
      else (case Bounded_deserialize r (depth + 1) nodes of
              (nodes', Inl e) \<Rightarrow> (nodes', Inl e)
            | (nodes', Inr v) \<Rightarrow> visit_map rs (bt_insert key v values) depth nodes'))"

declare Bounded_deserialize.simps [simp del]

record JsonSerde =
  js_document :: "bytes \<Rightarrow> (Raw \<times> bool) option"
  js_node :: "Value \<Rightarrow> Node option"

definition parse_json :: "JsonSerde \<Rightarrow> bytes \<Rightarrow> string + Value" where
  "parse_json J b =
     (case js_document J b of
        None \<Rightarrow> Err ''malformed, duplicate-key or over-complex JSON''
      | Some (raw, at_end) \<Rightarrow>
          (case snd (Bounded_deserialize raw 0 0) of
             Inl _ \<Rightarrow> Err ''malformed, duplicate-key or over-complex JSON''
           | Inr v \<Rightarrow> if at_end then Ok v else Err ''trailing JSON data''))"

section \<open>The tool schema\<close>

record ToolSchema =
  ts_identity :: hash
  ts_node :: Node

definition ToolSchema_parse :: "JsonSerde \<Rightarrow> (bytes \<Rightarrow> hash) \<Rightarrow> bytes \<Rightarrow> hash \<Rightarrow> string + ToolSchema" where
  "ToolSchema_parse J hash_of b expected =
     (if length b > MAX_SCHEMA_BYTES then Err ''schema exceeds 32 KiB''
      else if hash_of b \<noteq> expected then Err ''schema artifact identity mismatch''
      else (case parse_json J b of
              Inl e \<Rightarrow> Inl e
            | Inr v \<Rightarrow>
                (case js_node J v of
                   None \<Rightarrow> Err ''unsupported or malformed tool schema''
                 | Some node \<Rightarrow>
                     (case snd (Node_check node 0 0) of
                        Inl e \<Rightarrow> Inl e
                      | Inr _ \<Rightarrow> Ok \<lparr>ts_identity = hash_of b, ts_node = node\<rparr>))))"

definition ToolSchema_identity :: "ToolSchema \<Rightarrow> hash" where
  "ToolSchema_identity s = ts_identity s"

definition ToolSchema_validate :: "JsonSerde \<Rightarrow> ToolSchema \<Rightarrow> bytes \<Rightarrow> nat \<Rightarrow> string + unit" where
  "ToolSchema_validate J s b max_bytes =
     (if max_bytes = 0 \<or> max_bytes > MAX_VALUE_BYTES \<or> length b > max_bytes
      then Err ''tool value exceeds permitted byte ceiling''
      else (case parse_json J b of Inl e \<Rightarrow> Inl e | Inr v \<Rightarrow> Node_matches (ts_node s) v))"

section \<open>What the counters decide\<close>

text \<open>The size and the nesting of a schema, and its shape without the counters.\<close>

fun node_count :: "Node \<Rightarrow> nat" where
  "node_count (Object props _ _) = 1 + sum_list (map (\<lambda>(k, n). node_count n) props)"
| "node_count (Array items _ _) = 1 + node_count items"
| "node_count _ = 1"

fun node_fits :: "nat \<Rightarrow> Node \<Rightarrow> bool" where
  "node_fits d (Object props _ _) = (d \<le> 4 \<and> (\<forall>(k, n) \<in> set props. node_fits (d + 1) n))"
| "node_fits d (Array items _ _) = (d \<le> 4 \<and> node_fits (d + 1) items)"
| "node_fits d _ = (d \<le> 4)"

fun node_closed :: "Node \<Rightarrow> bool" where
  "node_closed (Object props req additional) =
     (object_schema_ok props req additional \<and> (\<forall>(k, n) \<in> set props. node_closed n))"
| "node_closed (Array items lo hi) = (lo \<le> hi \<and> hi \<le> 64 \<and> node_closed items)"
| "node_closed (String lo hi) = (lo \<le> hi \<and> hi \<le> MAX_STRING_CHARS)"
| "node_closed (Integer lo hi) = (sint lo \<le> sint hi)"
| "node_closed Boolean = True"

lemma node_count_pos: "0 < node_count n"
  by (cases n) auto

lemma Node_check_spec:
  "Node_check n d c = (m, Inr u) \<longleftrightarrow>
     node_closed n \<and> node_fits d n \<and> c + node_count n \<le> 128 \<and> m = c + node_count n"
  "c \<le> 128 \<Longrightarrow> Node_check_values ps d c = (m, Inr u) \<longleftrightarrow>
     (\<forall>(k, n) \<in> set ps. node_closed n \<and> node_fits d n)
     \<and> m = c + sum_list (map (\<lambda>(k, n). node_count n) ps) \<and> m \<le> 128"
proof (induction n d c and ps d c arbitrary: m and m rule: Node_check_Node_check_values.induct)
  case (1 node depth nodes)
  note IH = "1.IH"
  show ?case
  proof (cases "depth > 4 \<or> nodes + 1 > 128")
    case True
    then show ?thesis
      using node_count_pos [of node] by (subst Node_check.simps) (cases node; auto)
  next
    case False
    show ?thesis
    proof (cases node)
      case (Object ps req add)
      show ?thesis
      proof (cases "object_schema_ok ps req add")
        case True
        then show ?thesis
          using False Object IH(1) [OF refl False Object, of m]
          by (subst Node_check.simps) auto
      qed (use False Object in \<open>subst Node_check.simps, auto\<close>)
    next
      case (Array items lo hi)
      show ?thesis
      proof (cases "lo > hi \<or> hi > 64")
        case False': False
        then show ?thesis
          using False Array IH(2) [OF refl False Array False', of m]
          by (subst Node_check.simps) auto
      qed (use False Array in \<open>subst Node_check.simps, auto\<close>)
    qed (use False in \<open>auto simp: Node_check.simps\<close>)
  qed
next
  case (3 k node rest depth nodes)
  obtain n1 r1 where step: "Node_check node depth nodes = (n1, r1)" by fastforce
  show ?case
  proof (cases r1)
    case (Inl e)
    then have "\<not> (node_closed node \<and> node_fits depth node \<and> nodes + node_count node \<le> 128)"
      using "3.IH"(1) [of n1] "3.IH"(1) [of "nodes + node_count node"] step by auto
    then show ?thesis using Inl step by auto
  next
    case (Inr u)
    then show ?thesis using "3.IH"(1) [of n1] "3.IH"(2) [OF step [symmetric] Inr, of m] step by auto
  qed
qed auto

section \<open>A reference predicate for values\<close>

fun conforms :: "Node \<Rightarrow> Value \<Rightarrow> bool" where
  "conforms (Object props req _) (VObject values) =
     (set req \<subseteq> fst ` set values
      \<and> (\<forall>(k, v) \<in> set values. \<exists>n. (k, n) \<in> set props \<and> conforms n v))"
| "conforms (Array items lo hi) (VArray values) =
     (length values \<in> {lo..hi} \<and> (\<forall>v \<in> set values. conforms items v))"
| "conforms (String lo hi) (VString s) = (chars_count s \<in> {lo..hi})"
| "conforms (Integer lo hi) (VNumber v) = (\<exists>i. Number_as_i64 v = Some i \<and> sint i \<in> {sint lo..sint hi})"
| "conforms Boolean (VBool b) = True"
| "conforms _ _ = False"

fun schema_maps :: "Node \<Rightarrow> bool" where
  "schema_maps (Object props _ _) = (bt_invar props \<and> (\<forall>(k, n) \<in> set props. schema_maps n))"
| "schema_maps (Array items _ _) = schema_maps items"
| "schema_maps _ = True"

lemma bt_contains_key_set: "bt_contains_key m k \<longleftrightarrow> k \<in> fst ` set m"
  by (force simp: bt_contains_key_def bt_get_def map_of_eq_None_iff)

lemma bt_get_iff_in: "bt_invar m \<Longrightarrow> bt_get m k = Some v \<longleftrightarrow> (k, v) \<in> set m"
  by (simp add: bt_get_def bt_invar_def strict_sorted_iff)

lemma matches_spec:
  "schema_maps n \<Longrightarrow> Node_matches n v = Inr u \<longleftrightarrow> conforms n v"
  "\<forall>k n. bt_get ps k = Some n \<longrightarrow> schema_maps n \<Longrightarrow>
     matches_fields ps vs = Inr u \<longleftrightarrow> (\<forall>(k, v) \<in> set vs. \<exists>n. bt_get ps k = Some n \<and> conforms n v)"
  "schema_maps n \<Longrightarrow> matches_items n xs = Inr u \<longleftrightarrow> (\<forall>v \<in> set xs. conforms n v)"
proof (induction n v and ps vs and n xs rule: Node_matches_matches_fields_matches_items.induct)
  case (1 props req additional vals)
  then show ?case by (auto simp: list_all_iff bt_contains_key_set bt_get_iff_in)
qed (auto simp: Let_def split: option.split sum.split)

section \<open>Documents within the bounds\<close>

fun raw_count :: "Raw \<Rightarrow> nat" where
  "raw_count (RSeq rs) = 1 + sum_list (map raw_count rs)"
| "raw_count (RMap rs) = 1 + sum_list (map (\<lambda>(k, r). raw_count r) rs)"
| "raw_count _ = 1"

fun raw_fits :: "nat \<Rightarrow> Raw \<Rightarrow> bool" where
  "raw_fits d (RSeq rs) = (d \<le> 16 \<and> (\<forall>r \<in> set rs. raw_fits (d + 1) r))"
| "raw_fits d (RMap rs) = (d \<le> 16 \<and> (\<forall>(k, r) \<in> set rs. raw_fits (d + 1) r))"
| "raw_fits d _ = (d \<le> 16)"

fun raw_clean :: "Raw \<Rightarrow> bool" where
  "raw_clean (RF64 b) = f64_finite b"
| "raw_clean (RSeq rs) = (\<forall>r \<in> set rs. raw_clean r)"
| "raw_clean (RMap rs) = (distinct (map fst rs) \<and> (\<forall>(k, r) \<in> set rs. raw_clean r))"
| "raw_clean _ = True"

fun raw_value :: "Raw \<Rightarrow> Value" where
  "raw_value RNull = VNull"
| "raw_value (RBool b) = VBool b"
| "raw_value (RI64 v) = VNumber (number_of_i64 v)"
| "raw_value (RU64 v) = VNumber (PosInt v)"
| "raw_value (RF64 v) = VNumber (Float v)"
| "raw_value (RStr s) = VString s"
| "raw_value (RSeq rs) = VArray (map raw_value rs)"
| "raw_value (RMap rs) = VObject (foldl (\<lambda>m (k, v). bt_insert k v m) [] (map (\<lambda>(k, r). (k, raw_value r)) rs))"

lemma raw_count_pos: "0 < raw_count r"
  by (cases r) auto

lemma Bounded_spec:
  "Bounded_deserialize r d c = (m, Inr v) \<longleftrightarrow>
     raw_clean r \<and> raw_fits d r \<and> c + raw_count r \<le> 4096 \<and> m = c + raw_count r \<and> v = raw_value r"
  "c \<le> 4096 \<Longrightarrow> visit_seq rs vs d c = (m, Inr v) \<longleftrightarrow>
     (\<forall>r \<in> set rs. raw_clean r \<and> raw_fits (d + 1) r)
     \<and> m = c + sum_list (map raw_count rs) \<and> m \<le> 4096 \<and> v = VArray (vs @ map raw_value rs)"
  "c \<le> 4096 \<Longrightarrow> bt_invar kvs \<Longrightarrow> visit_map ks kvs d c = (m, Inr v) \<longleftrightarrow>
     distinct (map fst ks) \<and> fst ` set ks \<inter> fst ` set kvs = {}
     \<and> (\<forall>(k, r) \<in> set ks. raw_clean r \<and> raw_fits (d + 1) r)
     \<and> m = c + sum_list (map (\<lambda>(k, r). raw_count r) ks) \<and> m \<le> 4096
     \<and> v = VObject (foldl (\<lambda>m (k, v). bt_insert k v m) kvs (map (\<lambda>(k, r). (k, raw_value r)) ks))"
proof (induction r d c and rs vs d c and ks kvs d c arbitrary: m v and m v and m v
    rule: Bounded_deserialize_visit_seq_visit_map.induct)
  case (1 raw depth nodes)
  show ?case
  proof (cases "depth > 16 \<or> nodes + 1 > 4096")
    case True
    then show ?thesis
      using raw_count_pos [of raw] by (subst Bounded_deserialize.simps) (cases raw; auto)
  next
    case False
    show ?thesis
    proof (cases raw)
      case (RSeq rs)
      then show ?thesis using False "1.IH"(1) [OF refl False RSeq, of m v]
        by (subst Bounded_deserialize.simps) auto
    next
      case (RMap rs)
      then show ?thesis using False "1.IH"(2) [OF refl False RMap, of m v]
        by (subst Bounded_deserialize.simps) (auto simp: bt_invar_def)
    qed (use False in \<open>auto simp: Bounded_deserialize.simps Number_from_f64_def\<close>)
  qed
next
  case (3 r rs vs depth nodes)
  obtain n1 r1 where step: "Bounded_deserialize r (depth + 1) nodes = (n1, r1)" by fastforce
  show ?case
  proof (cases r1)
    case (Inl e)
    then show ?thesis
      using "3.IH"(1) [of "nodes + raw_count r" "raw_value r"] step by auto
  next
    case (Inr x)
    then show ?thesis
      using "3.IH"(1) [of n1 x] "3.IH"(2) [OF step [symmetric] Inr, of m v] step by auto
  qed
next
  case (5 key r rs kvs depth nodes)
  obtain n1 r1 where step: "Bounded_deserialize r (depth + 1) nodes = (n1, r1)" by fastforce
  show ?case
  proof (cases "bt_contains_key kvs key")
    case True
    then show ?thesis by (auto simp: bt_contains_key_set)
  next
    case False
    show ?thesis
    proof (cases r1)
      case (Inl e)
      then show ?thesis
        using "5.IH"(1) [OF False, of "nodes + raw_count r" "raw_value r"] step False by auto
    next
      case (Inr x)
      then show ?thesis
        using "5.IH"(1) [OF False, of n1 x] "5.IH"(2) [OF False step [symmetric] Inr, of m v] step False "5.prems"
          bt_insert_keys [of key x kvs]
        by (auto simp: bt_invar_insert bt_contains_key_set)
    qed
  qed
qed auto

text \<open>A document is accepted exactly when its value is the whole input and within the bounds.\<close>

definition document_ok :: "JsonSerde \<Rightarrow> bytes \<Rightarrow> Raw \<Rightarrow> bool" where
  "document_ok J b raw \<longleftrightarrow>
     js_document J b = Some (raw, True) \<and> raw_clean raw \<and> raw_fits 0 raw \<and> raw_count raw \<le> 4096"

lemma parse_json_spec: "parse_json J b = Inr v \<longleftrightarrow> (\<exists>raw. document_ok J b raw \<and> v = raw_value raw)"
proof (cases "js_document J b")
  case None
  then show ?thesis by (simp add: parse_json_def document_ok_def)
next
  case (Some p)
  obtain raw e where p: "p = (raw, e)" by fastforce
  obtain m r where step: "Bounded_deserialize raw 0 0 = (m, r)" by fastforce
  show ?thesis
    using Some p step Bounded_spec(1) [of raw 0 0 m v] Bounded_spec(1) [of raw 0 0 "raw_count raw" v]
    by (cases r) (auto simp: parse_json_def document_ok_def)
qed

lemma document_ex: "document_ok J b raw \<Longrightarrow> (\<exists>r. document_ok J b r \<and> Q r) \<longleftrightarrow> Q raw"
  by (auto simp: document_ok_def)

lemma parse_json_cases:
  obtains (refused) e where "parse_json J b = Inl e" "\<And>raw. \<not> document_ok J b raw"
  | (read) raw where "parse_json J b = Inr (raw_value raw)" "document_ok J b raw"
proof (cases "parse_json J b")
  case (Inl e)
  moreover have "\<not> document_ok J b raw" for raw
    using Inl parse_json_spec [of J b "raw_value raw"] by auto
  ultimately show ?thesis by (rule refused)
next
  case (Inr v)
  then obtain raw where "document_ok J b raw" "v = raw_value raw"
    using parse_json_spec by blast
  with Inr show ?thesis using read by blast
qed

lemma Node_check_ok: "snd (Node_check n d c) = Inr u \<longleftrightarrow> node_closed n \<and> node_fits d n \<and> c + node_count n \<le> 128"
  using Node_check_spec(1) [of n d c _ u] by (metis prod.collapse snd_conv)

section \<open>Properties\<close>

text \<open>
  A tool schema is admitted exactly when its bytes are at most 32 KiB, hash to the
  expected identity, are one complete JSON document without repeated keys at any level, at
  most 17 levels deep and 4096 values large, and decode to a schema that is closed at every
  object, has consistent bounds everywhere, nests at most five levels and has at most 128
  nodes in total; the admitted schema carries the hash of its exact bytes.
\<close>

theorem tool_schema_admitted_exactly:
  "ToolSchema_parse J hash_of b expected = Ok s \<longleftrightarrow>
     length b \<le> 32768 \<and> hash_of b = expected
     \<and> (\<exists>raw node. document_ok J b raw \<and> js_node J (raw_value raw) = Some node
          \<and> node_closed node \<and> node_fits 0 node \<and> node_count node \<le> 128
          \<and> s = \<lparr>ts_identity = expected, ts_node = node\<rparr>)"
proof (cases rule: parse_json_cases [of J b])
  case refused
  then show ?thesis by (simp add: ToolSchema_parse_def)
next
  case (read raw)
  show ?thesis
  proof (cases "js_node J (raw_value raw)")
    case None
    then show ?thesis
      using read(1) document_ex [OF read(2)] by (simp add: ToolSchema_parse_def)
  next
    case (Some node)
    show ?thesis
      unfolding ToolSchema_parse_def ex_simps document_ex [OF read(2)]
      using read(1) Some Node_check_ok [of node 0 0 "()"]
      by (cases "snd (Node_check node 0 0)") (auto simp: MAX_SCHEMA_BYTES_def)
  qed
qed

text \<open>
  C24: A tool value is accepted exactly when the caller's ceiling is between 1 and 64 KiB,
  the bytes fit it, and the bytes are one complete JSON document within the bounds whose
  value conforms to the schema: every required field present, every field declared and
  conforming, array and string lengths and signed 64-bit integers within their bounds.
\<close>

theorem tool_value_admitted_exactly:
  assumes "schema_maps (ts_node s)"
  shows "ToolSchema_validate J s b max_bytes = Ok () \<longleftrightarrow>
     0 < max_bytes \<and> max_bytes \<le> 65536 \<and> length b \<le> max_bytes
     \<and> (\<exists>raw. document_ok J b raw \<and> conforms (ts_node s) (raw_value raw))"
proof (cases rule: parse_json_cases [of J b])
  case refused
  then show ?thesis by (simp add: ToolSchema_validate_def)
next
  case (read raw)
  show ?thesis
    unfolding document_ex [OF read(2)]
    using read(1) matches_spec(1) [OF assms, of "raw_value raw" "()"]
    by (auto simp: ToolSchema_validate_def MAX_VALUE_BYTES_def)
qed

definition sample_json :: JsonSerde where
  "sample_json =
     \<lparr>js_document = (\<lambda>b. if b = [123, 125] then Some (RMap [(''n'', RI64 (- 2)), (''ok'', RBool True)], True) else None),
      js_node = (\<lambda>_. None)\<rparr>"

definition sample_schema :: ToolSchema where
  "sample_schema =
     \<lparr>ts_identity = Hash ''h'',
      ts_node = Object [(''n'', Integer (- 2) 42), (''ok'', Boolean)] [''n''] False\<rparr>"

theorem tool_value_admitted_exactly_witness:
  "ToolSchema_validate sample_json sample_schema [123, 125] 64 = Ok ()"
proof -
  have maps: "schema_maps (ts_node sample_schema)"
    by (simp add: sample_schema_def bt_invar_def)
  have "document_ok sample_json [123, 125] (RMap [(''n'', RI64 (- 2)), (''ok'', RBool True)])"
    by (simp add: document_ok_def sample_json_def)
  moreover have "conforms (ts_node sample_schema) (raw_value (RMap [(''n'', RI64 (- 2)), (''ok'', RBool True)]))"
    by (simp add: sample_schema_def number_of_i64_def Number_as_i64_def)
  ultimately show ?thesis
    using tool_value_admitted_exactly [OF maps, of sample_json "[123, 125]" 64] by auto
qed

end
