(* ===== verification/Params.thy ===== *)
theory Params
  imports Schema
begin

text \<open>
  \<open>celln-warden/src/model_parameters.rs\<close>: the operator's provider request parameters, their
  rule set and the merge into the outgoing request. Objects are maps in key order, as
  \<open>serde_json::Map\<close> is; \<open>json_size\<close> is the length of the serialized parameters.
\<close>

definition MAX_KEYS :: nat where "MAX_KEYS = 16"
definition MAX_DEPTH :: nat where "MAX_DEPTH = 3"
definition MAX_STRING_BYTES :: nat where "MAX_STRING_BYTES = 256"
definition MAX_ARRAY_ITEMS :: nat where "MAX_ARRAY_ITEMS = 8"
definition MAX_SERIALIZED_BYTES :: nat where "MAX_SERIALIZED_BYTES = 2048"

lemmas param_limits = MAX_KEYS_def MAX_DEPTH_def MAX_STRING_BYTES_def MAX_ARRAY_ITEMS_def MAX_SERIALIZED_BYTES_def

definition RESERVED :: "string list" where
  "RESERVED =
     [''model'', ''messages'', ''system'', ''stream'', ''stream_options'', ''max_tokens'',
      ''max_completion_tokens'', ''n'', ''tools'', ''tool_choice'', ''functions'', ''function_call'',
      ''parallel_tool_calls'', ''user'']"

datatype ParamError =
    NotFinite string | BadString string | TooDeep string | BadKey string | IsNull string
  | ManyItems string | BadItem string | ManyKeys | Reserved string | Unserializable | TooManyBytes nat
  | NotObject | Collides string

definition valid_key :: "string \<Rightarrow> bool" where
  "valid_key k =
     (1 \<le> length k \<and> length k \<le> 64 \<and> is_ascii_lower (k ! 0)
      \<and> list_all (\<lambda>c. is_ascii_lower c \<or> is_ascii_digit c \<or> c = CHR ''_'') k)"

text \<open>\<open>Number::as_f64\<close> is always a number here; it is finite unless a float is not.\<close>

definition number_finite :: "Number \<Rightarrow> bool" where
  "number_finite n = (case n of Float b \<Rightarrow> f64_finite b | _ \<Rightarrow> True)"

definition scalar :: "string \<Rightarrow> Value \<Rightarrow> ParamError + bool" where
  "scalar here v =
     (case v of
        VBool _ \<Rightarrow> Ok True
      | VNumber n \<Rightarrow> if number_finite n then Ok True else Err (NotFinite here)
      | VString s \<Rightarrow> if length s > MAX_STRING_BYTES \<or> CHR 0x00 \<in> set s then Err (BadString here) else Ok True
      | _ \<Rightarrow> Ok False)"

fun scalar_items :: "string \<Rightarrow> Value list \<Rightarrow> ParamError + unit" where
  "scalar_items here [] = Ok ()"
| "scalar_items here (v # vs) =
     (case scalar here v of
        Inl e \<Rightarrow> Inl e
      | Inr b \<Rightarrow> if b then scalar_items here vs else Err (BadItem here))"

definition path_here :: "string \<Rightarrow> string \<Rightarrow> string" where
  "path_here path key = (if path = [] then key else path @ ''.'' @ key)"

fun param_object :: "string \<Rightarrow> (string \<times> Value) list \<Rightarrow> nat \<Rightarrow> ParamError + unit"
and param_fields :: "string \<Rightarrow> (string \<times> Value) list \<Rightarrow> nat \<Rightarrow> ParamError + unit"
and param_value :: "string \<Rightarrow> Value \<Rightarrow> nat \<Rightarrow> ParamError + unit" where
  "param_object path m depth = (if depth > MAX_DEPTH then Err (TooDeep path) else param_fields path m depth)"
| "param_fields path [] depth = Ok ()"
| "param_fields path ((key, v) # rest) depth =
     (if \<not> valid_key key then Err (BadKey (if path = [] then ''the top level'' else path))
      else (case param_value (path_here path key) v depth of
              Inl e \<Rightarrow> Inl e
            | Inr _ \<Rightarrow> param_fields path rest depth))"
| "param_value here v depth =
     (case scalar here v of
        Inl e \<Rightarrow> Inl e
      | Inr True \<Rightarrow> Ok ()
      | Inr False \<Rightarrow>
          (case v of
             VNull \<Rightarrow> Err (IsNull here)
           | VObject inner \<Rightarrow> param_object here inner (depth + 1)
           | VArray items \<Rightarrow>
               if length items > MAX_ARRAY_ITEMS then Err (ManyItems here) else scalar_items here items
           | _ \<Rightarrow> Ok ()))"

definition params_validate :: "((string, Value) btree \<Rightarrow> nat option) \<Rightarrow> (string, Value) btree \<Rightarrow> ParamError + unit" where
  "params_validate json_size ps =
     (if length ps > MAX_KEYS then Err ManyKeys
      else (case find (\<lambda>k. k \<in> set RESERVED) (bt_keys ps) of
        Some k \<Rightarrow> Err (Reserved k)
      | None \<Rightarrow>
          (case param_object [] ps 1 of
             Inl e \<Rightarrow> Inl e
           | Inr _ \<Rightarrow>
               (case json_size ps of
                  None \<Rightarrow> Err Unserializable
                | Some n \<Rightarrow> if n > MAX_SERIALIZED_BYTES then Err (TooManyBytes n) else Ok ()))))"

text \<open>\<open>merge\<close> updates the body in place; the body afterwards comes with the result.\<close>

definition params_merge ::
  "((string, Value) btree \<Rightarrow> nat option) \<Rightarrow> Value \<Rightarrow> (string, Value) btree \<Rightarrow> Value \<times> (ParamError + unit)" where
  "params_merge json_size body ps =
     (if ps = [] then (body, Ok ())
      else (case params_validate json_size ps of
        Inl e \<Rightarrow> (body, Inl e)
      | Inr _ \<Rightarrow>
          (case body of
             VObject flds \<Rightarrow>
               (case find (bt_contains_key flds) (bt_keys ps) of
                  Some k \<Rightarrow> (body, Err (Collides k))
                | None \<Rightarrow> (VObject (foldl (\<lambda>m (k, v). bt_insert k v m) flds ps), Ok ()))
           | _ \<Rightarrow> (body, Err NotObject))))"

section \<open>The rule set as a predicate\<close>

definition scalar_ok :: "Value \<Rightarrow> bool" where
  "scalar_ok v =
     (case v of
        VBool _ \<Rightarrow> True
      | VNumber n \<Rightarrow> number_finite n
      | VString s \<Rightarrow> length s \<le> 256 \<and> CHR 0x00 \<notin> set s
      | _ \<Rightarrow> False)"

fun param_ok :: "nat \<Rightarrow> Value \<Rightarrow> bool" where
  "param_ok d (VObject m) = (d < 3 \<and> (\<forall>(k, v) \<in> set m. valid_key k \<and> param_ok (d + 1) v))"
| "param_ok d (VArray vs) = (length vs \<le> 8 \<and> (\<forall>v \<in> set vs. scalar_ok v))"
| "param_ok d v = scalar_ok v"

definition params_ok :: "((string, Value) btree \<Rightarrow> nat option) \<Rightarrow> (string, Value) btree \<Rightarrow> bool" where
  "params_ok json_size ps \<longleftrightarrow>
     length ps \<le> 16 \<and> set RESERVED \<inter> fst ` set ps = {}
     \<and> (\<forall>(k, v) \<in> set ps. valid_key k \<and> param_ok 1 v)
     \<and> (\<exists>n. json_size ps = Some n \<and> n \<le> 2048)"

lemma scalar_True: "scalar here v = Inr True \<longleftrightarrow> scalar_ok v"
  by (auto simp: scalar_def scalar_ok_def MAX_STRING_BYTES_def split: Value.split)

lemma scalar_items_spec: "scalar_items here vs = Inr u \<longleftrightarrow> (\<forall>v \<in> set vs. scalar_ok v)"
proof (induction vs)
  case (Cons v vs)
  then show ?case
    using scalar_True [of here v] by (cases "scalar here v") auto
qed simp

lemma param_spec:
  "param_object path m d = Inr u \<longleftrightarrow> d \<le> 3 \<and> (\<forall>(k, v) \<in> set m. valid_key k \<and> param_ok d v)"
  "param_fields path m d = Inr u \<longleftrightarrow> (\<forall>(k, v) \<in> set m. valid_key k \<and> param_ok d v)"
  "param_value here v d = Inr u \<longleftrightarrow> param_ok d v"
proof (induction path m d and path m d and here v d rule: param_object_param_fields_param_value.induct)
  case (3 path key v rest depth)
  then show ?case by (cases "param_value (path_here path key) v depth") auto
next
  case (4 here v depth)
  then show ?case
    by (cases v) (auto simp: scalar_def scalar_ok_def scalar_items_spec param_limits split: if_splits)
qed (auto simp: param_limits)

lemma find_None: "find P xs = None \<longleftrightarrow> (\<forall>x \<in> set xs. \<not> P x)"
  by (simp add: find_None_iff) blast

lemma params_validate_spec: "params_validate json_size ps = Inr u \<longleftrightarrow> params_ok json_size ps"
proof -
  have reserved: "find (\<lambda>k. k \<in> set RESERVED) (bt_keys ps) = None \<longleftrightarrow> set RESERVED \<inter> fst ` set ps = {}"
    unfolding find_None bt_keys_def by auto
  have shape: "param_object [] ps 1 = Inr u \<longleftrightarrow> (\<forall>(k, v) \<in> set ps. valid_key k \<and> param_ok 1 v)"
    by (simp add: param_spec(1) del: param_object.simps)
  show ?thesis
    unfolding params_ok_def reserved [symmetric] shape [symmetric]
    by (cases "find (\<lambda>k. k \<in> set RESERVED) (bt_keys ps)"; cases "param_object [] ps 1"; cases "json_size ps")
      (auto simp: params_validate_def MAX_KEYS_def MAX_SERIALIZED_BYTES_def simp del: param_object.simps)
qed

lemma bt_extend:
  "bt_invar m \<Longrightarrow> distinct (map fst ps) \<Longrightarrow>
     bt_invar (foldl (\<lambda>m (k, v). bt_insert k v m) m ps)
     \<and> bt_get (foldl (\<lambda>m (k, v). bt_insert k v m) m ps) = bt_get m ++ bt_get ps"
proof (induction ps arbitrary: m)
  case (Cons x ps)
  obtain k v where x: "x = (k, v)" by fastforce
  have "bt_get ps k = None" using Cons.prems(2) x by (simp add: bt_get_def map_of_eq_None_iff)
  then show ?case
    using Cons.IH [of "bt_insert k v m"] Cons.prems x
    by (auto simp: bt_simps fun_eq_iff map_add_def bt_get_Cons split: option.split)
qed (simp add: bt_get_def [abs_def] map_add_def)

lemma params_merge_Ok:
  assumes "bt_invar request" "bt_invar ps" "params_merge json_size (VObject request) ps = (body, Ok u)"
  shows "(ps = [] \<or> params_ok json_size ps)
    \<and> (\<exists>m. body = VObject m \<and> bt_invar m
         \<and> (\<forall>k. bt_get m k = (case bt_get request k of Some v \<Rightarrow> Some v | None \<Rightarrow> bt_get ps k))
         \<and> (\<forall>k \<in> set RESERVED. bt_get m k = bt_get request k))"
proof (cases "ps = []")
  case True
  then show ?thesis using assms by (auto simp: params_merge_def split: option.split)
next
  case False
  then have ok: "params_ok json_size ps" and None: "find (bt_contains_key request) (bt_keys ps) = None"
    and body: "body = VObject (foldl (\<lambda>m (k, v). bt_insert k v m) request ps)"
    using assms(3) params_validate_spec by (auto simp: params_merge_def split: sum.splits option.splits)
  have disjoint: "bt_get request k = None" if "bt_get ps k \<noteq> None" for k
    using that None by (fastforce simp: find_None bt_keys_def bt_contains_key_def dest: bt_get_in_set)
  have reserved: "bt_get ps k = None" if "k \<in> set RESERVED" for k
    using that ok unfolding params_ok_def bt_get_def map_of_eq_None_iff by blast
  have ext: "bt_invar (foldl (\<lambda>m (k, v). bt_insert k v m) request ps)"
    "bt_get (foldl (\<lambda>m (k, v). bt_insert k v m) request ps) = bt_get request ++ bt_get ps"
    using bt_extend [OF assms(1)] bt.distinct_keys [OF assms(2)] by auto
  have "(bt_get request ++ bt_get ps) k = (case bt_get request k of Some v \<Rightarrow> Some v | None \<Rightarrow> bt_get ps k)" for k
    using disjoint [of k] by (cases "bt_get ps k") (auto simp: map_add_def split: option.split)
  then show ?thesis using body ext ok reserved by (auto split: option.split)
qed

section \<open>Property\<close>

text \<open>
  Merging operator parameters never changes what the guest was granted. A refused
  merge leaves the request as it was. An accepted merge into a request object keeps every
  field the request had, adds exactly the parameters, and touches no field the model
  contract reserves; and unless there are none, the parameters satisfy the whole rule set:
  at most 16 unreserved keys, every key at every level a bounded lower-case identifier, at
  most three levels, bounded strings and arrays of scalars, no null, at most 2048 bytes.
\<close>

theorem merge_keeps_contract:
  assumes "bt_invar request" "bt_invar ps" "params_merge json_size (VObject request) ps = (body, r)"
  shows "(is_err r \<longrightarrow> body = VObject request)
    \<and> (r = Ok () \<longrightarrow>
         (ps = [] \<or> params_ok json_size ps)
         \<and> (\<exists>m. body = VObject m \<and> bt_invar m
              \<and> (\<forall>k. bt_get m k = (case bt_get request k of Some v \<Rightarrow> Some v | None \<Rightarrow> bt_get ps k))
              \<and> (\<forall>k \<in> set RESERVED. bt_get m k = bt_get request k)))"
proof (cases r)
  case (Inl e)
  then have "body = VObject request"
    using assms(3) by (auto simp: params_merge_def split: sum.splits option.splits if_splits)
  then show ?thesis using Inl by simp
next
  case (Inr u)
  then show ?thesis using params_merge_Ok [OF assms(1,2)] assms(3) by simp
qed

theorem merge_keeps_contract_witness:
  "params_merge (\<lambda>_. Some 9) (VObject [(''model'', VString ''m'')]) [(''top_k'', VNumber (PosInt 1))]
     = (VObject [(''model'', VString ''m''), (''top_k'', VNumber (PosInt 1))], Ok ())
   \<and> params_ok (\<lambda>_. Some 9) [(''top_k'', VNumber (PosInt 1))]"
proof -
  have run: "params_merge (\<lambda>_. Some 9) (VObject [(''model'', VString ''m'')]) [(''top_k'', VNumber (PosInt 1))]
     = (VObject [(''model'', VString ''m''), (''top_k'', VNumber (PosInt 1))], Ok ())"
    by code_simp
  have inv: "bt_invar [(''model'', VString ''m'')]" "bt_invar [(''top_k'', VNumber (PosInt 1))]"
    by (simp_all add: bt_invar_def)
  from merge_keeps_contract [OF inv run] run show ?thesis by simp
qed

end
