(* ===== verification/Store.thy ===== *)
theory Store
  imports Fs
begin

text \<open>
  \<open>celln-store/src/lib.rs\<close>: the content-addressed blob store, on the file-system calls of
  theory \<open>Fs\<close> and two more that replace what they find: writing a file in place and renaming.
  \<open>hash_of\<close> is \<open>Hash::of\<close>.

  \<open>write_all\<close> appends one byte per call, so that a failure can leave any prefix behind.
\<close>

section \<open>Calls that replace\<close>

definition truncate_effect :: "path \<Rightarrow> fsys \<Rightarrow> fsys \<times> (IoKind + unit)" where
  "truncate_effect p fs =
     (if fs_kind fs (butlast p) \<noteq> Some Dir then (fs, Inl NotFound)
      else (case fs_kind fs p of
              Some Dir \<Rightarrow> (fs, Inl OtherIo)
            | Some Special \<Rightarrow> (fs, Inl OtherIo)
            | _ \<Rightarrow> (bt_insert p (File []) fs, Inr ())))"

definition append_effect :: "path \<Rightarrow> u8 \<Rightarrow> fsys \<Rightarrow> fsys \<times> (IoKind + unit)" where
  "append_effect p x fs =
     (case fs_kind fs p of
        Some (File c) \<Rightarrow> (bt_insert p (File (c @ [x])) fs, Inr ())
      | _ \<Rightarrow> (fs, Inl NotFound))"

fun append_all :: "path \<Rightarrow> bytes \<Rightarrow> unit io" where
  "append_all p [] = io_return ()"
| "append_all p (x # xs) = io_seq (io_call (append_effect p x)) (append_all p xs)"

text \<open>\<open>fs::write\<close>.\<close>

definition fs_write :: "path \<Rightarrow> bytes \<Rightarrow> unit io" where
  "fs_write p b = io_seq (io_call (truncate_effect p)) (append_all p b)"

text \<open>\<open>fs::rename\<close> of a file.\<close>

definition rename_effect :: "path \<Rightarrow> path \<Rightarrow> fsys \<Rightarrow> fsys \<times> (IoKind + unit)" where
  "rename_effect p q fs =
     (case fs_kind fs p of
        Some (File c) \<Rightarrow>
          if fs_kind fs (butlast q) \<noteq> Some Dir then (fs, Inl NotFound)
          else if fs_kind fs q = Some Dir then (fs, Inl OtherIo)
          else (bt_insert q (File c) (bt_remove p fs), Inr ())
      | Some _ \<Rightarrow> (fs, Inl OtherIo)
      | None \<Rightarrow> (fs, Inl NotFound))"

definition fs_rename :: "path \<Rightarrow> path \<Rightarrow> unit io" where
  "fs_rename p q = io_call (rename_effect p q)"

section \<open>The store\<close>

datatype StoreError =
    TooLarge nat | StoreIo IoKind | ObjectNotFound hash | Integrity hash hash | BadHash string

record Store =
  st_objects :: path

type_synonym 'a store_io = "world \<Rightarrow> world \<times> (StoreError + 'a)"

text \<open>The \<open>?\<close> operator: an I/O error becomes \<open>StoreError::Io\<close>.\<close>

definition try_io :: "'a io \<Rightarrow> ('a \<Rightarrow> 'b store_io) \<Rightarrow> 'b store_io" where
  "try_io m f w = (case m w of (w', Inl e) \<Rightarrow> (w', Inl (StoreIo e)) | (w', Inr x) \<Rightarrow> f x w')"

definition store_return :: "StoreError + 'a \<Rightarrow> 'a store_io" where
  "store_return r w = (w, r)"

text \<open>\<open>Path::exists\<close> reports an error as absence.\<close>

definition path_exists :: "path \<Rightarrow> (bool \<Rightarrow> 'b store_io) \<Rightarrow> 'b store_io" where
  "path_exists p f w = (case file_type_of p w of (w', r) \<Rightarrow> f (is_ok r) w')"

definition Store_open :: "path \<Rightarrow> Store store_io" where
  "Store_open root =
     (let objects = root @ [''objects''] in
      try_io (create_dir_all objects) (\<lambda>_. store_return (Ok \<lparr>st_objects = objects\<rparr>)))"

definition hex_of :: "hash \<Rightarrow> StoreError + string" where
  "hex_of h =
     (case strip_prefix ''blake3:'' (hash_str h) of
        None \<Rightarrow> Err (BadHash (hash_str h))
      | Some x \<Rightarrow> if length x \<noteq> 64 \<or> \<not> list_all is_ascii_hexdigit x then Err (BadHash (hash_str h)) else Ok x)"

definition path_for :: "Store \<Rightarrow> hash \<Rightarrow> StoreError + path" where
  "path_for st h =
     (case hex_of h of
        Inl e \<Rightarrow> Inl e
      | Inr x \<Rightarrow> Ok (st_objects st @ [take (min 2 (length x)) x, x]))"

text \<open>The file name has no dot, so \<open>with_extension("tmp")\<close> appends.\<close>

definition tmp_for :: "path \<Rightarrow> path" where
  "tmp_for p = butlast p @ [last p @ ''.tmp'']"

definition Store_put :: "(bytes \<Rightarrow> hash) \<Rightarrow> Store \<Rightarrow> bytes \<Rightarrow> hash store_io" where
  "Store_put hash_of st b =
     (let h = hash_of b in
      case path_for st h of
        Inl e \<Rightarrow> store_return (Err e)
      | Inr p \<Rightarrow>
          path_exists p (\<lambda>present.
            if present then store_return (Ok h)
            else try_io (create_dir_all (butlast p)) (\<lambda>_.
                 try_io (fs_write (tmp_for p) b) (\<lambda>_.
                 try_io (fs_rename (tmp_for p) p) (\<lambda>_.
                 store_return (Ok h))))))"

definition get_bounded :: "(bytes \<Rightarrow> hash) \<Rightarrow> Store \<Rightarrow> hash \<Rightarrow> nat \<Rightarrow> bytes store_io" where
  "get_bounded hash_of st h limit =
     (case path_for st h of
        Inl e \<Rightarrow> store_return (Err e)
      | Inr p \<Rightarrow>
          path_exists p (\<lambda>present.
            if \<not> present then store_return (Err (ObjectNotFound h))
            else try_io (read_limited (min (limit + 1) (2 ^ 64 - 1)) p) (\<lambda>b.
                 store_return
                   (if length b > limit then Err (TooLarge limit)
                    else if hash_of b \<noteq> h then Err (Integrity h (hash_of b))
                    else Ok b))))"

definition Store_get :: "(bytes \<Rightarrow> hash) \<Rightarrow> Store \<Rightarrow> hash \<Rightarrow> bytes store_io" where
  "Store_get hash_of st h = get_bounded hash_of st h (2 ^ 64 - 1)"

definition Store_has :: "Store \<Rightarrow> hash \<Rightarrow> world \<Rightarrow> world \<times> bool" where
  "Store_has st h w =
     (case path_for st h of
        Inl _ \<Rightarrow> (w, False)
      | Inr p \<Rightarrow> (case file_type_of p w of (w', r) \<Rightarrow> (w', is_ok r)))"

section \<open>Every object holds the bytes of its name\<close>

text \<open>The invariant of a store; \<open>X\<close> names objects known to be present.\<close>

definition object_path :: "Store \<Rightarrow> string \<Rightarrow> path" where
  "object_path st x = st_objects st @ [take 2 x, x]"

definition hex_name :: "string \<Rightarrow> bool" where
  "hex_name x \<longleftrightarrow> length x = 64 \<and> list_all is_ascii_hexdigit x"

definition objects_ok :: "(bytes \<Rightarrow> hash) \<Rightarrow> Store \<Rightarrow> string set \<Rightarrow> fsys \<Rightarrow> bool" where
  "objects_ok hash_of st X fs \<longleftrightarrow>
     bt_invar fs
     \<and> (\<forall>x k. hex_name x \<longrightarrow> fs_kind fs (object_path st x) = Some k \<longrightarrow>
          (\<exists>b. k = File b \<and> hash_of b = Hash (''blake3:'' @ x)))
     \<and> (\<forall>x \<in> X. hex_name x \<longrightarrow> fs_kind fs (object_path st x) \<noteq> None)"

lemma path_for_Ok:
  "path_for st h = Inr p \<longleftrightarrow> (\<exists>x. hex_name x \<and> h = Hash (''blake3:'' @ x) \<and> p = object_path st x)"
  by (cases h)
    (auto simp: path_for_def hex_of_def hex_name_def object_path_def strip_prefix_Some
      split: option.splits if_splits)

lemma tmp_not_object: "hex_name x \<Longrightarrow> hex_name y \<Longrightarrow> tmp_for (object_path st x) \<noteq> object_path st y"
  by (auto simp: tmp_for_def object_path_def hex_name_def butlast_append)

lemma object_parts [simp]:
  "butlast (object_path st x) = st_objects st @ [take 2 x]" "object_path st x \<noteq> []"
  "object_path st x = object_path st y \<longleftrightarrow> x = y"
  by (auto simp: object_path_def butlast_append)

text \<open>A change away from the objects is harmless; so is a file with the right contents.\<close>

lemma objects_ok_insert:
  assumes "objects_ok H st X fs"
    and "\<And>x. hex_name x \<Longrightarrow> p = object_path st x \<Longrightarrow> \<exists>b. k = File b \<and> H b = Hash (''blake3:'' @ x)"
  shows "objects_ok H st X (bt_insert p k fs)"
  using assms unfolding objects_ok_def by (auto simp: fs_kind_insert bt_simps split: if_splits)

lemma objects_ok_remove:
  "objects_ok H st X fs \<Longrightarrow> (\<And>x. hex_name x \<Longrightarrow> p \<noteq> object_path st x) \<Longrightarrow> objects_ok H st X (bt_remove p fs)"
  by (auto simp: objects_ok_def fs_kind_def bt_simps split: if_splits)

definition keeps :: "(fsys \<Rightarrow> bool) \<Rightarrow> (world \<Rightarrow> world \<times> 'r) \<Rightarrow> bool" where
  "keeps P m \<longleftrightarrow> (\<forall>w. P (w_fs w) \<longrightarrow> P (w_fs (fst (m w))))"

named_theorems keep_intros \<open>operations keep a property of the tree\<close>

lemma keeps_call: "(\<And>fs. P fs \<Longrightarrow> P (fst (eff fs))) \<Longrightarrow> keeps P (io_call eff)"
  unfolding keeps_def io_call_def by (auto split: list.split fault.split prod.split) (metis fst_conv)+

lemma keeps_return [keep_intros]: "keeps P (store_return r)" "keeps P (io_return x)"
  by (simp_all add: keeps_def store_return_def io_return_def)

lemma keeps_seq [keep_intros]: "keeps P m \<Longrightarrow> keeps P n \<Longrightarrow> keeps P (io_seq m n)"
  unfolding keeps_def io_seq_def io_bind_def by (auto split: prod.split sum.split)

lemma keeps_try [keep_intros]: "keeps P m \<Longrightarrow> (\<And>x. keeps P (f x)) \<Longrightarrow> keeps P (try_io m f)"
  unfolding keeps_def try_io_def by (auto split: prod.split sum.split)

lemma keeps_exists [keep_intros]: "(\<And>b. keeps P (f b)) \<Longrightarrow> keeps P (path_exists p f)"
  unfolding keeps_def path_exists_def
  by (auto split: prod.split) (metis (no_types, lifting) file_type_of_def fst_conv keeps_call keeps_def)

lemma keeps_read [keep_intros]: "keeps P (read_limited n p)"
  unfolding read_limited_def by (rule keeps_call) (simp add: read_effect_def)

lemma objects_ok_dirs:
  "objects_ok H st X fs \<Longrightarrow> length d + length cs < length (st_objects st) + 2 \<Longrightarrow>
     objects_ok H st X (fst (dirs_effect d cs fs))"
proof (induction d cs fs rule: dirs_effect.induct)
  case (2 d c cs fs)
  have "d @ [c] \<noteq> object_path st x" for x
    using "2.prems"(2) by (auto simp: object_path_def dest: arg_cong [where f = length])
  then have "objects_ok H st X (bt_insert (d @ [c]) Dir fs)"
    using "2.prems"(1) by (intro objects_ok_insert) auto
  then show ?case using 2 by (auto split: option.split node.split)
qed simp

lemma keeps_dirs: "length p < length (st_objects st) + 2 \<Longrightarrow> keeps (objects_ok H st X) (create_dir_all p)"
  unfolding create_dir_all_def by (intro keeps_call objects_ok_dirs) auto

lemma keeps_append_all:
  "(\<And>x. hex_name x \<Longrightarrow> p \<noteq> object_path st x) \<Longrightarrow> keeps (objects_ok H st X) (append_all p b)"
proof (induction b)
  case (Cons y b)
  have "keeps (objects_ok H st X) (io_call (append_effect p y))"
    using Cons.prems by (intro keeps_call) (auto simp: append_effect_def intro!: objects_ok_insert split: option.split node.split)
  then show ?case using Cons by (simp add: keep_intros)
qed (simp add: keep_intros)

lemma keeps_write:
  "(\<And>x. hex_name x \<Longrightarrow> p \<noteq> object_path st x) \<Longrightarrow> keeps (objects_ok H st X) (fs_write p b)"
  unfolding fs_write_def
  by (intro keep_intros keeps_append_all keeps_call)
    (auto simp: truncate_effect_def intro!: objects_ok_insert split: option.split node.split)

text \<open>A write that reports success left exactly the bytes.\<close>

lemma append_all_Ok:
  "append_all p b w = (w', Inr u) \<Longrightarrow> bt_invar (w_fs w) \<Longrightarrow> p \<noteq> [] \<Longrightarrow> fs_kind (w_fs w) p = Some (File c) \<Longrightarrow>
     fs_kind (w_fs w') p = Some (File (c @ b))"
proof (induction b arbitrary: w c)
  case (Cons x b)
  obtain w1 v where step: "io_call (append_effect p x) w = (w1, Inr v)" and rest: "append_all p b w1 = (w', Inr u)"
    using Cons.prems(1) by (auto simp: io_seq_Ok)
  have "w_fs w1 = bt_insert p (File (c @ [x])) (w_fs w)"
    using io_call_Ok [OF step] Cons.prems(4) by (simp add: append_effect_def)
  then show ?case using Cons.IH [OF rest, of "c @ [x]"] Cons.prems by (simp add: fs_kind_insert bt_simps)
qed simp

lemma fs_write_Ok:
  assumes "fs_write p b w = (w', Inr u)" "bt_invar (w_fs w)" "p \<noteq> []"
  shows "fs_kind (w_fs w') p = Some (File b)"
proof -
  obtain w1 v where step: "io_call (truncate_effect p) w = (w1, Inr v)" and rest: "append_all p b w1 = (w', Inr u)"
    using assms(1) by (auto simp: fs_write_def io_seq_Ok)
  have "w_fs w1 = bt_insert p (File []) (w_fs w)"
    using io_call_Ok [OF step] by (auto simp: truncate_effect_def split: if_splits option.splits node.splits)
  then show ?thesis using append_all_Ok [OF rest, of "[]"] assms by (simp add: fs_kind_insert bt_simps)
qed

lemma tmp_for_not_Nil [simp]: "tmp_for p \<noteq> []"
  by (simp add: tmp_for_def)

text \<open>Publishing by rename moves a complete file into place or nothing at all.\<close>

lemma rename_keeps:
  assumes "objects_ok H st X (w_fs w)" "fs_kind (w_fs w) t = Some (File b)" "H b = Hash (''blake3:'' @ x)"
    "\<And>x. hex_name x \<Longrightarrow> t \<noteq> object_path st x"
  shows "objects_ok H st X (w_fs (fst (fs_rename t (object_path st x) w)))"
proof -
  have "objects_ok H st X (fst (rename_effect t (object_path st x) (w_fs w)))"
    using assms objects_ok_remove [OF assms(1,4)]
    by (auto simp: rename_effect_def intro!: objects_ok_insert)
  then show ?thesis
    using assms(1) unfolding fs_rename_def io_call_def
    by (auto split: list.split fault.split prod.split)
qed

lemma write_then_rename_keeps:
  assumes "hex_name x" "H b = Hash (''blake3:'' @ x)"
  shows "keeps (objects_ok H st X)
     (try_io (fs_write (tmp_for (object_path st x)) b) (\<lambda>_.
        try_io (fs_rename (tmp_for (object_path st x)) (object_path st x)) (\<lambda>_. store_return r)))"
  unfolding keeps_def
proof (intro allI impI)
  fix w :: world assume ok: "objects_ok H st X (w_fs w)"
  let ?t = "tmp_for (object_path st x)"
  obtain w1 r1 where step: "fs_write ?t b w = (w1, r1)" by fastforce
  have ok1: "objects_ok H st X (w_fs w1)"
    using keeps_write [of ?t st H X b] tmp_not_object [OF assms(1)] ok step by (metis fst_conv keeps_def)
  show "objects_ok H st X (w_fs (fst (try_io (fs_write ?t b) (\<lambda>_.
        try_io (fs_rename ?t (object_path st x)) (\<lambda>_. store_return r)) w)))"
  proof (cases r1)
    case (Inr u)
    have "fs_kind (w_fs w1) ?t = Some (File b)"
      using fs_write_Ok step Inr ok by (simp add: objects_ok_def)
    from rename_keeps [OF ok1 this assms(2) tmp_not_object [OF assms(1)]] show ?thesis
      using step Inr by (auto simp: try_io_def store_return_def split: prod.split sum.split)
  qed (use step ok1 in \<open>simp add: try_io_def\<close>)
qed

lemma put_keeps: "keeps (objects_ok H st X) (Store_put H st b)"
proof (cases "path_for st (H b)")
  case (Inr p)
  then obtain x where x: "hex_name x" "H b = Hash (''blake3:'' @ x)" "p = object_path st x"
    by (auto simp: path_for_Ok)
  have short: "length (butlast p) < length (st_objects st) + 2" using x by simp
  have tail: "keeps (objects_ok H st X)
      (try_io (fs_write (tmp_for p) b) (\<lambda>_. try_io (fs_rename (tmp_for p) p) (\<lambda>_. store_return r)))" for r :: "StoreError + hash"
    using write_then_rename_keeps [where H = H and b = b, OF x(1,2)] x(3) by simp
  have "keeps (objects_ok H st X)
      (if present then store_return (Ok h)
       else try_io (create_dir_all (butlast p)) (\<lambda>_.
            try_io (fs_write (tmp_for p) b) (\<lambda>_.
            try_io (fs_rename (tmp_for p) p) (\<lambda>_. store_return (Ok h)))))" for present and h :: hash
    using keeps_try [OF keeps_dirs [OF short] tail [of "Ok h"]] by (simp add: keep_intros)
  then show ?thesis
    unfolding Store_put_def Let_def Inr by (auto intro: keeps_exists)
qed (simp add: Store_put_def keep_intros)

lemma get_keeps: "keeps P (get_bounded H st h limit)"
  unfolding get_bounded_def
  by (cases "path_for st h") (auto intro!: keep_intros)

text \<open>The tree a read sees, and what it returns without further faults.\<close>

lemma file_type_Ok: "file_type_of p w = (w', Inr k) \<Longrightarrow> fs_kind (w_fs w) p = Some k \<and> w_fs w' = w_fs w"
  unfolding file_type_of_def by (drule io_call_Ok) (auto split: option.splits)

lemma rename_Ok:
  assumes "fs_rename p q w = (w', Inr u)" "bt_invar (w_fs w)" "q \<noteq> []"
  shows "fs_kind (w_fs w') q \<noteq> None"
proof -
  have "rename_effect p q (w_fs w) = (w_fs w', Inr u)"
    using io_call_Ok [OF assms(1) [unfolded fs_rename_def]] by auto
  then obtain c where "w_fs w' = bt_insert q (File c) (bt_remove p (w_fs w))"
    by (auto simp: rename_effect_def eq_commute split: option.splits node.splits if_splits)
  then show ?thesis using assms by (simp add: fs_kind_insert bt_simps)
qed

lemma get_bounded_calm:
  assumes "w_faults w = []" "hex_name x"
  shows "get_bounded H st (Hash (''blake3:'' @ x)) limit w =
     (w, case fs_kind (w_fs w) (object_path st x) of
           None \<Rightarrow> Err (ObjectNotFound (Hash (''blake3:'' @ x)))
         | Some (File b) \<Rightarrow>
             (let c = take (min (limit + 1) (2 ^ 64 - 1)) b in
              if length c > limit then Err (TooLarge limit)
              else if H c \<noteq> Hash (''blake3:'' @ x) then Err (Integrity (Hash (''blake3:'' @ x)) (H c))
              else Ok c)
         | Some _ \<Rightarrow> Err (StoreIo OtherIo))"
proof -
  have "path_for st (Hash (''blake3:'' @ x)) = Ok (object_path st x)"
    using assms(2) path_for_Ok [of st "Hash (''blake3:'' @ x)" "object_path st x"] by simp
  then show ?thesis
    using assms(1)
    by (simp add: get_bounded_def path_exists_def file_type_of_def io_call_def try_io_def read_limited_calm
        store_return_def Let_def split: option.split node.split)
qed

text \<open>A put that reports success leaves its object in place.\<close>

lemma put_present:
  assumes "Store_put H st b w = (w', Inr h)" "objects_ok H st X (w_fs w)"
  obtains x where "hex_name x" "h = Hash (''blake3:'' @ x)" "h = H b"
    "fs_kind (w_fs w') (object_path st x) \<noteq> None"
proof (cases "path_for st (H b)")
  case (Inl e)
  then show ?thesis using assms(1) by (simp add: Store_put_def store_return_def)
next
  case (Inr p)
  then obtain x where x: "hex_name x" "H b = Hash (''blake3:'' @ x)" "p = object_path st x"
    by (auto simp: path_for_Ok)
  have "h = H b \<and> fs_kind (w_fs w') p \<noteq> None"
  proof -
    obtain w1 r1 where ex: "file_type_of p w = (w1, r1)" by fastforce
    show ?thesis
    proof (cases "is_ok r1")
      case True
      then show ?thesis using assms(1) ex Inr file_type_Ok [of p w w1]
        by (cases r1) (auto simp: Store_put_def Let_def path_exists_def store_return_def)
    next
      case False
      then obtain w2 u2 w3 u3 u4 where
        mk: "create_dir_all (butlast p) w1 = (w2, Inr u2)" and
        wr: "fs_write (tmp_for p) b w2 = (w3, Inr u3)" and
        mv: "fs_rename (tmp_for p) p w3 = (w', Inr u4)" and h: "h = H b"
        using assms(1) ex Inr
        by (auto simp: Store_put_def Let_def path_exists_def try_io_def store_return_def split: prod.splits sum.splits)
      have "w_fs w1 = w_fs w"
        using ex by (auto simp: file_type_of_def io_call_def split: list.splits fault.splits)
      then have "objects_ok H st X (w_fs w2)"
        using keeps_dirs [of "butlast p" st H X] x(3) mk assms(2) by (simp add: keeps_def) (metis fst_conv)
      then have "objects_ok H st X (w_fs w3)"
        using keeps_write [of "tmp_for p" st H X b] tmp_not_object [OF x(1)] x(3) wr
        by (simp add: keeps_def) (metis fst_conv)
      then show ?thesis using rename_Ok [OF mv] x(3) h by (simp add: objects_ok_def)
    qed
  qed
  then show ?thesis using x that by auto
qed

section \<open>Properties\<close>

text \<open>The store operations of a sequence, each under its own faults.\<close>

datatype StoreOp = OpPut bytes | OpGet hash nat

definition store_step :: "(bytes \<Rightarrow> hash) \<Rightarrow> Store \<Rightarrow> StoreOp \<times> fault list \<Rightarrow> world \<Rightarrow> world \<times> unit" where
  "store_step H st op w =
     (let w' = w\<lparr>w_faults := snd op\<rparr> in
      case fst op of
        OpPut b \<Rightarrow> (fst (Store_put H st b w'), ())
      | OpGet h n \<Rightarrow> (fst (get_bounded H st h n w'), ()))"

lemma store_run_keeps:
  "objects_ok H st X (w_fs w) \<Longrightarrow> objects_ok H st X (w_fs (run_final (store_step H st) w ops))"
proof (rule run_final_inv [where P = "\<lambda>w. objects_ok H st X (w_fs w)"])
  fix op and w :: world assume "objects_ok H st X (w_fs w)"
  then show "objects_ok H st X (w_fs (fst (store_step H st op w)))"
    using put_keeps [of H st X] get_keeps [of "objects_ok H st X" H st]
    by (simp add: store_step_def Let_def keeps_def split: StoreOp.split)
qed

text \<open>
  C23: Put then get. When a put reports success, under whatever I/O failures it went
  through, then after any further sequence of puts and gets, each failing at any point, a
  read without failures returns exactly the stored bytes: an object is never lost,
  truncated or replaced. The store is assumed to hold only intact objects before, and the
  bytes to have no hash collision.
\<close>

theorem store_put_get_roundtrip:
  assumes "objects_ok hash_of st {} (w_fs w)" "Store_put hash_of st b w = (w1, Ok h)"
    and "\<And>c. hash_of c = hash_of b \<Longrightarrow> c = b" "length b < 2 ^ 64 - 1"
    and "w2 = (run_final (store_step hash_of st) w1 ops)\<lparr>w_faults := []\<rparr>"
  shows "Store_get hash_of st h w2 = (w2, Ok b)"
proof -
  obtain x where x: "hex_name x" "h = Hash (''blake3:'' @ x)" "h = hash_of b"
    and there: "fs_kind (w_fs w1) (object_path st x) \<noteq> None"
    using put_present [OF assms(2,1)] by blast
  have "objects_ok hash_of st {} (w_fs w1)"
    using put_keeps [of hash_of st "{}" b] assms(1,2) by (metis fst_conv keeps_def)
  then have "objects_ok hash_of st {x} (w_fs w1)" using there by (simp add: objects_ok_def)
  then have ok: "objects_ok hash_of st {x} (w_fs w2)" using assms(5) store_run_keeps by simp
  then obtain k where k: "fs_kind (w_fs w2) (object_path st x) = Some k"
    using x(1) by (auto simp: objects_ok_def)
  then obtain c where "k = File c" "hash_of c = h" using ok x by (auto simp: objects_ok_def)
  then have "fs_kind (w_fs w2) (object_path st x) = Some (File b)" using k assms(3) x(3) by simp
  moreover have "w_faults w2 = []" using assms(5) by simp
  ultimately show ?thesis
    using get_bounded_calm [of w2 x hash_of st "2 ^ 64 - 1"] x assms(4)
    by (simp add: Store_get_def Let_def)
qed

definition sample_content_hash :: "bytes \<Rightarrow> hash" where
  "sample_content_hash b = Hash (''blake3:'' @ replicate 64 (if b = [1] then CHR ''a'' else CHR ''b''))"

definition sample_objects :: Store where
  "sample_objects = \<lparr>st_objects = [''objects'']\<rparr>"

definition sample_disk :: world where
  "sample_disk = \<lparr>w_fs = [], w_faults = [], w_mtime = (\<lambda>_. 0)\<rparr>"

lemma sample_content_hash_eq: "sample_content_hash c = sample_content_hash [1] \<Longrightarrow> c = [1]"
  by (auto simp: sample_content_hash_def numeral_eq_Suc split: if_splits)

lemma sample_disk_ok: "objects_ok H st {} (w_fs sample_disk)"
  by (simp add: objects_ok_def sample_disk_def bt_invar_def fs_kind_def)

lemma sample_put: "snd (Store_put sample_content_hash sample_objects [1] sample_disk) = Ok (sample_content_hash [1])"
  by code_simp

theorem store_put_get_roundtrip_witness:
  "let w1 = fst (Store_put sample_content_hash sample_objects [1] sample_disk);
       w2 = (run_final (store_step sample_content_hash sample_objects) w1 [(OpPut [2], [Runs, Runs, FailsAfter])])
              \<lparr>w_faults := []\<rparr>
   in Store_get sample_content_hash sample_objects (sample_content_hash [1]) w2 = (w2, Ok [1])"
proof -
  have "Store_put sample_content_hash sample_objects [1] sample_disk =
      (fst (Store_put sample_content_hash sample_objects [1] sample_disk), Ok (sample_content_hash [1]))"
    using sample_put by (metis prod.collapse)
  from store_put_get_roundtrip [OF sample_disk_ok this sample_content_hash_eq _ refl,
      of "[(OpPut [2], [Runs, Runs, FailsAfter])]"] show ?thesis
    unfolding Let_def by (simp del: run_final.simps)
qed

text \<open>
  What a read returns is what was asked for. Whatever the disk holds and whichever
  calls fail, a bounded read changes nothing, and if it returns bytes then they hash to the
  requested hash and are within the limit; the path it read lies below the store's objects
  directory, in the fan-out directory of the hash's first two digits.
\<close>

theorem store_reads_verified:
  assumes "get_bounded hash_of st h limit w = (w1, r)"
  shows "w_fs w1 = w_fs w
    \<and> (\<forall>b. r = Ok b \<longrightarrow> hash_of b = h \<and> length b \<le> limit
         \<and> (\<exists>x c. hex_name x \<and> h = Hash (''blake3:'' @ x)
              \<and> fs_kind (w_fs w) (st_objects st @ [take 2 x, x]) = Some (File c)
              \<and> b = take (min (limit + 1) (2 ^ 64 - 1)) c))"
proof -
  have same: "w_fs w1 = w_fs w"
    using get_keeps [of "\<lambda>fs. fs = w_fs w" hash_of st h limit] assms by (auto simp: keeps_def)
  have "hash_of b = h \<and> length b \<le> limit \<and> (\<exists>x c. hex_name x \<and> h = Hash (''blake3:'' @ x)
      \<and> fs_kind (w_fs w) (st_objects st @ [take 2 x, x]) = Some (File c) \<and> b = take (min (limit + 1) (2 ^ 64 - 1)) c)"
    if r: "r = Ok b" for b
  proof (cases "path_for st h")
    case (Inr p)
    then obtain x where x: "hex_name x" "h = Hash (''blake3:'' @ x)" "p = object_path st x"
      by (auto simp: path_for_Ok)
    obtain w2 k where ex: "file_type_of p w = (w2, Inr k)"
      and rd: "read_limited (min (limit + 1) (2 ^ 64 - 1)) p w2 = (w1, Inr b)" and ok: "hash_of b = h" "length b \<le> limit"
      using assms r Inr
      by (auto simp: get_bounded_def path_exists_def try_io_def store_return_def is_ok_iff
          split: prod.splits sum.splits if_splits)
    then show ?thesis
      using x ok file_type_Ok [OF ex] read_limited_Ok [OF rd] by (auto simp: object_path_def)
  qed (use assms r in \<open>simp add: get_bounded_def store_return_def\<close>)
  then show ?thesis using same by blast
qed

theorem store_reads_verified_witness:
  "w_fs (fst (get_bounded sample_content_hash sample_objects (sample_content_hash [1]) 8 sample_disk)) = w_fs sample_disk"
  using store_reads_verified [of sample_content_hash sample_objects "sample_content_hash [1]" 8 sample_disk]
  by (metis prod.collapse)

section \<open>Two writers of the same object\<close>

text \<open>
  The temporary name is a function of the hash, so two concurrent puts of the same bytes
  share it. If the second writer opens (and so truncates) the temporary file after the first
  has finished writing it and before the first renames it, the rename publishes an empty
  object under the hash: until the second writer has written its bytes, a reader finds an
  object that does not hash to its name.
\<close>

lemma concurrent_put_publishes_empty:
  assumes "w_faults w = []" "bt_invar (w_fs w)" "hex_name x"
    and "fs_kind (w_fs w) (butlast (object_path st x)) = Some Dir"
    and "fs_kind (w_fs w) (tmp_for (object_path st x)) = Some (File b)"
    and "fs_kind (w_fs w) (object_path st x) = None"
  defines "t \<equiv> tmp_for (object_path st x)"
  defines "w1 \<equiv> fst (io_call (truncate_effect t) w)"
  defines "w2 \<equiv> fst (fs_rename t (object_path st x) w1)"
  shows "fs_kind (w_fs w2) (object_path st x) = Some (File [])"
proof -
  have t: "t \<noteq> []" "butlast t = butlast (object_path st x)" "t \<noteq> object_path st x"
    using tmp_not_object [OF assms(3,3)] by (auto simp: t_def tmp_for_def butlast_append)
  have w1: "w_fs w1 = bt_insert t (File []) (w_fs w)" "w_faults w1 = []"
    using assms(1,4,5) t by (simp_all add: w1_def io_call_def truncate_effect_def t_def)
  have dir: "butlast (object_path st x) \<noteq> t" using t(1,2) by (metis butlast_neq)
  have "fs_kind (w_fs w1) t = Some (File [])" "fs_kind (w_fs w1) (butlast (object_path st x)) = Some Dir"
    "fs_kind (w_fs w1) (object_path st x) = None"
    using w1(1) t dir assms(2,4,6) by (auto simp: fs_kind_insert)
  then have "w_fs w2 = bt_insert (object_path st x) (File []) (bt_remove t (w_fs w1))"
    using w1(2) by (simp add: w2_def fs_rename_def io_call_def rename_effect_def)
  then show ?thesis using w1(1) assms(2) by (simp add: fs_kind_insert bt_simps)
qed

end
