(* ===== verification/ToolArgv.thy ===== *)
theory ToolArgv
  imports Fs
begin

text \<open>
  \<open>celln-cli/src/tool_argv.rs\<close>: the reviewed argv bindings recorded under a node's authority
  root, one file per exact tool identity. Parameters, in \<open>ArgvSerde\<close>: \<open>Hash::of\<close>, the JSON
  text of an array of strings, and the encoder and decoder of a record. \<open>Argv\<close> is the
  binding type of \<open>celln-pilot/src/json_harness.rs\<close>.
\<close>

section \<open>Records\<close>

record Argv =
  ar_args :: "string list"
  ar_stdin :: "string option"

record Record =
  rc_api_version :: string
  rc_path :: string
  rc_hash :: string
  rc_input_schema :: string
  rc_output_schema :: string
  rc_argv :: Argv

record ToolIdentity =
  ti_path :: string
  ti_hash :: string
  ti_input_schema :: string
  ti_output_schema :: string

record ArgvSerde =
  av_hash :: "bytes \<Rightarrow> hash"
  av_to_string :: "string list \<Rightarrow> string"
  av_to_vec :: "Record \<Rightarrow> bytes option"
  av_from_slice :: "bytes \<Rightarrow> Record option"

definition ARGV_API_VERSION :: string where "ARGV_API_VERSION = ''celln.reviewed-argv-tool/v1''"
definition DIRECTORY :: string where "DIRECTORY = ''tool-argv''"
definition ARGV_MAX_RECORD_BYTES :: nat where "ARGV_MAX_RECORD_BYTES = 65536"

datatype ArgvError = ArgvIo IoKind | Different string | NotRegular | Oversized | Unencodable

type_synonym 'a argv_io = "world \<Rightarrow> world \<times> (ArgvError + 'a)"

definition argv_try :: "'a io \<Rightarrow> ('a \<Rightarrow> 'b argv_io) \<Rightarrow> 'b argv_io" where
  "argv_try m f w = (case m w of (w', Inl e) \<Rightarrow> (w', Inl (ArgvIo e)) | (w', Inr x) \<Rightarrow> f x w')"

definition argv_then :: "'a argv_io \<Rightarrow> ('a \<Rightarrow> 'b argv_io) \<Rightarrow> 'b argv_io" where
  "argv_then m f w = (case m w of (w', Inl e) \<Rightarrow> (w', Inl e) | (w', Inr x) \<Rightarrow> f x w')"

definition argv_ret :: "ArgvError + 'a \<Rightarrow> 'a argv_io" where
  "argv_ret r w = (w, r)"

section \<open>Operations\<close>

definition Identity_file :: "ArgvSerde \<Rightarrow> ToolIdentity \<Rightarrow> path \<Rightarrow> path" where
  "Identity_file S i root =
     (let key = av_hash S (as_bytes (av_to_string S
            [ti_path i, ti_hash i, ti_input_schema i, ti_output_schema i]))
      in root @ [DIRECTORY, drop 7 (hash_str key) @ ''.json''])"

definition Identity_record :: "ToolIdentity \<Rightarrow> Argv \<Rightarrow> Record" where
  "Identity_record i argv =
     \<lparr>rc_api_version = ARGV_API_VERSION, rc_path = ti_path i, rc_hash = ti_hash i,
      rc_input_schema = ti_input_schema i, rc_output_schema = ti_output_schema i, rc_argv = argv\<rparr>"

text \<open>\<open>read\<close>: opening does not follow a link; the open file must be regular.\<close>

definition argv_read :: "path \<Rightarrow> bytes argv_io" where
  "argv_read p =
     argv_try (file_type_of p) (\<lambda>k.
       if (case k of File _ \<Rightarrow> False | _ \<Rightarrow> True) then argv_ret (Err NotRegular)
       else argv_try (read_limited (ARGV_MAX_RECORD_BYTES + 1) p) (\<lambda>b.
            argv_ret (if length b \<le> ARGV_MAX_RECORD_BYTES then Ok b else Err Oversized)))"

definition ensure_same :: "path \<Rightarrow> bytes \<Rightarrow> ToolIdentity \<Rightarrow> unit argv_io" where
  "ensure_same p b i =
     argv_then (argv_read p) (\<lambda>found. argv_ret (if found = b then Ok () else Err (Different (ti_path i))))"

text \<open>\<open>Path::try_exists\<close>.\<close>

definition try_exists :: "path \<Rightarrow> bool io" where
  "try_exists p = io_call (\<lambda>fs. (fs, Inr (fs_kind fs p \<noteq> None)))"

definition argv_publish :: "ArgvSerde \<Rightarrow> path \<Rightarrow> ToolIdentity \<Rightarrow> Argv \<Rightarrow> unit argv_io" where
  "argv_publish S root i argv =
     (let directory = root @ [DIRECTORY]; p = Identity_file S i root in
      argv_try (create_dir_all directory) (\<lambda>_.
        case av_to_vec S (Identity_record i argv) of
          None \<Rightarrow> argv_ret (Err Unencodable)
        | Some b \<Rightarrow>
            argv_try (try_exists p) (\<lambda>present.
              if present then ensure_same p b i
              else argv_try (stage_temp directory) (\<lambda>_.
                   argv_then
                     (\<lambda>w. case persist_noclobber p b w of
                            (w', Inr _) \<Rightarrow> (w', Ok ())
                          | (w', Inl AlreadyExists) \<Rightarrow> ensure_same p b i w'
                          | (w', Inl e) \<Rightarrow> (w', Err (ArgvIo e)))
                     (\<lambda>_. argv_try (open_dir_sync directory) (\<lambda>_. argv_ret (Ok ())))))))"

definition argv_lookup :: "ArgvSerde \<Rightarrow> path \<Rightarrow> ToolIdentity \<Rightarrow> world \<Rightarrow> world \<times> (string + Argv)" where
  "argv_lookup S root i w =
     (case argv_read (Identity_file S i root) w of
        (w', Inl _) \<Rightarrow> (w', Err ''argv tool binding was never reviewed here'')
      | (w', Inr b) \<Rightarrow>
          (w', case av_from_slice S b of
                 None \<Rightarrow> Err ''reviewed argv binding unreadable''
               | Some record \<Rightarrow>
                   if record \<noteq> Identity_record i (rc_argv record)
                   then Err ''reviewed argv binding belongs to another tool''
                   else Ok (rc_argv record)))"

section \<open>Nothing recorded is replaced\<close>

definition argv_grows :: "'a argv_io \<Rightarrow> bool" where
  "argv_grows m \<longleftrightarrow> (\<forall>w. wf_world w \<longrightarrow> wf_world (fst (m w)) \<and> fs_le (w_fs w) (w_fs (fst (m w))))"

lemma argv_grows_try: "grows m \<Longrightarrow> (\<And>x. argv_grows (f x)) \<Longrightarrow> argv_grows (argv_try m f)"
  unfolding grows_def argv_grows_def argv_try_def
  by (auto split: prod.splits sum.splits) (metis fst_conv fs_le_trans)+

lemma argv_grows_then: "argv_grows m \<Longrightarrow> (\<And>x. argv_grows (f x)) \<Longrightarrow> argv_grows (argv_then m f)"
  unfolding argv_grows_def argv_then_def
  by (auto split: prod.splits sum.splits) (metis fst_conv fs_le_trans)+

lemma argv_grows_ret: "argv_grows (argv_ret r)"
  by (simp add: argv_grows_def argv_ret_def)

lemma grows_try_exists [grow_intros]: "grows (try_exists p)"
  unfolding try_exists_def by (rule grows_call) simp

lemmas argv_intros = argv_grows_try argv_grows_then argv_grows_ret grow_intros

lemma argv_grows_read: "argv_grows (argv_read p)"
  unfolding argv_read_def by (auto intro!: argv_intros)

lemma argv_grows_same: "argv_grows (ensure_same p b i)"
  unfolding ensure_same_def by (intro argv_intros argv_grows_read)

lemma argv_grows_persist:
  "argv_grows (\<lambda>w. case persist_noclobber p b w of
     (w', Inr _) \<Rightarrow> (w', Ok ()) | (w', Inl AlreadyExists) \<Rightarrow> ensure_same p b i w' | (w', Inl e) \<Rightarrow> (w', Err (ArgvIo e)))"
  unfolding argv_grows_def
proof (intro allI impI)
  fix w assume wf: "wf_world w"
  obtain w1 r where step: "persist_noclobber p b w = (w1, r)" by fastforce
  have le: "wf_world w1 \<and> fs_le (w_fs w) (w_fs w1)"
    using grows_calls(7) [of p b] wf step unfolding grows_def by (metis fst_conv)
  have same: "wf_world (fst (ensure_same p b i w1)) \<and> fs_le (w_fs w1) (w_fs (fst (ensure_same p b i w1)))"
    using argv_grows_same [of p b i] le unfolding argv_grows_def by blast
  show "wf_world (fst (case persist_noclobber p b w of
     (w', Inr _) \<Rightarrow> (w', Ok ()) | (w', Inl AlreadyExists) \<Rightarrow> ensure_same p b i w' | (w', Inl e) \<Rightarrow> (w', Err (ArgvIo e))))
     \<and> fs_le (w_fs w) (w_fs (fst (case persist_noclobber p b w of
     (w', Inr _) \<Rightarrow> (w', Ok ()) | (w', Inl AlreadyExists) \<Rightarrow> ensure_same p b i w' | (w', Inl e) \<Rightarrow> (w', Err (ArgvIo e)))))"
    using step le same fs_le_trans by (auto split: sum.split IoKind.split)
qed

lemma argv_grows_publish: "argv_grows (argv_publish S root i argv)"
  unfolding argv_publish_def Let_def
  by (auto intro!: argv_intros argv_grows_same argv_grows_persist split: option.split)

lemma argv_growsD:
  "argv_grows m \<Longrightarrow> m w = (w', r) \<Longrightarrow> wf_world w \<Longrightarrow> wf_world w' \<and> fs_le (w_fs w) (w_fs w')"
  unfolding argv_grows_def by (metis fst_conv)

section \<open>Reading and writing\<close>

lemma argv_read_Ok:
  assumes "argv_read p w = (w', Inr b)"
  shows "fs_kind (w_fs w) p = Some (File b) \<and> w_fs w' = w_fs w"
proof -
  obtain w1 k where k: "file_type_of p w = (w1, Inr k)"
    and rd: "read_limited (ARGV_MAX_RECORD_BYTES + 1) p w1 = (w', Inr b)" and len: "length b \<le> ARGV_MAX_RECORD_BYTES"
    using assms by (auto simp: argv_read_def argv_try_def argv_ret_def split: prod.splits sum.splits if_splits)
  have same: "w_fs w1 = w_fs w" using io_call_Ok [OF k [unfolded file_type_of_def]] by auto
  obtain c where c: "fs_kind (w_fs w1) p = Some (File c)" "b = take (ARGV_MAX_RECORD_BYTES + 1) c" "w_fs w' = w_fs w1"
    using read_limited_Ok [OF rd] by auto
  moreover have "b = c" using len c(2) by (simp add: min_def split: if_splits)
  ultimately show ?thesis using same by simp
qed

lemma argv_read_calm:
  assumes "w_faults w = []" "fs_kind (w_fs w) p = Some (File c)" "length c \<le> ARGV_MAX_RECORD_BYTES"
  shows "argv_read p w = (w, Inr c)"
  using assms
  by (simp add: argv_read_def argv_try_def argv_ret_def file_type_of_def io_call_def read_limited_calm)

lemma ensure_same_Ok:
  "ensure_same p b i w = (w', Inr u) \<Longrightarrow> fs_kind (w_fs w') p = Some (File b)"
  by (auto simp: ensure_same_def argv_then_def argv_ret_def dest!: argv_read_Ok split: prod.splits sum.splits if_splits)

lemma argv_publish_Ok:
  assumes "argv_publish S root i argv w = (w', Inr u)" "wf_world w"
  shows "\<exists>b. av_to_vec S (Identity_record i argv) = Some b
     \<and> fs_kind (w_fs w') (Identity_file S i root) = Some (File b)"
proof -
  let ?p = "Identity_file S i root" and ?d = "root @ [DIRECTORY]"
  obtain w1 u1 where mk: "create_dir_all ?d w = (w1, Inr u1)"
    using assms(1) by (auto simp: argv_publish_def argv_try_def Let_def split: prod.splits sum.splits)
  then obtain b where b: "av_to_vec S (Identity_record i argv) = Some b"
    using assms(1) by (auto simp: argv_publish_def argv_try_def argv_ret_def Let_def split: option.splits)
  obtain w2 present where ex: "try_exists ?p w1 = (w2, Inr present)"
    using assms(1) mk b by (auto simp: argv_publish_def argv_try_def Let_def split: prod.splits sum.splits)
  have wf2: "wf_world w2"
    using grows_calls(2) [of ?d] grows_try_exists [of ?p] assms(2) mk ex unfolding grows_def by (metis fst_conv)
  show ?thesis
  proof (cases present)
    case True
    then have "ensure_same ?p b i w2 = (w', Inr u)"
      using assms(1) mk b ex by (simp add: argv_publish_def argv_try_def Let_def)
    then show ?thesis using b ensure_same_Ok by blast
  next
    case False
    then obtain w3 u3 where st: "stage_temp ?d w2 = (w3, Inr u3)"
      using assms(1) mk b ex by (auto simp: argv_publish_def argv_try_def Let_def split: prod.splits sum.splits)
    have wf3: "wf_world w3" using grows_calls(6) [of ?d] wf2 st unfolding grows_def by (metis fst_conv)
    obtain w4 r4 where ps: "persist_noclobber ?p b w3 = (w4, r4)" by fastforce
    have "\<exists>w5. fs_kind (w_fs w5) ?p = Some (File b) \<and> (\<exists>u6. open_dir_sync ?d w5 = (w', Inr u6))"
    proof (cases r4)
      case (Inr u4)
      have "fs_kind (w_fs w4) ?p = Some (File b)"
        using persist_Ok ps Inr wf3 by (auto simp: fs_kind_insert wf_world_def wf_fs_def Identity_file_def Let_def)
      then show ?thesis
        using assms(1) mk b ex False st ps Inr
        by (auto simp: argv_publish_def argv_try_def argv_then_def argv_ret_def Let_def split: prod.splits sum.splits)
    next
      case (Inl e)
      then obtain w5 u5 where "ensure_same ?p b i w4 = (w5, Inr u5)" "\<exists>u6. open_dir_sync ?d w5 = (w', Inr u6)"
        using assms(1) mk b ex False st ps
        by (cases e) (auto simp: argv_publish_def argv_try_def argv_then_def argv_ret_def Let_def split: prod.splits sum.splits)
      then show ?thesis using ensure_same_Ok by blast
    qed
    then obtain w5 u6 where "fs_kind (w_fs w5) ?p = Some (File b)" "open_dir_sync ?d w5 = (w', Inr u6)" by blast
    then show ?thesis using b io_call_Ok unfolding open_dir_sync_def by (metis (no_types, lifting) fst_conv)
  qed
qed

lemma wf_prefix: "wf_fs fs \<Longrightarrow> fs_kind fs (p @ q) = Some Dir \<Longrightarrow> fs_kind fs p = Some Dir"
proof (induction q rule: rev_induct)
  case (snoc c q)
  then have "fs_kind fs (butlast (p @ q @ [c])) = Some Dir" unfolding wf_fs_def by blast
  then show ?case using snoc by (simp add: butlast_append)
qed simp

lemma dirs_effect_present:
  "wf_fs fs \<Longrightarrow> fs_kind fs (d @ cs) = Some Dir \<Longrightarrow> dirs_effect d cs fs = (fs, Inr ())"
proof (induction cs arbitrary: d)
  case (Cons c cs)
  then have "fs_kind fs (d @ [c]) = Some Dir" using wf_prefix [of fs "d @ [c]" cs] by simp
  then show ?case using Cons.IH [of "d @ [c]"] Cons.prems by simp
qed simp

section \<open>Properties\<close>

text \<open>
  The first reviewed binding of a tool identity is final. Once publishing a binding
  has reported success, whatever failed on the way, every later state of the disk that
  keeps what was published gives exactly that binding on lookup, and publishing any other
  binding for the same identity is refused with the tool's path and changes nothing. The
  encoder is assumed to be the inverse of the decoder and the record to fit 64 KiB.
\<close>

theorem argv_binding_fixed:
  assumes "wf_world w" "argv_publish S root i argv w = (w1, Ok ())"
    and "\<And>r b. av_to_vec S r = Some b \<Longrightarrow> av_from_slice S b = Some r \<and> length b \<le> 65536"
    and "wf_world w2" "w_faults w2 = []" "fs_le (w_fs w1) (w_fs w2)"
  shows "argv_lookup S root i w2 = (w2, Ok argv)
    \<and> (\<forall>other. other \<noteq> argv \<longrightarrow> av_to_vec S (Identity_record i other) \<noteq> None \<longrightarrow>
          argv_publish S root i other w2 = (w2, Err (Different (ti_path i))))"
proof -
  let ?p = "Identity_file S i root"
  obtain b where b: "av_to_vec S (Identity_record i argv) = Some b" and "fs_kind (w_fs w1) ?p = Some (File b)"
    using argv_publish_Ok [OF assms(2,1)] by blast
  then have held: "fs_kind (w_fs w2) ?p = Some (File b)" using assms(6) by (auto dest: fs_leD)
  have dec: "av_from_slice S b = Some (Identity_record i argv)" and len: "length b \<le> ARGV_MAX_RECORD_BYTES"
    using assms(3) b by (auto simp: ARGV_MAX_RECORD_BYTES_def)
  note read = argv_read_calm [OF assms(5) held len]
  have found: "argv_lookup S root i w2 = (w2, Ok argv)"
    using read dec by (simp add: argv_lookup_def Identity_record_def)
  have "fs_kind (w_fs w2) (root @ [DIRECTORY]) = Some Dir"
    using assms(4) held unfolding wf_world_def wf_fs_def
    by (metis (no_types, lifting) Identity_file_def append_is_Nil_conv
        butlast.simps(2) butlast_append list.distinct(1))
  then have created: "create_dir_all (root @ [DIRECTORY]) w2 = (w2, Inr ())"
    using dirs_effect_present [of "w_fs w2" "[]"] assms(4,5)
    by (simp add: create_dir_all_def io_call_def wf_world_def)
  have "argv_publish S root i other w2 = (w2, Err (Different (ti_path i)))"
    if other: "other \<noteq> argv" "av_to_vec S (Identity_record i other) = Some c" for other c
  proof -
    have "c \<noteq> b" using assms(3) [OF other(2)] dec other(1) by (auto simp: Identity_record_def)
    then show ?thesis
      using created other held read assms(5)
      by (simp add: argv_publish_def argv_try_def try_exists_def io_call_def ensure_same_def argv_then_def
          argv_ret_def Let_def)
  qed
  then show ?thesis using found by blast
qed

definition sample_argv_serde :: ArgvSerde where
  "sample_argv_serde =
     \<lparr>av_hash = (\<lambda>_. Hash ''blake3:k''), av_to_string = concat,
      av_to_vec = (\<lambda>r. if r = Identity_record \<lparr>ti_path = ''/t'', ti_hash = ''h'', ti_input_schema = ''i'', ti_output_schema = ''o''\<rparr>
                             \<lparr>ar_args = [''{a}''], ar_stdin = None\<rparr> then Some [1] else None),
      av_from_slice = (\<lambda>b. if b = [1] then Some (Identity_record
                             \<lparr>ti_path = ''/t'', ti_hash = ''h'', ti_input_schema = ''i'', ti_output_schema = ''o''\<rparr>
                             \<lparr>ar_args = [''{a}''], ar_stdin = None\<rparr>) else None)\<rparr>"

definition sample_tool :: ToolIdentity where
  "sample_tool = \<lparr>ti_path = ''/t'', ti_hash = ''h'', ti_input_schema = ''i'', ti_output_schema = ''o''\<rparr>"

definition sample_argv :: Argv where
  "sample_argv = \<lparr>ar_args = [''{a}''], ar_stdin = None\<rparr>"

definition sample_argv_disk :: world where
  "sample_argv_disk = \<lparr>w_fs = [], w_faults = [], w_mtime = (\<lambda>_. 0)\<rparr>"

theorem argv_binding_fixed_witness:
  "let w1 = fst (argv_publish sample_argv_serde [] sample_tool sample_argv sample_argv_disk)
   in argv_lookup sample_argv_serde [] sample_tool w1 = (w1, Ok sample_argv)"
proof -
  let ?w1 = "fst (argv_publish sample_argv_serde [] sample_tool sample_argv sample_argv_disk)"
  have wf: "wf_world sample_argv_disk"
    by (simp add: wf_world_def wf_fs_def sample_argv_disk_def bt_invar_def fs_kind_def)
  have name: "Identity_file sample_argv_serde sample_tool [] = [DIRECTORY, ''k.json'']"
    by (simp add: Identity_file_def sample_argv_serde_def Let_def)
  have enc: "av_to_vec sample_argv_serde (Identity_record sample_tool sample_argv) = Some [1]"
    by (simp add: sample_argv_serde_def sample_tool_def sample_argv_def)
  have run: "argv_publish sample_argv_serde [] sample_tool sample_argv sample_argv_disk =
      (sample_argv_disk\<lparr>w_fs := bt_insert [DIRECTORY, ''k.json''] (File [1]) [([DIRECTORY], Dir)]\<rparr>, Ok ())"
    unfolding argv_publish_def name Let_def
    by (simp add: enc argv_try_def argv_then_def argv_ret_def call_defs try_exists_def io_call_def sample_argv_disk_def
        fs_kind_def persist_effect_def bt_get_Cons bt_get_insert bt_invar_def del: bt_insert.simps(2))
  have pub: "argv_publish sample_argv_serde [] sample_tool sample_argv sample_argv_disk = (?w1, Ok ())"
    and calm: "w_faults ?w1 = []"
    unfolding run by (simp_all add: sample_argv_disk_def)
  have "wf_world ?w1" using argv_growsD [OF argv_grows_publish pub wf] by blast
  moreover have "av_to_vec sample_argv_serde r = Some b \<Longrightarrow> av_from_slice sample_argv_serde b = Some r \<and> length b \<le> 65536" for r b
    by (auto simp: sample_argv_serde_def split: if_splits)
  ultimately show ?thesis
    unfolding Let_def using argv_binding_fixed [OF wf pub _ _ calm fs_le_refl] by blast
qed

end
