(* ===== verification/Assay.thy ===== *)
theory Assay
  imports Manifest Store
begin

text \<open>
  \<open>celln-assay/src/lib.rs\<close>: the assayer puts bytes into the content-addressed store and admits
  them to the manifest, which it signs and writes beside the store after every change. It
  composes theories \<open>Store\<close> and \<open>Manifest\<close>.

  Parameters, in \<open>AssaySerde\<close>: \<open>Hash::of\<close>, the JSON encoders of a manifest and its decoder. An
  operation returns the world, the assayer and its result.
\<close>

section \<open>State\<close>

record Proof =
  pf_artifact :: hash
  pf_recipe :: hash
  pf_toolchain :: string
  pf_reproduced :: bool

record Assayer =
  as_store :: Store
  as_manifest :: Manifest
  as_manifest_path :: path

record Resolved =
  rs_hash :: hash
  rs_tier :: Tier
  rs_warm :: bool
  rs_upgrade_queued :: bool

datatype AssayError = AssayStore StoreError | ProofMismatch

record AssaySerde =
  ay_hash :: "bytes \<Rightarrow> hash"
  ay_to_vec :: "Manifest \<Rightarrow> bytes"
  ay_pretty :: "Manifest \<Rightarrow> bytes"
  ay_from_slice :: "bytes \<Rightarrow> Manifest option"

type_synonym 'a assay_op = "Assayer \<Rightarrow> world \<Rightarrow> world \<times> Assayer \<times> (AssayError + 'a)"

text \<open>\<open>std::fs::read\<close>.\<close>

definition fs_read :: "path \<Rightarrow> bytes io" where
  "fs_read p =
     io_call (\<lambda>fs. (fs, case fs_kind fs p of Some (File b) \<Rightarrow> Inr b | None \<Rightarrow> Inl NotFound | _ \<Rightarrow> Inl OtherIo))"

section \<open>Operations\<close>

definition Assayer_open :: "AssaySerde \<Rightarrow> path \<Rightarrow> world \<Rightarrow> world \<times> (AssayError + Assayer)" where
  "Assayer_open Y root w =
     (case Store_open root w of
        (w1, Inl e) \<Rightarrow> (w1, Err (AssayStore e))
      | (w1, Inr store) \<Rightarrow>
          (let manifest_path = root @ [''manifest.json''] in
           case file_type_of manifest_path w1 of
             (w2, Inl _) \<Rightarrow> (w2, Ok \<lparr>as_store = store, as_manifest = Manifest_new, as_manifest_path = manifest_path\<rparr>)
           | (w2, Inr _) \<Rightarrow>
               (case fs_read manifest_path w2 of
                  (w3, Inl e) \<Rightarrow> (w3, Err (AssayStore (StoreIo e)))
                | (w3, Inr b) \<Rightarrow>
                    (w3, Ok \<lparr>as_store = store,
                             as_manifest = (case ay_from_slice Y b of Some m \<Rightarrow> m | None \<Rightarrow> Manifest_new),
                             as_manifest_path = manifest_path\<rparr>))))"

definition assay_persist :: "AssaySerde \<Rightarrow> Assayer \<Rightarrow> unit io" where
  "assay_persist Y a = fs_write (as_manifest_path a) (ay_pretty Y (as_manifest a))"

text \<open>The end of every change: sign the manifest and write it, ignoring a failure to write.\<close>

definition assay_signed :: "AssaySerde \<Rightarrow> Manifest \<Rightarrow> Assayer \<Rightarrow> world \<Rightarrow> world \<times> Assayer" where
  "assay_signed Y m a w =
     (let a' = a\<lparr>as_manifest := sign_standin (ay_hash Y) (ay_to_vec Y) m\<rparr> in (fst (assay_persist Y a' w), a'))"

text \<open>Storing bytes and admitting their entry.\<close>

definition assay_put ::
  "AssaySerde \<Rightarrow> string \<Rightarrow> bytes \<Rightarrow> bool \<Rightarrow> Tier \<Rightarrow> Author \<Rightarrow> hash option \<Rightarrow> hash assay_op" where
  "assay_put Y a_alias b interp tier author recipe a w =
     (case Store_put (ay_hash Y) (as_store a) b w of
        (w1, Inl e) \<Rightarrow> (w1, a, Err (AssayStore e))
      | (w1, Inr h) \<Rightarrow>
          (case assay_signed Y
                  (fst (admit \<lparr>entry_alias = a_alias, entry_hash = h, entry_tier = tier, entry_interpreter = interp,
                               entry_author = author, entry_recipe = recipe\<rparr> (as_manifest a))) a w1 of
             (w2, a') \<Rightarrow> (w2, a', Ok h)))"

definition admit_verified_authored :: "AssaySerde \<Rightarrow> string \<Rightarrow> bytes \<Rightarrow> bool \<Rightarrow> Author \<Rightarrow> hash assay_op" where
  "admit_verified_authored Y a_alias b interp author = assay_put Y a_alias b interp Verified author None"

definition admit_verified :: "AssaySerde \<Rightarrow> string \<Rightarrow> bytes \<Rightarrow> bool \<Rightarrow> hash assay_op" where
  "admit_verified Y a_alias b interp = admit_verified_authored Y a_alias b interp AuthorHost"

definition admit_forged_authored :: "AssaySerde \<Rightarrow> string \<Rightarrow> bytes \<Rightarrow> bool \<Rightarrow> Author \<Rightarrow> Proof \<Rightarrow> hash assay_op" where
  "admit_forged_authored Y a_alias b interp author pf a w =
     (if pf_artifact pf \<noteq> ay_hash Y b then (w, a, Err ProofMismatch)
      else (case (if pf_reproduced pf then (Forged, Some (pf_recipe pf)) else (Verified, None)) of
              (tier, recipe) \<Rightarrow> assay_put Y a_alias b interp tier author recipe a w))"

definition admit_unsealed :: "AssaySerde \<Rightarrow> string \<Rightarrow> bytes \<Rightarrow> bool \<Rightarrow> hash assay_op" where
  "admit_unsealed Y a_alias b interp = assay_put Y a_alias b interp Unsealed AuthorHost None"

text \<open>\<open>resolve\<close>: a hit is on the content, not on the name; everything else is admitted afresh.\<close>

definition warm_hit :: "AssaySerde \<Rightarrow> string \<Rightarrow> bytes \<Rightarrow> Manifest \<Rightarrow> Entry option" where
  "warm_hit Y a_alias b m =
     (case resolve_alias m a_alias of
        Some e \<Rightarrow> if entry_hash e = ay_hash Y b \<and> \<not> is_revoked m (entry_hash e) then Some e else None
      | None \<Rightarrow> None)"

definition resolve_cold :: "AssaySerde \<Rightarrow> string \<Rightarrow> bytes \<Rightarrow> bool \<Rightarrow> Resolved assay_op" where
  "resolve_cold Y a_alias b interp a w =
     (case assay_put Y a_alias b interp Verified AuthorHost None a w of
        (w', a', Inl e) \<Rightarrow> (w', a', Inl e)
      | (w', a', Inr h) \<Rightarrow>
          (w', a', Ok \<lparr>rs_hash = h, rs_tier = Verified, rs_warm = False, rs_upgrade_queued = False\<rparr>))"

definition assay_resolve :: "AssaySerde \<Rightarrow> string \<Rightarrow> bytes \<Rightarrow> bool \<Rightarrow> Resolved assay_op" where
  "assay_resolve Y a_alias b interp0 a w =
     (case warm_hit Y a_alias b (as_manifest a) of
        Some e \<Rightarrow>
          (let interp = (interp0 \<or> entry_interpreter e) in
           if entry_interpreter e = interp
           then (w, a, Ok \<lparr>rs_hash = entry_hash e, rs_tier = entry_tier e, rs_warm = True, rs_upgrade_queued = False\<rparr>)
           else resolve_cold Y a_alias b interp a w)
      | None \<Rightarrow> resolve_cold Y a_alias b interp0 a w)"

definition assay_revoke :: "AssaySerde \<Rightarrow> hash \<Rightarrow> Assayer \<Rightarrow> world \<Rightarrow> world \<times> Assayer" where
  "assay_revoke Y h a w = assay_signed Y (revoke h (as_manifest a)) a w"

definition assay_fetch :: "AssaySerde \<Rightarrow> hash \<Rightarrow> bytes assay_op" where
  "assay_fetch Y h a w =
     (case Store_get (ay_hash Y) (as_store a) h w of
        (w', Inl e) \<Rightarrow> (w', a, Err (AssayStore e))
      | (w', Inr b) \<Rightarrow> (w', a, Ok b))"

section \<open>Every attested entry is in the store\<close>

definition entry_names :: "Manifest \<Rightarrow> string set" where
  "entry_names m = {x. bt_get (entries m) (Hash (''blake3:'' @ x)) \<noteq> None}"

definition assay_inv :: "AssaySerde \<Rightarrow> path \<Rightarrow> Assayer \<Rightarrow> world \<Rightarrow> bool" where
  "assay_inv Y root a w \<longleftrightarrow>
     st_objects (as_store a) = root @ [''objects''] \<and> as_manifest_path a = root @ [''manifest.json'']
     \<and> bt_invar (entries (as_manifest a))
     \<and> (\<forall>h e. bt_get (entries (as_manifest a)) h = Some e \<longrightarrow>
          entry_hash e = h \<and> (\<exists>x. hex_name x \<and> h = Hash (''blake3:'' @ x)))
     \<and> objects_ok (ay_hash Y) (as_store a) (entry_names (as_manifest a)) (w_fs w)"

lemma manifest_not_object:
  "st_objects st = root @ [''objects''] \<Longrightarrow> root @ [''manifest.json''] \<noteq> object_path st x"
  by (auto simp: object_path_def)

lemma persist_keeps:
  assumes "st_objects (as_store a) = root @ [''objects'']" "as_manifest_path a = root @ [''manifest.json'']"
    and "objects_ok H (as_store a) X (w_fs w)"
  shows "objects_ok H (as_store a) X (w_fs (fst (assay_persist Y a w)))"
  using keeps_write [of "as_manifest_path a" "as_store a" H X] manifest_not_object [OF assms(1)] assms(2,3)
  unfolding assay_persist_def keeps_def by simp

lemma assay_signed_inv:
  assumes "assay_inv Y root a w" "entries m = entries (as_manifest a)"
  shows "assay_inv Y root (snd (assay_signed Y m a w)) (fst (assay_signed Y m a w))"
  using assms persist_keeps [of "a\<lparr>as_manifest := sign_standin (ay_hash Y) (ay_to_vec Y) m\<rparr>" root "ay_hash Y"
      "entry_names (as_manifest a)" w Y]
  by (simp add: assay_inv_def assay_signed_def Let_def sign_standin_def entry_names_def)

lemma assay_put_inv:
  assumes "assay_inv Y root a w" "assay_put Y al b i t au rc a w = (w', a', r)"
  shows "assay_inv Y root a' w'"
proof -
  let ?H = "ay_hash Y" and ?X = "entry_names (as_manifest a)"
  have ok: "objects_ok ?H (as_store a) ?X (w_fs w)" using assms(1) by (simp add: assay_inv_def)
  obtain w1 r1 where put: "Store_put ?H (as_store a) b w = (w1, r1)" by fastforce
  have ok1: "objects_ok ?H (as_store a) ?X (w_fs w1)"
    using put_keeps [of ?H "as_store a" ?X b] ok put by (metis fst_conv keeps_def)
  show ?thesis
  proof (cases r1)
    case (Inl e)
    then show ?thesis using assms put ok1 by (simp add: assay_put_def assay_inv_def)
  next
    case (Inr h)
    let ?e = "\<lparr>entry_alias = al, entry_hash = h, entry_tier = t, entry_interpreter = i, entry_author = au, entry_recipe = rc\<rparr>"
    let ?m = "sign_standin ?H (ay_to_vec Y) (fst (admit ?e (as_manifest a)))"
    obtain x where x: "hex_name x" "h = Hash (''blake3:'' @ x)" "fs_kind (w_fs w1) (object_path (as_store a) x) \<noteq> None"
      using put_present [OF put [unfolded Inr] ok] by blast
    have inv: "bt_invar (entries (as_manifest a))" using assms(1) by (simp add: assay_inv_def)
    have m: "entries ?m = bt_insert h ?e (entries (as_manifest a))" by (simp add: sign_standin_def admit_def)
    have "entry_names ?m = insert x ?X"
      unfolding entry_names_def m using inv x(2) by (auto simp: bt_simps)
    then have "objects_ok ?H (as_store a) (entry_names ?m) (w_fs w1)"
      using ok1 x(3) by (simp add: objects_ok_def)
    then have "objects_ok ?H (as_store a) (entry_names ?m) (w_fs (fst (assay_persist Y (a\<lparr>as_manifest := ?m\<rparr>) w1)))"
      using persist_keeps [of "a\<lparr>as_manifest := ?m\<rparr>" root ?H] assms(1) by (simp add: assay_inv_def)
    moreover have "a' = a\<lparr>as_manifest := ?m\<rparr>" "w' = fst (assay_persist Y (a\<lparr>as_manifest := ?m\<rparr>) w1)"
      using assms(2) put Inr by (auto simp: assay_put_def assay_signed_def Let_def)
    ultimately show ?thesis
      using assms(1) inv x m by (auto simp: assay_inv_def bt_simps)
  qed
qed

lemma resolve_cold_inv:
  assumes "assay_inv Y root a w" "resolve_cold Y al b i a w = (w', a', r)"
  shows "assay_inv Y root a' w'"
proof -
  obtain w1 a1 r1 where put: "assay_put Y al b i Verified AuthorHost None a w = (w1, a1, r1)"
    using prod_cases3 by blast
  then have "w' = w1 \<and> a' = a1" using assms(2) by (cases r1) (auto simp: resolve_cold_def)
  then show ?thesis using assay_put_inv [OF assms(1) put] by simp
qed

lemma assay_resolve_inv:
  assumes "assay_inv Y root a w" "assay_resolve Y al b i a w = (w', a', r)"
  shows "assay_inv Y root a' w'"
proof (cases "warm_hit Y al b (as_manifest a)")
  case None
  then show ?thesis using assms resolve_cold_inv by (simp add: assay_resolve_def)
next
  case (Some e)
  then show ?thesis
    using assms resolve_cold_inv [OF assms(1)] by (auto simp: assay_resolve_def Let_def split: if_splits)
qed

datatype AssayOp =
    AsVerified string bytes bool Author
  | AsForged string bytes bool Author Proof
  | AsUnsealed string bytes bool
  | AsResolve string bytes bool
  | AsRevoke hash
  | AsFetch hash

text \<open>One operation under its own faults; the state is the assayer with its disk.\<close>

definition assay_step :: "AssaySerde \<Rightarrow> AssayOp \<times> fault list \<Rightarrow> Assayer \<times> world \<Rightarrow> (Assayer \<times> world) \<times> unit" where
  "assay_step Y op s =
     (let a = fst s; w = (snd s)\<lparr>w_faults := snd op\<rparr> in
      case fst op of
        AsVerified al b i au \<Rightarrow> (case admit_verified_authored Y al b i au a w of (w', a', _) \<Rightarrow> ((a', w'), ()))
      | AsForged al b i au pf \<Rightarrow> (case admit_forged_authored Y al b i au pf a w of (w', a', _) \<Rightarrow> ((a', w'), ()))
      | AsUnsealed al b i \<Rightarrow> (case admit_unsealed Y al b i a w of (w', a', _) \<Rightarrow> ((a', w'), ()))
      | AsResolve al b i \<Rightarrow> (case assay_resolve Y al b i a w of (w', a', _) \<Rightarrow> ((a', w'), ()))
      | AsRevoke h \<Rightarrow> (case assay_revoke Y h a w of (w', a') \<Rightarrow> ((a', w'), ()))
      | AsFetch h \<Rightarrow> (case assay_fetch Y h a w of (w', a', _) \<Rightarrow> ((a', w'), ())))"

lemma assay_step_inv:
  assumes "assay_inv Y root (fst s) (snd s)"
  shows "assay_inv Y root (fst (fst (assay_step Y op s))) (snd (fst (assay_step Y op s)))"
proof -
  let ?w = "(snd s)\<lparr>w_faults := snd op\<rparr>"
  have w: "assay_inv Y root (fst s) ?w" using assms by (simp add: assay_inv_def)
  have get: "assay_inv Y root (fst s) (fst (Store_get H (as_store (fst s)) h ?w))" for H h
    using get_keeps [of "\<lambda>fs. objects_ok (ay_hash Y) (as_store (fst s)) (entry_names (as_manifest (fst s))) fs" H "as_store (fst s)" h "2 ^ 64 - 1"] w
    unfolding Store_get_def keeps_def assay_inv_def by blast
  show ?thesis
  proof (cases "fst op")
    case (AsVerified al b i au)
    then show ?thesis
      using assay_put_inv [OF w] by (auto simp: assay_step_def Let_def admit_verified_authored_def split: prod.split)
  next
    case (AsForged al b i au pf)
    then show ?thesis
      using assay_put_inv [OF w] w by (auto simp: assay_step_def Let_def admit_forged_authored_def split: prod.split)
  next
    case (AsUnsealed al b i)
    then show ?thesis
      using assay_put_inv [OF w] by (auto simp: assay_step_def Let_def admit_unsealed_def split: prod.split)
  next
    case (AsResolve al b i)
    then show ?thesis
      using assay_resolve_inv [OF w] by (auto simp: assay_step_def Let_def split: prod.split)
  next
    case (AsRevoke h)
    then show ?thesis
      using assay_signed_inv [OF w, of "revoke h (as_manifest (fst s))"]
      by (auto simp: assay_step_def Let_def assay_revoke_def revoke_def split: prod.split)
  next
    case (AsFetch h)
    then show ?thesis
      using get [of "ay_hash Y" h] by (auto simp: assay_step_def Let_def assay_fetch_def split: prod.split sum.split)
  qed
qed

section \<open>Properties\<close>

text \<open>
  Whatever the manifest attests can be fetched. From an assayer whose attested entries
  are all in its store (a new one has none), after any sequence of admissions, resolutions,
  revocations and fetches, each with any I/O failures, every hash the manifest attests has
  its object in the store, with exactly the bytes of that hash, and a fetch without failures
  returns them unchanged. The only condition is that the object is shorter than the address
  space.
\<close>

theorem assay_attested_fetchable:
  assumes "assay_inv Y root a w" "(a', w') = run_final (assay_step Y) (a, w) ops"
    and "Manifest_get (as_manifest a') h = Some e"
  shows "\<exists>b. ay_hash Y b = h
     \<and> (length b < 2 ^ 64 - 1 \<longrightarrow> assay_fetch Y h a' (w'\<lparr>w_faults := []\<rparr>) = (w'\<lparr>w_faults := []\<rparr>, a', Ok b))"
proof -
  have "assay_inv Y root (fst (run_final (assay_step Y) (a, w) ops)) (snd (run_final (assay_step Y) (a, w) ops))"
    by (rule run_final_inv [where P = "\<lambda>s. assay_inv Y root (fst s) (snd s)"])
      (use assms(1) assay_step_inv in auto)
  then have inv: "assay_inv Y root a' w'" using assms(2) by (metis fst_conv snd_conv)
  then obtain x where x: "hex_name x" "h = Hash (''blake3:'' @ x)"
    using assms(3) unfolding assay_inv_def Manifest_get_def by blast
  have ok: "objects_ok (ay_hash Y) (as_store a') (entry_names (as_manifest a')) (w_fs w')"
    using inv by (simp add: assay_inv_def)
  have "x \<in> entry_names (as_manifest a')" using assms(3) x(2) by (simp add: entry_names_def Manifest_get_def)
  then obtain b where b: "fs_kind (w_fs w') (object_path (as_store a') x) = Some (File b)" "ay_hash Y b = h"
    using ok x unfolding objects_ok_def by blast
  have "assay_fetch Y h a' (w'\<lparr>w_faults := []\<rparr>) = (w'\<lparr>w_faults := []\<rparr>, a', Ok b)" if "length b < 2 ^ 64 - 1"
    using get_bounded_calm [of "w'\<lparr>w_faults := []\<rparr>" x "ay_hash Y" "as_store a'" "2 ^ 64 - 1"] that b x
    by (simp add: assay_fetch_def Store_get_def Let_def)
  then show ?thesis using b(2) by blast
qed

definition sample_assay_serde :: AssaySerde where
  "sample_assay_serde =
     \<lparr>ay_hash = sample_content_hash, ay_to_vec = (\<lambda>_. []), ay_pretty = (\<lambda>_. []), ay_from_slice = (\<lambda>_. None)\<rparr>"

definition sample_assayer :: Assayer where
  "sample_assayer = \<lparr>as_store = sample_objects, as_manifest = Manifest_new, as_manifest_path = [''manifest.json'']\<rparr>"

lemma sample_assayer_inv: "assay_inv Y [] sample_assayer sample_disk"
  by (simp add: assay_inv_def sample_assayer_def sample_objects_def sample_disk_def Manifest_new_def entry_names_def
      objects_ok_def bt_invar_def fs_kind_def)

lemma sample_attested:
  "Manifest_get (as_manifest (fst (run_final (assay_step sample_assay_serde) (sample_assayer, sample_disk)
     [(AsVerified ''sh'' [1] True AuthorHost, [])]))) (sample_content_hash [1]) \<noteq> None"
  by code_simp

theorem assay_attested_fetchable_witness:
  "let s = run_final (assay_step sample_assay_serde) (sample_assayer, sample_disk) [(AsVerified ''sh'' [1] True AuthorHost, [])]
   in \<exists>b. ay_hash sample_assay_serde b = sample_content_hash [1]
      \<and> (length b < 2 ^ 64 - 1 \<longrightarrow>
           assay_fetch sample_assay_serde (sample_content_hash [1]) (fst s) ((snd s)\<lparr>w_faults := []\<rparr>)
             = ((snd s)\<lparr>w_faults := []\<rparr>, fst s, Ok b))"
proof -
  let ?s = "run_final (assay_step sample_assay_serde) (sample_assayer, sample_disk) [(AsVerified ''sh'' [1] True AuthorHost, [])]"
  obtain e where "Manifest_get (as_manifest (fst ?s)) (sample_content_hash [1]) = Some e" using sample_attested by blast
  from assay_attested_fetchable [OF sample_assayer_inv _ this, of "snd ?s" sample_assay_serde] show ?thesis
    unfolding Let_def by (metis prod.collapse)
qed

text \<open>
  C40: The interpreter mark of a tool is sticky only under its own name. When the alias
  already resolves to the same bytes, a resolution never loses the mark: afterwards the
  entry of those bytes is an interpreter if it was one or the caller says so. Under any
  alias that does not, the entry of the same bytes is replaced, and the mark is exactly what
  this caller says, whatever was declared before; a tool once declared an interpreter can so
  become one that runs tainted input in the tool lane.
\<close>

theorem assay_interpreter_mark:
  assumes "assay_resolve Y al b i a w = (w', a', Ok r)" "assay_inv Y root a w"
  shows "case warm_hit Y al b (as_manifest a) of
      Some e \<Rightarrow> \<exists>e'. Manifest_get (as_manifest a') (ay_hash Y b) = Some e'
                 \<and> entry_interpreter e' = (i \<or> entry_interpreter e)
    | None \<Rightarrow> \<exists>e'. Manifest_get (as_manifest a') (ay_hash Y b) = Some e' \<and> entry_interpreter e' = i
                 \<and> (\<not> i \<longrightarrow> \<not> is_revoked (as_manifest a') (ay_hash Y b) \<longrightarrow>
                      resolve_exec_lane e' (InputFile LaneData) = LaneTool)"
proof -
  have cold: "\<exists>e'. Manifest_get (as_manifest a1) (ay_hash Y b) = Some e' \<and> entry_interpreter e' = j
      \<and> entry_author e' = AuthorHost \<and> entry_tier e' = Verified"
    if run: "resolve_cold Y al b j a w = (w1, a1, Ok r1)" for j w1 a1 r1
  proof -
    obtain w2 h where put: "Store_put (ay_hash Y) (as_store a) b w = (w2, Ok h)"
      using run by (auto simp: resolve_cold_def assay_put_def split: prod.splits sum.splits)
    have ok: "objects_ok (ay_hash Y) (as_store a) (entry_names (as_manifest a)) (w_fs w)"
      and inv: "bt_invar (entries (as_manifest a))" using assms(2) by (simp_all add: assay_inv_def)
    have "h = ay_hash Y b" using put_present [OF put ok] by blast
    then show ?thesis
      using run put inv
      by (auto simp: resolve_cold_def assay_put_def assay_signed_def Let_def sign_standin_def admit_def Manifest_get_def bt_simps)
  qed
  show ?thesis
  proof (cases "warm_hit Y al b (as_manifest a)")
    case None
    then show ?thesis using assms(1) cold by (fastforce simp: assay_resolve_def resolve_exec_lane_def Let_def)
  next
    case (Some e)
    then have "e \<in> set (bt_values (entries (as_manifest a)))" "entry_hash e = ay_hash Y b"
      by (auto simp: warm_hit_def resolve_alias_def find_Some_iff split: option.splits if_splits)
    then have "Manifest_get (as_manifest a) (ay_hash Y b) = Some e"
      using assms(2) bt.in_entries_iff [of "entries (as_manifest a)"]
      by (force simp: assay_inv_def bt_values_def Manifest_get_def)
    then show ?thesis
      using assms(1) Some cold [of True w' a' r] by (auto simp: assay_resolve_def Let_def split: if_splits)
  qed
qed

definition sample_declared :: "Assayer \<times> world" where
  "sample_declared =
     run_final (assay_step sample_assay_serde) (sample_assayer, sample_disk) [(AsVerified ''sh'' [1] True AuthorHost, [])]"

theorem assay_interpreter_mark_witness:
  "let again = assay_resolve sample_assay_serde ''dash'' [1] False (fst sample_declared) (snd sample_declared);
       h = sample_content_hash [1]
   in (\<exists>e. Manifest_get (as_manifest (fst sample_declared)) h = Some e \<and> entry_interpreter e)
      \<and> (\<exists>e. Manifest_get (as_manifest (fst (snd again))) h = Some e \<and> \<not> entry_interpreter e
           \<and> resolve_exec_lane e (InputFile LaneData) = LaneTool)"
proof -
  let ?run = "assay_resolve sample_assay_serde ''dash'' [1] False (fst sample_declared) (snd sample_declared)"
  have inv: "assay_inv sample_assay_serde [] (fst sample_declared) (snd sample_declared)"
    unfolding sample_declared_def
    by (rule run_final_inv [where P = "\<lambda>s. assay_inv sample_assay_serde [] (fst s) (snd s)"])
      (use sample_assayer_inv assay_step_inv in auto)
  have "is_ok (snd (snd ?run))" by code_simp
  then obtain r where "?run = (fst ?run, fst (snd ?run), Ok r)" by (metis is_ok_iff prod.collapse)
  note mark = assay_interpreter_mark [OF this inv]
  have cold: "warm_hit sample_assay_serde ''dash'' [1] (as_manifest (fst sample_declared)) = None" by code_simp
  have live: "\<not> is_revoked (as_manifest (fst (snd ?run))) (sample_content_hash [1])" by code_simp
  have declared: "case Manifest_get (as_manifest (fst sample_declared)) (sample_content_hash [1]) of
      Some e \<Rightarrow> entry_interpreter e | None \<Rightarrow> False" by code_simp
  have hash: "ay_hash sample_assay_serde [1] = sample_content_hash [1]" by (simp add: sample_assay_serde_def)
  show ?thesis
    using mark cold live declared unfolding Let_def hash by (auto split: option.splits)
qed

end
