(* ===== verification/Report.thy ===== *)
theory Report
  imports Prelude
begin

text \<open>
  \<open>celln-cli/src/dispatch_outcome.rs\<close>: what the dispatcher concludes from the console of a
  finished cell. Only frames printed by the supervisor inside the cell carry a verdict
  (\<open>celln-pilot/src/dispatch_report.rs\<close>).

  \<open>next_frame\<close> is the JSON stream deserializer: on a text it gives nothing when there is no
  value, an error with its column, or a frame with the offset after it. Denials are kept as
  data; the wording around them, and the excerpts of offending lines, are not modelled. The
  outcome's fields that the parser leaves at their defaults are left out.
\<close>

section \<open>Frames\<close>

record ExecutionGrant =
  eg_tool :: string
  eg_lane :: string
  eg_workspace :: "string option"
  eg_fetch :: bool

datatype Frame =
    Started ExecutionGrant
  | Inputs "string list"
  | Output bytes
  | Exit "32 word"
  | Signal "32 word"
  | Failed string

datatype Defect =
    NotNegotiated "string option" "string option"
  | AfterTerminal string
  | Unreadable string "nat option" string
  | OutOfOrder string

datatype Denial =
    ExitedWith "32 word" | TerminatedBy "32 word" | FailedWith string
  | TimedOut | RejectedReport Defect | NoTerminalFrame | NoCleanShutdown

record LaunchOutcome =
  lo_execution :: "ExecutionGrant option"
  lo_input_hashes :: "string list"
  lo_cell_id :: string
  lo_output :: "bytes option"
  lo_denial :: "Denial option"
  lo_exit_code :: "32 word option"
  lo_signal :: "32 word option"
  lo_timed_out :: bool

definition LaunchOutcome_succeeded :: "LaunchOutcome \<Rightarrow> bool" where
  "LaunchOutcome_succeeded r \<longleftrightarrow> lo_exit_code r = Some 0 \<and> lo_signal r = None \<and> \<not> lo_timed_out r \<and> lo_denial r = None"

definition PREFIX :: string where "PREFIX = ''CELLN:dispatch=''"
definition PROTOCOL :: string where "PROTOCOL = ''CELLN:dispatch-protocol=5''"

type_synonym frame_reader = "string \<Rightarrow> ((string \<times> nat) + (Frame \<times> nat)) option"

definition console_lines :: "string \<Rightarrow> string list" where
  "console_lines s = map bytes_str (str_lines (as_bytes s))"

definition frame_kind :: "Frame \<Rightarrow> string" where
  "frame_kind f =
     (case f of Started _ \<Rightarrow> ''started'' | Inputs _ \<Rightarrow> ''inputs'' | Output _ \<Rightarrow> ''output''
      | Exit _ \<Rightarrow> ''exit'' | Signal _ \<Rightarrow> ''signal'' | Failed _ \<Rightarrow> ''failed'')"

section \<open>Negotiation\<close>

definition report_marker :: "string \<Rightarrow> string \<Rightarrow> bool" where
  "report_marker line expected =
     (case strip_prefix expected line of
        None \<Rightarrow> False
      | Some rest \<Rightarrow>
          (case rest of
             c # _ \<Rightarrow> \<not> (is_ascii_alphanumeric c \<or> c \<in> set ''=-_.'')
           | [] \<Rightarrow> True))"

definition negotiated :: "string \<Rightarrow> Defect + unit" where
  "negotiated console =
     (let pilot = dropWhile (\<lambda>l. \<not> report_marker l ''CELLN:pilot=alive'')
                    (filter (starts_with ''CELLN:'') (console_lines console));
          first = (case pilot of l # _ \<Rightarrow> Some l | [] \<Rightarrow> None);
          second = (case pilot of _ # l # _ \<Rightarrow> Some l | _ \<Rightarrow> None)
      in if first \<noteq> None \<and> (case second of Some l \<Rightarrow> report_marker l PROTOCOL | None \<Rightarrow> False)
         then Ok () else Err (NotNegotiated first second))"

section \<open>Reading frames\<close>

definition parse_frame_at :: "frame_reader \<Rightarrow> string \<Rightarrow> (string \<times> nat option) + Frame" where
  "parse_frame_at next_frame json =
     (case next_frame json of
        Some (Inr (frame, offset)) \<Rightarrow>
          (let rest = drop offset json in
           if contains_seq PREFIX rest \<or> starts_with ''{'' (trim_start rest)
           then Err (''trailing frame data'', Some offset) else Ok frame)
      | Some (Inl (message, column)) \<Rightarrow> Err (message, Some column)
      | None \<Rightarrow> Err (''empty frame'', None))"

record report_state =
  rp_result :: LaunchOutcome
  rp_terminal :: bool
  rp_inputs_seen :: bool
  rp_output_seen :: bool
  rp_defect :: "Defect option"

definition get_or_insert :: "Defect \<Rightarrow> report_state \<Rightarrow> report_state" where
  "get_or_insert d s = (case rp_defect s of None \<Rightarrow> s\<lparr>rp_defect := Some d\<rparr> | Some _ \<Rightarrow> s)"

definition report_frame :: "nat \<Rightarrow> Frame \<Rightarrow> report_state \<Rightarrow> report_state" where
  "report_frame limit frame s =
     (let r = rp_result s; other = get_or_insert (OutOfOrder (frame_kind frame)) s in
      case frame of
        Started grant \<Rightarrow>
          if lo_execution r = None \<and> \<not> rp_output_seen s
          then s\<lparr>rp_result := r\<lparr>lo_execution := Some grant\<rparr>\<rparr> else other
      | Inputs hashes \<Rightarrow>
          if \<not> rp_inputs_seen s \<and> \<not> rp_output_seen s \<and> lo_execution r = None \<and> length hashes \<le> 16
          then s\<lparr>rp_inputs_seen := True, rp_result := r\<lparr>lo_input_hashes := hashes\<rparr>\<rparr> else other
      | Output bs \<Rightarrow>
          (case lo_output r of
             Some output \<Rightarrow>
               s\<lparr>rp_output_seen := True,
                 rp_result := r\<lparr>lo_output := Some (output @ take (limit - length output) bs)\<rparr>\<rparr>
           | None \<Rightarrow> s)
      | Exit code \<Rightarrow>
          if 0 \<le> sint code \<and> sint code \<le> 255
          then s\<lparr>rp_terminal := True,
                 rp_result := r\<lparr>lo_exit_code := Some code,
                                lo_denial := (if code \<noteq> 0 then Some (ExitedWith code) else lo_denial r)\<rparr>\<rparr>
          else other
      | Signal signal \<Rightarrow>
          if 1 \<le> sint signal \<and> sint signal \<le> 64
          then s\<lparr>rp_terminal := True, rp_result := r\<lparr>lo_signal := Some signal, lo_denial := Some (TerminatedBy signal)\<rparr>\<rparr>
          else other
      | Failed reason \<Rightarrow>
          s\<lparr>rp_terminal := True, rp_result := r\<lparr>lo_denial := Some (FailedWith reason)\<rparr>\<rparr>)"

definition report_line :: "frame_reader \<Rightarrow> nat \<Rightarrow> string \<Rightarrow> report_state \<Rightarrow> report_state" where
  "report_line next_frame limit line s =
     (case strip_prefix PREFIX line of
        None \<Rightarrow> s
      | Some json \<Rightarrow>
          if rp_terminal s then get_or_insert (AfterTerminal json) s
          else (case parse_frame_at next_frame json of
                  Inl (error, column) \<Rightarrow> get_or_insert (Unreadable error column json) s
                | Inr frame \<Rightarrow> report_frame limit frame s))"

definition parse_report :: "frame_reader \<Rightarrow> string \<Rightarrow> string \<Rightarrow> nat \<Rightarrow> bool \<Rightarrow> bool \<Rightarrow> LaunchOutcome" where
  "parse_report next_frame console cell_id limit timed_out shutdown =
     (let result = \<lparr>lo_execution = None, lo_input_hashes = [], lo_cell_id = cell_id, lo_output = Some [], lo_denial = None,
                    lo_exit_code = None, lo_signal = None, lo_timed_out = timed_out\<rparr>;
          s0 = \<lparr>rp_result = result, rp_terminal = False, rp_inputs_seen = False, rp_output_seen = False,
                rp_defect = (case negotiated console of Inl d \<Rightarrow> Some d | Inr _ \<Rightarrow> None)\<rparr>;
          s = fold (report_line next_frame limit) (console_lines console) s0;
          denial = (if timed_out then Some TimedOut
                    else case rp_defect s of
                           Some d \<Rightarrow> Some (RejectedReport d)
                         | None \<Rightarrow> if \<not> rp_terminal s then Some NoTerminalFrame
                                   else if \<not> shutdown then Some NoCleanShutdown
                                   else lo_denial (rp_result s));
          r = (rp_result s)\<lparr>lo_denial := denial\<rparr>
      in if rp_defect s \<noteq> None
         then r\<lparr>lo_execution := None, lo_input_hashes := [], lo_exit_code := None, lo_signal := None\<rparr>
         else r)"

section \<open>The grammar of an accepted report\<close>

text \<open>The frames of a console in order, each read or not.\<close>

definition report_items :: "frame_reader \<Rightarrow> string \<Rightarrow> (string \<times> ((string \<times> nat option) + Frame)) list" where
  "report_items next_frame console =
     map (\<lambda>json. (json, parse_frame_at next_frame json)) (List.map_filter (strip_prefix PREFIX) (console_lines console))"

definition report_item :: "nat \<Rightarrow> string \<times> ((string \<times> nat option) + Frame) \<Rightarrow> report_state \<Rightarrow> report_state" where
  "report_item limit x s =
     (if rp_terminal s then get_or_insert (AfterTerminal (fst x)) s
      else (case snd x of
              Inl (error, column) \<Rightarrow> get_or_insert (Unreadable error column (fst x)) s
            | Inr frame \<Rightarrow> report_frame limit frame s))"

lemma report_line_item:
  "report_line nf limit l =
     (case strip_prefix PREFIX l of None \<Rightarrow> (\<lambda>s. s) | Some json \<Rightarrow> report_item limit (json, parse_frame_at nf json))"
  by (rule ext) (auto simp: report_line_def report_item_def split: option.split sum.split)

lemma fold_report_lines:
  "fold (report_line nf limit) ls s =
     fold (report_item limit) (map (\<lambda>json. (json, parse_frame_at nf json)) (List.map_filter (strip_prefix PREFIX) ls)) s"
  by (induction ls arbitrary: s) (simp_all add: map_filter_simps report_line_item split: option.split)

text \<open>At most one inputs frame, at most one start, any output, and the exit code zero last.\<close>

fun report_grammar :: "bool \<Rightarrow> bool \<Rightarrow> Frame list \<Rightarrow> bool" where
  "report_grammar i st [] = False"
| "report_grammar i st (Inputs h # fs) = (i \<and> length h \<le> 16 \<and> report_grammar False st fs)"
| "report_grammar i st (Started g # fs) = (st \<and> report_grammar False False fs)"
| "report_grammar i st (Output b # fs) = report_grammar False False fs"
| "report_grammar i st (Exit c # fs) = (c = 0 \<and> fs = [])"
| "report_grammar i st (Signal c # fs) = False"
| "report_grammar i st (Failed r # fs) = False"

definition accepted_frames :: "string list option \<Rightarrow> ExecutionGrant option \<Rightarrow> bytes list \<Rightarrow> Frame list" where
  "accepted_frames ins st outs =
     (case ins of Some h \<Rightarrow> [Inputs h] | None \<Rightarrow> []) @ (case st of Some g \<Rightarrow> [Started g] | None \<Rightarrow> [])
     @ map Output outs @ [Exit 0]"

lemma grammar_outputs: "report_grammar False False fs \<longleftrightarrow> (\<exists>outs. fs = accepted_frames None None outs)"
proof (induction fs)
  case (Cons f fs)
  show ?case
  proof (cases f)
    case (Output b)
    then have "report_grammar False False (f # fs) \<longleftrightarrow> (\<exists>outs. fs = accepted_frames None None outs)" using Cons by simp
    also have "\<dots> \<longleftrightarrow> (\<exists>outs. f # fs = accepted_frames None None outs)"
      unfolding Output accepted_frames_def by (auto simp: Cons_eq_append_conv Cons_eq_map_conv)
    finally show ?thesis .
  qed (auto simp: accepted_frames_def Cons_eq_append_conv Cons_eq_map_conv)
qed (simp add: accepted_frames_def)

lemma accepted_parts:
  "accepted_frames (Some h) st outs = Inputs h # accepted_frames None st outs"
  "accepted_frames None (Some g) outs = Started g # accepted_frames None None outs"
  by (simp_all add: accepted_frames_def)

lemma grammar_started: "report_grammar False True fs \<longleftrightarrow> (\<exists>st outs. fs = accepted_frames None st outs)"
proof -
  have "report_grammar False True fs \<longleftrightarrow>
      report_grammar False False fs \<or> (\<exists>g gs. fs = Started g # gs \<and> report_grammar False False gs)"
    by (cases fs; cases "hd fs") auto
  then show ?thesis unfolding grammar_outputs by (auto simp: split_option_ex accepted_parts)
qed

lemma grammar_whole:
  "report_grammar True True fs \<longleftrightarrow>
     (\<exists>ins st outs. fs = accepted_frames ins st outs \<and> (case ins of Some h \<Rightarrow> length h \<le> 16 | None \<Rightarrow> True))"
    (is "_ \<longleftrightarrow> ?R")
proof -
  have cut: "report_grammar True True fs \<longleftrightarrow>
      report_grammar False True fs \<or> (\<exists>h gs. fs = Inputs h # gs \<and> length h \<le> 16 \<and> report_grammar False True gs)"
    by (cases fs; cases "hd fs") auto
  have "?R \<longleftrightarrow> (\<exists>st outs. fs = accepted_frames None st outs)
      \<or> (\<exists>h. length h \<le> 16 \<and> (\<exists>st outs. fs = Inputs h # accepted_frames None st outs))"
    by (subst split_option_ex) (simp add: accepted_parts conj_commute)
  then show ?thesis unfolding cut grammar_started by blast
qed

section \<open>What the parser accepts\<close>

definition report_live :: "report_state \<Rightarrow> bool" where
  "report_live s \<longleftrightarrow> \<not> rp_terminal s \<and> rp_defect s = None \<and> lo_denial (rp_result s) = None \<and> lo_output (rp_result s) \<noteq> None"

definition report_accepted :: "report_state \<Rightarrow> bool" where
  "report_accepted s \<longleftrightarrow> rp_terminal s \<and> rp_defect s = None \<and> lo_denial (rp_result s) = None"

lemma get_or_insert_defect [simp]: "rp_defect (get_or_insert d s) \<noteq> None"
  by (simp add: get_or_insert_def split: option.split)

lemma report_frame_defect: "rp_defect s \<noteq> None \<Longrightarrow> rp_defect (report_frame limit f s) \<noteq> None"
  by (cases f) (auto simp: report_frame_def Let_def get_or_insert_def split: option.split)

lemma report_item_defect: "rp_defect s \<noteq> None \<Longrightarrow> rp_defect (report_item limit x s) \<noteq> None"
  using report_frame_defect [of s limit] by (auto simp: report_item_def simp del: not_None_eq split: sum.split)

lemma fold_defect: "rp_defect s \<noteq> None \<Longrightarrow> rp_defect (fold (report_item limit) xs s) \<noteq> None"
  by (induction xs arbitrary: s) (simp_all del: not_None_eq add: report_item_defect)

lemma fold_terminal:
  assumes "rp_terminal s"
  shows "report_accepted (fold (report_item limit) xs s) \<longleftrightarrow> xs = [] \<and> report_accepted s"
proof (cases xs)
  case (Cons x ys)
  have "rp_defect (fold (report_item limit) xs s) \<noteq> None"
    unfolding Cons using assms by (simp del: not_None_eq add: fold_defect report_item_def)
  then show ?thesis using Cons by (simp add: report_accepted_def)
qed simp

lemma fold_accepts:
  assumes "report_live s"
  shows "report_accepted (fold (report_item limit) xs s) \<longleftrightarrow>
    (\<exists>fs. map snd xs = map Inr fs
      \<and> report_grammar (\<not> rp_inputs_seen s \<and> \<not> rp_output_seen s \<and> lo_execution (rp_result s) = None)
          (lo_execution (rp_result s) = None \<and> \<not> rp_output_seen s) fs)"
  using assms
proof (induction xs arbitrary: s)
  case Nil
  then show ?case by (simp add: report_live_def report_accepted_def)
next
  case (Cons x xs)
  let ?I = "\<lambda>s. \<not> rp_inputs_seen s \<and> \<not> rp_output_seen s \<and> lo_execution (rp_result s) = None"
  let ?S = "\<lambda>s. lo_execution (rp_result s) = None \<and> \<not> rp_output_seen s"
  have live: "\<not> rp_terminal s" using Cons.prems by (simp add: report_live_def)
  show ?case
  proof (cases "snd x")
    case (Inl e)
    then have "rp_defect (report_item limit x s) \<noteq> None" using live by (simp del: not_None_eq add: report_item_def split: prod.split)
    then have "\<not> report_accepted (fold (report_item limit) (x # xs) s)"
      using fold_defect by (auto simp: report_accepted_def)
    then show ?thesis using Inl by auto
  next
    case (Inr f)
    let ?s = "report_frame limit f s"
    have step: "fold (report_item limit) (x # xs) s = fold (report_item limit) xs ?s"
      using Inr live by (simp add: report_item_def)
    have rhs: "(\<exists>fs. map snd (x # xs) = map Inr fs \<and> report_grammar (?I s) (?S s) fs)
        \<longleftrightarrow> (\<exists>fs. map snd xs = map Inr fs \<and> report_grammar (?I s) (?S s) (f # fs))"
      using Inr by (auto simp: Cons_eq_map_conv)
    consider (live) "report_live ?s" "\<And>fs. report_grammar (?I s) (?S s) (f # fs) = report_grammar (?I ?s) (?S ?s) fs"
      | (last) "rp_terminal ?s" "\<And>fs. report_grammar (?I s) (?S s) (f # fs) \<longleftrightarrow> fs = [] \<and> report_accepted ?s"
      | (bad) "rp_defect ?s \<noteq> None" "\<And>fs. \<not> report_grammar (?I s) (?S s) (f # fs)"
    proof (cases f)
      case (Started g)
      then show ?thesis using that Cons.prems
        by (cases "?S s") (auto simp: report_frame_def Let_def report_live_def simp del: not_None_eq)
    next
      case (Inputs h)
      then show ?thesis using that Cons.prems
        by (cases "?I s \<and> length h \<le> 16") (auto simp: report_frame_def Let_def report_live_def simp del: not_None_eq)
    next
      case (Output b)
      then show ?thesis using that(1) Cons.prems by (auto simp: report_frame_def Let_def report_live_def)
    next
      case (Exit c)
      then show ?thesis using that(2,3) Cons.prems
        by (cases "0 \<le> sint c \<and> sint c \<le> 255"; cases "c = 0")
          (auto simp: report_frame_def Let_def report_live_def report_accepted_def simp del: not_None_eq)
    next
      case (Signal c)
      then show ?thesis using that(2,3) Cons.prems
        by (cases "1 \<le> sint c \<and> sint c \<le> 64")
          (auto simp: report_frame_def Let_def report_live_def report_accepted_def simp del: not_None_eq)
    next
      case (Failed r)
      then show ?thesis using that(2) by (simp add: report_frame_def Let_def report_accepted_def)
    qed
    then show ?thesis
    proof cases
      case live
      show ?thesis unfolding step rhs live(2) by (rule Cons.IH [OF live(1)])
    next
      case last
      show ?thesis unfolding step rhs last(2) fold_terminal [OF last(1)] by auto
    next
      case bad
      then show ?thesis unfolding step rhs using fold_defect [OF bad(1)] by (simp add: report_accepted_def)
    qed
  qed
qed

lemma take_take_append: "take n (take n xs @ ys) = take n (xs @ ys)"
  by (simp add: min_def)

lemma outputs_result:
  assumes "map snd xs = map Inr (map Output outs @ [Exit 0])" "\<not> rp_terminal s" "lo_output (rp_result s) = Some out"
    and "length out \<le> limit"
  shows "rp_result (fold (report_item limit) xs s) =
    (rp_result s)\<lparr>lo_output := Some (take limit (out @ concat outs)), lo_exit_code := Some 0\<rparr>"
  using assms
proof (induction outs arbitrary: xs s out)
  case Nil
  then show ?case by (auto simp: map_eq_Cons_conv report_item_def report_frame_def Let_def)
next
  case (Cons b outs)
  then obtain x ys where xs: "xs = x # ys" "snd x = Inr (Output b)" "map snd ys = map Inr (map Output outs @ [Exit 0])"
    by (auto simp: map_eq_Cons_conv)
  let ?out = "take limit (out @ b)"
  let ?s = "s\<lparr>rp_output_seen := True, rp_result := (rp_result s)\<lparr>lo_output := Some ?out\<rparr>\<rparr>"
  have "report_item limit x s = ?s"
    using xs(2) Cons.prems by (simp add: report_item_def report_frame_def)
  moreover have "take limit (?out @ concat outs) = take limit (out @ concat (b # outs))"
    using take_take_append [of limit "out @ b"] by simp
  ultimately show ?case using Cons.IH [OF xs(3), of ?s ?out] Cons.prems xs(1) by simp
qed

lemma accepted_result:
  assumes "map snd xs = map Inr (accepted_frames ins st outs)" "case ins of Some h \<Rightarrow> length h \<le> 16 | None \<Rightarrow> True"
    and "s = \<lparr>rp_result = r, rp_terminal = False, rp_inputs_seen = False, rp_output_seen = False, rp_defect = None\<rparr>"
    and "lo_execution r = None" "lo_input_hashes r = []" "lo_output r = Some []"
  shows "rp_result (fold (report_item limit) xs s) =
    r\<lparr>lo_execution := st, lo_input_hashes := (case ins of Some h \<Rightarrow> h | None \<Rightarrow> []),
      lo_output := Some (take limit (concat outs)), lo_exit_code := Some 0\<rparr>"
proof -
  have started: "rp_result (fold (report_item limit) ys t) =
      (rp_result t)\<lparr>lo_execution := st, lo_output := Some (take limit (concat outs)), lo_exit_code := Some 0\<rparr>"
    if at: "map snd ys = map Inr (accepted_frames None st outs)" "\<not> rp_terminal t" "lo_output (rp_result t) = Some []"
      "lo_execution (rp_result t) = None" "\<not> rp_output_seen t" for ys t
  proof (cases st)
    case None
    then show ?thesis using outputs_result [of ys outs t "[]" limit] at by (simp add: accepted_frames_def)
  next
    case (Some g)
    then obtain y zs where ys: "ys = y # zs" "snd y = Inr (Started g)" "map snd zs = map Inr (map Output outs @ [Exit 0])"
      using at(1) by (auto simp: accepted_frames_def map_eq_Cons_conv)
    have "report_item limit y t = t\<lparr>rp_result := (rp_result t)\<lparr>lo_execution := Some g\<rparr>\<rparr>"
      using ys(2) at by (simp add: report_item_def report_frame_def)
    then show ?thesis
      using outputs_result [OF ys(3), of "t\<lparr>rp_result := (rp_result t)\<lparr>lo_execution := Some g\<rparr>\<rparr>" "[]"] at Some ys(1) by simp
  qed
  show ?thesis
  proof (cases ins)
    case None
    then show ?thesis using started [of xs s] assms by simp
  next
    case (Some h)
    then obtain x ys where xs: "xs = x # ys" "snd x = Inr (Inputs h)" "map snd ys = map Inr (accepted_frames None st outs)"
      using assms(1) by (auto simp: accepted_parts map_eq_Cons_conv)
    have "report_item limit x s = s\<lparr>rp_inputs_seen := True, rp_result := r\<lparr>lo_input_hashes := h\<rparr>\<rparr>"
      using xs(2) Some assms by (simp add: report_item_def report_frame_def)
    then show ?thesis
      using started [OF xs(3), of "s\<lparr>rp_inputs_seen := True, rp_result := r\<lparr>lo_input_hashes := h\<rparr>\<rparr>"] assms Some xs(1) by simp
  qed
qed


text \<open>A console that is accepted: the markers, an output and the exit.\<close>

definition sample_reader :: frame_reader where
  "sample_reader json = Some (Inr (if json = ''0'' then Exit 0 else Output [7, 8], 1))"

lemma sample_report_accepted:
  "LaunchOutcome_succeeded (parse_report sample_reader
     (''CELLN:pilot=alive'' @ [CHR 0x0A] @ ''CELLN:dispatch-protocol=5'' @ [CHR 0x0A] @ ''CELLN:dispatch=1'' @ [CHR 0x0A]
        @ ''CELLN:dispatch=0'') ''cell'' 1 False True)"
  by code_simp

end
