(* ===== verification/Broker.thy ===== *)
theory Broker
  imports Workspace Control Schema
begin

text \<open>
  \<open>celln-warden/src/workspace_broker.rs\<close>: run-owned data over the broker channel. An owner
  mints at most one active grant at a time, each for the exact child of a reserved turn; a
  grant's requests are checked against its controls, its operation budget and its rights
  before they reach the workspace.

  \<open>Arc<Mutex<Authority>>\<close> is an index into the list of authorities, so that the lease and every
  copy of a grant share one authority; \<open>Arc<Mutex<Workspace>>\<close> is the field \<open>bk_data\<close>. The
  weak reference of the owner is the index: an authority nobody holds any more has lost its
  lease, so it is inactive and a failed \<open>upgrade\<close> decides as an inactive authority does. No
  code panics while it holds a lock, so the poisoned-lock branches are not reached.

  Parameters: \<open>hash_of\<close> and \<open>to_vec\<close> as in theory \<open>Lease\<close>, \<open>req_of\<close> decodes a request,
  \<open>val_vec\<close> encodes a response.
\<close>

section \<open>State\<close>

record ArtifactOperations =
  ao_read :: bool
  ao_write :: bool
  ao_list :: bool
  ao_append :: bool
  ao_search :: bool
  ao_delete :: bool

record Authority =
  au_active :: bool
  au_only :: "ArtifactOperations option"
  au_remaining :: nat
  au_read :: bool
  au_write :: bool
  au_control :: Control
  au_operation_control :: "Control option"

record Broker =
  bk_parent :: hash
  bk_data :: Workspace
  bk_claimed :: "string list"
  bk_active :: "nat option"
  bk_auths :: "Authority list"
  bk_stops :: stops

datatype Operation =
    BRead string
  | BWrite string u64 string
  | BList
  | BAppend string u64 string
  | BSearch string
  | BDelete string u64

record WsRequest =
  wr_api_version :: string
  wr_body :: Operation

datatype BrokerError = BMsg string | BWorkspace WsError | BStopped Stopped

definition SEARCH_MATCHES :: nat where "SEARCH_MATCHES = 32"
definition SEARCH_LINE_CHARS :: nat where "SEARCH_LINE_CHARS = 256"

section \<open>Named operations\<close>

definition ao_default :: ArtifactOperations where
  "ao_default = \<lparr>ao_read = False, ao_write = False, ao_list = False, ao_append = False, ao_search = False, ao_delete = False\<rparr>"

definition read_write :: "bool \<Rightarrow> bool \<Rightarrow> ArtifactOperations" where
  "read_write r w = ao_default\<lparr>ao_read := r, ao_write := w\<rparr>"

definition ao_grant :: "string \<Rightarrow> ArtifactOperations \<Rightarrow> ArtifactOperations \<times> bool" where
  "ao_grant operation ops =
     (if operation = ''read'' then (ops\<lparr>ao_read := True\<rparr>, True)
      else if operation = ''write'' then (ops\<lparr>ao_write := True\<rparr>, True)
      else if operation = ''list'' then (ops\<lparr>ao_list := True\<rparr>, True)
      else if operation = ''append'' then (ops\<lparr>ao_append := True\<rparr>, True)
      else if operation = ''search'' then (ops\<lparr>ao_search := True\<rparr>, True)
      else if operation = ''delete'' then (ops\<lparr>ao_delete := True\<rparr>, True)
      else (ops, False))"

definition ao_reads :: "ArtifactOperations \<Rightarrow> bool" where
  "ao_reads ops = (ao_read ops \<or> ao_list ops \<or> ao_search ops)"

definition ao_writes :: "ArtifactOperations \<Rightarrow> bool" where
  "ao_writes ops = (ao_write ops \<or> ao_append ops \<or> ao_delete ops)"

fun ao_allows :: "ArtifactOperations \<Rightarrow> Operation \<Rightarrow> bool" where
  "ao_allows ops (BRead _) = ao_read ops"
| "ao_allows ops (BWrite _ _ _) = ao_write ops"
| "ao_allows ops BList = ao_list ops"
| "ao_allows ops (BAppend _ _ _) = ao_append ops"
| "ao_allows ops (BSearch _) = ao_search ops"
| "ao_allows ops (BDelete _ _) = ao_delete ops"

section \<open>Minting\<close>

definition Owner_new :: "stops \<Rightarrow> hash \<Rightarrow> Limits \<Rightarrow> BrokerError + Broker" where
  "Owner_new st parent limits =
     (case Workspace_new parent limits of
        Inl e \<Rightarrow> Err (BWorkspace e)
      | Inr data \<Rightarrow> Ok \<lparr>bk_parent = parent, bk_data = data, bk_claimed = [], bk_active = None, bk_auths = [], bk_stops = st\<rparr>)"

definition auth_active :: "Broker \<Rightarrow> nat \<Rightarrow> bool" where
  "auth_active b g = (g < length (bk_auths b) \<and> au_active (bk_auths b ! g))"

text \<open>The result is the index that the lease and the grant share.\<close>

definition broker_begin ::
  "(bytes \<Rightarrow> hash) \<Rightarrow> (string \<times> string \<Rightarrow> bytes) \<Rightarrow> (nat \<Rightarrow> instant) \<Rightarrow> ReservedTurn \<Rightarrow> bool \<Rightarrow> bool \<Rightarrow> nat
   \<Rightarrow> Control \<Rightarrow> Broker \<Rightarrow> Broker \<times> (BrokerError + nat)" where
  "broker_begin hash_of to_vec clk turn r w max_operations control b =
     (let child = child_identity hash_of to_vec (bk_parent b) (turn_id (rt_request turn)) in
      if rt_parent turn \<noteq> bk_parent b \<or> rt_child turn \<noteq> child \<or> (\<not> r \<and> \<not> w)
         \<or> \<not> (1 \<le> max_operations \<and> max_operations \<le> 64)
         \<or> length (bk_claimed b) \<ge> 1024 \<or> hash_str (rt_child turn) \<in> set (bk_claimed b)
      then (b, Err (BMsg ''workspace grant does not match reserved child or bounds''))
      else (case Control_check clk control (bk_stops b) of
        (st, Inl e) \<Rightarrow> (b\<lparr>bk_stops := st\<rparr>, Err (BStopped e))
      | (st, Inr _) \<Rightarrow>
          (let b = b\<lparr>bk_stops := st\<rparr> in
           if (case bk_active b of Some i \<Rightarrow> auth_active b i | None \<Rightarrow> False)
           then (b, Err (BMsg ''workspace already has an active child''))
           else
             let g = length (bk_auths b);
                 a = \<lparr>au_active = True, au_only = None, au_remaining = max_operations, au_read = r, au_write = w,
                      au_control = control, au_operation_control = None\<rparr>
             in (b\<lparr>bk_claimed := insort_insert (hash_str (rt_child turn)) (bk_claimed b),
                   bk_auths := bk_auths b @ [a], bk_active := Some g\<rparr>, Ok g))))"

definition update_auth :: "nat \<Rightarrow> (Authority \<Rightarrow> Authority) \<Rightarrow> Broker \<Rightarrow> Broker" where
  "update_auth g f b = b\<lparr>bk_auths := (bk_auths b)[g := f (bk_auths b ! g)]\<rparr>"

definition begin_artifacts ::
  "(bytes \<Rightarrow> hash) \<Rightarrow> (string \<times> string \<Rightarrow> bytes) \<Rightarrow> (nat \<Rightarrow> instant) \<Rightarrow> ReservedTurn \<Rightarrow> ArtifactOperations \<Rightarrow> nat
   \<Rightarrow> Control \<Rightarrow> Broker \<Rightarrow> Broker \<times> (BrokerError + nat)" where
  "begin_artifacts hash_of to_vec clk turn ops max_operations control b =
     (case broker_begin hash_of to_vec clk turn (ao_reads ops) (ao_writes ops) max_operations control b of
        (b', Inl e) \<Rightarrow> (b', Inl e)
      | (b', Inr g) \<Rightarrow> (update_auth g (\<lambda>a. a\<lparr>au_only := Some ops\<rparr>) b', Ok g))"

text \<open>\<open>Grant::ephemeral\<close>: a private store with one grant, index 0, and no owner.\<close>

definition ephemeral ::
  "(nat \<Rightarrow> instant) \<Rightarrow> hash \<Rightarrow> Limits \<Rightarrow> ArtifactOperations \<Rightarrow> nat \<Rightarrow> Control \<Rightarrow> stops \<Rightarrow> stops \<times> (BrokerError + Broker)" where
  "ephemeral clk run limits ops max_operations control st =
     (if \<not> (ao_reads ops \<or> ao_writes ops) \<or> \<not> (1 \<le> max_operations \<and> max_operations \<le> 64)
      then (st, Err (BMsg ''workspace grant does not match bounds''))
      else (case Control_check clk control st of
        (st', Inl e) \<Rightarrow> (st', Err (BStopped e))
      | (st', Inr _) \<Rightarrow>
          (case Workspace_new run limits of
             Inl e \<Rightarrow> (st', Err (BWorkspace e))
           | Inr data \<Rightarrow>
               (st', Ok \<lparr>bk_parent = run, bk_data = data, bk_claimed = [], bk_active = None,
                  bk_auths = [\<lparr>au_active = True, au_only = Some ops, au_remaining = max_operations,
                     au_read = ao_reads ops, au_write = ao_writes ops, au_control = control,
                     au_operation_control = None\<rparr>],
                  bk_stops = st'\<rparr>))))"

section \<open>Revocation\<close>

definition lease_dropped :: "nat \<Rightarrow> Broker \<Rightarrow> Broker" where
  "lease_dropped g b = update_auth g (\<lambda>a. a\<lparr>au_active := False\<rparr>) b"

definition owner_dropped :: "Broker \<Rightarrow> Broker" where
  "owner_dropped b =
     (case bk_active b of
        Some g \<Rightarrow> update_auth g (\<lambda>a. a\<lparr>au_active := False\<rparr>) b
      | None \<Rightarrow> b)"

definition constrain :: "(nat \<Rightarrow> instant) \<Rightarrow> nat \<Rightarrow> Control \<Rightarrow> Broker \<Rightarrow> Broker \<times> (BrokerError + unit)" where
  "constrain clk g control b =
     (if au_operation_control (bk_auths b ! g) \<noteq> None
      then (b, Err (BMsg ''workspace operation control already bound''))
      else (case Control_check clk control (bk_stops b) of
        (st, Inl e) \<Rightarrow> (b\<lparr>bk_stops := st\<rparr>, Err (BStopped e))
      | (st, Inr _) \<Rightarrow>
          (update_auth g (\<lambda>a. a\<lparr>au_operation_control := Some control\<rparr>) (b\<lparr>bk_stops := st\<rparr>), Ok ())))"

section \<open>Requests\<close>

definition num_usize :: "nat \<Rightarrow> Value" where
  "num_usize n = VNumber (PosInt (of_nat n))"

definition truncated :: "string \<Rightarrow> nat \<Rightarrow> string" where
  "truncated text chars = chars_take chars text"

definition revision_response :: "WsError + u64 \<Rightarrow> BrokerError + Value" where
  "revision_response r =
     (case r of Inl e \<Rightarrow> Err (BWorkspace e) | Inr rev' \<Rightarrow> Ok (VObject [(''revision'', VNumber (PosInt rev'))]))"

text \<open>The \<open>match\<close> on the request body, with the workspace locked.\<close>

definition broker_dispatch :: "hash \<Rightarrow> bool \<Rightarrow> bool \<Rightarrow> Operation \<Rightarrow> Workspace \<Rightarrow> Workspace \<times> (BrokerError + Value)" where
  "broker_dispatch parent may_read may_write body data =
     (let denied = (data, Err (BMsg ''workspace operation not granted'')) in
      case body of
        BRead name \<Rightarrow>
          if \<not> may_read then denied
          else (data, case Workspace_read data parent name of
                  Inl e \<Rightarrow> Err (BWorkspace e)
                | Inr bs \<Rightarrow>
                    if utf8_valid bs
                    then Ok (VObject [(''content'', VString (bytes_str bs)), (''revision'', VNumber (PosInt (ws_revision data)))])
                    else Err (BMsg ''artifact is not text''))
      | BWrite name revision content \<Rightarrow>
          if \<not> may_write then denied
          else (case Workspace_write parent revision name (as_bytes content) data of
                  (data', r) \<Rightarrow> (data', revision_response r))
      | BList \<Rightarrow>
          if \<not> may_read then denied
          else (data, case Workspace_list data parent of
                  Inl e \<Rightarrow> Err (BWorkspace e)
                | Inr files \<Rightarrow>
                    Ok (VObject [(''files'', VArray (map (\<lambda>(name, n). VObject [(''bytes'', num_usize n), (''name'', VString name)]) files)),
                                 (''revision'', VNumber (PosInt (ws_revision data)))]))
      | BSearch pat \<Rightarrow>
          if \<not> may_read then denied
          else (data, case Workspace_search data parent pat SEARCH_MATCHES of
                  Inl e \<Rightarrow> Err (BWorkspace e)
                | Inr found \<Rightarrow>
                    Ok (VObject [(''matches'', VArray (map (\<lambda>m. VObject
                                    [(''line'', num_usize (match_line m)), (''name'', VString (match_name m)),
                                     (''text'', VString (truncated (bytes_str (match_text m)) SEARCH_LINE_CHARS))]) found)),
                                 (''revision'', VNumber (PosInt (ws_revision data)))]))
      | BAppend name revision content \<Rightarrow>
          if \<not> may_write then denied
          else (case Workspace_append parent revision name (as_bytes content) data of
                  (data', r) \<Rightarrow> (data', revision_response r))
      | BDelete name revision \<Rightarrow>
          if \<not> may_write then denied
          else (case Workspace_delete parent revision name data of
                  (data', r) \<Rightarrow> (data', revision_response r)))"

text \<open>The controls of an authority in the order \<open>request\<close> checks them.\<close>

definition auth_check :: "(nat \<Rightarrow> instant) \<Rightarrow> (nat \<Rightarrow> instant) \<Rightarrow> Authority \<Rightarrow> stops \<Rightarrow> stops \<times> (Stopped + unit)" where
  "auth_check clk clk' a st =
     (case Control_check clk (au_control a) st of
        (st', Inl e) \<Rightarrow> (st', Inl e)
      | (st', Inr _) \<Rightarrow>
          (case au_operation_control a of
             None \<Rightarrow> (st', Ok ())
           | Some c \<Rightarrow> Control_check clk' c st'))"

definition grant_request ::
  "(string \<Rightarrow> WsRequest option) \<Rightarrow> (Value \<Rightarrow> bytes option) \<Rightarrow> (nat \<Rightarrow> instant) \<Rightarrow> (nat \<Rightarrow> instant)
   \<Rightarrow> nat \<Rightarrow> string \<Rightarrow> Broker \<Rightarrow> Broker \<times> (BrokerError + bytes)" where
  "grant_request req_of val_vec clk clk' g raw b0 =
     (let a = bk_auths b0 ! g in
      case auth_check clk clk' a (bk_stops b0) of
        (st, Inl e) \<Rightarrow> (b0\<lparr>bk_stops := st\<rparr>, Err (BStopped e))
      | (st, Inr _) \<Rightarrow>
      (let b = b0\<lparr>bk_stops := st\<rparr> in
       if \<not> au_active a \<or> au_remaining a = 0
       then (b, Err (BMsg ''workspace grant revoked or exhausted''))
       else
       let b = update_auth g (\<lambda>a. a\<lparr>au_remaining := au_remaining a - 1\<rparr>) b in
       if length raw > 8192 then (b, Err (BMsg ''workspace request exceeds broker wire budget''))
       else (case req_of raw of
         None \<Rightarrow> (b, Err (BMsg ''invalid workspace request''))
       | Some request \<Rightarrow>
           if wr_api_version request \<noteq> ''celln.workspace/v1''
           then (b, Err (BMsg ''unsupported workspace request version''))
           else if (case au_only a of Some ops \<Rightarrow> \<not> ao_allows ops (wr_body request) | None \<Rightarrow> False)
           then (b, Err (BMsg ''workspace operation not granted''))
           else (case broker_dispatch (bk_parent b) (au_read a) (au_write a) (wr_body request) (bk_data b) of
                   (data', Inl e) \<Rightarrow> (b\<lparr>bk_data := data'\<rparr>, Err e)
                 | (data', Inr v) \<Rightarrow>
                     (b\<lparr>bk_data := data'\<rparr>,
                      case val_vec v of
                        None \<Rightarrow> Err (BMsg ''workspace response encoding failed'')
                      | Some bs \<Rightarrow> Ok bs)))))"

section \<open>Sequences of operations\<close>

text \<open>
  The operations on one owner, its leases and its grants in any order; \<open>BrStops\<close> is the
  environment moving control bytes. Handles exist only for minted authorities.
\<close>

datatype BrokerOp =
    BrBegin "nat \<Rightarrow> instant" ReservedTurn bool bool nat Control
  | BrArtifacts "nat \<Rightarrow> instant" ReservedTurn ArtifactOperations nat Control
  | BrDropLease nat
  | BrDropOwner
  | BrConstrain "nat \<Rightarrow> instant" nat Control
  | BrRequest "nat \<Rightarrow> instant" "nat \<Rightarrow> instant" nat string
  | BrStops stops

datatype BrokerRes = BrGrant "BrokerError + nat" | BrBytes "BrokerError + bytes" | BrUnit "BrokerError + unit"

fun broker_step ::
  "(bytes \<Rightarrow> hash) \<Rightarrow> (string \<times> string \<Rightarrow> bytes) \<Rightarrow> (string \<Rightarrow> WsRequest option) \<Rightarrow> (Value \<Rightarrow> bytes option)
   \<Rightarrow> BrokerOp \<Rightarrow> Broker \<Rightarrow> Broker \<times> BrokerRes" where
  "broker_step H tv rq vv (BrBegin clk turn r w n c) b =
     map_prod id BrGrant (broker_begin H tv clk turn r w n c b)"
| "broker_step H tv rq vv (BrArtifacts clk turn ops n c) b =
     map_prod id BrGrant (begin_artifacts H tv clk turn ops n c b)"
| "broker_step H tv rq vv (BrDropLease g) b =
     (if g < length (bk_auths b) then lease_dropped g b else b, BrUnit (Ok ()))"
| "broker_step H tv rq vv BrDropOwner b = (owner_dropped b, BrUnit (Ok ()))"
| "broker_step H tv rq vv (BrConstrain clk g c) b =
     (if g < length (bk_auths b) then map_prod id BrUnit (constrain clk g c b) else (b, BrUnit (Err (BMsg []))))"
| "broker_step H tv rq vv (BrRequest clk clk' g raw) b =
     (if g < length (bk_auths b) then map_prod id BrBytes (grant_request rq vv clk clk' g raw b)
      else (b, BrBytes (Err (BMsg []))))"
| "broker_step H tv rq vv (BrStops st) b = (b\<lparr>bk_stops := st\<rparr>, BrUnit (Ok ()))"

section \<open>Invariant\<close>

definition broker_inv :: "Broker \<Rightarrow> bool" where
  "broker_inv b \<longleftrightarrow>
     workspace_inv (bk_data b) \<and> ws_parent (bk_data b) = bk_parent b
     \<and> (\<forall>g. auth_active b g \<longrightarrow> bk_active b = Some g)
     \<and> (\<forall>a \<in> set (bk_auths b). au_remaining a \<le> 64)
     \<and> distinct (bk_claimed b) \<and> length (bk_claimed b) \<le> 1024 \<and> length (bk_auths b) \<le> length (bk_claimed b)"

lemma update_auth_fields [simp]:
  "bk_parent (update_auth g f b) = bk_parent b" "bk_data (update_auth g f b) = bk_data b"
  "bk_active (update_auth g f b) = bk_active b" "bk_claimed (update_auth g f b) = bk_claimed b"
  "bk_stops (update_auth g f b) = bk_stops b"
  by (simp_all add: update_auth_def)

lemma update_auth_inv:
  assumes "broker_inv b" "\<And>a. au_active (f a) \<Longrightarrow> au_active a" "\<And>a. au_remaining (f a) \<le> au_remaining a"
  shows "broker_inv (update_auth g f b)"
proof -
  have "auth_active b h" if "auth_active (update_auth g f b) h" for h
    using that assms(2) [of "bk_auths b ! g"]
    by (cases "h = g") (auto simp: auth_active_def update_auth_def)
  moreover have "au_remaining a \<le> 64" if a: "a \<in> set (bk_auths (update_auth g f b))" for a
  proof (cases "g < length (bk_auths b)")
    case True
    then have "bk_auths b ! g \<in> set (bk_auths b)" by simp
    then have "au_remaining (f (bk_auths b ! g)) \<le> 64"
      using assms(1,3) order_trans unfolding broker_inv_def by blast
    then show ?thesis
      using a assms(1) set_update_subset_insert [of "bk_auths b" g "f (bk_auths b ! g)"]
      by (auto simp: update_auth_def broker_inv_def)
  qed (use a assms(1) in \<open>auto simp: update_auth_def broker_inv_def list_update_beyond\<close>)
  ultimately show ?thesis using assms(1) by (auto simp: broker_inv_def update_auth_def)
qed

lemma broker_inv_stops [simp]: "broker_inv (b\<lparr>bk_stops := st\<rparr>) = broker_inv b"
  by (simp add: broker_inv_def auth_active_def)

lemma broker_begin_result:
  assumes "broker_begin H tv clk turn r w n c b = (b', res)"
  obtains (refused) st e where "b' = b\<lparr>bk_stops := st\<rparr>" "res = Inl e"
  | (minted) st where "res = Inr (length (bk_auths b))" "rt_parent turn = bk_parent b"
      "rt_child turn = child_identity H tv (bk_parent b) (turn_id (rt_request turn))"
      "r \<or> w" "1 \<le> n" "n \<le> 64" "length (bk_claimed b) < 1024" "hash_str (rt_child turn) \<notin> set (bk_claimed b)"
      "Control_check clk c (bk_stops b) = (st, Ok ())"
      "\<And>i. bk_active b = Some i \<Longrightarrow> \<not> auth_active b i"
      "b' = b\<lparr>bk_stops := st, bk_claimed := insort_insert (hash_str (rt_child turn)) (bk_claimed b),
             bk_auths := bk_auths b @ [\<lparr>au_active = True, au_only = None, au_remaining = n, au_read = r, au_write = w,
                      au_control = c, au_operation_control = None\<rparr>], bk_active := Some (length (bk_auths b))\<rparr>"
proof -
  obtain st r1 where ck: "Control_check clk c (bk_stops b) = (st, r1)" by fastforce
  let ?bad = "rt_parent turn \<noteq> bk_parent b \<or> rt_child turn \<noteq> child_identity H tv (bk_parent b) (turn_id (rt_request turn))
      \<or> (\<not> r \<and> \<not> w) \<or> \<not> (1 \<le> n \<and> n \<le> 64) \<or> length (bk_claimed b) \<ge> 1024
      \<or> hash_str (rt_child turn) \<in> set (bk_claimed b)"
  let ?busy = "case bk_active b of Some i \<Rightarrow> auth_active (b\<lparr>bk_stops := st\<rparr>) i | None \<Rightarrow> False"
  have "r1 = Inr () \<or> (\<exists>e. r1 = Inl e)" by (cases r1) auto
  then consider (bad) ?bad | (stopped) e where "\<not> ?bad" "r1 = Inl e" | (busy) "\<not> ?bad" "r1 = Inr ()" ?busy
    | (ok) "\<not> ?bad" "r1 = Inr ()" "\<not> ?busy"
    by blast
  then show ?thesis
  proof cases
    case bad
    then have "b' = b\<lparr>bk_stops := bk_stops b\<rparr>" "\<exists>e. res = Inl e"
      using assms unfolding broker_begin_def Let_def by auto
    then show ?thesis using refused by blast
  next
    case stopped
    then have "b' = b\<lparr>bk_stops := st\<rparr>" "res = Inl (BStopped e)"
      using assms ck unfolding broker_begin_def Let_def by auto
    then show ?thesis by (rule refused)
  next
    case busy
    then have "b' = b\<lparr>bk_stops := st\<rparr>" "\<exists>e. res = Inl e"
      using assms ck unfolding broker_begin_def Let_def by auto
    then show ?thesis using refused by blast
  next
    case ok
    have "\<not> auth_active b i" if "bk_active b = Some i" for i
      using ok(3) that by (simp add: auth_active_def)
    then show ?thesis
      using assms ck ok by (intro minted [of st]) (auto simp: broker_begin_def Let_def)
  qed
qed

lemma broker_begin_inv:
  assumes "broker_inv b"
  shows "broker_inv (fst (broker_begin H tv clk turn r w n c b))"
proof (cases "broker_begin H tv clk turn r w n c b")
  case (Pair b' res)
  then show ?thesis
  proof (cases rule: broker_begin_result)
    case (refused st e)
    then show ?thesis using assms Pair by simp
  next
    case (minted st)
    have "\<not> auth_active b h" for h using assms minted(10) unfolding broker_inv_def by blast
    then have "auth_active b' h \<Longrightarrow> h = length (bk_auths b)" for h
      unfolding minted(11) by (auto simp: auth_active_def nth_append less_Suc_eq)
    then show ?thesis
      using assms minted Pair by (auto simp: broker_inv_def insort_insert_key_def distinct_insort)
  qed
qed

text \<open>The change a request body asks for, if it asks for one.\<close>

fun body_change :: "hash \<Rightarrow> Operation \<Rightarrow> WsOp option" where
  "body_change p (BWrite name revision content) = Some (WsWrite p revision name (as_bytes content))"
| "body_change p (BAppend name revision content) = Some (WsAppend p revision name (as_bytes content))"
| "body_change p (BDelete name revision) = Some (WsDelete p revision name)"
| "body_change p _ = None"

lemma dispatch_data:
  "fst (broker_dispatch p mr mw body data) =
     (case body_change p body of Some x \<Rightarrow> if mw then fst (ws_step x data) else data | None \<Rightarrow> data)"
  by (cases body) (simp_all add: broker_dispatch_def Let_def split: prod.split)

lemma dispatch_granted:
  "is_ok (snd (broker_dispatch p mr mw body data)) \<Longrightarrow> if body_change p body = None then mr else mw"
  by (cases body) (auto simp: broker_dispatch_def Let_def split: if_splits)

lemma ws_step_parent: "workspace_inv w \<Longrightarrow> ws_parent (fst (ws_step x w)) = ws_parent w"
  using ws_step_Ok ws_step_Err by (cases "ws_step x w"; cases "snd (ws_step x w)") fastforce+

lemma dispatch_inv:
  "workspace_inv data \<Longrightarrow> workspace_inv (fst (broker_dispatch p mr mw body data))
     \<and> ws_parent (fst (broker_dispatch p mr mw body data)) = ws_parent data"
  by (simp add: dispatch_data ws_step_inv ws_step_parent split: option.split)

text \<open>The ways a request can end.\<close>

lemma grant_request_result:
  assumes "grant_request rq vv clk clk' g raw b = (b', res)"
  obtains (barred) st e where "b' = b\<lparr>bk_stops := st\<rparr>" "res = Inl e"
  | (spent) st e where "b' = update_auth g (\<lambda>a. a\<lparr>au_remaining := au_remaining a - 1\<rparr>) (b\<lparr>bk_stops := st\<rparr>)" "res = Inl e"
      "au_active (bk_auths b ! g)" "0 < au_remaining (bk_auths b ! g)"
  | (run) st q where "auth_check clk clk' (bk_auths b ! g) (bk_stops b) = (st, Ok ())"
      "au_active (bk_auths b ! g)" "0 < au_remaining (bk_auths b ! g)" "length raw \<le> 8192" "rq raw = Some q"
      "wr_api_version q = ''celln.workspace/v1''"
      "\<And>ops. au_only (bk_auths b ! g) = Some ops \<Longrightarrow> ao_allows ops (wr_body q)"
      "b' = (update_auth g (\<lambda>a. a\<lparr>au_remaining := au_remaining a - 1\<rparr>) (b\<lparr>bk_stops := st\<rparr>))
        \<lparr>bk_data := fst (broker_dispatch (bk_parent b) (au_read (bk_auths b ! g)) (au_write (bk_auths b ! g)) (wr_body q) (bk_data b))\<rparr>"
      "is_ok res \<Longrightarrow> is_ok (snd (broker_dispatch (bk_parent b) (au_read (bk_auths b ! g)) (au_write (bk_auths b ! g)) (wr_body q) (bk_data b)))"
proof -
  let ?a = "bk_auths b ! g"
  obtain st r1 where ck: "auth_check clk clk' ?a (bk_stops b) = (st, r1)" by fastforce
  let ?dead = "\<not> au_active ?a \<or> au_remaining ?a = 0"
  define bad where "bad \<longleftrightarrow> length raw > 8192 \<or> rq raw = None \<or> wr_api_version (the (rq raw)) \<noteq> ''celln.workspace/v1''
      \<or> (case au_only ?a of Some ops \<Rightarrow> \<not> ao_allows ops (wr_body (the (rq raw))) | None \<Rightarrow> False)"
  have "r1 = Inr () \<or> (\<exists>e. r1 = Inl e)" by (cases r1) auto
  then consider (stop) e where "r1 = Inl e" | (dead) "r1 = Inr ()" ?dead | (bad) "r1 = Inr ()" "\<not> ?dead" bad
    | (ok) "r1 = Inr ()" "\<not> ?dead" "\<not> bad"
    by metis
  then show ?thesis
  proof cases
    case stop
    then have "b' = b\<lparr>bk_stops := st\<rparr>" "res = Inl (BStopped e)"
      using assms ck unfolding grant_request_def Let_def by auto
    then show ?thesis by (rule barred)
  next
    case dead
    then have "b' = b\<lparr>bk_stops := st\<rparr>" "\<exists>e. res = Inl e"
      using assms ck unfolding grant_request_def Let_def by auto
    then show ?thesis using barred by blast
  next
    case bad
    then have "b' = update_auth g (\<lambda>a. a\<lparr>au_remaining := au_remaining a - 1\<rparr>) (b\<lparr>bk_stops := st\<rparr>)" "\<exists>e. res = Inl e"
      using assms ck unfolding grant_request_def Let_def bad_def by (auto split: option.splits if_splits)
    then show ?thesis using spent bad(2) by blast
  next
    case ok
    obtain q where q: "rq raw = Some q" using ok(3) by (auto simp: bad_def)
    obtain d r2 where dp: "broker_dispatch (bk_parent b) (au_read ?a) (au_write ?a) (wr_body q) (bk_data b) = (d, r2)"
      by fastforce
    have wire: "\<not> length raw > 8192" "wr_api_version q = ''celln.workspace/v1''"
      and allowed: "\<not> (case au_only ?a of Some ops \<Rightarrow> \<not> ao_allows ops (wr_body q) | None \<Rightarrow> False)"
      using ok(3) unfolding bad_def q option.sel by simp_all
    have fin: "b' = (update_auth g (\<lambda>a. a\<lparr>au_remaining := au_remaining a - 1\<rparr>) (b\<lparr>bk_stops := st\<rparr>))\<lparr>bk_data := d\<rparr>
        \<and> (is_ok res \<longrightarrow> is_ok r2)"
      using assms ck ok(1,2) wire q dp allowed unfolding grant_request_def Let_def
      by (cases r2; auto)
    then show ?thesis using ck ok q dp unfolding bad_def by (intro run [of st q]) auto
  qed
qed

lemma grant_request_inv:
  assumes "broker_inv b"
  shows "broker_inv (fst (grant_request rq vv clk clk' g raw b))"
proof (cases "grant_request rq vv clk clk' g raw b")
  case (Pair b' res)
  have spend: "broker_inv (update_auth g (\<lambda>a. a\<lparr>au_remaining := au_remaining a - 1\<rparr>) (b\<lparr>bk_stops := st\<rparr>))" for st
    using assms by (intro update_auth_inv) simp_all
  from Pair show ?thesis
  proof (cases rule: grant_request_result)
    case (run st q)
    have "workspace_inv (bk_data b)" "ws_parent (bk_data b) = bk_parent b"
      using assms by (simp_all add: broker_inv_def)
    then show ?thesis
      using spend [of st] dispatch_inv Pair run(8)
      by (simp add: broker_inv_def auth_active_def update_auth_def)
  qed (use assms Pair spend in auto)
qed

lemma broker_step_inv: "broker_inv b \<Longrightarrow> broker_inv (fst (broker_step H tv rq vv x b))"
proof (cases x)
  case (BrBegin clk turn r w n c)
  assume "broker_inv b"
  then show ?thesis using BrBegin broker_begin_inv by simp
next
  case (BrArtifacts clk turn ops n c)
  assume b: "broker_inv b"
  obtain b' res where "broker_begin H tv clk turn (ao_reads ops) (ao_writes ops) n c b = (b', res)" by fastforce
  then show ?thesis
    using BrArtifacts broker_begin_inv [OF b, of H tv clk turn "ao_reads ops" "ao_writes ops" n c]
    by (cases res) (auto simp: begin_artifacts_def intro: update_auth_inv)
next
  case (BrConstrain clk g c)
  assume "broker_inv b"
  then show ?thesis
    using BrConstrain by (auto simp: constrain_def intro!: update_auth_inv split: prod.split sum.split)
next
  case (BrRequest clk clk' g raw)
  assume "broker_inv b"
  then show ?thesis using BrRequest grant_request_inv by simp
qed (auto simp: lease_dropped_def owner_dropped_def intro: update_auth_inv split: option.split)

section \<open>The budget of a grant\<close>

definition budget :: "nat \<Rightarrow> Broker \<Rightarrow> nat" where
  "budget g b = (if au_active (bk_auths b ! g) then au_remaining (bk_auths b ! g) else 0)"

lemma budget_update:
  assumes "g < length (bk_auths b)" "\<And>a. au_active (f a) \<Longrightarrow> au_active a" "\<And>a. au_remaining (f a) \<le> au_remaining a"
  shows "budget g (update_auth h f b) \<le> budget g b \<and> g < length (bk_auths (update_auth h f b))"
  using assms by (cases "g = h") (auto simp: budget_def update_auth_def)

lemma budget_begin:
  assumes "g < length (bk_auths b)" "broker_begin H tv clk turn r w n c b = (b', res)"
  shows "budget g b' = budget g b \<and> g < length (bk_auths b')"
  using assms(2)
proof (cases rule: broker_begin_result)
  case (refused st e)
  then show ?thesis using assms(1) by (simp add: budget_def)
next
  case (minted st)
  show ?thesis unfolding minted(11) using assms(1) by (simp add: budget_def nth_append)
qed

definition served :: "nat \<Rightarrow> BrokerOp \<times> BrokerRes \<Rightarrow> bool" where
  "served g x = (case x of (BrRequest _ _ h _, BrBytes (Inr _)) \<Rightarrow> h = g | _ \<Rightarrow> False)"

lemma budget_request:
  assumes "g < length (bk_auths b)" "h < length (bk_auths b)" "grant_request rq vv clk clk' h raw b = (b', res)"
  shows "budget g b' + (if h = g \<and> is_ok res then 1 else 0) \<le> budget g b \<and> length (bk_auths b') = length (bk_auths b)"
  using assms(3)
proof (cases rule: grant_request_result)
  case (barred st e)
  then show ?thesis by (simp add: budget_def)
next
  case (spent st e)
  then show ?thesis using assms by (cases "g = h") (auto simp: budget_def update_auth_def)
next
  case (run st q)
  then show ?thesis using assms by (cases "g = h") (auto simp: budget_def update_auth_def)
qed

lemma budget_step:
  assumes "g < length (bk_auths b)" "broker_step H tv rq vv x b = (b', r)"
  shows "budget g b' + (if served g (x, r) then 1 else 0) \<le> budget g b \<and> g < length (bk_auths b')"
proof (cases x)
  case (BrBegin clk turn rd w n c)
  then show ?thesis
    using assms budget_begin [OF assms(1), of H tv clk turn rd w n c]
    by (cases "broker_begin H tv clk turn rd w n c b") (auto simp: served_def)
next
  case (BrArtifacts clk turn ops n c)
  obtain b1 res where step: "broker_begin H tv clk turn (ao_reads ops) (ao_writes ops) n c b = (b1, res)" by fastforce
  have "budget g b1 = budget g b \<and> g < length (bk_auths b1)"
    using budget_begin [OF assms(1) step] .
  then show ?thesis
    using BrArtifacts assms step budget_update [of g b1 "\<lambda>a. a\<lparr>au_only := Some ops\<rparr>"]
    by (cases res) (auto simp: begin_artifacts_def served_def)
next
  case (BrConstrain clk h c)
  have "budget g (b\<lparr>bk_stops := st\<rparr>) = budget g b" for st by (simp add: budget_def)
  then show ?thesis
    using BrConstrain assms budget_update [of g "b\<lparr>bk_stops := _\<rparr>" "\<lambda>a. a\<lparr>au_operation_control := Some c\<rparr>" h]
    by (auto simp: constrain_def served_def split: if_splits prod.splits sum.splits)
next
  case (BrRequest clk clk' h raw)
  show ?thesis
  proof (cases "h < length (bk_auths b)")
    case True
    obtain b1 res where step: "grant_request rq vv clk clk' h raw b = (b1, res)" by fastforce
    then show ?thesis
      using BrRequest assms True budget_request [OF assms(1) True step]
      by (auto simp: served_def split: sum.splits)
  qed (use BrRequest assms in \<open>auto simp: served_def\<close>)
next
  case (BrDropLease h)
  then show ?thesis
    using assms budget_update [of g b "\<lambda>a. a\<lparr>au_active := False\<rparr>" h]
    by (auto simp: lease_dropped_def served_def)
next
  case BrDropOwner
  then show ?thesis
    using assms budget_update [of g b "\<lambda>a. a\<lparr>au_active := False\<rparr>"]
    by (cases "bk_active b") (auto simp: owner_dropped_def served_def)
next
  case (BrStops st)
  then show ?thesis using assms by (auto simp: served_def budget_def)
qed

text \<open>A grant is a metered resource of the broker.\<close>

interpretation grant: metered "broker_step H tv rq vv" "budget g" "served g" "\<lambda>b. g < length (bk_auths b)"
  for H tv rq vv g
  by unfold_locales (use budget_step in \<open>blast+\<close>)

lemma Owner_new_inv: "Owner_new st parent limits = Inr b \<Longrightarrow> broker_inv b \<and> bk_parent b = parent \<and> bk_auths b = []"
proof -
  assume "Owner_new st parent limits = Inr b"
  then obtain w where w: "Workspace_new parent limits = Inr w"
    and b: "b = \<lparr>bk_parent = parent, bk_data = w, bk_claimed = [], bk_active = None, bk_auths = [], bk_stops = st\<rparr>"
    by (auto simp: Owner_new_def split: sum.splits)
  have "workspace_inv w" "ws_parent w = parent"
    using w workspace_inv_new by (auto simp: Workspace_new_def split: if_splits)
  then show ?thesis by (simp add: b broker_inv_def auth_active_def)
qed

lemma broker_step_parent: "bk_parent (fst (broker_step H tv rq vv x b)) = bk_parent b"
proof (cases x)
  case (BrBegin clk turn r w n c)
  obtain b1 res where step: "broker_begin H tv clk turn r w n c b = (b1, res)" by fastforce
  then have "bk_parent b1 = bk_parent b" by (cases rule: broker_begin_result) auto
  then show ?thesis using BrBegin step by simp
next
  case (BrArtifacts clk turn ops n c)
  obtain b1 res where step: "broker_begin H tv clk turn (ao_reads ops) (ao_writes ops) n c b = (b1, res)" by fastforce
  then have "bk_parent b1 = bk_parent b" by (cases rule: broker_begin_result) auto
  then show ?thesis using BrArtifacts step by (cases res) (auto simp: begin_artifacts_def)
next
  case (BrRequest clk clk' g raw)
  obtain b1 res where step: "grant_request rq vv clk clk' g raw b = (b1, res)" by fastforce
  then have "bk_parent b1 = bk_parent b" by (cases rule: grant_request_result) auto
  then show ?thesis using BrRequest step by simp
qed (auto simp: lease_dropped_def owner_dropped_def constrain_def split: option.split prod.split sum.split)

section \<open>Properties\<close>

text \<open>
  One active child at a time. After any sequence of mints, lease and owner drops,
  constraints, requests and cancellations on a fresh owner, at most one authority is
  active, at most 1024 grants were ever minted, each for a different child, the workspace
  still belongs to the owner's parent and is within its limits.
\<close>

theorem broker_one_active_child:
  assumes "Owner_new st parent limits = Ok b0" "b = run_final (broker_step H tv rq vv) b0 xs"
  shows "(\<forall>g h. auth_active b g \<longrightarrow> auth_active b h \<longrightarrow> g = h)
    \<and> length (bk_auths b) \<le> length (bk_claimed b) \<and> length (bk_claimed b) \<le> 1024 \<and> distinct (bk_claimed b)
    \<and> bk_parent b = parent \<and> ws_parent (bk_data b) = parent \<and> workspace_inv (bk_data b)"
proof -
  have "broker_inv b \<and> bk_parent b = parent"
    unfolding assms(2)
    by (rule run_final_inv [where P = "\<lambda>b. broker_inv b \<and> bk_parent b = parent"])
      (use Owner_new_inv [OF assms(1)] in \<open>auto simp: broker_step_inv broker_step_parent\<close>)
  then show ?thesis unfolding broker_inv_def by (metis option.inject)
qed

definition sample_ws_limits :: Limits where
  "sample_ws_limits = \<lparr>lim_files = 4, lim_file_bytes = 16, lim_total_bytes = 32\<rparr>"

definition sample_broker :: Broker where
  "sample_broker =
     \<lparr>bk_parent = Hash ''p'', bk_data = \<lparr>ws_parent = Hash ''p'', ws_limits = sample_ws_limits, ws_revision = 0, ws_bytes = 0, ws_artifacts = []\<rparr>,
      bk_claimed = [''c''], bk_active = Some 0,
      bk_auths = [\<lparr>au_active = True, au_only = Some (read_write False True), au_remaining = 2, au_read = False, au_write = True,
         au_control = Control 0 10 None, au_operation_control = None\<rparr>],
      bk_stops = (\<lambda>_. 0)\<rparr>"

lemma sample_broker_inv: "broker_inv sample_broker"
  by (auto simp: broker_inv_def auth_active_def sample_broker_def workspace_inv_def limits_ok_def sample_ws_limits_def
      total_len_def bt_invar_def)

theorem broker_one_active_child_witness:
  "\<exists>b0. Owner_new (\<lambda>_. 0) (Hash ''p'') sample_ws_limits = Ok b0 \<and> workspace_inv (bk_data b0)"
proof -
  obtain b0 where b0: "Owner_new (\<lambda>_. 0) (Hash ''p'') sample_ws_limits = Ok b0"
    by (simp add: Owner_new_def Workspace_new_def sample_ws_limits_def)
  then show ?thesis
    using broker_one_active_child [OF b0, of b0 undefined undefined undefined undefined "[]"] by auto
qed

text \<open>
  C5: A request does nothing its grant does not allow. If a request is answered or changes
  the workspace, then the grant's controls were open, the grant was active with budget left
  and pays one operation, the request is a well-formed version 1 request of at most 8 KiB, a
  scoped grant names its exact operation, a change needs the write right and a read the
  read right, reads change nothing, and a change names the current revision and moves to
  the next one.
\<close>

theorem grant_request_confined:
  assumes "broker_inv b" "g < length (bk_auths b)" "grant_request rq vv clk clk' g raw b = (b', r)"
    and "is_ok r \<or> bk_data b' \<noteq> bk_data b"
  shows "let a = bk_auths b ! g in
     snd (auth_check clk clk' a (bk_stops b)) = Ok () \<and> au_active a \<and> au_remaining (bk_auths b' ! g) + 1 = au_remaining a
     \<and> (\<exists>q. length raw \<le> 8192 \<and> rq raw = Some q \<and> wr_api_version q = ''celln.workspace/v1''
          \<and> (\<forall>ops. au_only a = Some ops \<longrightarrow> ao_allows ops (wr_body q))
          \<and> (case body_change (bk_parent b) (wr_body q) of
               None \<Rightarrow> au_read a \<and> bk_data b' = bk_data b
             | Some x \<Rightarrow> au_write a \<and> bk_data b' = fst (ws_step x (bk_data b))
                 \<and> (bk_data b' \<noteq> bk_data b \<longrightarrow> ws_expects x = ws_revision (bk_data b)
                      \<and> unat (ws_revision (bk_data b')) = unat (ws_revision (bk_data b)) + 1)))"
  using assms(3)
proof (cases rule: grant_request_result)
  case (run st q)
  let ?a = "bk_auths b ! g"
  have good: "workspace_inv (bk_data b)" using assms(1) by (simp add: broker_inv_def)
  have data: "bk_data b' = (case body_change (bk_parent b) (wr_body q) of
      Some x \<Rightarrow> if au_write ?a then fst (ws_step x (bk_data b)) else bk_data b | None \<Rightarrow> bk_data b)"
    using run(8) dispatch_data by simp
  have "if body_change (bk_parent b) (wr_body q) = None then au_read ?a else au_write ?a"
  proof (cases "is_ok r")
    case True
    then show ?thesis using run(9) dispatch_granted by blast
  next
    case False
    then show ?thesis using assms(4) data by (auto split: option.splits if_splits)
  qed
  moreover have "ws_expects x = ws_revision (bk_data b)
      \<and> unat (ws_revision (fst (ws_step x (bk_data b)))) = unat (ws_revision (bk_data b)) + 1"
    if moved: "fst (ws_step x (bk_data b)) \<noteq> bk_data b" for x
  proof -
    obtain d res where step: "ws_step x (bk_data b) = (d, res)" by fastforce
    then obtain v where "res = Inr v" using moved ws_step_Err [of x "bk_data b" d] by (cases res) auto
    then show ?thesis
      using step ws.ok_names_current [OF good] ws.ok_advances [OF good] by (metis Suc_eq_plus1 fst_conv)
  qed
  moreover have "au_remaining (bk_auths b' ! g) + 1 = au_remaining ?a"
    using run(3,8) assms(2) by (simp add: update_auth_def)
  ultimately show ?thesis
    unfolding Let_def
    using run(1-7) data by (intro conjI exI [of _ q]) (auto split: option.split)
qed (use assms(4) in auto)

theorem grant_request_confined_witness:
  "let q = \<lparr>wr_api_version = ''celln.workspace/v1'', wr_body = BWrite ''a'' 0 ''x''\<rparr>;
       b' = fst (grant_request (\<lambda>_. Some q) (\<lambda>_. Some []) (\<lambda>_. 1) (\<lambda>_. 1) 0 ''r'' sample_broker)
   in au_remaining (bk_auths b' ! 0) = 1"
proof -
  let ?q = "\<lparr>wr_api_version = ''celln.workspace/v1'', wr_body = BWrite ''a'' 0 ''x''\<rparr>"
  let ?run = "grant_request (\<lambda>_. Some ?q) (\<lambda>_. Some []) (\<lambda>_. 1) (\<lambda>_. 1) 0 ''r'' sample_broker"
  have ok: "is_ok (snd ?run)"
    by (simp add: grant_request_def sample_broker_def Let_def auth_check_def Control_check_def observe_self_def stop_of_def
        read_write_def broker_dispatch_def Workspace_write_def Workspace_check_def ws_name_ok_def ws_part_ok_def rust_std
        sample_ws_limits_def as_bytes_def revision_response_def checked_add_def usize_checked_add_def update_auth_def ao_default_def)
  have "0 < length (bk_auths sample_broker)" by (simp add: sample_broker_def)
  from grant_request_confined [OF sample_broker_inv this prod.collapse [symmetric]] ok show ?thesis
    unfolding Let_def by (simp add: sample_broker_def)
qed

text \<open>
  Budget and revocation. However operations are interleaved, the requests answered on
  a grant from some state on are never more than its remaining budget there, and none at
  all once its lease, or the owner while it was the active one, has been dropped.
\<close>

theorem grant_budget_bounds_answers:
  assumes "g < length (bk_auths b)"
  shows "length (filter (served g) (run_results (broker_step H tv rq vv) b xs))
       \<le> (if auth_active b g then au_remaining (bk_auths b ! g) else 0)"
  using grant.counted_bounded [of g b] assms by (simp add: budget_def auth_active_def)

theorem grant_budget_bounds_answers_witness:
  "length (filter (served 0) (run_results
      (broker_step (\<lambda>_. Hash []) (\<lambda>_. []) (\<lambda>_. None) (\<lambda>_. None)) (lease_dropped 0 sample_broker)
      [BrRequest (\<lambda>_. 0) (\<lambda>_. 0) 0 ''r'', BrStops (\<lambda>_. 0), BrRequest (\<lambda>_. 1) (\<lambda>_. 1) 0 ''r''])) = 0"
  using grant_budget_bounds_answers [of 0 "lease_dropped 0 sample_broker" "\<lambda>_. Hash []" "\<lambda>_. []" "\<lambda>_. None" "\<lambda>_. None"
      "[BrRequest (\<lambda>_. 0) (\<lambda>_. 0) 0 ''r'', BrStops (\<lambda>_. 0), BrRequest (\<lambda>_. 1) (\<lambda>_. 1) 0 ''r'']"]
  by (simp add: lease_dropped_def update_auth_def sample_broker_def auth_active_def del: run_results.simps)

end
