(* ===== verification/Text.thy ===== *)
theory Text
  imports Prelude
begin

text \<open>
  Text functions of the standard library that the network and request components use:
  decimal numbers, splitting, ASCII case and lossy UTF-8.
\<close>

section \<open>Numbers, splitting and letters\<close>

text \<open>The decimal text of a number.\<close>

fun decimal :: "nat \<Rightarrow> string" where
  "decimal n = (let last = [char_of (48 + n mod 10)] in if n < 10 then last else decimal (n div 10) @ last)"

declare decimal.simps [simp del]

definition to_ascii_lowercase :: "string \<Rightarrow> string" where
  "to_ascii_lowercase s = map (\<lambda>c. if is_ascii_upper c then char_of ((of_char c :: nat) + 32) else c) s"

definition eq_ignore_ascii_case :: "string \<Rightarrow> string \<Rightarrow> bool" where
  "eq_ignore_ascii_case s t = (to_ascii_lowercase s = to_ascii_lowercase t)"

definition digits_value :: "string \<Rightarrow> nat" where
  "digits_value ds = foldl (\<lambda>a d. a * 10 + (of_char d - 48)) 0 ds"

definition is_ascii_graphic :: "char \<Rightarrow> bool" where
  "is_ascii_graphic c = (CHR ''!'' \<le> c \<and> c \<le> CHR ''~'')"

definition parse_u16 :: "string \<Rightarrow> u16 option" where
  "parse_u16 s =
     (let ds = (case s of c # r \<Rightarrow> if c = CHR ''+'' then r else s | [] \<Rightarrow> s)
      in if ds = [] \<or> \<not> list_all is_ascii_digit ds \<or> digits_value ds \<ge> 2 ^ 16 then None
         else Some (of_nat (digits_value ds)))"

text \<open>\<open>str::split_once\<close> and \<open>str::rsplit_once\<close> on one byte.\<close>

definition split_once :: "char \<Rightarrow> string \<Rightarrow> (string \<times> string) option" where
  "split_once c s = (if c \<in> set s then Some (takeWhile (\<lambda>d. d \<noteq> c) s, tl (dropWhile (\<lambda>d. d \<noteq> c) s)) else None)"

definition rsplit_once :: "char \<Rightarrow> string \<Rightarrow> (string \<times> string) option" where
  "rsplit_once c s =
     (if c \<in> set s
      then Some (rev (tl (dropWhile (\<lambda>d. d \<noteq> c) (rev s))), rev (takeWhile (\<lambda>d. d \<noteq> c) (rev s))) else None)"

text \<open>\<open>str::split\<close> on a string that is not empty.\<close>

function split_seq :: "string \<Rightarrow> string \<Rightarrow> string \<Rightarrow> string list" where
  "split_seq p acc s =
     (if s = [] then [acc]
      else (case strip_prefix p s of
              Some r \<Rightarrow> if p = [] then [acc @ s] else acc # split_seq p [] r
            | None \<Rightarrow> split_seq p (acc @ [hd s]) (tl s)))"
  by pat_completeness auto
termination by (relation "measure (\<lambda>(p, acc, s). length s)") (auto simp: strip_prefix_Some)

declare split_seq.simps [simp del]

text \<open>
  \<open>String::from_utf8_lossy\<close>: every maximal prefix of an ill-formed sequence becomes U+FFFD.
  \<open>utf8_chunk\<close> gives the length of the first character, or of its well-formed start.
\<close>

definition nth_cont :: "nat \<Rightarrow> nat list \<Rightarrow> bool" where
  "nth_cont i s = (i < length s \<and> utf8_cont (s ! i))"

definition second_ok :: "nat \<Rightarrow> nat list \<Rightarrow> bool" where
  "second_ok a s =
     (0 < length s
      \<and> (let b = s ! 0 in
         if a = 224 then 160 \<le> b \<and> b \<le> 191 else if a = 237 then 128 \<le> b \<and> b \<le> 159
         else if a = 240 then 144 \<le> b \<and> b \<le> 191 else if a = 244 then 128 \<le> b \<and> b \<le> 143 else utf8_cont b))"

definition utf8_chunk :: "nat \<Rightarrow> nat list \<Rightarrow> nat \<times> bool" where
  "utf8_chunk a s =
     (if a \<le> 127 then (1, True)
      else if 194 \<le> a \<and> a \<le> 223 then (if nth_cont 0 s then (2, True) else (1, False))
      else if 224 \<le> a \<and> a \<le> 239 then
        (if \<not> second_ok a s then (1, False) else if nth_cont 1 s then (3, True) else (2, False))
      else if 240 \<le> a \<and> a \<le> 244 then
        (if \<not> second_ok a s then (1, False) else if \<not> nth_cont 1 s then (2, False)
         else if nth_cont 2 s then (4, True) else (3, False))
      else (1, False))"

function lossy_nats :: "nat list \<Rightarrow> nat list" where
  "lossy_nats [] = []"
| "lossy_nats (a # s) =
     (case utf8_chunk a s of
        (n, ok) \<Rightarrow> (if ok then take n (a # s) else [239, 191, 189]) @ lossy_nats (drop n (a # s)))"
  by pat_completeness auto
termination
  by (relation "measure length") (auto simp: utf8_chunk_def split: if_splits)

definition from_utf8_lossy :: "bytes \<Rightarrow> bytes" where
  "from_utf8_lossy b = map of_nat (lossy_nats (map unat b))"

section \<open>Facts\<close>

lemma rsplit_once_parts: "rsplit_once c s = Some (h, t) \<longleftrightarrow> s = h @ c # t \<and> c \<notin> set t"
proof
  assume *: "rsplit_once c s = Some (h, t)"
  then have "c \<in> set (rev s)" by (simp add: rsplit_once_def split: if_splits)
  then have "dropWhile (\<lambda>d. d \<noteq> c) (rev s) = c # tl (dropWhile (\<lambda>d. d \<noteq> c) (rev s))"
    by (metis (mono_tags, lifting) dropWhile_eq_Nil_conv hd_dropWhile list.exhaust_sel)
  then have "rev s = takeWhile (\<lambda>d. d \<noteq> c) (rev s) @ c # tl (dropWhile (\<lambda>d. d \<noteq> c) (rev s))"
    by (metis takeWhile_dropWhile_id)
  then have "s = rev (tl (dropWhile (\<lambda>d. d \<noteq> c) (rev s))) @ c # rev (takeWhile (\<lambda>d. d \<noteq> c) (rev s))"
    by (metis append.assoc append_Cons append_Nil rev.simps(2) rev_append rev_rev_ident)
  then show "s = h @ c # t \<and> c \<notin> set t"
    using * by (auto simp: rsplit_once_def dest: set_takeWhileD split: if_splits)
next
  assume "s = h @ c # t \<and> c \<notin> set t"
  then have "takeWhile (\<lambda>d. d \<noteq> c) (rev s) = rev t" "dropWhile (\<lambda>d. d \<noteq> c) (rev s) = c # rev h" "c \<in> set s"
    by (auto simp: takeWhile_append2 dropWhile_append2 takeWhile_append dropWhile_append)
  then show "rsplit_once c s = Some (h, t)" by (simp add: rsplit_once_def)
qed

lemma rsplit_once_None: "rsplit_once c s = None \<longleftrightarrow> c \<notin> set s"
  by (simp add: rsplit_once_def)

lemma to_ascii_lowercase_Nil [simp]: "to_ascii_lowercase s = [] \<longleftrightarrow> s = []"
  by (simp add: to_ascii_lowercase_def)

lemma hd_split_on: "hd (split_on c s) = takeWhile (\<lambda>d. d \<noteq> c) s"
proof (induction s)
  case (Cons a s)
  then show ?case by (cases "split_on c s") auto
qed simp

lemma lowercase_mem:
  assumes "c \<in> set ''?#''"
  shows "c \<in> set (to_ascii_lowercase s) \<longleftrightarrow> c \<in> set s"
proof -
  have "char_of ((of_char d :: nat) + 32) \<noteq> c" "d \<noteq> c" if up: "is_ascii_upper d" for d
  proof -
    have d: "65 \<le> (of_char d :: nat)" "(of_char d :: nat) \<le> 90" using up by (simp_all add: is_ascii_upper_def less_eq_char_def)
    show "d \<noteq> c" using d assms by auto
    have "of_char (char_of ((of_char d :: nat) + 32) :: char) = (of_char d :: nat) + 32"
      using d by simp
    moreover have "of_char c = (63::nat) \<or> of_char c = (35::nat)" using assms by auto
    ultimately show "char_of ((of_char d :: nat) + 32) \<noteq> c" using d by auto
  qed
  then show ?thesis by (auto simp: to_ascii_lowercase_def image_iff)
qed

text \<open>Printable ASCII is never trimmed, and decimal text reads back.\<close>

definition graphic :: "char \<Rightarrow> bool" where
  "graphic c \<longleftrightarrow> (of_char c :: nat) \<in> {33..126}"

lemma graphic_not_blank: "graphic c \<Longrightarrow> \<not> blank_nats (of_char c # xs)" "graphic c \<Longrightarrow> ws_head (of_char c # xs) = 0"
  by (auto simp: graphic_def split: list.split)

lemma trim_graphic:
  assumes "list_all graphic s"
  shows "str_trim s = s"
proof -
  have "trim_start s = s"
    using assms graphic_not_blank(2) [of "hd s"] by (cases s) (simp_all add: trim_start.simps del: ws_head.simps)
  moreover have "find (\<lambda>n. trim_is_empty (drop n s)) [0..<Suc (length s)] = Some (length s)"
  proof -
    have "\<not> trim_is_empty (drop n s)" if "n < length s" for n
      using that assms graphic_not_blank(1) [of "s ! n"]
      by (simp add: trim_is_empty_def list_all_length flip: Cons_nth_drop_Suc)
    then show ?thesis by (auto simp: find_Some_iff trim_is_empty_def nth_append simp del: upt_Suc intro!: exI [of _ "length s"])
  qed
  ultimately show ?thesis by (simp add: str_trim_def trim_end_def del: upt_Suc)
qed

lemma digit_char: "n < 10 \<Longrightarrow> is_ascii_digit (char_of (48 + n)) \<and> of_char (char_of (48 + n) :: char) - (48::nat) = n"
  by (simp add: is_ascii_digit_def less_eq_char_def)

lemma decimal_digits: "list_all is_ascii_digit (decimal n) \<and> decimal n \<noteq> [] \<and> digits_value (decimal n) = n"
proof (induction n rule: decimal.induct)
  case (1 n)
  show ?case
  proof (cases "n < 10")
    case True
    then show ?thesis using digit_char [of n] by (simp add: decimal.simps [of n] digits_value_def)
  next
    case False
    then show ?thesis using 1 digit_char [of "n mod 10"] by (simp add: decimal.simps [of n] digits_value_def Let_def)
  qed
qed

end
