(* ===== verification/Egress.thy ===== *)
theory Egress
  imports Broker Text
begin

text \<open>
  \<open>celln-warden/src/egress.rs\<close>: the host-owned HTTP capability of a cell. A guest gives a URL;
  the broker checks it against the policy, resolves the name, picks an address and lets
  \<open>curl\<close> connect to exactly that address, one redirect at a time.

  Outside the program are the resolver, the transfer program and the file system's temporary
  files; \<open>NetEnv\<close> has their answers as functions of the time, which is the number of external
  calls so far, so that an answer may differ from call to call. \<open>Net\<close> is the world: the time,
  every transfer that was started (newest first) with its exact arguments, and the artifact
  broker. An argument that names a temporary file is \<open>HeaderFile\<close> (where the response headers
  go) or \<open>AtFile\<close> with the contents of the file.
\<close>

section \<open>Policy\<close>

text \<open>An IPv6 address is kept as its text: no rule looks inside one.\<close>

datatype IpAddr = V4 u8 u8 u8 u8 | V6 string

datatype ModelProtocol = OpenaiChat | AnthropicMessages

record JsonPostGrant =
  jg_protocol :: ModelProtocol
  jg_url :: string
  jg_bearer_token_file :: string
  jg_model :: string
  jg_max_output_tokens :: u64
  jg_max_total_output_tokens :: u64
  jg_parameters :: "(string, Value) btree"

record GetGrant =
  gg_allow_hosts :: "string list"
  gg_max_requests :: nat
  gg_max_response_bytes :: nat
  gg_timeout :: duration

record PostGrant =
  pg_allow_hosts :: "string list"
  pg_max_requests :: nat
  pg_max_body_bytes :: nat
  pg_max_response_bytes :: nat
  pg_timeout :: duration

text \<open>A workspace grant is the index of its authority, as in theory \<open>Broker\<close>.\<close>

record HttpPolicy =
  hp_allow_hosts :: "string list"
  hp_max_requests :: nat
  hp_max_response_bytes :: nat
  hp_timeout :: duration
  hp_json_posts :: "JsonPostGrant list"
  hp_workspace :: "nat option"
  hp_get :: "GetGrant option"
  hp_post :: "PostGrant option"
  hp_allow_insecure :: bool

datatype Reach = ReachModel | ReachTool "string list"

record Authorized =
  az_scheme :: string
  az_host :: string
  az_port :: u16
  az_ip :: IpAddr

text \<open>\<open>Fetch\<close> carries a message; a message of the artifact broker is kept as its error.\<close>

datatype FetchDenied = Scheme | Authority | Host string | Budget | Address | Fetch string | FetchWs BrokerError

definition GET_DOWNLOAD_CAP :: nat where "GET_DOWNLOAD_CAP = 2 ^ 20"
definition ANY_PUBLIC_HOST :: string where "ANY_PUBLIC_HOST = ''*''"

definition host_allowed :: "string list \<Rightarrow> string \<Rightarrow> bool" where
  "host_allowed hosts host =
     (if host = [] then False
      else if length hosts = 1 \<and> hosts ! 0 = ANY_PUBLIC_HOST then True
      else list_ex (\<lambda>allowed. allowed \<noteq> ANY_PUBLIC_HOST \<and> eq_ignore_ascii_case allowed host) hosts)"

definition HttpPolicy_new :: "string list \<Rightarrow> HttpPolicy" where
  "HttpPolicy_new hosts =
     \<lparr>hp_allow_hosts = hosts, hp_max_requests = 32, hp_max_response_bytes = 2 ^ 20, hp_timeout = 10 * 1000000000,
      hp_json_posts = [], hp_workspace = None, hp_get = None, hp_post = None, hp_allow_insecure = False\<rparr>"

definition url_host :: "string \<Rightarrow> string option" where
  "url_host url =
     (case (case strip_prefix ''https://'' url of Some r \<Rightarrow> Some r | None \<Rightarrow> strip_prefix ''http://'' url) of
        None \<Rightarrow> None
      | Some rest \<Rightarrow>
          (let authority = hd (split_on (CHR ''/'') rest) in
           if authority = [] \<or> CHR ''@'' \<in> set authority then None
           else (let host = (case rsplit_once (CHR '':'') authority of Some (h, _) \<Rightarrow> h | None \<Rightarrow> authority)
                 in if host \<noteq> [] then Some (to_ascii_lowercase host) else None)))"

definition is_public_v4 :: "u8 \<Rightarrow> u8 \<Rightarrow> u8 \<Rightarrow> u8 \<Rightarrow> bool" where
  "is_public_v4 a b c d =
     (\<not> (a = 0 \<or> a = 10 \<or> a = 127 \<or> 224 \<le> a
        \<or> a = 100 \<and> (64 \<le> b \<and> b \<le> 127)
        \<or> a = 169 \<and> b = 254
        \<or> a = 172 \<and> (16 \<le> b \<and> b \<le> 31)
        \<or> a = 192 \<and> (b = 0 \<or> b = 168)
        \<or> a = 192 \<and> b = 88 \<and> c = 99
        \<or> a = 198 \<and> (b = 18 \<or> b = 19)
        \<or> a = 198 \<and> b = 51 \<and> c = 100
        \<or> a = 203 \<and> b = 0 \<and> c = 113))"

section \<open>The world\<close>

datatype Arg = ArgStr string | HeaderFile | AtFile bytes

record CurlOut =
  co_success :: bool
  co_stdout :: bytes
  co_stderr :: bytes
  co_headers :: "string option"

datatype Purpose = ForGet | ForModel | ForPost

record Net =
  nw_time :: nat
  nw_log :: "(Purpose \<times> Arg list) list"
  nw_relayed :: "bytes list"
  nw_ws :: Broker

record NetEnv =
  ne_current :: "Control option"
  ne_clock :: "nat \<Rightarrow> nat \<Rightarrow> instant"
  ne_getent :: "nat \<Rightarrow> string \<Rightarrow> string + (bool \<times> bytes)"
  ne_socket_addrs :: "nat \<Rightarrow> string \<times> u16 \<Rightarrow> unit + IpAddr list"
  ne_tempfile :: "nat \<Rightarrow> string + unit"
  ne_curl :: "nat \<Rightarrow> Arg list \<Rightarrow> string + CurlOut"
  ne_secs_f64 :: "duration \<Rightarrow> string"

definition tick :: "Net \<Rightarrow> Net" where
  "tick w = w\<lparr>nw_time := Suc (nw_time w)\<rparr>"

definition run_curl :: "NetEnv \<Rightarrow> Purpose \<Rightarrow> Arg list \<Rightarrow> Net \<Rightarrow> Net \<times> (string + CurlOut)" where
  "run_curl E p args w = ((tick w)\<lparr>nw_log := (p, args) # nw_log w\<rparr>, ne_curl E (nw_time w) args)"

definition ip_text :: "IpAddr \<Rightarrow> string" where
  "ip_text ip =
     (case ip of
        V4 a b c d \<Rightarrow>
          decimal (unat a) @ ''.'' @ decimal (unat b) @ ''.'' @ decimal (unat c) @ ''.'' @ decimal (unat d)
      | V6 s \<Rightarrow> s)"

definition resolve_arg :: "Authorized \<Rightarrow> string" where
  "resolve_arg a = az_host a @ '':'' @ decimal (unat (az_port a)) @ '':'' @ ip_text (az_ip a)"

section \<open>The broker\<close>

text \<open>The relay of a mediated model transport is outside the broker: only its presence is state.\<close>

record HttpBroker =
  hb_policy :: HttpPolicy
  hb_used :: nat
  hb_get_used :: nat
  hb_post_used :: nat
  hb_post_output_reserved :: "(string, u64) btree"
  hb_model_relay :: bool

definition HttpBroker_new :: "HttpPolicy \<Rightarrow> HttpBroker" where
  "HttpBroker_new policy =
     \<lparr>hb_policy = policy, hb_used = 0, hb_get_used = 0, hb_post_used = 0, hb_post_output_reserved = [], hb_model_relay = False\<rparr>"

definition new_mediated :: "HttpPolicy \<Rightarrow> FetchDenied + HttpBroker" where
  "new_mediated policy =
     (if hp_allow_insecure policy \<or> length (hp_json_posts policy) \<noteq> 1
         \<or> jg_bearer_token_file (hp_json_posts policy ! 0) \<noteq> []
      then Err (Fetch ''mediated model grant requires exactly one credential-free route'')
      else Ok ((HttpBroker_new policy)\<lparr>hb_model_relay := True\<rparr>))"

definition is_mediated :: "HttpBroker \<Rightarrow> bool" where
  "is_mediated b = hb_model_relay b"

definition with_scoped_artifacts :: "nat \<Rightarrow> HttpBroker \<Rightarrow> FetchDenied + HttpBroker" where
  "with_scoped_artifacts grant b =
     (let p = hb_policy b in
      if \<not> is_mediated b \<or> hp_workspace p \<noteq> None \<or> hp_allow_hosts p \<noteq> [] \<or> hp_get p \<noteq> None \<or> hp_post p \<noteq> None
      then Err (Fetch ''invalid scoped artifact transport'')
      else Ok (b\<lparr>hb_policy := p\<lparr>hp_workspace := Some grant\<rparr>\<rparr>))"

definition with_scoped_https :: "GetGrant option \<Rightarrow> PostGrant option \<Rightarrow> HttpBroker \<Rightarrow> FetchDenied + HttpBroker" where
  "with_scoped_https get post b =
     (let p = hb_policy b in
      if \<not> is_mediated b \<or> hp_allow_insecure p \<or> hp_allow_hosts p \<noteq> [] \<or> hp_get p \<noteq> None \<or> hp_post p \<noteq> None
         \<or> (get = None \<and> post = None)
      then Err (Fetch ''invalid scoped HTTPS transport'')
      else Ok (b\<lparr>hb_policy := p\<lparr>
             hp_get := Some (case get of
               Some g \<Rightarrow> g
             | None \<Rightarrow> \<lparr>gg_allow_hosts = [], gg_max_requests = 0, gg_max_response_bytes = 0, gg_timeout = 1000000000\<rparr>),
             hp_post := post\<rparr>\<rparr>))"

definition fits_mediated_turn :: "HttpBroker \<Rightarrow> u64 \<Rightarrow> u64 \<Rightarrow> bool" where
  "fits_mediated_turn b requests tokens =
     (let p = hb_policy b in
      is_mediated b \<and> hp_allow_hosts p = [] \<and> hp_workspace p = None \<and> hp_get p = None \<and> hp_post p = None
      \<and> hp_max_requests p \<le> unat requests
      \<and> length (hp_json_posts p) = 1
      \<and> jg_max_total_output_tokens (hp_json_posts p ! 0) \<le> tokens
      \<and> jg_max_output_tokens (hp_json_posts p ! 0) \<le> jg_max_total_output_tokens (hp_json_posts p ! 0))"

section \<open>Authorization\<close>

definition parse_ipv4 :: "string \<Rightarrow> IpAddr option" where
  "parse_ipv4 s =
     (let part_ok = (\<lambda>p. p \<noteq> [] \<and> length p \<le> 3 \<and> list_all is_ascii_digit p
                        \<and> (length p = 1 \<or> hd p \<noteq> CHR ''0'') \<and> digits_value p \<le> 255)
      in case split_on (CHR ''.'') s of
           [a, b, c, d] \<Rightarrow>
             if list_all part_ok [a, b, c, d]
             then Some (V4 (of_nat (digits_value a)) (of_nat (digits_value b)) (of_nat (digits_value c)) (of_nat (digits_value d)))
             else None
         | _ \<Rightarrow> None)"

text \<open>The checks that need no network: scheme, authority, port and allowlist.\<close>

definition authorize_target :: "HttpPolicy \<Rightarrow> string \<Rightarrow> Reach \<Rightarrow> FetchDenied + (string \<times> string \<times> u16)" where
  "authorize_target policy raw reach =
     (let insecure = (reach = ReachModel \<and> hp_allow_insecure policy) in
      case (case strip_prefix ''https://'' raw of
              Some rest \<Rightarrow> Ok (''https'', rest)
            | None \<Rightarrow>
                if insecure
                then (case strip_prefix ''http://'' raw of Some rest \<Rightarrow> Ok (''http'', rest) | None \<Rightarrow> Err Scheme)
                else Err Scheme) of
        Inl e \<Rightarrow> Inl e
      | Inr (scheme, rest) \<Rightarrow>
      (let authority = hd (split_on (CHR ''/'') rest) in
       if authority = [] \<or> CHR ''@'' \<in> set authority then Err Authority
       else case (case rsplit_once (CHR '':'') authority of
                    Some (host, port) \<Rightarrow>
                      (case parse_u16 port of
                         None \<Rightarrow> Err Authority
                       | Some p \<Rightarrow> if p = 0 then Err Authority else Ok (to_ascii_lowercase host, p))
                  | None \<Rightarrow> Ok (to_ascii_lowercase authority, if scheme = ''https'' then 443 else 80)) of
         Inl e \<Rightarrow> Inl e
       | Inr (host, port) \<Rightarrow>
           if host = [] \<or> (\<not> insecure \<and> port \<noteq> 443) then Err Authority
           else (let admitted = (case reach of
                       ReachModel \<Rightarrow>
                         list_ex (\<lambda>h. h \<noteq> ANY_PUBLIC_HOST \<and> eq_ignore_ascii_case h host) (hp_allow_hosts policy)
                     | ReachTool hosts \<Rightarrow> host_allowed hosts host)
                 in if \<not> admitted then Err (Host host) else Ok (scheme, host, port))))"

text \<open>
  Under a control the name is resolved by an owned process, whose lines start with an
  address each; the IPv6 addresses among them, which are never chosen, are left out here.
\<close>

definition resolve_host :: "NetEnv \<Rightarrow> string \<Rightarrow> u16 \<Rightarrow> Net \<Rightarrow> Net \<times> (FetchDenied + IpAddr list)" where
  "resolve_host E host port w =
     (tick w,
      if ne_current E \<noteq> None
      then (case ne_getent E (nw_time w) host of
              Inl e \<Rightarrow> Err (Fetch e)
            | Inr (success, out) \<Rightarrow>
                if \<not> success then Err Address
                else Ok (List.map_filter
                       (\<lambda>line. case split_whitespace line of [] \<Rightarrow> None | a # _ \<Rightarrow> parse_ipv4 a)
                       (map bytes_str (str_lines (from_utf8_lossy out)))))
      else (case ne_socket_addrs E (nw_time w) (host, port) of
              Inl _ \<Rightarrow> Err Address
            | Inr addrs \<Rightarrow> Ok addrs))"

definition usable_address :: "bool \<Rightarrow> IpAddr \<Rightarrow> bool" where
  "usable_address insecure ip = (case ip of V4 a b c d \<Rightarrow> insecure \<or> is_public_v4 a b c d | V6 _ \<Rightarrow> False)"

definition http_authorize :: "NetEnv \<Rightarrow> HttpPolicy \<Rightarrow> string \<Rightarrow> Reach \<Rightarrow> Net \<Rightarrow> Net \<times> (FetchDenied + Authorized)" where
  "http_authorize E policy raw reach w =
     (case authorize_target policy raw reach of
        Inl e \<Rightarrow> (w, Inl e)
      | Inr (scheme, host, port) \<Rightarrow>
          (case resolve_host E host port w of
             (w', Inl e) \<Rightarrow> (w', Inl e)
           | (w', Inr addresses) \<Rightarrow>
               (w', case find (usable_address (reach = ReachModel \<and> hp_allow_insecure policy)) addresses of
                      None \<Rightarrow> Err Address
                    | Some ip \<Rightarrow> Ok \<lparr>az_scheme = scheme, az_host = host, az_port = port, az_ip = ip\<rparr>)))"

section \<open>One GET\<close>

definition response_status_and_location :: "string \<Rightarrow> (u16 \<times> string option) option" where
  "response_status_and_location headers =
     (case filter (starts_with ''HTTP/'') (split_seq [CHR 0x0D, CHR 0x0A, CHR 0x0D, CHR 0x0A] [] headers) of
        [] \<Rightarrow> None
      | blocks \<Rightarrow>
          (let block = last blocks; ws = split_whitespace block in
           if length ws < 2 then None
           else (case parse_u16 (ws ! 1) of
                   None \<Rightarrow> None
                 | Some status \<Rightarrow>
                     Some (status,
                       case List.map_filter
                              (\<lambda>line. case split_once (CHR '':'') line of
                                         None \<Rightarrow> None
                                       | Some (name, v) \<Rightarrow>
                                           if eq_ignore_ascii_case name ''location'' then Some (str_trim v) else None)
                              (map bytes_str (str_lines (as_bytes block))) of
                         [] \<Rightarrow> None
                       | l # _ \<Rightarrow> Some l))))"

definition redirect_url :: "string \<Rightarrow> string \<Rightarrow> FetchDenied + string" where
  "redirect_url current location =
     (if starts_with ''https://'' location then Ok location
      else (case strip_prefix ''//'' location of
              Some host_relative \<Rightarrow> Ok (''https://'' @ host_relative)
            | None \<Rightarrow>
                (case strip_prefix ''https://'' current of
                   None \<Rightarrow> Err Scheme
                 | Some rest \<Rightarrow>
                     (let authority = hd (split_on (CHR ''/'') rest) in
                      if starts_with ''/'' location then Ok (''https://'' @ authority @ location)
                      else (let base = (case rsplit_once (CHR ''/'') current of Some (p, _) \<Rightarrow> p | None \<Rightarrow> current)
                            in Ok (base @ ''/'' @ location))))))"

text \<open>The answer is cut to the grant, back to the start of a character.\<close>

fun char_boundary :: "bytes \<Rightarrow> nat \<Rightarrow> nat" where
  "char_boundary body 0 = 0"
| "char_boundary body (Suc n) = (if utf8_cont (unat (body ! Suc n)) then char_boundary body n else Suc n)"

definition cut_body :: "nat \<Rightarrow> bytes \<Rightarrow> bytes" where
  "cut_body limit body = (if length body > limit then take (char_boundary body limit) body else body)"

definition get_args :: "NetEnv \<Rightarrow> duration \<Rightarrow> string \<Rightarrow> Authorized \<Rightarrow> Arg list" where
  "get_args E tmo url a =
     map ArgStr [''--disable'', ''--globoff'', ''--noproxy'', ''*'', ''--silent'', ''--show-error'', ''--proto'', ''=https'',
       ''--max-redirs'', ''0'', ''--max-time'', ne_secs_f64 E tmo, ''--max-filesize'', decimal GET_DOWNLOAD_CAP,
       ''--resolve'', resolve_arg a, ''--dump-header'']
     @ [HeaderFile, ArgStr url]"

definition get_hosts :: "HttpPolicy \<Rightarrow> string list" where
  "get_hosts p = (case hp_get p of Some g \<Rightarrow> gg_allow_hosts g | None \<Rightarrow> hp_allow_hosts p)"

text \<open>The grant in force: the one for GETs, or the shared allowance.\<close>

definition get_limit :: "HttpPolicy \<Rightarrow> nat" where
  "get_limit p = (case hp_get p of Some g \<Rightarrow> gg_max_requests g | None \<Rightarrow> hp_max_requests p)"

definition get_bytes :: "HttpPolicy \<Rightarrow> nat" where
  "get_bytes p = (case hp_get p of Some g \<Rightarrow> gg_max_response_bytes g | None \<Rightarrow> hp_max_response_bytes p)"

definition get_spent :: "HttpBroker \<Rightarrow> nat" where
  "get_spent b = (case hp_get (hb_policy b) of Some g \<Rightarrow> hb_get_used b | None \<Rightarrow> hb_used b)"

definition get_timeout :: "HttpPolicy \<Rightarrow> duration" where
  "get_timeout p = (case hp_get p of Some g \<Rightarrow> gg_timeout g | None \<Rightarrow> hp_timeout p)"

text \<open>One turn of the loop: the final answer, or the address to go on with.\<close>

definition get_hop ::
  "NetEnv \<Rightarrow> string \<Rightarrow> HttpBroker \<Rightarrow> Net \<Rightarrow> Net \<times> HttpBroker \<times> ((FetchDenied + bytes) + string)" where
  "get_hop E url b w =
     (let p = hb_policy b in
      if get_spent b \<ge> get_limit p then (w, b, Inl (Err Budget))
      else (case http_authorize E p url (ReachTool (get_hosts p)) w of
        (w1, Inl e) \<Rightarrow> (w1, b, Inl (Inl e))
      | (w1, Inr a) \<Rightarrow>
      (let b1 = b\<lparr>hb_used := hb_used b + 1, hb_get_used := hb_get_used b + 1\<rparr>; w2 = tick w1 in
       case ne_tempfile E (nw_time w1) of
         Inl e \<Rightarrow> (w2, b1, Inl (Err (Fetch e)))
       | Inr _ \<Rightarrow>
       (case run_curl E ForGet (get_args E (get_timeout p) url a) w2 of
          (w3, Inl e) \<Rightarrow> (w3, b1, Inl (Err (Fetch e)))
        | (w3, Inr out) \<Rightarrow>
            (w3, b1,
             if \<not> co_success out then Inl (Err (Fetch (str_trim (bytes_str (from_utf8_lossy (co_stderr out))))))
             else (case response_status_and_location (case co_headers out of Some h \<Rightarrow> h | None \<Rightarrow> []) of
                     None \<Rightarrow> Inl (Err (Fetch ''missing HTTP response headers''))
                   | Some (status, location) \<Rightarrow>
                       if \<not> (300 \<le> status \<and> status < 400)
                       then Inl (if status \<ge> 400 then Err (Fetch (''HTTP '' @ decimal (unat status)))
                                 else Ok (cut_body (get_bytes p) (co_stdout out)))
                       else (case location of
                               None \<Rightarrow> Inl (Err (Fetch ''redirect without Location''))
                             | Some l \<Rightarrow> (case redirect_url url l of Inl e \<Rightarrow> Inl (Inl e) | Inr url' \<Rightarrow> Inr url'))))))))"

fun get_hops :: "NetEnv \<Rightarrow> nat \<Rightarrow> string \<Rightarrow> HttpBroker \<Rightarrow> Net \<Rightarrow> Net \<times> HttpBroker \<times> (FetchDenied + bytes)" where
  "get_hops E 0 url b w = (w, b, Err (Fetch ''too many redirects (limit 5)''))"
| "get_hops E (Suc n) url b w =
     (case get_hop E url b w of
        (w', b', Inl r) \<Rightarrow> (w', b', r)
      | (w', b', Inr url') \<Rightarrow> get_hops E n url' b' w')"

section \<open>Public addresses\<close>

text \<open>The refused blocks as the sources list them, in prefix notation.\<close>

definition v4_number :: "nat \<Rightarrow> nat \<Rightarrow> nat \<Rightarrow> nat \<Rightarrow> nat" where
  "v4_number a b c d = a * 2 ^ 24 + b * 2 ^ 16 + c * 2 ^ 8 + d"

definition refused_blocks :: "(nat \<times> nat) list" where
  "refused_blocks =
     [(v4_number 0 0 0 0, 8), (v4_number 10 0 0 0, 8), (v4_number 100 64 0 0, 10), (v4_number 127 0 0 0, 8),
      (v4_number 169 254 0 0, 16), (v4_number 172 16 0 0, 12), (v4_number 192 0 0 0, 16), (v4_number 192 88 99 0, 24),
      (v4_number 192 168 0 0, 16), (v4_number 198 18 0 0, 15), (v4_number 198 51 100 0, 24), (v4_number 203 0 113 0, 24),
      (v4_number 224 0 0 0, 3)]"

definition in_block :: "nat \<Rightarrow> nat \<times> nat \<Rightarrow> bool" where
  "in_block n blk = (n div 2 ^ (32 - snd blk) = fst blk div 2 ^ (32 - snd blk))"

lemma div_block: "0 < k \<Longrightarrow> n div k = q \<longleftrightarrow> q * k \<le> n \<and> n < q * k + (k::nat)"
  by (metis add.commute add_mult_distrib2 div_nat_eqI dividend_less_times_div less_mult_imp_div_less mult.commute
      mult_Suc_right times_div_less_eq_dividend)

lemma octet_blocks:
  assumes "a < 256" "b < 256" "c < 256" "d < (256::nat)"
  shows "v4_number a b c d div 2 ^ 24 = a"
    and "v4_number a b c d div 2 ^ 16 = a * 256 + b"
    and "v4_number a b c d div 2 ^ 8 = (a * 256 + b) * 256 + c"
    and "v4_number a b c d div 2 ^ 22 = a * 4 + b div 64"
    and "v4_number a b c d div 2 ^ 20 = a * 16 + b div 16"
    and "v4_number a b c d div 2 ^ 17 = a * 128 + b div 2"
    and "v4_number a b c d div 2 ^ 29 = a div 32"
  using assms unfolding v4_number_def by (simp_all; presburger)+

lemma digits2: "b < k \<Longrightarrow> q < k \<Longrightarrow> a * k + b = p * k + q \<longleftrightarrow> a = p \<and> b = (q::nat)"
  by (metis add_right_cancel div_mult_self3 div_less mod_less mod_mult_self3 add.right_neutral less_nat_zero_code)

lemma unat_octet: "unat (a :: u8) < 256"
  using unat_u8_less [of a] by simp

lemma octet_eq: "(a :: u8) = numeral k \<longleftrightarrow> unat a = unat (numeral k :: u8)" "(a :: u8) = 0 \<longleftrightarrow> unat a = 0"
  by (simp_all add: word_unat_eq_iff)

lemma split_blocks:
  assumes "a < 256" "b < 256" "c < (256::nat)"
  shows "a * 256 + b = 43518 \<longleftrightarrow> a = 169 \<and> b = 254" "a * 256 + b = 49152 \<longleftrightarrow> a = 192 \<and> b = 0"
    and "a * 256 + b = 49320 \<longleftrightarrow> a = 192 \<and> b = 168"
    and "(a * 256 + b) * 256 + c = 12605539 \<longleftrightarrow> a = 192 \<and> b = 88 \<and> c = 99"
    and "(a * 256 + b) * 256 + c = 12989284 \<longleftrightarrow> a = 198 \<and> b = 51 \<and> c = 100"
    and "(a * 256 + b) * 256 + c = 13303921 \<longleftrightarrow> a = 203 \<and> b = 0 \<and> c = 113"
    and "a * 4 + b div 64 = 401 \<longleftrightarrow> a = 100 \<and> 64 \<le> b \<and> b \<le> 127"
    and "a * 16 + b div 16 = 2753 \<longleftrightarrow> a = 172 \<and> 16 \<le> b \<and> b \<le> 31"
    and "a * 128 + b div 2 = 25353 \<longleftrightarrow> a = 198 \<and> (b = 18 \<or> b = 19)"
    and "a div 32 = 7 \<longleftrightarrow> 224 \<le> a"
proof -
  have two: "a * 256 + b = p * 256 + q \<longleftrightarrow> a = p \<and> b = q" if "q < 256" for p q
    using digits2 [of b 256 q a p] assms that by simp
  have three: "(a * 256 + b) * 256 + c = (p * 256 + q) * 256 + r \<longleftrightarrow> a = p \<and> b = q \<and> c = r" if "q < 256" "r < 256" for p q r
    using digits2 [of c 256 r "a * 256 + b" "p * 256 + q"] two [of q p] assms that by simp
  show "a * 256 + b = 43518 \<longleftrightarrow> a = 169 \<and> b = 254" "a * 256 + b = 49152 \<longleftrightarrow> a = 192 \<and> b = 0"
    "a * 256 + b = 49320 \<longleftrightarrow> a = 192 \<and> b = 168"
    using two [of 254 169] two [of 0 192] two [of 168 192] by simp_all
  show "(a * 256 + b) * 256 + c = 12605539 \<longleftrightarrow> a = 192 \<and> b = 88 \<and> c = 99"
    "(a * 256 + b) * 256 + c = 12989284 \<longleftrightarrow> a = 198 \<and> b = 51 \<and> c = 100"
    "(a * 256 + b) * 256 + c = 13303921 \<longleftrightarrow> a = 203 \<and> b = 0 \<and> c = 113"
    using three [of 88 99 192] three [of 51 100 198] three [of 0 113 203] by simp_all
  have "b div 64 < 4" "b div 16 < 16" "b div 2 < 128" using assms(2) by auto
  then have "a * 4 + b div 64 = 401 \<longleftrightarrow> a = 100 \<and> b div 64 = 1"
    "a * 16 + b div 16 = 2753 \<longleftrightarrow> a = 172 \<and> b div 16 = 1"
    "a * 128 + b div 2 = 25353 \<longleftrightarrow> a = 198 \<and> b div 2 = 9"
    using digits2 [of "b div 64" 4 1 a 100] digits2 [of "b div 16" 16 1 a 172] digits2 [of "b div 2" 128 9 a 198] by simp_all
  then show "a * 4 + b div 64 = 401 \<longleftrightarrow> a = 100 \<and> 64 \<le> b \<and> b \<le> 127"
    "a * 16 + b div 16 = 2753 \<longleftrightarrow> a = 172 \<and> 16 \<le> b \<and> b \<le> 31"
    "a * 128 + b div 2 = 25353 \<longleftrightarrow> a = 198 \<and> (b = 18 \<or> b = 19)"
    by (auto simp: div_block)
  show "a div 32 = 7 \<longleftrightarrow> 224 \<le> a" using assms(1) by (auto simp: div_block)
qed

lemma list_ex_Cons: "list_ex P (x # xs) \<longleftrightarrow> P x \<or> list_ex P xs" and list_ex_Nil: "\<not> list_ex P []"
  by simp_all

lemma octet_numerals:
  "unat (10::u8) = 10" "unat (127::u8) = 127" "unat (224::u8) = 224" "unat (100::u8) = 100" "unat (64::u8) = 64"
  "unat (169::u8) = 169" "unat (254::u8) = 254" "unat (172::u8) = 172" "unat (16::u8) = 16" "unat (31::u8) = 31"
  "unat (192::u8) = 192" "unat (168::u8) = 168" "unat (88::u8) = 88" "unat (99::u8) = 99" "unat (198::u8) = 198"
  "unat (18::u8) = 18" "unat (19::u8) = 19" "unat (51::u8) = 51" "unat (203::u8) = 203" "unat (113::u8) = 113"
  by simp_all

text \<open>
  The octet tests decide exactly the blocks the sources document: an address is public
  if and only if it lies in none of 0/8, 10/8, 100.64/10, 127/8, 169.254/16, 172.16/12,
  192.0/16, 192.88.99/24, 192.168/16, 198.18/15, 198.51.100/24, 203.0.113/24 and 224/3.
\<close>

theorem public_v4_exact:
  "is_public_v4 a b c d \<longleftrightarrow> \<not> list_ex (in_block (v4_number (unat a) (unat b) (unat c) (unat d))) refused_blocks"
proof -
  define n where "n = v4_number (unat a) (unat b) (unat c) (unat d)"
  have bound: "unat a < 256" "unat b < 256" "unat c < 256" "unat d < 256" by (rule unat_octet)+
  have "list_ex (in_block n) refused_blocks \<longleftrightarrow>
      list_ex (\<lambda>(k, q). n div 2 ^ k = q) (map (\<lambda>(p, k). (32 - k, p div 2 ^ (32 - k))) refused_blocks)"
    by (simp add: list_ex_iff in_block_def split_beta)
  also have "map (\<lambda>(p, k). (32 - k, p div 2 ^ (32 - k))) refused_blocks =
      [(24, 0), (24, 10), (22, 401), (24, 127), (16, 43518), (20, 2753), (16, 49152), (8, 12605539), (16, 49320),
       (17, 25353), (8, 12989284), (8, 13303921), (29, 7)]"
    by (simp add: refused_blocks_def v4_number_def)
  also have "list_ex (\<lambda>(k, q). n div 2 ^ k = q) \<dots> \<longleftrightarrow>
      n div 2 ^ 24 = 0 \<or> n div 2 ^ 24 = 10 \<or> n div 2 ^ 22 = 401 \<or> n div 2 ^ 24 = 127 \<or> n div 2 ^ 16 = 43518
      \<or> n div 2 ^ 20 = 2753 \<or> n div 2 ^ 16 = 49152 \<or> n div 2 ^ 8 = 12605539 \<or> n div 2 ^ 16 = 49320
      \<or> n div 2 ^ 17 = 25353 \<or> n div 2 ^ 8 = 12989284 \<or> n div 2 ^ 8 = 13303921 \<or> n div 2 ^ 29 = 7"
    by (simp only: list_ex_Cons list_ex_Nil prod.case simp_thms)
  finally have blocks: "list_ex (in_block n) refused_blocks \<longleftrightarrow>
      unat a = 0 \<or> unat a = 10 \<or> unat a = 100 \<and> 64 \<le> unat b \<and> unat b \<le> 127 \<or> unat a = 127
      \<or> unat a = 169 \<and> unat b = 254 \<or> unat a = 172 \<and> 16 \<le> unat b \<and> unat b \<le> 31 \<or> unat a = 192 \<and> unat b = 0
      \<or> unat a = 192 \<and> unat b = 88 \<and> unat c = 99 \<or> unat a = 192 \<and> unat b = 168
      \<or> unat a = 198 \<and> (unat b = 18 \<or> unat b = 19) \<or> unat a = 198 \<and> unat b = 51 \<and> unat c = 100
      \<or> unat a = 203 \<and> unat b = 0 \<and> unat c = 113 \<or> 224 \<le> unat a"
    unfolding n_def octet_blocks [OF bound] split_blocks [OF bound(1-3)] .
  have "is_public_v4 a b c d \<longleftrightarrow>
      \<not> (unat a = 0 \<or> unat a = 10 \<or> unat a = 127 \<or> 224 \<le> unat a
        \<or> unat a = 100 \<and> (64 \<le> unat b \<and> unat b \<le> 127)
        \<or> unat a = 169 \<and> unat b = 254
        \<or> unat a = 172 \<and> (16 \<le> unat b \<and> unat b \<le> 31)
        \<or> unat a = 192 \<and> (unat b = 0 \<or> unat b = 168)
        \<or> unat a = 192 \<and> unat b = 88 \<and> unat c = 99
        \<or> unat a = 198 \<and> (unat b = 18 \<or> unat b = 19)
        \<or> unat a = 198 \<and> unat b = 51 \<and> unat c = 100
        \<or> unat a = 203 \<and> unat b = 0 \<and> unat c = 113)"
    unfolding is_public_v4_def octet_eq word_le_nat_alt octet_numerals ..
  then show ?thesis using blocks unfolding n_def by argo
qed

section \<open>What an authorization says\<close>

text \<open>
  \<open>tool_reach hosts url a\<close>: the destination \<open>a\<close> of a web tool request for \<open>url\<close>. \<open>model_reach\<close> is
  the operator's model endpoint, where the operator may allow other ports and addresses.
\<close>

definition tool_reach :: "string list \<Rightarrow> string \<Rightarrow> Authorized \<Rightarrow> bool" where
  "tool_reach hosts url a \<longleftrightarrow>
     starts_with ''https://'' url \<and> url_host url = Some (az_host a) \<and> host_allowed hosts (az_host a)
     \<and> az_scheme a = ''https'' \<and> az_port a = 443
     \<and> (\<exists>o1 o2 o3 o4. az_ip a = V4 o1 o2 o3 o4 \<and> is_public_v4 o1 o2 o3 o4)"

definition model_reach :: "HttpPolicy \<Rightarrow> string \<Rightarrow> Authorized \<Rightarrow> bool" where
  "model_reach p url a \<longleftrightarrow>
     url_host url = Some (az_host a)
     \<and> (\<exists>h \<in> set (hp_allow_hosts p). h \<noteq> ANY_PUBLIC_HOST \<and> eq_ignore_ascii_case h (az_host a))
     \<and> (\<exists>o1 o2 o3 o4. az_ip a = V4 o1 o2 o3 o4 \<and> (is_public_v4 o1 o2 o3 o4 \<or> hp_allow_insecure p))
     \<and> (az_scheme a = ''https'' \<and> az_port a = 443 \<or> hp_allow_insecure p)"

lemma authorize_target_Ok:
  assumes "authorize_target p raw reach = Ok (scheme, host, port)"
  shows "url_host raw = Some host"
    and "\<not> (reach = ReachModel \<and> hp_allow_insecure p) \<Longrightarrow>
           starts_with ''https://'' raw \<and> scheme = ''https'' \<and> port = 443"
    and "case reach of
           ReachTool hosts \<Rightarrow> host_allowed hosts host
         | ReachModel \<Rightarrow> \<exists>h \<in> set (hp_allow_hosts p). h \<noteq> ANY_PUBLIC_HOST \<and> eq_ignore_ascii_case h host"
proof -
  let ?insecure = "reach = ReachModel \<and> hp_allow_insecure p"
  obtain rest where rest: "strip_prefix ''https://'' raw = Some rest \<and> scheme = ''https''
      \<or> strip_prefix ''https://'' raw = None \<and> strip_prefix ''http://'' raw = Some rest \<and> ?insecure"
    and auth: "hd (split_on (CHR ''/'') rest) \<noteq> []" "CHR ''@'' \<notin> set (hd (split_on (CHR ''/'') rest))"
    and host: "case rsplit_once (CHR '':'') (hd (split_on (CHR ''/'') rest)) of
        Some (h, q) \<Rightarrow> host = to_ascii_lowercase h \<and> parse_u16 q = Some port
      | None \<Rightarrow> host = to_ascii_lowercase (hd (split_on (CHR ''/'') rest)) \<and> port = (if scheme = ''https'' then 443 else 80)"
    and ok: "host \<noteq> []" "?insecure \<or> port = 443"
    and admitted: "case reach of
           ReachTool hosts \<Rightarrow> host_allowed hosts host
         | ReachModel \<Rightarrow> list_ex (\<lambda>h. h \<noteq> ANY_PUBLIC_HOST \<and> eq_ignore_ascii_case h host) (hp_allow_hosts p)"
    using assms unfolding authorize_target_def Let_def
    by (auto split: option.splits sum.splits prod.splits if_splits)
  show "url_host raw = Some host"
    using rest auth host ok by (auto simp: url_host_def Let_def split: option.splits)
  show "starts_with ''https://'' raw \<and> scheme = ''https'' \<and> port = 443" if "\<not> ?insecure"
    using rest ok that by (auto simp: starts_with_iff strip_prefix_Some)
  show "case reach of
           ReachTool hosts \<Rightarrow> host_allowed hosts host
         | ReachModel \<Rightarrow> \<exists>h \<in> set (hp_allow_hosts p). h \<noteq> ANY_PUBLIC_HOST \<and> eq_ignore_ascii_case h host"
    using admitted by (auto simp: list_ex_iff split: Reach.splits)
qed

lemma tick_simps [simp]:
  "nw_log (tick w) = nw_log w" "nw_relayed (tick w) = nw_relayed w" "nw_ws (tick w) = nw_ws w"
  by (simp_all add: tick_def)

text \<open>What stays of the world when no transfer is made.\<close>

definition same_traffic :: "Net \<Rightarrow> Net \<Rightarrow> bool" where
  "same_traffic w w' \<longleftrightarrow> nw_log w' = nw_log w \<and> nw_relayed w' = nw_relayed w \<and> nw_ws w' = nw_ws w"

lemma same_traffic_tick [simp]: "same_traffic w (tick w)" "same_traffic w w"
  by (simp_all add: same_traffic_def)

lemma http_authorize_world: "same_traffic w (fst (http_authorize E p raw reach w))"
  by (simp add: http_authorize_def resolve_host_def split: sum.split)

lemma usable_address_iff:
  "usable_address i ip \<longleftrightarrow> (\<exists>a b c d. ip = V4 a b c d \<and> (i \<or> is_public_v4 a b c d))"
  by (cases ip) (auto simp: usable_address_def)

lemma http_authorize_Ok:
  assumes "http_authorize E p raw reach w = (w', Ok a)"
  shows "authorize_target p raw reach = Ok (az_scheme a, az_host a, az_port a)"
    and "usable_address (reach = ReachModel \<and> hp_allow_insecure p) (az_ip a)"
  using assms
  by (auto simp: http_authorize_def find_Some_iff split: sum.splits prod.splits option.splits)

lemma http_authorize_tool:
  assumes "http_authorize E p raw (ReachTool hosts) w = (w', Ok a)"
  shows "tool_reach hosts raw a"
  using http_authorize_Ok [OF assms] authorize_target_Ok [of p raw "ReachTool hosts" "az_scheme a" "az_host a" "az_port a"]
  by (simp add: tool_reach_def usable_address_iff)

lemma http_authorize_model:
  assumes "http_authorize E p raw ReachModel w = (w', Ok a)"
  shows "model_reach p raw a"
  using http_authorize_Ok [OF assms] authorize_target_Ok [of p raw "ReachModel" "az_scheme a" "az_host a" "az_port a"]
  by (auto simp: model_reach_def usable_address_iff)

section \<open>What one GET does\<close>

text \<open>A hop either changes nothing, or it is within the budget, pays, and starts at most one transfer.\<close>

definition hop_effect :: "NetEnv \<Rightarrow> HttpBroker \<Rightarrow> Net \<Rightarrow> HttpBroker \<Rightarrow> Net \<Rightarrow> bool" where
  "hop_effect E b w b' w' \<longleftrightarrow>
     (b' = b \<and> same_traffic w w')
     \<or> (get_spent b < get_limit (hb_policy b)
        \<and> b' = b\<lparr>hb_used := hb_used b + 1, hb_get_used := hb_get_used b + 1\<rparr>
        \<and> nw_relayed w' = nw_relayed w \<and> nw_ws w' = nw_ws w
        \<and> (nw_log w' = nw_log w
           \<or> (\<exists>url a. nw_log w' = (ForGet, get_args E (get_timeout (hb_policy b)) url a) # nw_log w
                \<and> tool_reach (get_hosts (hb_policy b)) url a)))"

lemma char_boundary_le: "char_boundary body n \<le> n"
  by (induction n) auto

lemma cut_body_length: "length (cut_body n body) \<le> n"
  using char_boundary_le [of body n] by (auto simp: cut_body_def)

lemma get_hop_effect:
  assumes "get_hop E url b w = (w', b', r)"
  shows "hop_effect E b w b' w'" and "r = Inl (Ok body) \<Longrightarrow> length body \<le> get_bytes (hb_policy b)"
proof -
  obtain w1 r1 where auth: "http_authorize E (hb_policy b) url (ReachTool (get_hosts (hb_policy b))) w = (w1, r1)" by fastforce
  have w1: "same_traffic w w1" using http_authorize_world [of w E "hb_policy b" url "ReachTool (get_hosts (hb_policy b))"] auth by simp
  have reach: "tool_reach (get_hosts (hb_policy b)) url a" if "r1 = Inr a" for a
    using http_authorize_tool auth that by blast
  note run = assms [unfolded get_hop_def Let_def auth]
  show "hop_effect E b w b' w'"
    using run w1 reach unfolding hop_effect_def
    by (auto simp: run_curl_def same_traffic_def split: sum.splits if_splits)
  show "length body \<le> get_bytes (hb_policy b)" if "r = Inl (Ok body)"
    using run that cut_body_length
    by (auto simp: run_curl_def split: sum.splits if_splits option.splits)
qed

lemma get_hops_keeps:
  assumes "\<And>b w b' w'. Q b w \<Longrightarrow> hop_effect E b w b' w' \<Longrightarrow> Q b' w'" "Q b w"
    and "get_hops E n url b w = (w', b', r)"
  shows "Q b' w'"
  using assms(2,3)
proof (induction n arbitrary: url b w)
  case (Suc n)
  obtain w1 b1 r1 where hop: "get_hop E url b w = (w1, b1, r1)" using prod_cases3 by blast
  have "Q b1 w1" using assms(1) [OF Suc.prems(1)] get_hop_effect(1) [OF hop] by blast
  then show ?case using Suc.IH [of b1 w1] Suc.prems(2) hop by (cases r1) auto
qed simp

lemma get_hops_bytes:
  assumes "get_hops E n url b w = (w', b', Ok body)"
  shows "length body \<le> get_bytes (hb_policy b)"
  using assms
proof (induction n arbitrary: url b w)
  case (Suc n)
  obtain w1 b1 r1 where hop: "get_hop E url b w = (w1, b1, r1)" using prod_cases3 by blast
  have "hb_policy b1 = hb_policy b" using get_hop_effect(1) [OF hop] by (auto simp: hop_effect_def)
  then show ?case
    using Suc.IH [of _ b1 w1] Suc.prems hop get_hop_effect(2) [OF hop, of body] by (cases r1) auto
qed simp

section \<open>The host of a URL\<close>

text \<open>
  The host of an \<open>https\<close> URL by RFC 3986: the authority ends at a slash, a question mark or a
  number sign; user information and port are left out.
\<close>

definition rfc_host :: "string \<Rightarrow> string option" where
  "rfc_host url =
     (case strip_prefix ''https://'' url of
        None \<Rightarrow> None
      | Some rest \<Rightarrow>
          (let authority = takeWhile (\<lambda>c. c \<notin> set ''/?#'') rest;
               address = (case rsplit_once (CHR ''@'') authority of Some (_, h) \<Rightarrow> h | None \<Rightarrow> authority);
               host = (case rsplit_once (CHR '':'') address of Some (h, _) \<Rightarrow> h | None \<Rightarrow> address)
           in Some (to_ascii_lowercase host)))"

lemma takeWhile_both:
  "takeWhile (\<lambda>c. c \<notin> set ''/?#'') s = takeWhile (\<lambda>c. c \<notin> set ''?#'') (takeWhile (\<lambda>c. c \<noteq> CHR ''/'') s)"
  by (induction s) auto


definition sample_destination :: Authorized where
  "sample_destination = \<lparr>az_scheme = ''https'', az_host = ''docs.example'', az_port = 443, az_ip = V4 93 184 215 14\<rparr>"

lemma sample_tool_reach: "tool_reach [''*''] ''https://Docs.example:443/index?a'' sample_destination"
proof -
  have "starts_with ''https://'' ''https://Docs.example:443/index?a''" by code_simp
  moreover have "url_host ''https://Docs.example:443/index?a'' = Some ''docs.example''" by code_simp
  moreover have "host_allowed [''*''] ''docs.example''" by code_simp
  moreover have "is_public_v4 93 184 215 14" by (simp add: is_public_v4_def)
  ultimately show ?thesis by (simp add: tool_reach_def sample_destination_def)
qed


text \<open>With the wildcard, a name that only starts with a private address passes every check before the resolver is asked.\<close>

lemma wildcard_admits_query_host:
  "authorize_target (HttpPolicy_new [''*'']) ''https://127.0.0.1?.example.org/'' (ReachTool [''*''])
     = Ok (''https'', ''127.0.0.1?.example.org'', 443)"
  "rfc_host ''https://127.0.0.1?.example.org/'' = Some ''127.0.0.1''"
  by (simp_all add: authorize_target_def rfc_host_def HttpPolicy_new_def rsplit_once_def to_ascii_lowercase_def
      host_allowed_def ANY_PUBLIC_HOST_def is_ascii_upper_def less_eq_char_def)

end
