(* ===== verification/Post.thy ===== *)
theory Post
  imports Egress Params
begin

text \<open>
  \<open>celln-warden/src/egress_post.rs\<close> and \<open>HttpBroker::fetch\<close> of \<open>egress.rs\<close>: JSON POSTs. A model
  request goes to an endpoint the operator granted, with the operator's credential, after the
  guest's request passed a narrow contract; a plain POST is a web tool request without
  credential.

  \<open>PostEnv\<close> holds what is outside: the derived decoders and the encoder of \<open>serde_json\<close>, the
  relay of a mediated transport and the credential file, the last two by time as in theory
  \<open>Egress\<close>. \<open>ne_tempfile\<close> answers for creating a temporary file and writing to it.
\<close>

section \<open>Endpoints\<close>

record ModelEndpoint =
  me_scheme :: string
  me_host :: string
  me_port :: u16
  me_origin :: string

definition host_label_ok :: "string \<Rightarrow> bool" where
  "host_label_ok label =
     (label \<noteq> [] \<and> length label \<le> 63 \<and> \<not> starts_with ''-'' label \<and> \<not> ends_with ''-'' label
      \<and> list_all (\<lambda>c. is_ascii_lower c \<or> is_ascii_digit c \<or> c = CHR ''-'') label)"

definition model_endpoint_target :: "string \<Rightarrow> bool \<Rightarrow> string + ModelEndpoint" where
  "model_endpoint_target url allow_insecure =
     (case (case strip_prefix ''https://'' url of
              Some rest \<Rightarrow> Ok (''https'', rest)
            | None \<Rightarrow>
                if allow_insecure
                then (case strip_prefix ''http://'' url of
                        Some rest \<Rightarrow> Ok (''http'', rest)
                      | None \<Rightarrow> Err ''model endpoint requires HTTP or HTTPS'')
                else Err ''model endpoint requires HTTPS'') of
        Inl e \<Rightarrow> Inl e
      | Inr (scheme, rest) \<Rightarrow>
      if length url > 2048 \<or> list_ex (\<lambda>c. c \<in> set (''?#'' @ [CHR 0x0D, CHR 0x0A, CHR 0x00])) url
      then Err ''invalid model endpoint''
      else (case split_once (CHR ''/'') rest of
        None \<Rightarrow> Err ''complete model endpoint required''
      | Some (authority, path) \<Rightarrow>
      if path = [] \<or> authority = [] \<or> CHR ''@'' \<in> set authority then Err ''invalid model endpoint''
      else (case (case rsplit_once (CHR '':'') authority of
                    Some (host, port) \<Rightarrow>
                      (case parse_u16 port of
                         None \<Rightarrow> Err ''invalid model endpoint port''
                       | Some p \<Rightarrow> if p = 0 then Err ''invalid model endpoint port'' else Ok (host, p))
                  | None \<Rightarrow> Ok (authority, if scheme = ''https'' then 443 else 80)) of
        Inl e \<Rightarrow> Inl e
      | Inr (host, port) \<Rightarrow>
      if \<not> allow_insecure \<and> port \<noteq> 443 then Err ''model endpoint requires port 443''
      else if host = [] \<or> length host > 253 then Err ''invalid model endpoint''
      else (let host_valid =
              (if allow_insecure
               then list_all (\<lambda>c. is_ascii_alphanumeric c \<or> c \<in> set ''.-[]'') host
               else list_all host_label_ok (split_on (CHR ''.'') host))
            in if \<not> host_valid then Err ''invalid model endpoint''
               else (let default_port = (scheme = ''https'' \<and> port = 443 \<or> scheme = ''http'' \<and> port = 80);
                         origin = (if default_port then scheme @ ''://'' @ host
                                   else scheme @ ''://'' @ host @ '':'' @ decimal (unat port))
                     in Ok \<lparr>me_scheme = scheme, me_host = host, me_port = port, me_origin = origin\<rparr>)))))"

definition model_endpoint_host :: "string \<Rightarrow> string + string" where
  "model_endpoint_host url = map_sum id me_host (model_endpoint_target url False)"

section \<open>The guest's request\<close>

record ChatFunctionCall =
  cfc_name :: string
  cfc_arguments :: string

record ChatToolCall =
  ctc_id :: string
  ctc_kind :: string
  ctc_function :: ChatFunctionCall

record ChatFunction =
  cfn_name :: string
  cfn_description :: string
  cfn_parameters :: Value

record ChatTool =
  ctt_kind :: string
  ctt_function :: ChatFunction

record ChatMessage =
  cm_role :: string
  cm_content :: "string option"
  cm_tool_calls :: "ChatToolCall list option"
  cm_tool_call_id :: "string option"

record ChatRequest =
  cr_model :: string
  cr_max_tokens :: u64
  cr_stream :: bool
  cr_messages :: "ChatMessage list"
  cr_tools :: "ChatTool list option"
  cr_tool_choice :: "string option"

record PostRequest =
  pr_api_version :: string
  pr_method :: string
  pr_url :: string
  pr_body :: Value

record PostEnv =
  pe_value :: "string \<Rightarrow> Value option"
  pe_slice :: "bytes \<Rightarrow> Value option"
  pe_request :: "string \<Rightarrow> PostRequest option"
  pe_chat :: "Value \<Rightarrow> ChatRequest option"
  pe_ws_request :: "string \<Rightarrow> WsRequest option"
  pe_to_vec :: "Value \<Rightarrow> bytes option"
  pe_to_string :: "Value \<Rightarrow> string"
  pe_size :: "(string, Value) btree \<Rightarrow> nat option"
  pe_relay :: "nat \<Rightarrow> bytes \<Rightarrow> FetchDenied + bytes"
  pe_credential :: "nat \<Rightarrow> string \<Rightarrow> bytes option"

definition DEFAULT_REQUEST_OUTPUT_TOKENS :: u64 where "DEFAULT_REQUEST_OUTPUT_TOKENS = 512"

definition is_object :: "Value \<Rightarrow> bool" where
  "is_object v = (case v of VObject _ \<Rightarrow> True | _ \<Rightarrow> False)"

definition tool_call_ok :: "ChatToolCall \<Rightarrow> bool" where
  "tool_call_ok c \<longleftrightarrow>
     ctc_kind c = ''function'' \<and> ctc_id c \<noteq> [] \<and> cfc_name (ctc_function c) \<noteq> []
     \<and> length (cfc_arguments (ctc_function c)) \<le> 4096"

definition message_ok :: "ChatMessage \<Rightarrow> bool" where
  "message_ok m \<longleftrightarrow>
     \<not> (cm_role m \<notin> {''system'', ''user'', ''assistant'', ''tool''}
        \<or> cm_content m = None \<and> cm_tool_calls m = None
        \<or> cm_tool_calls m \<noteq> None \<and> cm_role m \<noteq> ''assistant''
        \<or> (cm_tool_call_id m \<noteq> None) \<noteq> (cm_role m = ''tool'')
        \<or> (case cm_tool_calls m of
             None \<Rightarrow> False
           | Some calls \<Rightarrow> calls = [] \<or> length calls > 16 \<or> \<not> list_all tool_call_ok calls))"

definition tool_ok :: "ChatTool \<Rightarrow> bool" where
  "tool_ok t \<longleftrightarrow>
     ctt_kind t = ''function'' \<and> cfn_name (ctt_function t) \<noteq> [] \<and> length (cfn_description (ctt_function t)) \<le> 4096
     \<and> is_object (cfn_parameters (ctt_function t))"

definition validate_chat :: "PostEnv \<Rightarrow> Value \<Rightarrow> JsonPostGrant \<Rightarrow> FetchDenied + u64" where
  "validate_chat S body grant =
     (case pe_chat S body of
        None \<Rightarrow> Err (Fetch ''unsupported model request parameters'')
      | Some chat \<Rightarrow>
          if jg_model grant = [] \<or> cr_model chat \<noteq> jg_model grant then Err (Fetch ''model not granted'')
          else if cr_max_tokens chat = 0 \<or> cr_max_tokens chat > jg_max_output_tokens grant
               \<or> cr_max_tokens chat > jg_max_total_output_tokens grant
          then Err (Fetch ''model output token limit exceeded'')
          else if cr_stream chat \<or> cr_messages chat = [] \<or> length (cr_messages chat) > 128
               \<or> \<not> list_all message_ok (cr_messages chat)
               \<or> (case cr_tools chat of
                    None \<Rightarrow> False
                  | Some tools \<Rightarrow> tools = [] \<or> length tools > 24 \<or> \<not> list_all tool_ok tools)
               \<or> (case cr_tool_choice chat of
                    None \<Rightarrow> False
                  | Some choice \<Rightarrow> choice \<notin> {''auto'', ''required'', ''none''})
          then Err (Fetch ''unsupported model request parameters'')
          else Ok (cr_max_tokens chat))"

definition post_parse :: "PostEnv \<Rightarrow> string \<Rightarrow> FetchDenied + PostRequest" where
  "post_parse S raw =
     (if length raw > 32768 then Err (Fetch ''request exceeds broker wire budget'')
      else (case pe_request S raw of
        None \<Rightarrow> Err (Fetch ''invalid JSON request'')
      | Some request \<Rightarrow>
          if pr_api_version request \<noteq> ''celln.fetch/v1'' \<or> pr_method request \<noteq> ''POST''
          then Err (Fetch ''unsupported broker request version or method'')
          else if \<not> is_object (pr_body request) then Err (Fetch ''POST body must be a JSON object'')
          else Ok request))"

section \<open>Credentials\<close>

text \<open>The contents of the header file \<open>curl\<close> reads.\<close>

definition credential_header ::
  "NetEnv \<Rightarrow> PostEnv \<Rightarrow> string \<Rightarrow> ModelProtocol \<Rightarrow> Net \<Rightarrow> Net \<times> (FetchDenied + bytes)" where
  "credential_header E S path protocol w =
     (let w1 = tick w in
      case pe_credential S (nw_time w) path of
        None \<Rightarrow> (w1, Err (Fetch ''provider credential unavailable''))
      | Some contents \<Rightarrow>
      (let bytes = take 4097 contents in
       if \<not> utf8_valid bytes then (w1, Err (Fetch ''invalid provider credential''))
       else (let token = str_trim (bytes_str bytes) in
       if length bytes > 4096 \<or> length token < 24 \<or> \<not> list_all is_ascii_graphic token
       then (w1, Err (Fetch ''invalid provider credential''))
       else (tick w1,
             case ne_tempfile E (nw_time w1) of
               Inl _ \<Rightarrow> Err (Fetch ''credential staging failed'')
             | Inr _ \<Rightarrow>
                 Ok (as_bytes ((case protocol of
                                  OpenaiChat \<Rightarrow> ''Authorization: Bearer '' @ token
                                | AnthropicMessages \<Rightarrow>
                                    ''x-api-key: '' @ token @ [CHR 0x0A] @ ''anthropic-version: 2023-06-01'')
                               @ [CHR 0x0A]))))))"

section \<open>Translation\<close>

definition json_object :: "(string \<times> Value) list \<Rightarrow> Value" where
  "json_object kvs = VObject (foldl (\<lambda>m (k, v). bt_insert k v m) [] kvs)"

definition or_default :: "string option \<Rightarrow> string" where
  "or_default s = (case s of Some t \<Rightarrow> t | None \<Rightarrow> [])"

fun tool_uses :: "PostEnv \<Rightarrow> ChatToolCall list \<Rightarrow> FetchDenied + Value list" where
  "tool_uses S [] = Ok []"
| "tool_uses S (call # calls) =
     (case pe_value S (cfc_arguments (ctc_function call)) of
        None \<Rightarrow> Err (Fetch ''invalid tool arguments'')
      | Some input \<Rightarrow>
          if \<not> is_object input then Err (Fetch ''tool arguments must be an object'')
          else (case tool_uses S calls of
                  Inl e \<Rightarrow> Inl e
                | Inr vs \<Rightarrow>
                    Ok (json_object [(''type'', VString ''tool_use''), (''id'', VString (ctc_id call)),
                          (''name'', VString (cfc_name (ctc_function call))), (''input'', input)] # vs)))"

definition message_content :: "PostEnv \<Rightarrow> ChatMessage \<Rightarrow> FetchDenied + Value list" where
  "message_content S m =
     (if cm_role m = ''tool''
      then Ok [json_object [(''type'', VString ''tool_result''),
                 (''tool_use_id'', case cm_tool_call_id m of Some i \<Rightarrow> VString i | None \<Rightarrow> VNull),
                 (''content'', VString (or_default (cm_content m)))]]
      else (case tool_uses S (case cm_tool_calls m of Some cs \<Rightarrow> cs | None \<Rightarrow> []) of
              Inl e \<Rightarrow> Inl e
            | Inr uses \<Rightarrow>
                Ok ((case cm_content m of
                       Some text \<Rightarrow>
                         if text \<noteq> [] then [json_object [(''type'', VString ''text''), (''text'', VString text)]] else []
                     | None \<Rightarrow> []) @ uses)))"

text \<open>
  The turns sent so far are pairs of a role and its content blocks, oldest first; a turn
  with the role of the last one extends it. The JSON objects are built at the end.
\<close>

definition push_turn :: "string \<Rightarrow> Value list \<Rightarrow> (string \<times> Value list) list \<Rightarrow> (string \<times> Value list) list" where
  "push_turn role content turns =
     (if turns \<noteq> [] \<and> fst (last turns) = role
      then butlast turns @ [(role, snd (last turns) @ content)]
      else turns @ [(role, content)])"

fun translate_messages ::
  "PostEnv \<Rightarrow> ChatMessage list \<Rightarrow> string list \<Rightarrow> (string \<times> Value list) list
   \<Rightarrow> FetchDenied + (string list \<times> (string \<times> Value list) list)" where
  "translate_messages S [] sys turns = Ok (sys, turns)"
| "translate_messages S (m # ms) sys turns =
     (if cm_role m = ''system'' then translate_messages S ms (sys @ [or_default (cm_content m)]) turns
      else (case message_content S m of
              Inl e \<Rightarrow> Inl e
            | Inr content \<Rightarrow>
                translate_messages S ms sys
                  (push_turn (if cm_role m = ''tool'' then ''user'' else cm_role m) content turns)))"

fun join_with :: "string \<Rightarrow> string list \<Rightarrow> string" where
  "join_with sep [] = []"
| "join_with sep [s] = s"
| "join_with sep (s # t # ts) = s @ sep @ join_with sep (t # ts)"

definition turn_value :: "string \<times> Value list \<Rightarrow> Value" where
  "turn_value t = json_object [(''role'', VString (fst t)), (''content'', VArray (snd t))]"

definition tool_value :: "ChatTool \<Rightarrow> Value" where
  "tool_value t =
     json_object [(''name'', VString (cfn_name (ctt_function t))), (''description'', VString (cfn_description (ctt_function t))),
       (''input_schema'', cfn_parameters (ctt_function t))]"

definition anthropic_fields :: "ChatRequest \<Rightarrow> string list \<Rightarrow> (string \<times> Value list) list \<Rightarrow> (string \<times> Value) list" where
  "anthropic_fields chat sys turns =
     [(''model'', VString (cr_model chat)), (''max_tokens'', VNumber (PosInt (cr_max_tokens chat))), (''stream'', VBool False),
      (''messages'', VArray (map turn_value turns))]
     @ (if sys \<noteq> [] then [(''system'', VString (join_with [CHR 0x0A, CHR 0x0A] sys))] else [])
     @ (case cr_tools chat of
          Some tools \<Rightarrow>
            if cr_tool_choice chat \<noteq> Some ''none''
            then [(''tools'', VArray (map tool_value tools)),
                  (''tool_choice'',
                   json_object [(''type'', VString (if cr_tool_choice chat = Some ''required'' then ''any'' else ''auto''))])]
            else []
        | None \<Rightarrow> [])"

definition provider_request :: "PostEnv \<Rightarrow> Value \<Rightarrow> ModelProtocol \<Rightarrow> FetchDenied + Value" where
  "provider_request S body protocol =
     (if protocol = OpenaiChat then Ok body
      else (case pe_chat S body of
        None \<Rightarrow> Err (Fetch ''invalid chat request'')
      | Some chat \<Rightarrow>
          (case translate_messages S (cr_messages chat) [] [] of
             Inl e \<Rightarrow> Inl e
           | Inr (sys, turns) \<Rightarrow> Ok (json_object (anthropic_fields chat sys turns)))))"

definition outgoing_body :: "PostEnv \<Rightarrow> Value \<Rightarrow> JsonPostGrant \<Rightarrow> FetchDenied + Value" where
  "outgoing_body S body grant =
     (case provider_request S body (jg_protocol grant) of
        Inl e \<Rightarrow> Inl e
      | Inr out \<Rightarrow>
          (case params_merge (pe_size S) out (jg_parameters grant) of
             (_, Inl _) \<Rightarrow> Err (Fetch ''operator model parameters collide with the provider request; nothing sent'')
           | (out', Inr _) \<Rightarrow> Ok out'))"

section \<open>Normalized answers\<close>

text \<open>Indexing a value gives null where there is no such field.\<close>

definition v_get :: "Value \<Rightarrow> string \<Rightarrow> Value" where
  "v_get v k = (case v of VObject m \<Rightarrow> (case bt_get m k of Some x \<Rightarrow> x | None \<Rightarrow> VNull) | _ \<Rightarrow> VNull)"

definition as_str :: "Value \<Rightarrow> string option" where
  "as_str v = (case v of VString s \<Rightarrow> Some s | _ \<Rightarrow> None)"

definition as_u64 :: "Value \<Rightarrow> u64 option" where
  "as_u64 v = (case v of VNumber (PosInt n) \<Rightarrow> Some n | _ \<Rightarrow> None)"

definition saturating_add :: "u64 \<Rightarrow> u64 \<Rightarrow> u64" where
  "saturating_add a b = (case checked_add a b of Some c \<Rightarrow> c | None \<Rightarrow> - 1)"

fun response_blocks :: "PostEnv \<Rightarrow> Value list \<Rightarrow> string \<Rightarrow> Value list \<Rightarrow> FetchDenied + (string \<times> Value list)" where
  "response_blocks S [] text calls = Ok (text, calls)"
| "response_blocks S (block # blocks) text calls =
     (let kind = as_str (v_get block ''type'') in
      if kind = Some ''text'' then
        (case as_str (v_get block ''text'') of
           None \<Rightarrow> Err (Fetch ''invalid provider text'')
         | Some t \<Rightarrow> response_blocks S blocks (text @ t) calls)
      else if kind = Some ''tool_use'' then
        (case as_str (v_get block ''id'') of
           None \<Rightarrow> Err (Fetch ''missing tool id'')
         | Some i \<Rightarrow>
             (case as_str (v_get block ''name'') of
                None \<Rightarrow> Err (Fetch ''missing tool name'')
              | Some name \<Rightarrow>
                  if \<not> is_object (v_get block ''input'') then Err (Fetch ''invalid tool input'')
                  else response_blocks S blocks text
                         (calls @ [json_object [(''id'', VString i), (''type'', VString ''function''),
                            (''function'', json_object [(''name'', VString name),
                               (''arguments'', VString (pe_to_string S (v_get block ''input'')))])]])))
      else if kind = Some ''thinking'' \<or> kind = Some ''redacted_thinking'' then response_blocks S blocks text calls
      else Err (Fetch ''unsupported provider content block''))"

definition finish_reason :: "Value \<Rightarrow> string option" where
  "finish_reason response =
     (case as_str (v_get response ''stop_reason'') of
        None \<Rightarrow> None
      | Some s \<Rightarrow>
          if s = ''tool_use'' then Some ''tool_calls''
          else if s = ''max_tokens'' then Some ''length''
          else if s = ''end_turn'' \<or> s = ''stop_sequence'' then Some ''stop''
          else None)"

definition provider_response :: "PostEnv \<Rightarrow> bytes \<Rightarrow> ModelProtocol \<Rightarrow> FetchDenied + bytes" where
  "provider_response S raw protocol =
     (if protocol = OpenaiChat then Ok raw
      else (case pe_slice S raw of
        None \<Rightarrow> Err (Fetch ''invalid provider response'')
      | Some response \<Rightarrow>
      (case v_get response ''content'' of
        VArray blocks \<Rightarrow>
          (case response_blocks S blocks [] [] of
             Inl e \<Rightarrow> Inl e
           | Inr (text, calls) \<Rightarrow>
               (case finish_reason response of
                  None \<Rightarrow> Err (Fetch ''unsupported provider stop reason'')
                | Some finish \<Rightarrow>
                    (let message = json_object ([(''role'', VString ''assistant''), (''content'', VString text)]
                                     @ (if calls \<noteq> [] then [(''tool_calls'', VArray calls)] else []));
                         tokens = (\<lambda>k. case as_u64 (v_get (v_get response ''usage'') k) of Some n \<Rightarrow> n | None \<Rightarrow> 0);
                         input = tokens ''input_tokens''; output = tokens ''output_tokens''
                     in case pe_to_vec S (json_object
                          [(''choices'', VArray [json_object [(''index'', VNumber (PosInt 0)), (''message'', message),
                              (''finish_reason'', VString finish)]]),
                           (''usage'', json_object [(''prompt_tokens'', VNumber (PosInt input)),
                              (''completion_tokens'', VNumber (PosInt output)),
                              (''total_tokens'', VNumber (PosInt (saturating_add input output)))])]) of
                          None \<Rightarrow> Err (Fetch ''invalid normalized response'')
                        | Some b \<Rightarrow> Ok b)))
      | _ \<Rightarrow> Err (Fetch ''provider response has no content''))))"

section \<open>What the provider is asked\<close>

lemma json_object_map:
  assumes "distinct (map fst kvs)"
  shows "\<exists>m. json_object kvs = VObject m \<and> bt_invar m \<and> bt_get m = map_of kvs"
proof -
  have "bt_get ([] :: (string, Value) btree) ++ bt_get kvs = map_of kvs"
    by (simp add: fun_eq_iff bt_get_def map_add_def split: option.split)
  then show ?thesis
    using bt_extend [of "[]" kvs] assms by (simp add: json_object_def bt_invar_def)
qed

lemma validate_chat_Ok:
  assumes "validate_chat S body grant = Ok tokens"
  obtains chat where "pe_chat S body = Some chat" "cr_model chat = jg_model grant" "tokens = cr_max_tokens chat"
    "0 < tokens" "tokens \<le> jg_max_output_tokens grant" "\<not> cr_stream chat" "list_all message_ok (cr_messages chat)"
  using assms that by (auto simp: validate_chat_def word_neq_0_conv not_less split: option.splits if_splits)

text \<open>The roles of the translated turns.\<close>

definition turns_ok :: "(string \<times> Value list) list \<Rightarrow> bool" where
  "turns_ok turns \<longleftrightarrow> distinct_adj (map fst turns) \<and> fst ` set turns \<subseteq> {''user'', ''assistant''}"

lemma push_turn_ok:
  assumes "turns_ok turns" "role \<in> {''user'', ''assistant''}"
  shows "turns_ok (push_turn role content turns)"
proof (cases "turns \<noteq> [] \<and> fst (last turns) = role")
  case True
  then have "map fst (push_turn role content turns) = map fst turns"
    using append_butlast_last_id [of "map fst turns"] by (simp add: push_turn_def last_map map_butlast)
  then show ?thesis using assms(1) unfolding turns_ok_def by (metis list.set_map)
next
  case False
  then show ?thesis using assms
    by (auto simp: push_turn_def turns_ok_def distinct_adj_append_iff last_map)
qed

lemma translate_messages_ok:
  assumes "translate_messages S ms sys turns = Ok (sys', turns')" "list_all message_ok ms" "turns_ok turns"
  shows "turns_ok turns'"
  using assms
proof (induction S ms sys turns rule: translate_messages.induct)
  case (2 S m ms sys turns)
  have role: "(if cm_role m = ''tool'' then ''user'' else cm_role m) \<in> {''user'', ''assistant''}" if "cm_role m \<noteq> ''system''"
    using that 2(4) by (auto simp: message_ok_def)
  show ?case
  proof (cases "cm_role m = ''system''")
    case True
    then show ?thesis using 2 by simp
  next
    case False
    then obtain content where "message_content S m = Ok content" using 2(3) by (auto split: sum.splits)
    then show ?thesis
      using 2(2) [OF False] 2(3-5) False push_turn_ok [OF 2(5) role [OF False]] by simp
  qed
qed simp

text \<open>
  C29: Behind the translation, the provider gets exactly what was granted. Under the
  Anthropic protocol, whatever request the guest made and whatever parameters the operator
  added, a body that is sent asks for the granted model, for the guest's positive number of
  output tokens within the grant, without streaming, and its messages are turns of user and
  assistant that alternate.
\<close>

theorem provider_gets_granted_request:
  assumes "validate_chat S body grant = Ok tokens" "outgoing_body S body grant = Ok v"
    and "jg_protocol grant = AnthropicMessages" "bt_invar (jg_parameters grant)"
  shows "v_get v ''model'' = VString (jg_model grant) \<and> v_get v ''max_tokens'' = VNumber (PosInt tokens)
    \<and> 0 < tokens \<and> tokens \<le> jg_max_output_tokens grant \<and> v_get v ''stream'' = VBool False
    \<and> (\<exists>turns. v_get v ''messages'' = VArray (map turn_value turns) \<and> turns_ok turns)"
proof -
  obtain chat where chat: "pe_chat S body = Some chat" "cr_model chat = jg_model grant" "tokens = cr_max_tokens chat"
    "0 < tokens" "tokens \<le> jg_max_output_tokens grant" "list_all message_ok (cr_messages chat)"
    using validate_chat_Ok [OF assms(1)] by metis
  obtain sys turns where turns: "translate_messages S (cr_messages chat) [] [] = Ok (sys, turns)"
    and out: "\<exists>u. params_merge (pe_size S) (json_object (anthropic_fields chat sys turns)) (jg_parameters grant) = (v, Ok u)"
    using assms(2,3) chat(1) by (auto simp: outgoing_body_def provider_request_def split: sum.splits prod.splits)
  have ok: "turns_ok turns" by (rule translate_messages_ok [OF turns chat(6)]) (simp add: turns_ok_def)
  have "distinct (map fst (anthropic_fields chat sys turns))"
    by (cases "cr_tools chat"; cases "cr_tool_choice chat = Some ''none''"; cases "sys = []")
      (simp_all add: anthropic_fields_def)
  then obtain m where m: "json_object (anthropic_fields chat sys turns) = VObject m" "bt_invar m"
    "bt_get m = map_of (anthropic_fields chat sys turns)"
    using json_object_map by blast
  obtain m' where v: "v = VObject m'" and same: "\<forall>k \<in> set RESERVED. bt_get m' k = bt_get m k"
    using params_merge_Ok [OF m(2) assms(4)] out m(1) by fastforce
  have "bt_get m' ''model'' = Some (VString (cr_model chat))" "bt_get m' ''max_tokens'' = Some (VNumber (PosInt (cr_max_tokens chat)))"
    "bt_get m' ''stream'' = Some (VBool False)" "bt_get m' ''messages'' = Some (VArray (map turn_value turns))"
    using same by (simp_all add: RESERVED_def m(3) anthropic_fields_def)
  then show ?thesis using chat ok by (auto simp: v_get_def v)
qed

definition sample_chat :: ChatRequest where
  "sample_chat =
     \<lparr>cr_model = ''m'', cr_max_tokens = 8, cr_stream = False,
      cr_messages = [\<lparr>cm_role = ''system'', cm_content = Some ''s'', cm_tool_calls = None, cm_tool_call_id = None\<rparr>,
                     \<lparr>cm_role = ''user'', cm_content = Some ''u'', cm_tool_calls = None, cm_tool_call_id = None\<rparr>],
      cr_tools = None, cr_tool_choice = None\<rparr>"

definition sample_post_env :: PostEnv where
  "sample_post_env =
     \<lparr>pe_value = (\<lambda>_. None), pe_slice = (\<lambda>_. None), pe_request = (\<lambda>_. None), pe_chat = (\<lambda>_. Some sample_chat),
      pe_ws_request = (\<lambda>_. None), pe_to_vec = (\<lambda>_. Some []), pe_to_string = (\<lambda>_. []), pe_size = (\<lambda>_. Some 2),
      pe_relay = (\<lambda>_ _. Err Budget), pe_credential = (\<lambda>_ _. None)\<rparr>"

definition sample_model_grant :: JsonPostGrant where
  "sample_model_grant =
     \<lparr>jg_protocol = AnthropicMessages, jg_url = ''https://m.example/v1'', jg_bearer_token_file = ''t'', jg_model = ''m'',
      jg_max_output_tokens = 16, jg_max_total_output_tokens = 64, jg_parameters = [(''top_k'', VNumber (PosInt 1))]\<rparr>"

theorem provider_gets_granted_request_witness:
  "\<exists>v. outgoing_body sample_post_env (VObject []) sample_model_grant = Ok v \<and> v_get v ''model'' = VString ''m''
     \<and> v_get v ''max_tokens'' = VNumber (PosInt 8) \<and> v_get v ''top_k'' = VNumber (PosInt 1)"
proof -
  have chat: "validate_chat sample_post_env (VObject []) sample_model_grant = Ok 8" by code_simp
  obtain v where v: "outgoing_body sample_post_env (VObject []) sample_model_grant = Ok v" "v_get v ''top_k'' = VNumber (PosInt 1)"
  proof -
    have "case outgoing_body sample_post_env (VObject []) sample_model_grant of
        Inr v \<Rightarrow> v_get v ''top_k'' = VNumber (PosInt 1) | Inl _ \<Rightarrow> False"
      by code_simp
    then show ?thesis using that by (auto split: sum.splits)
  qed
  have "bt_invar (jg_parameters sample_model_grant)" "jg_protocol sample_model_grant = AnthropicMessages"
    by (simp_all add: sample_model_grant_def bt_invar_def)
  from provider_gets_granted_request [OF chat v(1) this(2,1)] show ?thesis
    using v by (auto simp: sample_model_grant_def)
qed

end
