(* ===== verification/Fetch.thy ===== *)
theory Fetch
  imports Post
begin

text \<open>
  The requests of a guest: \<open>HttpBroker::post_json\<close> and \<open>post_plain\<close> of
  \<open>celln-warden/src/egress_post.rs\<close>, and \<open>HttpBroker::fetch\<close> of \<open>egress.rs\<close>, which hands a request
  to the artifact broker, to a POST or to the GET loop; then what holds of whole runs.
\<close>

section \<open>Model requests\<close>

definition control_check :: "NetEnv \<Rightarrow> Net \<Rightarrow> Net \<times> bool" where
  "control_check E w =
     (case ne_current E of
        None \<Rightarrow> (w, True)
      | Some c \<Rightarrow>
          (case Control_check (ne_clock E (nw_time w)) c (bk_stops (nw_ws w)) of
             (st, r) \<Rightarrow> ((tick w)\<lparr>nw_ws := (nw_ws w)\<lparr>bk_stops := st\<rparr>\<rparr>, is_ok r)))"

definition grant_for :: "HttpBroker \<Rightarrow> PostRequest \<Rightarrow> JsonPostGrant option" where
  "grant_for b request = find (\<lambda>grant. jg_url grant = pr_url request) (hp_json_posts (hb_policy b))"

definition reserved_for :: "HttpBroker \<Rightarrow> string \<Rightarrow> u64" where
  "reserved_for b url = (case bt_get (hb_post_output_reserved b) url of Some n \<Rightarrow> n | None \<Rightarrow> 0)"

text \<open>The checks before anything is spent; the result is the new reservation.\<close>

definition model_used :: "HttpBroker \<Rightarrow> nat" where
  "model_used b = (if hp_get (hb_policy b) \<noteq> None then usize_sub (hb_used b) (hb_get_used b) else hb_used b)"

definition admit_model :: "PostEnv \<Rightarrow> PostRequest \<Rightarrow> JsonPostGrant \<Rightarrow> HttpBroker \<Rightarrow> FetchDenied + u64" where
  "admit_model S request grant b =
     (case validate_chat S (pr_body request) grant of
        Inl e \<Rightarrow> Inl e
      | Inr tokens \<Rightarrow>
      (case params_validate (pe_size S) (jg_parameters grant) of
        Inl _ \<Rightarrow> Err (Fetch ''operator model parameters violate host policy'')
      | Inr _ \<Rightarrow>
      if model_used b \<ge> hp_max_requests (hb_policy b) then Err Budget
      else (case checked_add (reserved_for b (pr_url request)) tokens of
              Some next \<Rightarrow>
                if next \<le> jg_max_total_output_tokens grant then Ok next
                else Err (Fetch ''model cumulative output budget exhausted'')
            | None \<Rightarrow> Err (Fetch ''model cumulative output budget exhausted''))))"

definition spend_model :: "string \<Rightarrow> u64 \<Rightarrow> HttpBroker \<Rightarrow> HttpBroker" where
  "spend_model url next b =
     b\<lparr>hb_used := hb_used b + 1, hb_post_output_reserved := bt_insert url next (hb_post_output_reserved b)\<rparr>"

definition post_mediated ::
  "NetEnv \<Rightarrow> PostEnv \<Rightarrow> PostRequest \<Rightarrow> JsonPostGrant \<Rightarrow> u64 \<Rightarrow> HttpBroker \<Rightarrow> Net \<Rightarrow> Net \<times> HttpBroker \<times> (FetchDenied + bytes)" where
  "post_mediated E S request grant next b w =
     (case control_check E w of
        (w1, ok) \<Rightarrow>
      if \<not> ok then (w1, b, Err (Fetch ''mediated model invocation cancelled''))
      else (case outgoing_body S (pr_body request) grant of
        Inl e \<Rightarrow> (w1, b, Inl e)
      | Inr provider_body \<Rightarrow>
      (case pe_to_vec S provider_body of
        None \<Rightarrow> (w1, b, Err (Fetch ''invalid mediated model request''))
      | Some body \<Rightarrow>
      if length body > 262144 then (w1, b, Err (Fetch ''mediated model request too large''))
      else (let b1 = spend_model (pr_url request) next b;
                w2 = (tick w1)\<lparr>nw_relayed := body # nw_relayed w1\<rparr>;
                limit = hp_max_response_bytes (hb_policy b)
            in case pe_relay S (nw_time w1) body of
                 Inl e \<Rightarrow> (w2, b1, Err (if e = Budget then Budget else Fetch ''mediated model invocation failed''))
               | Inr raw \<Rightarrow>
                   (case control_check E w2 of
                      (w3, ok) \<Rightarrow>
                    if \<not> ok then (w3, b1, Err (Fetch ''mediated model invocation cancelled''))
                    else if length raw > limit then (w3, b1, Err (Fetch ''mediated model response too large''))
                    else (case provider_response S raw (jg_protocol grant) of
                            Inl _ \<Rightarrow> (w3, b1, Err (Fetch ''invalid mediated model response''))
                          | Inr response \<Rightarrow>
                              if length response > limit
                              then (w3, b1, Err (Fetch ''mediated model response too large''))
                              else (w3, b1, Ok response)))))))"

definition post_head :: "string \<Rightarrow> Arg list" where
  "post_head proto =
     map ArgStr [''--disable'', ''--silent'', ''--show-error'', ''--globoff'', ''--noproxy'', ''*'', ''--proto'', proto,
       ''--max-redirs'', ''0'', ''--request'', ''POST'', ''--header'', ''Content-Type: application/json'']"

definition post_tail :: "duration \<Rightarrow> nat \<Rightarrow> bytes \<Rightarrow> string list \<Rightarrow> Authorized \<Rightarrow> string \<Rightarrow> Arg list" where
  "post_tail tmo limit body options a url =
     ArgStr ''--data-binary'' # AtFile body
     # map ArgStr ([''--max-time'', decimal (max (tmo div 1000000000) 1), ''--max-filesize'', decimal limit] @ options
         @ [''--resolve'', resolve_arg a, ''--dump-header''])
     @ [HeaderFile, ArgStr ''--url'', ArgStr url]"

definition model_args :: "HttpPolicy \<Rightarrow> bytes \<Rightarrow> bytes \<Rightarrow> Authorized \<Rightarrow> string \<Rightarrow> Arg list" where
  "model_args p credential body a url =
     post_head (if hp_allow_insecure p then ''=http,https'' else ''=https'')
     @ [ArgStr ''--header'', AtFile credential]
     @ post_tail (hp_timeout p) (hp_max_response_bytes p) body
         (if hp_allow_insecure p \<and> az_scheme a = ''https'' then [''--insecure''] else []) a url"

definition plain_args :: "PostGrant \<Rightarrow> bytes \<Rightarrow> Authorized \<Rightarrow> string \<Rightarrow> Arg list" where
  "plain_args g body a url = post_head ''=https'' @ post_tail (pg_timeout g) (pg_max_response_bytes g) body [] a url"

text \<open>The status of a finished transfer, after the checks both kinds of POST make.\<close>

definition post_status :: "string \<Rightarrow> nat \<Rightarrow> CurlOut \<Rightarrow> FetchDenied + u16" where
  "post_status failed limit out =
     (if \<not> co_success out then Err (Fetch failed)
      else if length (co_stdout out) > limit then Err (Fetch ''response exceeded byte budget'')
      else (case co_headers out of
              None \<Rightarrow> Err (Fetch ''invalid response headers'')
            | Some headers \<Rightarrow>
                (case response_status_and_location headers of
                   None \<Rightarrow> Err (Fetch ''missing HTTP response headers'')
                 | Some (status, _) \<Rightarrow> Ok status)))"

definition model_answer :: "PostEnv \<Rightarrow> HttpPolicy \<Rightarrow> ModelProtocol \<Rightarrow> CurlOut \<Rightarrow> FetchDenied + bytes" where
  "model_answer S p protocol out =
     (case post_status ''HTTPS POST failed'' (hp_max_response_bytes p) out of
        Inl e \<Rightarrow> Inl e
      | Inr status \<Rightarrow>
          if \<not> (200 \<le> status \<and> status < 300)
          then Err (Fetch (''HTTP '' @ decimal (unat status) @ ''; POST not replayed''))
          else (case provider_response S (co_stdout out) protocol of
                  Inl e \<Rightarrow> Inl e
                | Inr normalized \<Rightarrow>
                    if length normalized > hp_max_response_bytes p
                    then Err (Fetch ''normalized response exceeded byte budget'') else Ok normalized))"

definition post_direct ::
  "NetEnv \<Rightarrow> PostEnv \<Rightarrow> PostRequest \<Rightarrow> JsonPostGrant \<Rightarrow> u64 \<Rightarrow> HttpBroker \<Rightarrow> Net \<Rightarrow> Net \<times> HttpBroker \<times> (FetchDenied + bytes)" where
  "post_direct E S request grant next b w =
     (let p = hb_policy b in
      case http_authorize E p (pr_url request) ReachModel w of
        (w1, Inl e) \<Rightarrow> (w1, b, Inl e)
      | (w1, Inr authorized) \<Rightarrow>
      (let b1 = spend_model (pr_url request) next b in
      case credential_header E S (jg_bearer_token_file grant) (jg_protocol grant) w1 of
        (w2, Inl e) \<Rightarrow> (w2, b1, Inl e)
      | (w2, Inr credential) \<Rightarrow>
      (case ne_tempfile E (nw_time w2) of
        Inl _ \<Rightarrow> (tick w2, b1, Err (Fetch ''request staging failed''))
      | Inr _ \<Rightarrow>
      (case outgoing_body S (pr_body request) grant of
        Inl e \<Rightarrow> (tick w2, b1, Inl e)
      | Inr provider_body \<Rightarrow>
      (case pe_to_vec S provider_body of
        None \<Rightarrow> (tick w2, b1, Err (Fetch ''request staging failed''))
      | Some body \<Rightarrow>
      (case ne_tempfile E (nw_time (tick w2)) of
        Inl _ \<Rightarrow> (tick (tick w2), b1, Err (Fetch ''response staging failed''))
      | Inr _ \<Rightarrow>
      (case run_curl E ForModel (model_args p credential body authorized (pr_url request)) (tick (tick w2)) of
        (w3, Inl _) \<Rightarrow> (w3, b1, Err (Fetch ''HTTPS POST interrupted or unavailable''))
      | (w3, Inr out) \<Rightarrow> (w3, b1, model_answer S p (jg_protocol grant) out))))))))"

section \<open>Plain POSTs\<close>

definition plain_answer :: "PostEnv \<Rightarrow> PostGrant \<Rightarrow> CurlOut \<Rightarrow> FetchDenied + bytes" where
  "plain_answer S g out =
     (case post_status ''JSON POST failed'' (pg_max_response_bytes g) out of
        Inl e \<Rightarrow> Inl e
      | Inr status \<Rightarrow>
          (case pe_to_vec S (json_object [(''status'', VNumber (PosInt (ucast status))),
                  (''content'', VString (bytes_str (from_utf8_lossy (co_stdout out))))]) of
             None \<Rightarrow> Err (Fetch ''response encoding failed'')
           | Some bs \<Rightarrow> Ok bs))"

definition post_plain ::
  "NetEnv \<Rightarrow> PostEnv \<Rightarrow> PostRequest \<Rightarrow> HttpBroker \<Rightarrow> Net \<Rightarrow> Net \<times> HttpBroker \<times> (FetchDenied + bytes)" where
  "post_plain E S request b w =
     (case hp_post (hb_policy b) of
        None \<Rightarrow> (w, b, Err (Fetch ''JSON POST endpoint not granted''))
      | Some grant \<Rightarrow>
      (case url_host (pr_url request) of
        None \<Rightarrow> (w, b, Err Authority)
      | Some host \<Rightarrow>
      if \<not> host_allowed (pg_allow_hosts grant) host then (w, b, Err (Host host))
      else if hb_post_used b \<ge> pg_max_requests grant then (w, b, Err Budget)
      else (case pe_to_vec S (pr_body request) of
        None \<Rightarrow> (w, b, Err (Fetch ''request staging failed''))
      | Some body \<Rightarrow>
      if length body > pg_max_body_bytes grant then (w, b, Err (Fetch ''POST body exceeds byte budget''))
      else (case http_authorize E (hb_policy b) (pr_url request) (ReachTool (pg_allow_hosts grant)) w of
        (w1, Inl e) \<Rightarrow> (w1, b, Inl e)
      | (w1, Inr authorized) \<Rightarrow>
      (let b1 = b\<lparr>hb_post_used := hb_post_used b + 1\<rparr> in
      case ne_tempfile E (nw_time w1) of
        Inl _ \<Rightarrow> (tick w1, b1, Err (Fetch ''request staging failed''))
      | Inr _ \<Rightarrow>
      (case ne_tempfile E (nw_time (tick w1)) of
        Inl _ \<Rightarrow> (tick (tick w1), b1, Err (Fetch ''response staging failed''))
      | Inr _ \<Rightarrow>
      (case run_curl E ForPost (plain_args grant body authorized (pr_url request)) (tick (tick w1)) of
        (w2, Inl _) \<Rightarrow> (w2, b1, Err (Fetch ''JSON POST interrupted or unavailable''))
      | (w2, Inr out) \<Rightarrow> (w2, b1, plain_answer S grant out))))))))"

section \<open>Dispatch\<close>

definition post_json ::
  "NetEnv \<Rightarrow> PostEnv \<Rightarrow> string \<Rightarrow> HttpBroker \<Rightarrow> Net \<Rightarrow> Net \<times> HttpBroker \<times> (FetchDenied + bytes)" where
  "post_json E S raw b w =
     (case post_parse S raw of
        Inl e \<Rightarrow> (w, b, Inl e)
      | Inr request \<Rightarrow>
      (case grant_for b request of
        None \<Rightarrow> post_plain E S request b w
      | Some grant \<Rightarrow>
      (case admit_model S request grant b of
        Inl e \<Rightarrow> (w, b, Inl e)
      | Inr next \<Rightarrow>
          if hb_model_relay b then post_mediated E S request grant next b w
          else post_direct E S request grant next b w)))"

definition workspace_call ::
  "NetEnv \<Rightarrow> PostEnv \<Rightarrow> string \<Rightarrow> HttpBroker \<Rightarrow> Net \<Rightarrow> Net \<times> HttpBroker \<times> (FetchDenied + bytes)" where
  "workspace_call E S raw b w =
     (case hp_workspace (hb_policy b) of
        None \<Rightarrow> (w, b, Err (Fetch ''workspace access not granted''))
      | Some g \<Rightarrow>
          (case grant_request (pe_ws_request S) (pe_to_vec S) (ne_clock E (nw_time w)) (ne_clock E (Suc (nw_time w))) g raw (nw_ws w) of
             (ws, r) \<Rightarrow> ((tick (tick w))\<lparr>nw_ws := ws\<rparr>, b, map_sum FetchWs id r)))"

definition http_fetch ::
  "NetEnv \<Rightarrow> PostEnv \<Rightarrow> string \<Rightarrow> HttpBroker \<Rightarrow> Net \<Rightarrow> Net \<times> HttpBroker \<times> (FetchDenied + bytes)" where
  "http_fetch E S raw b w =
     (if length raw > 32768 then (w, b, Err (Fetch ''request exceeds broker wire budget''))
      else if starts_with ''{'' raw then
        (case pe_value S raw of
           None \<Rightarrow> (w, b, Err (Fetch ''invalid broker request''))
         | Some v \<Rightarrow>
             if as_str (v_get v ''apiVersion'') = Some ''celln.workspace/v1'' then workspace_call E S raw b w
             else post_json E S raw b w)
      else get_hops E 6 raw b w)"

section \<open>Steps\<close>

text \<open>
  Whatever a guest asks, the broker and the world move by these steps: nothing is spent, one
  hop of a GET, one model request, or one plain POST.
\<close>

definition unmoved :: "Net \<Rightarrow> Net \<Rightarrow> bool" where
  "unmoved w w' \<longleftrightarrow> nw_log w' = nw_log w \<and> nw_relayed w' = nw_relayed w"

definition model_sent :: "HttpBroker \<Rightarrow> JsonPostGrant \<Rightarrow> Net \<Rightarrow> Net \<Rightarrow> bool" where
  "model_sent b grant w w' \<longleftrightarrow>
     unmoved w w'
     \<or> (hb_model_relay b \<and> nw_log w' = nw_log w \<and> (\<exists>body. nw_relayed w' = body # nw_relayed w))
     \<or> (\<not> hb_model_relay b \<and> nw_relayed w' = nw_relayed w
        \<and> (\<exists>credential body a. nw_log w' = (ForModel, model_args (hb_policy b) credential body a (jg_url grant)) # nw_log w
             \<and> model_reach (hb_policy b) (jg_url grant) a))"

definition plain_sent :: "PostGrant \<Rightarrow> Net \<Rightarrow> Net \<Rightarrow> bool" where
  "plain_sent g w w' \<longleftrightarrow>
     unmoved w w'
     \<or> (nw_relayed w' = nw_relayed w
        \<and> (\<exists>body a url. nw_log w' = (ForPost, plain_args g body a url) # nw_log w
             \<and> length body \<le> pg_max_body_bytes g \<and> tool_reach (pg_allow_hosts g) url a))"

inductive net_step :: "NetEnv \<Rightarrow> HttpBroker \<times> Net \<Rightarrow> HttpBroker \<times> Net \<Rightarrow> bool" for E where
  idle: "unmoved w w' \<Longrightarrow> net_step E (b, w) (b, w')"
| hop: "hop_effect E b w b' w' \<Longrightarrow> net_step E (b, w) (b', w')"
| model: "find (\<lambda>g. jg_url g = url) (hp_json_posts (hb_policy b)) = Some grant \<Longrightarrow> model_used b < hp_max_requests (hb_policy b)
    \<Longrightarrow> unat next = unat (reserved_for b url) + unat (tokens :: u64) \<Longrightarrow> 0 < tokens
    \<Longrightarrow> next \<le> jg_max_total_output_tokens grant \<Longrightarrow> model_sent b grant w w'
    \<Longrightarrow> net_step E (b, w) (spend_model url next b, w')"
| plain: "hp_post (hb_policy b) = Some g \<Longrightarrow> hb_post_used b < pg_max_requests g \<Longrightarrow> plain_sent g w w'
    \<Longrightarrow> net_step E (b, w) (b\<lparr>hb_post_used := hb_post_used b + 1\<rparr>, w')"

lemma unmoved_simps [simp]:
  "unmoved w w" "unmoved w (tick w)" "same_traffic w w' \<Longrightarrow> unmoved w w'"
  by (simp_all add: unmoved_def same_traffic_def)

lemma unmoved_trans: "unmoved w1 w2 \<Longrightarrow> unmoved w2 w3 \<Longrightarrow> unmoved w1 w3"
  by (simp add: unmoved_def)

lemma control_check_unmoved: "unmoved w (fst (control_check E w))"
  by (simp add: control_check_def unmoved_def split: option.split prod.split)

lemma credential_header_unmoved: "unmoved w (fst (credential_header E S path protocol w))"
  by (simp add: credential_header_def Let_def unmoved_def split: option.split)

lemma authorize_unmoved: "http_authorize E p raw reach w = (w', r) \<Longrightarrow> unmoved w w'"
  using http_authorize_world [of w E p raw reach] by simp

lemma get_hops_steps:
  assumes "get_hops E n url b w = (w', b', r)"
  shows "(net_step E)\<^sup>*\<^sup>* (b, w) (b', w')"
  using assms
  by (rule get_hops_keeps [where Q = "\<lambda>b' w'. (net_step E)\<^sup>*\<^sup>* (b, w) (b', w')", rotated 2])
    (auto intro: rtranclp.rtrancl_into_rtrancl hop)

lemma admit_model_Ok:
  assumes "admit_model S request grant b = Ok next"
  shows "model_used b < hp_max_requests (hb_policy b)" "next \<le> jg_max_total_output_tokens grant"
    "\<exists>chat. pe_chat S (pr_body request) = Some chat \<and> validate_chat S (pr_body request) grant = Ok (cr_max_tokens chat)
       \<and> 0 < cr_max_tokens chat
       \<and> unat next = unat (reserved_for b (pr_url request)) + unat (cr_max_tokens chat)"
proof -
  obtain tokens where v: "validate_chat S (pr_body request) grant = Ok tokens"
    and used: "model_used b < hp_max_requests (hb_policy b)"
    and sum: "checked_add (reserved_for b (pr_url request)) tokens = Some next" "next \<le> jg_max_total_output_tokens grant"
    using assms by (auto simp: admit_model_def split: sum.splits option.splits if_splits)
  then show "model_used b < hp_max_requests (hb_policy b)" "next \<le> jg_max_total_output_tokens grant" by simp_all
  obtain chat where "pe_chat S (pr_body request) = Some chat" "tokens = cr_max_tokens chat" "tokens \<noteq> 0"
    using v by (auto simp: validate_chat_def split: option.splits if_splits)
  moreover have "unat next = unat (reserved_for b (pr_url request)) + unat tokens"
    using sum(1) by (rule checked_add_unat)
  ultimately show "\<exists>chat. pe_chat S (pr_body request) = Some chat
       \<and> validate_chat S (pr_body request) grant = Ok (cr_max_tokens chat) \<and> 0 < cr_max_tokens chat
       \<and> unat next = unat (reserved_for b (pr_url request)) + unat (cr_max_tokens chat)"
    using v by (auto simp: word_neq_0_conv)
qed

lemma post_mediated_sent:
  assumes "post_mediated E S request grant next b w = (w', b', r)" "hb_model_relay b"
  shows "(b' = b \<and> unmoved w w') \<or> (b' = spend_model (pr_url request) next b \<and> model_sent b grant w w')"
proof -
  obtain w1 ok where c1: "control_check E w = (w1, ok)" by fastforce
  have w1: "unmoved w w1" using control_check_unmoved [of w E] c1 by simp
  have sent: "model_sent b grant w (fst (control_check E ((tick w1)\<lparr>nw_relayed := body # nw_relayed w1\<rparr>)))" for body
    using control_check_unmoved [of "(tick w1)\<lparr>nw_relayed := body # nw_relayed w1\<rparr>" E] w1 assms(2)
    by (auto simp: model_sent_def unmoved_def)
  have sent': "model_sent b grant w ((tick w1)\<lparr>nw_relayed := body # nw_relayed w1\<rparr>)" for body
    using w1 assms(2) by (auto simp: model_sent_def unmoved_def)
  show ?thesis
    using assms(1) w1 sent sent' unfolding post_mediated_def c1 Let_def
    by (auto split: sum.splits option.splits if_splits prod.splits; metis fst_conv)
qed

lemma post_direct_sent:
  assumes "post_direct E S request grant next b w = (w', b', r)" "\<not> hb_model_relay b" "jg_url grant = pr_url request"
  shows "(b' = b \<and> unmoved w w') \<or> (b' = spend_model (pr_url request) next b \<and> model_sent b grant w w')"
proof -
  let ?p = "hb_policy b"
  obtain w1 r1 where a: "http_authorize E ?p (pr_url request) ReachModel w = (w1, r1)" by fastforce
  have w1: "unmoved w w1" using authorize_unmoved [OF a] .
  obtain w2 r2 where c: "credential_header E S (jg_bearer_token_file grant) (jg_protocol grant) w1 = (w2, r2)" by fastforce
  have w2: "unmoved w w2" using credential_header_unmoved [of w1] c w1 by (metis fst_conv unmoved_trans)
  have calm: "model_sent b grant w w''" if "unmoved w w''" for w'' using that by (simp add: model_sent_def)
  have ticks: "unmoved w (tick w2)" "unmoved w (tick (tick w2))" using w2 by (simp_all add: unmoved_def)
  have sent: "model_sent b grant w (fst (run_curl E ForModel (model_args ?p cred body auth (pr_url request)) (tick (tick w2))))"
    if "r1 = Ok auth" for cred body auth
    using http_authorize_model [of E ?p "pr_url request" w w1 auth] a that w2 assms(2,3)
    by (auto simp: model_sent_def run_curl_def unmoved_def)
  note run = assms(1) [unfolded post_direct_def Let_def a c prod.case]
  show ?thesis
  proof (cases r1)
    case (Inl e)
    then show ?thesis using run w1 by simp
  next
    case (Inr auth)
    have "b' = spend_model (pr_url request) next b
        \<and> (w' = w2 \<or> w' = tick w2 \<or> w' = tick (tick w2)
           \<or> (\<exists>cred body. w' = fst (run_curl E ForModel (model_args ?p cred body auth (pr_url request)) (tick (tick w2)))))"
      using run unfolding Inr by (simp split: sum.splits option.splits prod.splits; metis fst_conv)
    then show ?thesis using calm [OF w2] calm [OF ticks(1)] calm [OF ticks(2)] sent [OF Inr] by blast
  qed
qed

lemma post_plain_sent:
  assumes "post_plain E S request b w = (w', b', r)"
  shows "(b' = b \<and> unmoved w w') \<or> (\<exists>g. hp_post (hb_policy b) = Some g \<and> hb_post_used b < pg_max_requests g
    \<and> b' = b\<lparr>hb_post_used := hb_post_used b + 1\<rparr> \<and> plain_sent g w w')"
proof (cases "hp_post (hb_policy b)")
  case None
  then show ?thesis using assms by (auto simp: post_plain_def)
next
  case (Some g)
  obtain w1 r1 where a: "http_authorize E (hb_policy b) (pr_url request) (ReachTool (pg_allow_hosts g)) w = (w1, r1)" by fastforce
  have w1: "unmoved w w1" using authorize_unmoved [OF a] .
  have ticks: "unmoved w (tick w1)" "unmoved w (tick (tick w1))" using w1 by (simp_all add: unmoved_def)
  have sent: "plain_sent g w (fst (run_curl E ForPost (plain_args g body auth (pr_url request)) (tick (tick w1))))"
    if "r1 = Ok auth" "length body \<le> pg_max_body_bytes g" for body auth
    using http_authorize_tool [of E "hb_policy b" "pr_url request" "pg_allow_hosts g" w w1 auth] a that w1
    by (auto simp: plain_sent_def run_curl_def unmoved_def)
  have calm: "plain_sent g w w''" if "unmoved w w''" for w'' using that by (simp add: plain_sent_def)
  show ?thesis
    using assms w1 calm [OF ticks(1)] calm [OF ticks(2)] sent unfolding post_plain_def Some option.case a Let_def
    by (auto split: sum.splits option.splits prod.splits if_splits; metis fst_conv not_le)
qed

lemma http_fetch_steps:
  assumes "http_fetch E S raw b w = (w', b', r)"
  shows "(net_step E)\<^sup>*\<^sup>* (b, w) (b', w')"
proof -
  have idle': "(net_step E)\<^sup>*\<^sup>* (b, w) (b', w')" if "b' = b" "unmoved w w'"
    using that by (auto intro: idle)
  have model': "(net_step E)\<^sup>*\<^sup>* (b, w) (b', w')"
    if "grant_for b request = Some grant" "admit_model S request grant b = Ok nx"
      "b' = spend_model (pr_url request) nx b" "model_sent b grant w w'" for request grant nx
    using admit_model_Ok [OF that(2)] that(1,3,4) unfolding grant_for_def by (blast intro: model)
  have url: "jg_url grant = pr_url request" if "grant_for b request = Some grant" for request grant
    using that by (auto simp: grant_for_def find_Some_iff)
  have post: "(net_step E)\<^sup>*\<^sup>* (b, w) (b', w')" if run: "post_json E S raw b w = (w', b', r)"
  proof (cases "post_parse S raw")
    case (Inl e)
    then show ?thesis using run idle' by (simp add: post_json_def)
  next
    case (Inr request)
    show ?thesis
    proof (cases "grant_for b request")
      case None
      then have "post_plain E S request b w = (w', b', r)" using run Inr by (simp add: post_json_def)
      from post_plain_sent [OF this] show ?thesis using idle' by (blast intro: plain)
    next
      case (Some grant)
      show ?thesis
      proof (cases "admit_model S request grant b")
        case (Inl e)
        then show ?thesis using run Inr Some idle' by (simp add: post_json_def)
      next
        case ok: (Inr nx)
        have "(b' = b \<and> unmoved w w') \<or> (b' = spend_model (pr_url request) nx b \<and> model_sent b grant w w')"
          using run Inr Some ok post_mediated_sent post_direct_sent url [OF Some]
          by (cases "hb_model_relay b") (simp_all add: post_json_def)
        then show ?thesis using idle' model' [OF Some ok] by blast
      qed
    qed
  qed
  have ws: "(net_step E)\<^sup>*\<^sup>* (b, w) (b', w')" if "workspace_call E S raw b w = (w', b', r)"
    using that idle' by (auto simp: workspace_call_def unmoved_def split: option.splits prod.splits)
  show ?thesis
    using assms idle' ws post get_hops_steps [of E 6 raw b w w' b' r]
    by (auto simp: http_fetch_def split: if_splits option.splits)
qed

section \<open>Invariant\<close>

definition allowed_transfer :: "NetEnv \<Rightarrow> HttpPolicy \<Rightarrow> Purpose \<times> Arg list \<Rightarrow> bool" where
  "allowed_transfer E p x \<longleftrightarrow>
     (case fst x of
        ForGet \<Rightarrow> \<exists>url a. snd x = get_args E (get_timeout p) url a \<and> tool_reach (get_hosts p) url a
      | ForModel \<Rightarrow>
          \<exists>g \<in> set (hp_json_posts p). \<exists>credential body a.
            snd x = model_args p credential body a (jg_url g) \<and> model_reach p (jg_url g) a
      | ForPost \<Rightarrow>
          \<exists>g body a url. hp_post p = Some g \<and> snd x = plain_args g body a url
            \<and> length body \<le> pg_max_body_bytes g \<and> tool_reach (pg_allow_hosts g) url a)"

definition count_for :: "Purpose \<Rightarrow> Net \<Rightarrow> nat" where
  "count_for q w = length (filter (\<lambda>x. fst x = q) (nw_log w))"

definition model_requests :: "Net \<Rightarrow> nat" where
  "model_requests w = count_for ForModel w + length (nw_relayed w)"

definition token_ceiling :: "HttpPolicy \<Rightarrow> string \<Rightarrow> u64" where
  "token_ceiling p url =
     (case find (\<lambda>g. jg_url g = url) (hp_json_posts p) of Some g \<Rightarrow> jg_max_total_output_tokens g | None \<Rightarrow> 0)"

definition post_limit :: "HttpPolicy \<Rightarrow> nat" where
  "post_limit p = (case hp_post p of Some g \<Rightarrow> pg_max_requests g | None \<Rightarrow> 0)"

definition within_budget :: "HttpPolicy \<Rightarrow> nat \<Rightarrow> nat \<Rightarrow> bool" where
  "within_budget p gets models \<longleftrightarrow>
     (case hp_get p of
        Some g \<Rightarrow> gets \<le> gg_max_requests g \<and> models \<le> hp_max_requests p
      | None \<Rightarrow> gets + models \<le> hp_max_requests p)"

definition egress_inv :: "NetEnv \<Rightarrow> HttpPolicy \<Rightarrow> bool \<Rightarrow> HttpBroker \<times> Net \<Rightarrow> bool" where
  "egress_inv E p relay s \<longleftrightarrow>
     (let b = fst s; w = snd s in
      hb_policy b = p \<and> hb_model_relay b = relay
      \<and> list_all (allowed_transfer E p) (nw_log w)
      \<and> (if relay then count_for ForModel w = 0 else nw_relayed w = [])
      \<and> hb_get_used b \<le> hb_used b
      \<and> count_for ForGet w \<le> hb_get_used b
      \<and> model_requests w \<le> hb_used b - hb_get_used b
      \<and> within_budget p (hb_get_used b) (hb_used b - hb_get_used b)
      \<and> count_for ForPost w \<le> hb_post_used b \<and> hb_post_used b \<le> post_limit p
      \<and> bt_invar (hb_post_output_reserved b)
      \<and> (\<forall>url. reserved_for b url \<le> token_ceiling p url))"

lemma count_for_Cons: "nw_log w' = (q', x) # nw_log w \<Longrightarrow> count_for q w' = (if q' = q then Suc (count_for q w) else count_for q w)"
  by (simp add: count_for_def)

lemma count_for_same: "nw_log w' = nw_log w \<Longrightarrow> count_for q w' = count_for q w"
  by (simp add: count_for_def)

lemma reserved_insert:
  "bt_invar (hb_post_output_reserved b) \<Longrightarrow>
     reserved_for (spend_model url n b) u = (if u = url then n else reserved_for b u)"
  by (simp add: reserved_for_def spend_model_def bt_simps)

lemma allowed_transferI:
  "tool_reach (get_hosts p) url a \<Longrightarrow> allowed_transfer E p (ForGet, get_args E (get_timeout p) url a)"
  "g \<in> set (hp_json_posts p) \<Longrightarrow> model_reach p (jg_url g) a \<Longrightarrow> allowed_transfer E p (ForModel, model_args p credential body a (jg_url g))"
  "hp_post p = Some pg \<Longrightarrow> length body \<le> pg_max_body_bytes pg \<Longrightarrow> tool_reach (pg_allow_hosts pg) url a
     \<Longrightarrow> allowed_transfer E p (ForPost, plain_args pg body a url)"
  by (auto simp: allowed_transfer_def)

lemma egress_inv_hop:
  assumes "hop_effect E b w b' w'" "egress_inv E p relay (b, w)"
  shows "egress_inv E p relay (b', w')"
  using assms count_for_same [of w' w] count_for_Cons [of w' _ _ w]
  by (auto simp: egress_inv_def Let_def hop_effect_def same_traffic_def model_requests_def allowed_transferI
      within_budget_def get_spent_def get_limit_def reserved_for_def split: option.splits)

lemma egress_inv_plain:
  assumes "hp_post (hb_policy b) = Some g" "hb_post_used b < pg_max_requests g" "plain_sent g w w'" "egress_inv E p relay (b, w)"
  shows "egress_inv E p relay (b\<lparr>hb_post_used := hb_post_used b + 1\<rparr>, w')"
  using assms count_for_same [of w' w] count_for_Cons [of w' _ _ w]
  by (auto simp: egress_inv_def Let_def plain_sent_def unmoved_def model_requests_def allowed_transferI
      post_limit_def reserved_for_def)

lemma model_used_eq: "hb_get_used b \<le> hb_used b \<Longrightarrow>
    model_used b = (if hp_get (hb_policy b) = None then hb_used b else hb_used b - hb_get_used b)"
  by (simp add: model_used_def)

lemma egress_inv_model:
  assumes "find (\<lambda>g. jg_url g = url) (hp_json_posts (hb_policy b)) = Some grant" "model_used b < hp_max_requests (hb_policy b)"
    and "nx \<le> jg_max_total_output_tokens grant" "model_sent b grant w w'" "egress_inv E p relay (b, w)"
  shows "egress_inv E p relay (spend_model url nx b, w')"
proof -
  let ?b = "spend_model url nx b"
  have inv: "hb_policy b = p" "hb_model_relay b = relay" "hb_get_used b \<le> hb_used b" "count_for ForGet w \<le> hb_get_used b"
    "model_requests w \<le> hb_used b - hb_get_used b" "bt_invar (hb_post_output_reserved b)"
    "within_budget p (hb_get_used b) (hb_used b - hb_get_used b)" "\<And>u. reserved_for b u \<le> token_ceiling p u"
    using assms(5) by (simp_all add: egress_inv_def Let_def)
  have ceiling: "token_ceiling p url = jg_max_total_output_tokens grant" using assms(1) inv(1) by (simp add: token_ceiling_def)
  have grant: "grant \<in> set (hp_json_posts p)" "jg_url grant = url" using assms(1) inv(1) by (auto simp: find_Some_iff)
  have res: "reserved_for ?b u \<le> token_ceiling p u" for u
    using assms(3) ceiling inv(8) [of u] by (simp add: reserved_insert inv(6))
  have fields: "hb_policy ?b = p" "hb_model_relay ?b = relay" "hb_used ?b = Suc (hb_used b)" "hb_get_used ?b = hb_get_used b"
    "hb_post_used ?b = hb_post_used b" "bt_invar (hb_post_output_reserved ?b)"
    using inv by (simp_all add: spend_model_def bt_simps)
  have budget: "within_budget p (hb_get_used b) (Suc (hb_used b) - hb_get_used b)"
    using assms(2) inv(1,3,7) by (auto simp: within_budget_def model_used_eq split: option.splits)
  have log: "model_requests w' \<le> Suc (model_requests w)" "count_for ForGet w' = count_for ForGet w"
    "count_for ForPost w' = count_for ForPost w" "list_all (allowed_transfer E p) (nw_log w) \<Longrightarrow> list_all (allowed_transfer E p) (nw_log w')"
    "(if relay then count_for ForModel w = 0 else nw_relayed w = []) \<Longrightarrow> if relay then count_for ForModel w' = 0 else nw_relayed w' = []"
    using assms(4) inv(1,2) grant count_for_same [of w' w] count_for_Cons [of w' _ _ w]
    by (auto simp: model_sent_def unmoved_def model_requests_def allowed_transferI)
  show ?thesis
    using assms(5) res fields budget log inv(3,5) by (simp add: egress_inv_def Let_def)
qed

lemma egress_inv_step:
  assumes "net_step E s s'" "egress_inv E p relay s"
  shows "egress_inv E p relay s'"
  using assms
proof cases
  case (idle w w' b)
  then show ?thesis using assms(2) count_for_same [of w' w]
    by (simp add: egress_inv_def Let_def unmoved_def model_requests_def)
next
  case (hop b w b' w')
  then show ?thesis using assms(2) egress_inv_hop by blast
next
  case (model url b grant nx tokens w w')
  then show ?thesis using assms(2) egress_inv_model [of url b grant nx w w'] by simp
next
  case (plain b g w w')
  then show ?thesis using assms(2) egress_inv_plain [of b g w w'] by simp
qed

text \<open>A run: the guest's requests in order.\<close>

definition fetch_step :: "NetEnv \<Rightarrow> PostEnv \<Rightarrow> string \<Rightarrow> HttpBroker \<times> Net \<Rightarrow> (HttpBroker \<times> Net) \<times> (FetchDenied + bytes)" where
  "fetch_step E S raw s = (case http_fetch E S raw (fst s) (snd s) of (w, b, r) \<Rightarrow> ((b, w), r))"

definition net_start :: "Broker \<Rightarrow> Net" where
  "net_start ws = \<lparr>nw_time = 0, nw_log = [], nw_relayed = [], nw_ws = ws\<rparr>"

definition broker_start :: "HttpPolicy \<Rightarrow> bool \<Rightarrow> HttpBroker" where
  "broker_start p relay = (HttpBroker_new p)\<lparr>hb_model_relay := relay\<rparr>"

lemma fetch_step_inv:
  assumes "egress_inv E p relay s"
  shows "egress_inv E p relay (fst (fetch_step E S raw s))"
proof -
  obtain w' b' r where run: "http_fetch E S raw (fst s) (snd s) = (w', b', r)" using prod_cases3 by blast
  then have "(net_step E)\<^sup>*\<^sup>* s (b', w')" using http_fetch_steps by fastforce
  then have "egress_inv E p relay (b', w')" by induction (use assms egress_inv_step in auto)
  then show ?thesis using run by (simp add: fetch_step_def)
qed

lemma egress_run_inv:
  "egress_inv E p relay (run_final (fetch_step E S) (broker_start p relay, net_start ws) raws)"
proof (rule run_final_inv [where P = "egress_inv E p relay", OF fetch_step_inv])
  show "egress_inv E p relay (broker_start p relay, net_start ws)"
    by (auto simp: egress_inv_def Let_def broker_start_def net_start_def HttpBroker_new_def count_for_def model_requests_def
        within_budget_def reserved_for_def bt_invar_def split: option.split)
qed

section \<open>Properties\<close>


text \<open>
  C27: The budgets of a policy hold over every run: the GETs and the model requests that were
  sent are at most what the policy allows, separately when there is a grant for GETs and
  together when there is none; plain POSTs are at most their grant's; and the output tokens
  reserved for a model URL never exceed its grant's total, so that the sum never wraps. The
  counter of GETs never exceeds the counter of all requests, so that their difference, which
  the code computes, does not wrap either.
\<close>

theorem egress_budgets_hold:
  "let (b, w) = run_final (fetch_step E S) (broker_start p relay, net_start ws) raws
   in within_budget p (count_for ForGet w) (model_requests w) \<and> count_for ForPost w \<le> post_limit p
      \<and> (\<forall>url. reserved_for b url \<le> token_ceiling p url) \<and> hb_get_used b \<le> hb_used b"
proof -
  obtain b w where s: "run_final (fetch_step E S) (broker_start p relay, net_start ws) raws = (b, w)" by fastforce
  then have inv: "egress_inv E p relay (b, w)" using egress_run_inv [of E p relay S ws raws] by simp
  then have "within_budget p (count_for ForGet w) (model_requests w)"
    by (auto simp: egress_inv_def Let_def within_budget_def split: option.splits)
  then show ?thesis using inv s by (simp add: egress_inv_def Let_def)
qed

end
