(* ===== verification/JsonText.thy ===== *)
theory JsonText
  imports Text Schema
begin

text \<open>
  JSON text as \<open>celln-spec/src/configuration.rs\<close> and \<open>celln-cli/src/tenancy_contract.rs\<close> write it:
  objects with their keys in a fixed order, without white space. The two differ in the order
  of keys, which is an argument. \<open>serde_json\<close>'s writer of strings and scalars is a parameter.
\<close>

section \<open>Writing\<close>

record JsonWriter =
  jw_string :: "string \<Rightarrow> bytes"
  jw_scalar :: "Value \<Rightarrow> bytes"

fun comma_join :: "bytes list \<Rightarrow> bytes" where
  "comma_join [] = []"
| "comma_join [x] = x"
| "comma_join (x # y # ys) = x @ 44 # comma_join (y # ys)"

function json_text :: "(string \<Rightarrow> 'k::linorder) \<Rightarrow> JsonWriter \<Rightarrow> Value \<Rightarrow> bytes" where
  "json_text key W (VObject m) =
     123 # comma_join (map (\<lambda>(k, v). jw_string W k @ 58 # json_text key W v) (sort_key (\<lambda>p. key (fst p)) m)) @ [125]"
| "json_text key W (VArray vs) = 91 # comma_join (map (json_text key W) vs) @ [93]"
| "json_text key W VNull = jw_scalar W VNull"
| "json_text key W (VBool b) = jw_scalar W (VBool b)"
| "json_text key W (VNumber n) = jw_scalar W (VNumber n)"
| "json_text key W (VString s) = jw_scalar W (VString s)"
  by pat_completeness auto
termination
proof (relation "measure (\<lambda>(key, W, v). size v)", goal_cases)
  case (2 key W m x k v)
  then have "(k, v) \<in> set m" by simp
  then show ?case using size_list_estimation' [of "(k, v)" m "size v" "size_prod (\<lambda>_. 0) size"] by simp
qed (auto simp: size_list_estimation' le_imp_less_Suc)

section \<open>Text determines the value\<close>

text \<open>
  The values \<open>serde_json\<close> can hold: objects with strictly increasing keys, numbers finite and
  negative only as \<open>NegInt\<close>.
\<close>

fun json_ok :: "Value \<Rightarrow> bool" where
  "json_ok (VObject m) \<longleftrightarrow> bt_invar m \<and> (\<forall>p \<in> set m. json_ok (snd p))"
| "json_ok (VArray vs) \<longleftrightarrow> (\<forall>v \<in> set vs. json_ok v)"
| "json_ok (VNumber (NegInt i)) \<longleftrightarrow> sint i < 0"
| "json_ok (VNumber (Float b)) \<longleftrightarrow> f64_finite b"
| "json_ok _ \<longleftrightarrow> True"

definition is_scalar :: "Value \<Rightarrow> bool" where
  "is_scalar v = (case v of VObject _ \<Rightarrow> False | VArray _ \<Rightarrow> False | _ \<Rightarrow> json_ok v)"

definition delimited :: "bytes \<Rightarrow> bool" where
  "delimited x \<longleftrightarrow> (case x of [] \<Rightarrow> True | c # _ \<Rightarrow> c \<in> {44, 93, 125})"

definition plain_head :: "bytes \<Rightarrow> bool" where
  "plain_head x \<longleftrightarrow> (case x of [] \<Rightarrow> False | c # _ \<Rightarrow> c \<notin> {44, 91, 93, 123, 125})"

text \<open>
  What \<open>serde_json\<close> documents of its writer: a string literal ends with its own closing
  quotation mark, the text of a scalar ends at the next delimiter, neither begins with
  punctuation of arrays and objects, and both read back as what was written.
\<close>

definition writer_ok :: "JsonWriter \<Rightarrow> bool" where
  "writer_ok W \<longleftrightarrow>
     (\<forall>a b x y. jw_string W a @ x = jw_string W b @ y \<longrightarrow> a = b \<and> x = y)
     \<and> (\<forall>a. plain_head (jw_string W a))
     \<and> (\<forall>a. is_scalar a \<longrightarrow> plain_head (jw_scalar W a))
     \<and> (\<forall>a b x y. is_scalar a \<longrightarrow> is_scalar b \<longrightarrow> delimited x \<longrightarrow> delimited y
          \<longrightarrow> jw_scalar W a @ x = jw_scalar W b @ y \<longrightarrow> a = b \<and> x = y)"

lemma comma_join_items: "as \<noteq> [] \<Longrightarrow> concat (map (\<lambda>a. 44 # f a) as) @ z = 44 # comma_join (map f as) @ z"
proof (induction as)
  case (Cons a as)
  then show ?case by (cases as) auto
qed simp

text \<open>A sequence of delimited items reads back item by item.\<close>

lemma items_inj:
  assumes "\<And>a b x y. a \<in> set as \<Longrightarrow> b \<in> set bs \<Longrightarrow> delimited x \<Longrightarrow> delimited y \<Longrightarrow> f a @ x = f b @ y \<Longrightarrow> a = b \<and> x = y"
    and "c \<in> {93, 125}"
    and "concat (map (\<lambda>a. 44 # f a) as) @ c # x = concat (map (\<lambda>a. 44 # f a) bs) @ c # y"
  shows "as = bs \<and> x = y"
  using assms
proof (induction as arbitrary: bs)
  case Nil
  then show ?case by (cases bs) auto
next
  case (Cons a as)
  then obtain b bs' where bs: "bs = b # bs'" by (cases bs) auto
  let ?t = "\<lambda>zs z. concat (map (\<lambda>a. 44 # f a) zs) @ c # z"
  have d: "delimited (?t zs z)" for zs z
    using Cons.prems(2) by (cases zs) (auto simp: delimited_def)
  have "f a @ ?t as x = f b @ ?t bs' y" using Cons.prems(3) bs by simp
  then have "a = b \<and> ?t as x = ?t bs' y" by (rule Cons.prems(1) [rotated 4]) (auto simp: bs d)
  moreover from this have "as = bs' \<and> x = y" 
    by (intro Cons.IH [OF _ Cons.prems(2)] Cons.prems(1)) (simp_all add: bs)
  ultimately show ?case by (simp add: bs)
qed

lemma comma_join_inj:
  assumes items: "\<And>a b x y. a \<in> set as \<Longrightarrow> b \<in> set bs \<Longrightarrow> delimited x \<Longrightarrow> delimited y \<Longrightarrow> f a @ x = f b @ y \<Longrightarrow> a = b \<and> x = y"
    and head: "\<And>a. a \<in> set as \<union> set bs \<Longrightarrow> f a \<noteq> [] \<and> hd (f a) \<notin> {44, 93, 125}"
    and c: "c \<in> {93, 125}"
    and eq: "comma_join (map f as) @ c # x = comma_join (map f bs) @ c # y"
  shows "as = bs \<and> x = y"
proof -
  have start: "comma_join (map f zs) @ z \<noteq> c # z'" if "zs \<noteq> []" "set zs \<subseteq> set as \<union> set bs" for zs z z'
  proof -
    from that have "hd zs \<in> set as \<union> set bs" using list.set_sel(1) by blast
    from head [OF this] show ?thesis
      using that(1) c by (cases zs; cases "tl zs") (auto simp: neq_Nil_conv)
  qed
  have "as = [] \<longleftrightarrow> bs = []"
  proof (intro iffI; rule ccontr)
    show False if "as = []" "bs \<noteq> []" using start [of bs "c # y" x] eq that by simp
    show False if "bs = []" "as \<noteq> []" using start [of as "c # x" y] eq that by simp
  qed
  moreover have "as = bs \<and> x = y" if "as \<noteq> []" "bs \<noteq> []"
  proof (rule items_inj [OF items c])
    show "concat (map (\<lambda>a. 44 # f a) as) @ c # x = concat (map (\<lambda>a. 44 # f a) bs) @ c # y"
      unfolding comma_join_items [OF that(1)] comma_join_items [OF that(2)] eq ..
  qed
  ultimately show ?thesis using eq by auto
qed

lemma plain_head_iff: "plain_head x \<longleftrightarrow> x \<noteq> [] \<and> hd x \<notin> {44, 91, 93, 123, 125}"
  by (cases x) (simp_all add: plain_head_def)

lemma writer_heads:
  assumes "writer_ok W"
  shows "jw_string W k \<noteq> [] \<and> hd (jw_string W k) \<notin> {44, 91, 93, 123, 125}"
    and "is_scalar v \<Longrightarrow> jw_scalar W v \<noteq> [] \<and> hd (jw_scalar W v) \<notin> {44, 91, 93, 123, 125}"
  using assms unfolding writer_ok_def plain_head_iff by blast+

lemma writer_string_inj: "writer_ok W \<Longrightarrow> jw_string W a @ x = jw_string W b @ y \<Longrightarrow> a = b \<and> x = y"
  unfolding writer_ok_def by blast

lemma writer_scalar_inj:
  "writer_ok W \<Longrightarrow> is_scalar a \<Longrightarrow> is_scalar b \<Longrightarrow> delimited x \<Longrightarrow> delimited y
    \<Longrightarrow> jw_scalar W a @ x = jw_scalar W b @ y \<Longrightarrow> a = b \<and> x = y"
  unfolding writer_ok_def by blast

lemma json_text_scalar: "is_scalar v \<Longrightarrow> json_text key W v = jw_scalar W v"
  by (cases v) (simp_all add: is_scalar_def)

lemma json_text_kind:
  assumes "writer_ok W" "json_ok v"
  obtains (scalar) "is_scalar v" "hd (json_text key W v) \<notin> {44, 91, 93, 123, 125}" "json_text key W v \<noteq> []"
  | (arr) vs where "v = VArray vs" "hd (json_text key W v) = 91" "json_text key W v \<noteq> []"
  | (obj) m where "v = VObject m" "hd (json_text key W v) = 123" "json_text key W v \<noteq> []"
proof (cases "is_scalar v")
  case True
  then show ?thesis using scalar writer_heads(2) [OF assms(1) True] by (simp add: json_text_scalar)
next
  case False
  then show ?thesis using assms(2) arr obj by (cases v) (simp_all add: is_scalar_def)
qed

lemma json_text_head:
  assumes "writer_ok W" "json_ok v"
  shows "json_text key W v \<noteq> [] \<and> hd (json_text key W v) \<notin> {44, 93, 125}"
  by (cases rule: json_text_kind [OF assms]) auto

lemma json_text_shape:
  assumes "writer_ok W" "json_ok v" "json_ok w" "json_text key W v @ x = json_text key W w @ y"
  shows "is_scalar v \<and> is_scalar w \<or> (\<exists>vs ws. v = VArray vs \<and> w = VArray ws) \<or> (\<exists>m n. v = VObject m \<and> w = VObject n)"
proof -
  have eq: "hd (json_text key W v) = hd (json_text key W w)"
    using assms(4) json_text_head [OF assms(1,2)] json_text_head [OF assms(1,3)] by (metis hd_append2)
  show ?thesis
    by (cases rule: json_text_kind [OF assms(1,2)]; cases rule: json_text_kind [OF assms(1,3)]) (use eq in auto)
qed

lemma json_text_inj_scalar:
  assumes "writer_ok W" "is_scalar v" "json_ok v" "json_ok w" "delimited x" "delimited y"
    and "json_text key W v @ x = json_text key W w @ y"
  shows "v = w \<and> x = y"
proof -
  have "is_scalar w" using json_text_shape [OF assms(1,3,4,7)] assms(2) by (auto simp: is_scalar_def)
  then show ?thesis
    using writer_scalar_inj [OF assms(1,2) _ assms(5,6)] assms(2,7) by (simp add: json_text_scalar)
qed

text \<open>Two maps in key order with the same entries in another order are equal.\<close>

lemma sorted_object:
  fixes f :: "string \<times> Value \<Rightarrow> 'k::linorder"
  assumes "bt_invar m" "bt_invar n" "sort_key f m = sort_key f n"
  shows "m = n"
proof -
  have same: "set m = set n" using assms(3) by (metis set_sort)
  have keys: "map fst m = map fst n" and dist: "distinct (map fst n)"
    using assms(1,2) same by (auto simp: bt_invar_def strict_sorted_iff intro!: sorted_distinct_set_unique)
  show ?thesis
  proof (rule nth_equalityI)
    show len: "length m = length n" using keys map_eq_imp_length_eq by blast
    fix i assume i: "i < length m"
    then obtain j where j: "j < length n" "n ! j = m ! i" using same by (metis in_set_conv_nth nth_mem)
    then have "map fst n ! j = map fst n ! i" using i len keys by (metis nth_map)
    then show "m ! i = n ! i" using j i len dist by (simp add: nth_eq_iff_index_eq del: nth_map)
  qed
qed

lemma json_text_inj:
  assumes "writer_ok W"
  shows "json_ok v \<Longrightarrow> json_ok w \<Longrightarrow> delimited x \<Longrightarrow> delimited y \<Longrightarrow> json_text key W v @ x = json_text key W w @ y \<Longrightarrow> v = w \<and> x = y"
proof (induction v arbitrary: w x y)
  case (VArray vs)
  obtain ws where w: "w = VArray ws"
    using json_text_shape [OF assms VArray.prems(1,2,5)] by (auto simp: is_scalar_def)
  have ok: "json_ok v" if "v \<in> set vs \<union> set ws" for v using VArray.prems(1,2) that by (auto simp: w)
  have "vs = ws \<and> x = y"
  proof (rule comma_join_inj [where f = "json_text key W" and c = 93])
    show "comma_join (map (json_text key W) vs) @ 93 # x = comma_join (map (json_text key W) ws) @ 93 # y"
      using VArray.prems(5) by (simp add: w)
    show "a = b \<and> u = t"
      if "a \<in> set vs" "b \<in> set ws" "delimited u" "delimited t" "json_text key W a @ u = json_text key W b @ t" for a b u t
      by (rule VArray.IH [OF that(1) _ _ that(3-5)]) (simp_all add: ok that)
  qed (use ok json_text_head [OF assms, where key = key] in simp_all)
  then show ?case by (simp add: w)
next
  case (VObject m)
  obtain n where w: "w = VObject n"
    using json_text_shape [OF assms VObject.prems(1,2,5)] by (auto simp: is_scalar_def)
  let ?f = "\<lambda>(k, v). jw_string W k @ 58 # json_text key W v"
  let ?s = "sort_key (\<lambda>p. key (fst p))"
  have "?s m = ?s n \<and> x = y"
  proof (rule comma_join_inj [where f = ?f and c = 125])
    fix a b x y assume ab: "a \<in> set (?s m)" "b \<in> set (?s n)" "delimited x" "delimited y" "?f a @ x = ?f b @ y"
    then have "jw_string W (fst a) @ 58 # json_text key W (snd a) @ x = jw_string W (fst b) @ 58 # json_text key W (snd b) @ y"
      by (simp add: case_prod_unfold)
    from writer_string_inj [OF assms this] have "fst a = fst b" and eq: "json_text key W (snd a) @ x = json_text key W (snd b) @ y"
      by simp_all
    moreover have "snd a = snd b \<and> x = y"
      by (rule VObject.IH [OF _ _ _ _ ab(3,4) eq]) (use ab VObject.prems(1,2) w in \<open>auto simp: snds.simps\<close>)
    ultimately show "a = b \<and> x = y" by (simp add: prod_eq_iff)
  next
    fix a show "?f a \<noteq> [] \<and> hd (?f a) \<notin> {44, 93, 125}"
      using writer_heads(1) [OF assms, of "fst a"] by (simp add: case_prod_unfold)
  next
    show "comma_join (map ?f (?s m)) @ 125 # x = comma_join (map ?f (?s n)) @ 125 # y"
      using VObject.prems(5) by (simp add: w)
  qed simp
  then show ?case using sorted_object [of m n] VObject.prems(1,2) by (auto simp: w)
qed (rule json_text_inj_scalar [OF assms]; simp add: is_scalar_def)+

text \<open>A writer with these laws: framed strings, and numbers in unary behind a byte for their kind.\<close>

definition unary :: "u8 \<Rightarrow> nat \<Rightarrow> bytes" where
  "unary kind n = kind # replicate n 49"

definition frame_literal :: "string \<Rightarrow> bytes" where
  "frame_literal s = 34 # frame_string s @ [0]"

definition frame_writer :: JsonWriter where
  "frame_writer =
     \<lparr>jw_string = frame_literal,
      jw_scalar = (\<lambda>v. case v of
         VBool b \<Rightarrow> [if b then 116 else 102]
       | VNumber n \<Rightarrow> (case n of PosInt u \<Rightarrow> unary 48 (unat u) | NegInt i \<Rightarrow> unary 45 (unat i) | Float f \<Rightarrow> unary 46 (unat f))
       | VString s \<Rightarrow> frame_literal s
       | _ \<Rightarrow> [110])\<rparr>"

lemma frame_literal_inj: "frame_literal a @ x = frame_literal b @ y \<longleftrightarrow> a = b \<and> x = y"
proof -
  have "frame_string a @ 0 # x = frame_string b @ 0 # y \<Longrightarrow> a = b \<and> x = y"
  proof (induction a arbitrary: b)
    case Nil
    then show ?case by (cases b) auto
  next
    case (Cons c a)
    then show ?case by (cases b) auto
  qed
  then show ?thesis by (auto simp: frame_literal_def)
qed

lemma unary_inj:
  assumes "delimited x" "delimited y"
  shows "unary k m @ x = unary l n @ y \<longleftrightarrow> k = l \<and> m = n \<and> x = y"
proof -
  have "replicate m 49 @ x = replicate n 49 @ y \<Longrightarrow> m = n \<and> x = y"
  proof (induction m arbitrary: n)
    case 0
    then show ?case using assms by (cases n) (auto simp: delimited_def)
  next
    case (Suc m)
    then show ?case using assms by (cases n) (auto simp: delimited_def)
  qed
  then show ?thesis by (auto simp: unary_def)
qed

lemma frame_heads:
  "unary k n @ x = c # y \<Longrightarrow> c = k" "c # y = unary k n @ x \<Longrightarrow> c = k"
  "frame_literal s @ x = c # y \<Longrightarrow> c = 34" "c # y = frame_literal s @ x \<Longrightarrow> c = 34"
  "unary k n @ x = frame_literal s @ y \<Longrightarrow> k = 34" "frame_literal s @ y = unary k n @ x \<Longrightarrow> k = 34"
  by (simp_all add: unary_def frame_literal_def)

lemma frame_writer_ok: "writer_ok frame_writer"
proof -
  have scalar: "a = b \<and> x = y"
    if "is_scalar a" "is_scalar b" "delimited x" "delimited y" "jw_scalar frame_writer a @ x = jw_scalar frame_writer b @ y"
    for a b x y
    using that(1,2,5)
    by (cases a; cases b)
      (auto simp: is_scalar_def frame_writer_def frame_literal_inj unary_inj [OF that(3,4)] word_unat_eq_iff dest: frame_heads
        split: Number.splits if_splits)
  have "plain_head (jw_scalar frame_writer a)" if "is_scalar a" for a
    using that by (cases a) (auto simp: frame_writer_def frame_literal_def unary_def plain_head_def is_scalar_def
        split: Number.splits)
  moreover have "plain_head (jw_string frame_writer s)" for s
    by (simp add: frame_writer_def frame_literal_def plain_head_def)
  moreover have "jw_string frame_writer s @ x = jw_string frame_writer t @ y \<longleftrightarrow> s = t \<and> x = y" for s t x y
    by (simp add: frame_writer_def frame_literal_inj)
  ultimately show ?thesis unfolding writer_ok_def using scalar by blast
qed

end
