(* ===== verification/Execution.thy ===== *)
theory Execution
  imports JsonText
begin

text \<open>
  \<open>celln-spec/src/lib.rs\<close> (execution requests and receipts), \<open>harness.rs\<close> and \<open>configuration.rs\<close>:
  what a control plane may ask a node to run, the validation of it before any node is chosen,
  and the fingerprint under which an operator approves a configuration.

  A problem keeps its code and its field; the wording of messages is left out. Parameters:
  the hash, the derived serializer of a request, and the JSON writer of strings and scalars.
\<close>

section \<open>Requests\<close>

datatype RequestedLane = LaneRequestedTool | LaneRequestedAgent
datatype WorkspaceAccess = WsNone | WsReadOnly | WsReadWrite
datatype ExecutionPhase = PhaseSucceeded | PhaseFailed | PhaseCancelled
datatype ConfigurationRole = OneShot | RoleParent | RoleWorker

record ImmutableRef =
  im_hash :: string

record WorkloadIdentity =
  wi_id :: string
  wi_caller :: string

record ExecutionInput =
  xi_name :: string
  xi_hash :: string
  xi_media_type :: string
  xi_bytes :: u64

record ToolRef =
  tr_alias :: string
  tr_hash :: string
  tr_closure :: "ImmutableRef option"

record Invocation =
  iv_alias :: string
  iv_args :: "string list"

record ForgeRequest =
  fr_task :: string
  fr_backend :: "string option"
  fr_model :: "string option"

record CapabilityRequest =
  ca_workspace :: WorkspaceAccess
  ca_egress :: "string list"
  ca_allow_insecure :: bool
  ca_timeout_ms :: u64
  ca_memory_bytes :: u64
  ca_output_bytes :: u64

record ExecutionPolicy =
  xp_lane :: RequestedLane
  xp_require_hardware_isolation :: bool

record JsonToolIo =
  jt_abi :: string
  jt_input_schema :: string
  jt_output_schema :: string
  jt_input_bytes :: nat
  jt_output_bytes :: nat
  jt_timeout_ms :: u64

record BorrowedTool =
  bw_name :: string
  bw_path :: string
  bw_hash :: string
  bw_description :: string
  bw_json_stdio :: "JsonToolIo option"

record JsonHarnessOptions =
  jh_system :: string
  jh_max_turns :: nat
  jh_max_calls :: nat

record HarnessBinding =
  hn_contract_version :: string
  hn_model_grant :: ImmutableRef
  hn_model :: string
  hn_task :: string
  hn_borrowed_tools :: "BorrowedTool list"
  hn_json :: "JsonHarnessOptions option"

record ExecutionRequest =
  xr_api_version :: string
  xr_id :: string
  xr_workload :: WorkloadIdentity
  xr_harness :: "HarnessBinding option"
  xr_mote :: "ImmutableRef option"
  xr_inputs :: "ExecutionInput list"
  xr_tools :: "ToolRef list"
  xr_invocation :: "Invocation option"
  xr_forge :: "ForgeRequest option"
  xr_capabilities :: CapabilityRequest
  xr_execution :: ExecutionPolicy

record ResolvedExecution =
  re_mote :: "string option"
  re_tools :: "string list"
  re_inputs :: "string list"

record ExecutionOutput =
  eo_hash :: string
  eo_media_type :: string
  eo_bytes :: u64

record ExecutionReceipt =
  rc_api_version :: string
  rc_request_id :: string
  rc_phase :: ExecutionPhase
  rc_node :: string
  rc_cell_id :: string
  rc_resolved :: ResolvedExecution
  rc_output :: "ExecutionOutput option"
  rc_started_at :: string
  rc_completed_at :: string

datatype ExecutionProblemCode =
    UnsupportedVersion | MissingIdentity | MutableReference | InvalidToolAlias | DuplicateToolAlias
  | InvalidInputName | DuplicateInputName | UndeclaredInvocation | InvalidInvocationArgument
  | InvalidEgress | InvalidLimit | InvalidForge | InvalidHarness

record ExecutionProblem =
  ep_code :: ExecutionProblemCode
  ep_field :: string

definition problem :: "bool \<Rightarrow> ExecutionProblemCode \<Rightarrow> string \<Rightarrow> ExecutionProblem list" where
  "problem found code field = (if found then [\<lparr>ep_code = code, ep_field = field\<rparr>] else [])"

section \<open>Shapes\<close>

definition is_immutable_hash :: "string \<Rightarrow> bool" where
  "is_immutable_hash v =
     (case strip_prefix ''blake3:'' v of None \<Rightarrow> False | Some hex \<Rightarrow> length hex = 64 \<and> list_all is_ascii_hexdigit hex)"

definition is_input_name :: "string \<Rightarrow> bool" where
  "is_input_name v =
     (v \<noteq> [] \<and> length v \<le> 64 \<and> v \<noteq> ''.'' \<and> v \<noteq> ''..''
      \<and> list_all (\<lambda>c. is_ascii_lower c \<or> is_ascii_digit c \<or> c \<in> set ''._-'') v)"

definition is_named_https_destination :: "string \<Rightarrow> bool" where
  "is_named_https_destination v =
     (case strip_prefix ''https://'' v of
        None \<Rightarrow> False
      | Some host \<Rightarrow> host \<noteq> [] \<and> list_all (\<lambda>c. is_ascii_alphanumeric c \<or> c \<in> set ''.-:'') host)"

definition is_allowed_destination :: "string \<Rightarrow> bool \<Rightarrow> bool" where
  "is_allowed_destination v allow_insecure =
     (if \<not> allow_insecure then is_named_https_destination v
      else case (case strip_prefix ''https://'' v of Some a \<Rightarrow> Some a | None \<Rightarrow> strip_prefix ''http://'' v) of
        None \<Rightarrow> False
      | Some authority \<Rightarrow>
          if authority = [] \<or> list_ex (\<lambda>c. c \<in> set ''/?#'') authority then False
          else (case (case rsplit_once (CHR '':'') authority of
                        Some (host, port) \<Rightarrow> (host, Some port)
                      | None \<Rightarrow> (authority, None)) of
                  (host, port) \<Rightarrow>
                    if host = [] \<or> \<not> list_all (\<lambda>c. is_ascii_alphanumeric c \<or> c \<in> set ''.-[]'') host then False
                    else (case port of None \<Rightarrow> True | Some p \<Rightarrow> p \<noteq> [] \<and> list_all is_ascii_digit p)))"

section \<open>Harness bindings\<close>

definition json_io_ok :: "JsonToolIo \<Rightarrow> bool" where
  "json_io_ok j \<longleftrightarrow>
     jt_abi j = ''celln.json-stdio/v1'' \<and> is_immutable_hash (jt_input_schema j) \<and> is_immutable_hash (jt_output_schema j)
     \<and> 1 \<le> jt_input_bytes j \<and> jt_input_bytes j \<le> 65536 \<and> 1 \<le> jt_output_bytes j \<and> jt_output_bytes j \<le> 65536
     \<and> 1 \<le> jt_timeout_ms j \<and> jt_timeout_ms j \<le> 30000"

definition valid_contract :: "string \<Rightarrow> HarnessBinding \<Rightarrow> bool" where
  "valid_contract version h =
     (if version = ''celln.dev/v1alpha2'' \<and> hn_contract_version h = ''celln.reference-functions/v1''
      then hn_json h = None \<and> length (hn_borrowed_tools h) = 2
           \<and> list_all (\<lambda>t. bw_json_stdio t = None) (hn_borrowed_tools h)
      else if version = ''celln.dev/v1alpha3'' \<and> hn_contract_version h = ''celln.json-tools/v1''
      then (case hn_json h of
              None \<Rightarrow> False
            | Some j \<Rightarrow>
                length (jh_system j) \<le> 2048 \<and> CHR 0x00 \<notin> set (jh_system j)
                \<and> 1 \<le> jh_max_turns j \<and> jh_max_turns j \<le> 6 \<and> jh_max_calls j \<le> 16)
           \<and> length (hn_borrowed_tools h) \<le> 24
           \<and> list_all (\<lambda>t. bw_path t \<noteq> ''/pilot-fetch''
                         \<and> (case bw_json_stdio t of None \<Rightarrow> False | Some j \<Rightarrow> json_io_ok j))
               (hn_borrowed_tools h)
      else False)"

definition harness_path :: "string \<Rightarrow> bool" where
  "harness_path v =
     (starts_with ''/'' v \<and> length v \<le> 256
      \<and> list_all (\<lambda>p. p \<noteq> [] \<and> p \<noteq> ''.'' \<and> p \<noteq> ''..'' \<and> list_all (\<lambda>c. is_ascii_alphanumeric c \<or> c \<in> set ''-_.+'') p)
          (split_on (CHR ''/'') (tl v)))"

text \<open>The loop over borrowed tools, with the names and paths seen so far.\<close>

fun borrowed_ok :: "string set \<Rightarrow> string set \<Rightarrow> BorrowedTool list \<Rightarrow> bool" where
  "borrowed_ok names paths [] = True"
| "borrowed_ok names paths (t # ts) =
     (bw_name t \<noteq> [] \<and> length (bw_name t) \<le> 64
      \<and> list_all (\<lambda>c. is_ascii_alphanumeric c \<or> c \<in> set ''_-'') (bw_name t)
      \<and> bw_name t \<notin> names \<and> bw_path t \<notin> paths
      \<and> harness_path (bw_path t) \<and> is_immutable_hash (bw_hash t)
      \<and> bw_description t \<noteq> [] \<and> length (bw_description t) \<le> 512
      \<and> borrowed_ok (insert (bw_name t) names) (insert (bw_path t) paths) ts)"

definition harness_valid :: "ExecutionRequest \<Rightarrow> bool" where
  "harness_valid r =
     (case xr_harness r of
        None \<Rightarrow> xr_api_version r = ''celln.dev/v1alpha1''
      | Some h \<Rightarrow>
          valid_contract (xr_api_version r) h \<and> is_immutable_hash (im_hash (hn_model_grant h))
          \<and> hn_model h \<noteq> [] \<and> length (hn_model h) \<le> 128
          \<and> \<not> trim_is_empty (hn_task h) \<and> length (hn_task h) \<le> 2048 \<and> CHR 0x00 \<notin> set (hn_task h)
          \<and> xr_mote r \<noteq> None \<and> xr_forge r = None \<and> xr_inputs r = []
          \<and> length (xr_tools r) = 1 \<and> tr_closure (xr_tools r ! 0) \<noteq> None
          \<and> (case xr_invocation r of None \<Rightarrow> False | Some i \<Rightarrow> iv_args i = [])
          \<and> xp_lane (xr_execution r) = LaneRequestedAgent \<and> xp_require_hardware_isolation (xr_execution r)
          \<and> ca_workspace (xr_capabilities r) = WsNone \<and> length (ca_egress (xr_capabilities r)) = 1
          \<and> borrowed_ok {} {} (hn_borrowed_tools h))"

section \<open>Problems of a request\<close>

definition VERSIONS :: "string list" where
  "VERSIONS = [''celln.dev/v1alpha1'', ''celln.dev/v1alpha2'', ''celln.dev/v1alpha3'']"

definition blank_problems :: "(string \<times> string) list \<Rightarrow> ExecutionProblem list" where
  "blank_problems flds = concat (map (\<lambda>(f, v). problem (trim_is_empty v) MissingIdentity f) flds)"

text \<open>\<open>iter().position(..)\<close> and the test that reports a repeated name once, at its first place.\<close>

definition list_position :: "('a \<Rightarrow> bool) \<Rightarrow> 'a list \<Rightarrow> nat option" where
  "list_position P xs = find (\<lambda>i. P (xs ! i)) [0..<length xs]"

definition repeated_at :: "string list \<Rightarrow> nat \<Rightarrow> string \<Rightarrow> bool" where
  "repeated_at names i name =
     (length (filter (\<lambda>n. n = name) names) > 1 \<and> list_position (\<lambda>n. n = name) names = Some i)"

definition indexed :: "string \<Rightarrow> nat \<Rightarrow> string \<Rightarrow> string" where
  "indexed f i rest = f @ ''['' @ decimal i @ '']'' @ rest"

definition source_problems :: "ExecutionRequest \<Rightarrow> ExecutionProblem list" where
  "source_problems r =
     (case (xr_mote r, xr_forge r) of
        (Some mote, None) \<Rightarrow> problem (\<not> is_immutable_hash (im_hash mote)) MutableReference ''mote.hash''
      | (None, Some forge) \<Rightarrow>
          problem (trim_is_empty (fr_task forge)) InvalidForge ''forge.task''
          @ problem (xp_lane (xr_execution r) \<noteq> LaneRequestedAgent) InvalidForge ''execution.lane''
          @ problem (xr_invocation r \<noteq> None) InvalidForge ''invocation''
          @ problem (xr_tools r \<noteq> []) InvalidForge ''tools''
      | (Some _, Some _) \<Rightarrow> problem True InvalidForge ''mote''
      | (None, None) \<Rightarrow> problem True InvalidForge ''mote'')"

definition input_problems :: "ExecutionInput list \<Rightarrow> nat \<times> ExecutionInput \<Rightarrow> ExecutionProblem list" where
  "input_problems xs ix =
     (case ix of (i, x) \<Rightarrow>
        problem (\<not> is_input_name (xi_name x)) InvalidInputName (indexed ''inputs'' i ''.name'')
        @ problem (\<not> is_immutable_hash (xi_hash x)) MutableReference (indexed ''inputs'' i ''.hash'')
        @ problem (trim_is_empty (xi_media_type x)) InvalidLimit (indexed ''inputs'' i ''.mediaType'')
        @ problem (xi_bytes x = 0) InvalidLimit (indexed ''inputs'' i ''.bytes'')
        @ problem (repeated_at (map xi_name xs) i (xi_name x)) DuplicateInputName (indexed ''inputs'' i ''.name''))"

definition tool_problems :: "ToolRef list \<Rightarrow> nat \<times> ToolRef \<Rightarrow> ExecutionProblem list" where
  "tool_problems ts it =
     (case it of (i, t) \<Rightarrow>
        problem (\<not> starts_with ''/'' (tr_alias t)) InvalidToolAlias (indexed ''tools'' i ''.alias'')
        @ problem (\<not> is_immutable_hash (tr_hash t)) MutableReference (indexed ''tools'' i ''.hash'')
        @ problem (case tr_closure t of None \<Rightarrow> False | Some c \<Rightarrow> \<not> is_immutable_hash (im_hash c)) MutableReference
            (indexed ''tools'' i ''.closure.hash'')
        @ problem (repeated_at (map tr_alias ts) i (tr_alias t)) DuplicateToolAlias (indexed ''tools'' i ''.alias''))"

definition invocation_problems :: "ExecutionRequest \<Rightarrow> ExecutionProblem list" where
  "invocation_problems r =
     (case xr_invocation r of
        None \<Rightarrow> []
      | Some iv \<Rightarrow>
          problem (\<not> list_ex (\<lambda>t. tr_alias t = iv_alias iv) (xr_tools r)) UndeclaredInvocation ''invocation.alias''
          @ concat (map (\<lambda>(i, a). problem (CHR 0x00 \<in> set a) InvalidInvocationArgument (indexed ''invocation.args'' i []))
              (enumerate 0 (iv_args iv))))"

definition egress_problems :: "CapabilityRequest \<Rightarrow> ExecutionProblem list" where
  "egress_problems c =
     concat (map (\<lambda>(i, d). problem (\<not> is_allowed_destination d (ca_allow_insecure c)) InvalidEgress
                              (indexed ''capabilities.egress'' i []))
       (enumerate 0 (ca_egress c)))"

definition limit_problems :: "(string \<times> u64) list \<Rightarrow> ExecutionProblem list" where
  "limit_problems flds = concat (map (\<lambda>(f, v). problem (v = 0) InvalidLimit f) flds)"

definition request_problems :: "ExecutionRequest \<Rightarrow> ExecutionProblem list" where
  "request_problems r =
     problem (xr_api_version r \<notin> set VERSIONS) UnsupportedVersion ''apiVersion''
     @ problem (\<not> harness_valid r) InvalidHarness ''harness''
     @ blank_problems [(''id'', xr_id r), (''workload.id'', wi_id (xr_workload r)), (''workload.caller'', wi_caller (xr_workload r))]
     @ source_problems r
     @ concat (map (input_problems (xr_inputs r)) (enumerate 0 (xr_inputs r)))
     @ concat (map (tool_problems (xr_tools r)) (enumerate 0 (xr_tools r)))
     @ invocation_problems r
     @ egress_problems (xr_capabilities r)
     @ limit_problems [(''capabilities.timeoutMs'', ca_timeout_ms (xr_capabilities r)),
         (''capabilities.memoryBytes'', ca_memory_bytes (xr_capabilities r)),
         (''capabilities.outputBytes'', ca_output_bytes (xr_capabilities r))]"

section \<open>Problems of a receipt\<close>

definition receipt_problems :: "ExecutionReceipt \<Rightarrow> ExecutionProblem list" where
  "receipt_problems r =
     problem (rc_api_version r \<notin> set VERSIONS) UnsupportedVersion ''apiVersion''
     @ blank_problems [(''requestId'', rc_request_id r), (''node'', rc_node r), (''cellId'', rc_cell_id r),
         (''startedAt'', rc_started_at r), (''completedAt'', rc_completed_at r)]
     @ (case re_mote (rc_resolved r) of
          None \<Rightarrow> []
        | Some mote \<Rightarrow> problem (\<not> is_immutable_hash mote) MutableReference ''resolved.mote'')
     @ concat (map (\<lambda>(f, h). problem (\<not> is_immutable_hash h) MutableReference f)
         (map (\<lambda>(i, h). (indexed ''resolved.tools'' i [], h)) (enumerate 0 (re_tools (rc_resolved r)))
          @ map (\<lambda>(i, h). (indexed ''resolved.inputs'' i [], h)) (enumerate 0 (re_inputs (rc_resolved r)))))
     @ (case rc_output r of
          None \<Rightarrow> []
        | Some out \<Rightarrow>
            problem (\<not> is_immutable_hash (eo_hash out)) MutableReference ''output.hash''
            @ problem (trim_is_empty (eo_media_type out)) InvalidLimit ''output.mediaType''
            @ problem (eo_bytes out = 0) InvalidLimit ''output.bytes'')"

section \<open>Configuration fingerprints\<close>

text \<open>Keys in the order of \<open>Ord for String\<close>, which is the order of their bytes.\<close>

definition canonical :: "JsonWriter \<Rightarrow> Value \<Rightarrow> bytes" where
  "canonical W v = json_text (\<lambda>k. k) W v"

definition role_name :: "ConfigurationRole \<Rightarrow> string" where
  "role_name r = (case r of OneShot \<Rightarrow> ''one-shot'' | RoleParent \<Rightarrow> ''parent'' | RoleWorker \<Rightarrow> ''worker'')"

definition configuration_binding ::
  "JsonWriter \<Rightarrow> (bytes \<Rightarrow> hash) \<Rightarrow> (ExecutionRequest \<Rightarrow> Value option) \<Rightarrow> ExecutionRequest \<Rightarrow> ConfigurationRole
    \<Rightarrow> string + hash" where
  "configuration_binding W hash_of to_value r role =
     (if request_problems r \<noteq> [] then Err ''invalid execution configuration''
      else case to_value r of
             None \<Rightarrow> Err ''invalid execution configuration''
           | Some v \<Rightarrow> Ok (hash_of (canonical W
               (VArray [VString ''celln.execution-configuration/v1'', VString (role_name role), v]))))"

section \<open>Exactly the admissible requests\<close>

lemma problem_Nil [simp]: "problem b c f = [] \<longleftrightarrow> \<not> b"
  by (simp add: problem_def)

lemma concat_map_Nil [simp]: "concat (map f xs) = [] \<longleftrightarrow> (\<forall>x \<in> set xs. f x = [])"
  by auto

lemma ball_enumerate: "(\<forall>x \<in> set (enumerate 0 xs). P x) \<longleftrightarrow> (\<forall>i < length xs. P (i, xs ! i))"
  by (force simp: in_set_enumerate_eq)

lemma list_position_Some:
  "list_position P xs = Some i \<longleftrightarrow> i < length xs \<and> P (xs ! i) \<and> (\<forall>j < i. \<not> P (xs ! j))"
  by (auto simp: list_position_def find_Some_iff)

lemma count_two:
  assumes "i < j" "j < length xs" "xs ! i = x" "xs ! j = x"
  shows "length (filter (\<lambda>n. n = x) xs) > 1"
proof -
  let ?S = "{k. k < length xs \<and> xs ! k = x}"
  have "card {i, j} \<le> card ?S" by (rule card_mono) (use assms in auto)
  then show ?thesis using assms(1) by (simp add: length_filter_conv_card)
qed

lemma count_distinct:
  assumes "distinct xs"
  shows "length (filter (\<lambda>n. n = x) xs) \<le> 1"
proof -
  have "length (filter (\<lambda>n. n = x) xs) = card (set (filter (\<lambda>n. n = x) xs))"
    by (rule distinct_card [symmetric]) (rule distinct_filter [OF assms])
  also have "\<dots> \<le> card {x}" by (rule card_mono) auto
  finally show ?thesis by simp
qed

text \<open>No name is reported as repeated exactly when the names are distinct.\<close>

lemma repeated_at_iff: "(\<forall>i < length names. \<not> repeated_at names i (names ! i)) \<longleftrightarrow> distinct names"
proof
  assume none: "\<forall>i < length names. \<not> repeated_at names i (names ! i)"
  show "distinct names"
  proof (rule ccontr)
    assume "\<not> distinct names"
    then obtain i j where ij: "i < j" "j < length names" "names ! i = names ! j"
      by (metis distinct_conv_nth linorder_neqE_nat order.strict_trans)
    let ?P = "\<lambda>k. k < length names \<and> names ! k = names ! i"
    have "?P i" using ij by simp
    then obtain k where k: "?P k" "\<And>m. m < k \<Longrightarrow> \<not> ?P m" using exists_least_iff [of ?P] by blast
    have "list_position (\<lambda>n. n = names ! k) names = Some k"
      unfolding list_position_Some using k by auto
    moreover have "length (filter (\<lambda>n. n = names ! k) names) > 1"
      by (rule count_two [OF ij(1,2)]) (use ij(3) k(1) in argo)+
    ultimately have "repeated_at names k (names ! k)" unfolding repeated_at_def by blast
    then show False using none k(1) by blast
  qed
next
  assume "distinct names"
  then show "\<forall>i < length names. \<not> repeated_at names i (names ! i)"
    using count_distinct [of names] by (auto simp: repeated_at_def not_less)
qed

definition borrowed_tool_ok :: "BorrowedTool \<Rightarrow> bool" where
  "borrowed_tool_ok t \<longleftrightarrow>
     bw_name t \<noteq> [] \<and> length (bw_name t) \<le> 64
     \<and> list_all (\<lambda>c. is_ascii_alphanumeric c \<or> c \<in> set ''_-'') (bw_name t)
     \<and> harness_path (bw_path t) \<and> is_immutable_hash (bw_hash t)
     \<and> bw_description t \<noteq> [] \<and> length (bw_description t) \<le> 512"

lemma borrowed_ok_iff:
  "borrowed_ok names paths ts \<longleftrightarrow>
     list_all borrowed_tool_ok ts \<and> distinct (map bw_name ts) \<and> distinct (map bw_path ts)
     \<and> bw_name ` set ts \<inter> names = {} \<and> bw_path ` set ts \<inter> paths = {}"
proof (induction ts arbitrary: names paths)
  case (Cons t ts)
  have "borrowed_ok names paths (t # ts) \<longleftrightarrow>
      borrowed_tool_ok t \<and> bw_name t \<notin> names \<and> bw_path t \<notin> paths
      \<and> borrowed_ok (insert (bw_name t) names) (insert (bw_path t) paths) ts"
    unfolding borrowed_ok.simps borrowed_tool_ok_def by argo
  moreover have "bw_name ` set ts \<inter> insert (bw_name t) names = {} \<longleftrightarrow>
      bw_name t \<notin> bw_name ` set ts \<and> bw_name ` set ts \<inter> names = {}"
    by simp
  moreover have "bw_path ` set ts \<inter> insert (bw_path t) paths = {} \<longleftrightarrow>
      bw_path t \<notin> bw_path ` set ts \<and> bw_path ` set ts \<inter> paths = {}"
    by simp
  ultimately show ?case unfolding Cons by (simp del: borrowed_ok.simps) argo
qed simp

text \<open>The admissible requests, as a predicate.\<close>

definition harness_ok :: "ExecutionRequest \<Rightarrow> HarnessBinding \<Rightarrow> bool" where
  "harness_ok r h \<longleftrightarrow>
     valid_contract (xr_api_version r) h \<and> is_immutable_hash (im_hash (hn_model_grant h))
     \<and> length (hn_model h) \<in> {1..128}
     \<and> \<not> trim_is_empty (hn_task h) \<and> length (hn_task h) \<le> 2048 \<and> CHR 0x00 \<notin> set (hn_task h)
     \<and> xr_mote r \<noteq> None \<and> xr_forge r = None \<and> xr_inputs r = []
     \<and> (\<exists>t c. xr_tools r = [t] \<and> tr_closure t = Some c) \<and> (\<exists>a. xr_invocation r = Some \<lparr>iv_alias = a, iv_args = []\<rparr>)
     \<and> xp_lane (xr_execution r) = LaneRequestedAgent \<and> xp_require_hardware_isolation (xr_execution r)
     \<and> ca_workspace (xr_capabilities r) = WsNone \<and> (\<exists>d. ca_egress (xr_capabilities r) = [d])
     \<and> list_all borrowed_tool_ok (hn_borrowed_tools h)
     \<and> distinct (map bw_name (hn_borrowed_tools h)) \<and> distinct (map bw_path (hn_borrowed_tools h))"

definition source_ok :: "ExecutionRequest \<Rightarrow> bool" where
  "source_ok r \<longleftrightarrow>
     (case (xr_mote r, xr_forge r) of
        (Some mote, None) \<Rightarrow> is_immutable_hash (im_hash mote)
      | (None, Some forge) \<Rightarrow>
          \<not> trim_is_empty (fr_task forge) \<and> xp_lane (xr_execution r) = LaneRequestedAgent
          \<and> xr_invocation r = None \<and> xr_tools r = []
      | _ \<Rightarrow> False)"

definition input_ok :: "ExecutionInput \<Rightarrow> bool" where
  "input_ok x \<longleftrightarrow>
     is_input_name (xi_name x) \<and> is_immutable_hash (xi_hash x) \<and> \<not> trim_is_empty (xi_media_type x) \<and> 0 < xi_bytes x"

definition tool_ref_ok :: "ToolRef \<Rightarrow> bool" where
  "tool_ref_ok t \<longleftrightarrow>
     starts_with ''/'' (tr_alias t) \<and> is_immutable_hash (tr_hash t)
     \<and> pred_option (\<lambda>c. is_immutable_hash (im_hash c)) (tr_closure t)"

definition invocation_ok :: "ExecutionRequest \<Rightarrow> bool" where
  "invocation_ok r \<longleftrightarrow>
     pred_option (\<lambda>i. iv_alias i \<in> tr_alias ` set (xr_tools r) \<and> list_all (\<lambda>a. CHR 0x00 \<notin> set a) (iv_args i)) (xr_invocation r)"

definition capabilities_ok :: "CapabilityRequest \<Rightarrow> bool" where
  "capabilities_ok c \<longleftrightarrow>
     list_all (\<lambda>d. is_allowed_destination d (ca_allow_insecure c)) (ca_egress c)
     \<and> 0 < ca_timeout_ms c \<and> 0 < ca_memory_bytes c \<and> 0 < ca_output_bytes c"

definition execution_ok :: "ExecutionRequest \<Rightarrow> bool" where
  "execution_ok r \<longleftrightarrow>
     (case xr_harness r of None \<Rightarrow> xr_api_version r = ''celln.dev/v1alpha1'' | Some h \<Rightarrow> harness_ok r h)
     \<and> \<not> trim_is_empty (xr_id r) \<and> \<not> trim_is_empty (wi_id (xr_workload r)) \<and> \<not> trim_is_empty (wi_caller (xr_workload r))
     \<and> source_ok r
     \<and> list_all input_ok (xr_inputs r) \<and> distinct (map xi_name (xr_inputs r))
     \<and> list_all tool_ref_ok (xr_tools r) \<and> distinct (map tr_alias (xr_tools r))
     \<and> invocation_ok r \<and> capabilities_ok (xr_capabilities r)"

lemma length_one: "length xs = Suc 0 \<longleftrightarrow> (\<exists>x. xs = [x])"
  by (cases xs) auto

lemma harness_valid_iff:
  "harness_valid r \<longleftrightarrow>
     (case xr_harness r of None \<Rightarrow> xr_api_version r = ''celln.dev/v1alpha1'' | Some h \<Rightarrow> harness_ok r h)"
proof (cases "xr_harness r")
  case (Some h)
  have tools: "length (xr_tools r) = 1 \<and> tr_closure (xr_tools r ! 0) \<noteq> None \<longleftrightarrow>
      (\<exists>t c. xr_tools r = [t] \<and> tr_closure t = Some c)"
    by (auto simp: length_one)
  have call: "(case xr_invocation r of None \<Rightarrow> False | Some i \<Rightarrow> iv_args i = []) \<longleftrightarrow>
      (\<exists>a. xr_invocation r = Some \<lparr>iv_alias = a, iv_args = []\<rparr>)"
    by (cases "xr_invocation r") (auto intro!: exI [of _ "iv_alias (the (xr_invocation r))"] Invocation.equality)
  have one: "length (ca_egress (xr_capabilities r)) = 1 \<longleftrightarrow> (\<exists>d. ca_egress (xr_capabilities r) = [d])"
    by (simp add: length_one)
  have model: "hn_model h \<noteq> [] \<and> length (hn_model h) \<le> 128 \<longleftrightarrow> length (hn_model h) \<in> {1..128}"
    by (cases "hn_model h") auto
  show ?thesis
    unfolding harness_valid_def harness_ok_def Some option.case borrowed_ok_iff tools [symmetric] call [symmetric]
      one [symmetric] model [symmetric]
    by simp
qed (simp add: harness_valid_def)

text \<open>A version the contract accepts is one the protocol knows.\<close>

lemma harness_valid_version: "harness_valid r \<Longrightarrow> xr_api_version r \<in> set VERSIONS"
  by (auto simp: harness_valid_def valid_contract_def VERSIONS_def split: option.splits if_splits)

lemma source_problems_Nil: "source_problems r = [] \<longleftrightarrow> source_ok r"
  by (auto simp: source_problems_def source_ok_def split: option.split)

lemma input_problems_Nil:
  "(\<forall>x \<in> set (enumerate 0 xs). input_problems xs x = []) \<longleftrightarrow> list_all input_ok xs \<and> distinct (map xi_name xs)"
proof -
  have "(\<forall>x \<in> set (enumerate 0 xs). input_problems xs x = []) \<longleftrightarrow>
      (\<forall>i < length xs. input_ok (xs ! i)) \<and> (\<forall>i < length (map xi_name xs). \<not> repeated_at (map xi_name xs) i (map xi_name xs ! i))"
    unfolding ball_enumerate by (auto simp: input_problems_def input_ok_def word_neq_0_conv)
  then show ?thesis unfolding repeated_at_iff by (simp add: list_all_length)
qed

lemma tool_problems_Nil:
  "(\<forall>x \<in> set (enumerate 0 ts). tool_problems ts x = []) \<longleftrightarrow> list_all tool_ref_ok ts \<and> distinct (map tr_alias ts)"
proof -
  have "(\<forall>x \<in> set (enumerate 0 ts). tool_problems ts x = []) \<longleftrightarrow>
      (\<forall>i < length ts. tool_ref_ok (ts ! i)) \<and> (\<forall>i < length (map tr_alias ts). \<not> repeated_at (map tr_alias ts) i (map tr_alias ts ! i))"
    unfolding ball_enumerate by (auto simp: tool_problems_def tool_ref_ok_def option.pred_set split: option.splits)
  then show ?thesis unfolding repeated_at_iff by (simp add: list_all_length)
qed

lemma args_problems_Nil:
  "concat (map (\<lambda>(i, a). problem (P a) c (f i)) (enumerate 0 xs)) = [] \<longleftrightarrow> list_all (\<lambda>a. \<not> P a) xs"
  unfolding concat_map_Nil ball_enumerate by (simp add: list_all_length)

lemma invocation_problems_Nil: "invocation_problems r = [] \<longleftrightarrow> invocation_ok r"
proof (cases "xr_invocation r")
  case (Some iv)
  then show ?thesis
    by (simp only: invocation_problems_def invocation_ok_def option.case append_is_Nil_conv args_problems_Nil
        problem_Nil option.pred_inject not_not) (force simp: list_ex_iff)
qed (simp add: invocation_problems_def invocation_ok_def)

lemma egress_problems_Nil:
  "egress_problems c = [] \<longleftrightarrow> list_all (\<lambda>d. is_allowed_destination d (ca_allow_insecure c)) (ca_egress c)"
  by (simp only: egress_problems_def args_problems_Nil not_not)

text \<open>
  C7: Validation finds nothing wrong exactly with the admissible requests: a known version
  with the harness binding it calls for; identities that are not blank; exactly one source,
  either a hash-pinned bundle or a task to forge, the latter only for the agent lane, without
  declared tools or invocation; inputs and tools pinned by hash with distinct names; an
  invocation of a declared tool with arguments free of NUL; destinations of the allowed
  shape; and positive limits. A repeated name is found whatever its place in the list.
\<close>

theorem request_admitted_exactly: "request_problems r = [] \<longleftrightarrow> execution_ok r"
  unfolding request_problems_def append_is_Nil_conv problem_Nil source_problems_Nil concat_map_Nil input_problems_Nil
    tool_problems_Nil invocation_problems_Nil egress_problems_Nil blank_problems_def limit_problems_def
    execution_ok_def capabilities_ok_def harness_valid_iff [symmetric]
  using harness_valid_version [of r] by (auto simp: word_neq_0_conv)

section \<open>A fingerprint binds the whole configuration\<close>

lemma role_name_inj: "role_name a = role_name b \<longleftrightarrow> a = b"
  by (cases a; cases b) (simp_all add: role_name_def)


definition zero_hash :: string where
  "zero_hash = ''blake3:'' @ replicate 64 (CHR ''0'')"

definition sample_execution :: ExecutionRequest where
  "sample_execution =
     \<lparr>xr_api_version = ''celln.dev/v1alpha1'', xr_id = ''run'', xr_workload = \<lparr>wi_id = ''run'', wi_caller = ''tenant''\<rparr>,
      xr_harness = None, xr_mote = Some \<lparr>im_hash = zero_hash\<rparr>, xr_inputs = [],
      xr_tools = [\<lparr>tr_alias = ''/run'', tr_hash = zero_hash, tr_closure = None\<rparr>],
      xr_invocation = Some \<lparr>iv_alias = ''/run'', iv_args = [''one'']\<rparr>, xr_forge = None,
      xr_capabilities = \<lparr>ca_workspace = WsNone, ca_egress = [''https://api.example''], ca_allow_insecure = False,
        ca_timeout_ms = 1000, ca_memory_bytes = 4096, ca_output_bytes = 1024\<rparr>,
      xr_execution = \<lparr>xp_lane = LaneRequestedAgent, xp_require_hardware_isolation = True\<rparr>\<rparr>"

lemma sample_execution_ok: "request_problems sample_execution = []"
  by code_simp


end
