(* ===== verification/CellSpec.thy ===== *)
theory CellSpec
  imports Execution
begin

text \<open>
  \<open>celln-spec/src/lib.rs\<close> (cell specifications): the reviewed TOML file that says what a cell is
  lent, what stops a run and what only deserves a warning, image references, interpreters by
  name, and sizes.

  A problem or a warning is its field; the wording of messages and fixes is left out.
  Parameters: the TOML decoder, the file it reads and the files that exist.
\<close>

section \<open>Specifications\<close>

datatype CellTier = TierForged | TierVerified | TierUnsealed
datatype CellInput = CellInputNone | CellInputTool | CellInputData

record CellSettings =
  cs_memory :: string
  cs_require_tier :: CellTier
  cs_allow_hosts :: "string list"

definition default_cell :: CellSettings where
  "default_cell = \<lparr>cs_memory = ''256MiB'', cs_require_tier = TierVerified, cs_allow_hosts = []\<rparr>"

record CellTool =
  ct_alias :: string
  ct_path :: "string option"
  ct_image :: "string option"
  ct_exec :: "string option"
  ct_builtin :: "string option"
  ct_interpreter :: bool

record CellRun =
  cr_exec :: string
  cr_args :: "string list"
  cr_input :: CellInput
  cr_env :: "(string \<times> string) list"

datatype Runs = RunsOne CellRun | RunsMany "CellRun list"

record AgentTask =
  ag_prompt :: "string option"
  ag_exec :: string
  ag_env :: "(string \<times> string) list"

record CellSpec =
  sp_name :: string
  sp_cell :: CellSettings
  sp_tools :: "CellTool list"
  sp_run :: "Runs option"
  sp_agent :: "AgentTask option"

definition Runs_as_slice :: "Runs \<Rightarrow> CellRun list" where
  "Runs_as_slice r = (case r of RunsOne x \<Rightarrow> [x] | RunsMany xs \<Rightarrow> xs)"

definition run_list :: "CellSpec \<Rightarrow> CellRun list" where
  "run_list s = (case sp_run s of None \<Rightarrow> [] | Some r \<Rightarrow> Runs_as_slice r)"

section \<open>Image references, interpreters and sizes\<close>

datatype PinError = PinTag | PinNoName | PinNotSha256 | PinNotHex

definition check_digest_pinned :: "string \<Rightarrow> PinError + unit" where
  "check_digest_pinned reference =
     (let r = trim_start_matches ''docker://'' reference in
      if CHR ''@'' \<notin> set r \<and> CHR ''/'' \<notin> set r \<and> CHR '':'' \<notin> set r then Ok ()
      else (case split_once (CHR ''@'') r of
              None \<Rightarrow> Err PinTag
            | Some (name, digest) \<Rightarrow>
                if name = [] then Err PinNoName
                else (case strip_prefix ''sha256:'' digest of
                        None \<Rightarrow> Err PinNotSha256
                      | Some hex \<Rightarrow> if length hex \<noteq> 64 \<or> \<not> list_all is_ascii_hexdigit hex then Err PinNotHex else Ok ())))"

definition interpreter_base :: "string \<Rightarrow> string" where
  "interpreter_base alias =
     (let base = rev (takeWhile (\<lambda>c. c \<noteq> CHR ''/'') (rev alias))
      in rev (dropWhile (\<lambda>c. is_ascii_digit c \<or> c = CHR ''.'') (rev base)))"

definition interpreter_hint :: "string \<Rightarrow> (string \<times> string) option" where
  "interpreter_hint alias =
     (let base = interpreter_base alias in
      if base = ''python'' \<or> base = ''python3'' then Some (''Python'', ''-c'')
      else if base = ''sh'' \<or> base = ''dash'' then Some (''POSIX shell'', ''-c'')
      else if base = ''bash'' then Some (''Bash'', ''-c'')
      else if base = ''zsh'' then Some (''Zsh'', ''-c'')
      else if base = ''node'' \<or> base = ''nodejs'' then Some (''JavaScript'', ''-e'')
      else if base = ''deno'' then Some (''TypeScript'', ''eval'')
      else if base = ''bun'' then Some (''JavaScript'', ''-e'')
      else if base = ''ruby'' then Some (''Ruby'', ''-e'')
      else if base = ''perl'' then Some (''Perl'', ''-e'')
      else if base = ''php'' then Some (''PHP'', ''-r'')
      else if base = ''lua'' then Some (''Lua'', ''-e'')
      else if base = ''tclsh'' then Some (''Tcl'', ''-c'')
      else if base = ''awk'' then Some (''Awk'', ''--source'')
      else None)"

definition looks_like_interpreter :: "string \<Rightarrow> bool" where
  "looks_like_interpreter alias = (interpreter_hint alias \<noteq> None)"

definition checked_mul :: "u64 \<Rightarrow> u64 \<Rightarrow> u64 option" where
  "checked_mul a b = (if unat a * unat b < 2 ^ 64 then Some (a * b) else None)"

definition size_unit :: "string \<Rightarrow> u64 option" where
  "size_unit u =
     (if u = [] \<or> u = ''b'' then Some 1
      else if u = ''k'' \<or> u = ''kib'' \<or> u = ''kb'' then Some (2 ^ 10)
      else if u = ''m'' \<or> u = ''mib'' \<or> u = ''mb'' then Some (2 ^ 20)
      else if u = ''g'' \<or> u = ''gib'' \<or> u = ''gb'' then Some (2 ^ 30)
      else None)"

definition parse_size :: "string \<Rightarrow> u64 option" where
  "parse_size text =
     (let s = str_trim text; num = takeWhile is_ascii_digit s; unit = dropWhile is_ascii_digit s in
      case parse_u64 num of
        None \<Rightarrow> None
      | Some n \<Rightarrow> (case size_unit (to_ascii_lowercase (str_trim unit)) of None \<Rightarrow> None | Some m \<Rightarrow> checked_mul n m))"

definition memory_bytes :: "CellSpec \<Rightarrow> u64" where
  "memory_bytes s = (case parse_size (cs_memory (sp_cell s)) of Some n \<Rightarrow> n | None \<Rightarrow> 2 ^ 28)"

section \<open>Problems and warnings\<close>

definition report :: "bool \<Rightarrow> string \<Rightarrow> string list" where
  "report found fld = (if found then [fld] else [])"

definition env_problems :: "string \<Rightarrow> (string \<times> string) list \<Rightarrow> string list" where
  "env_problems fld env =
     concat (map (\<lambda>(name, v).
         report (name = [] \<or> CHR ''='' \<in> set name \<or> CHR 0x00 \<in> set name) (fld @ ''.'' @ name)
         @ report (CHR 0x00 \<in> set v) (fld @ ''.'' @ name)) env)"

definition cell_tool_problems :: "(string \<Rightarrow> bool) \<Rightarrow> string list \<Rightarrow> nat \<times> CellTool \<Rightarrow> string list" where
  "cell_tool_problems exists_path allow_hosts it =
     (case it of (i, t) \<Rightarrow>
        report (\<not> starts_with ''/'' (ct_alias t)) (indexed ''tool'' i ''.alias'')
        @ (case ct_builtin t of
             Some b \<Rightarrow>
               report (b \<noteq> ''fetch'') (indexed ''tool'' i ''.builtin'')
               @ report (ct_path t \<noteq> None \<or> ct_image t \<noteq> None) (indexed ''tool'' i [])
               @ report (allow_hosts = []) ''cell.allow_hosts''
           | None \<Rightarrow>
               (case (ct_path t, ct_image t) of
                  (Some _, Some _) \<Rightarrow> report True (indexed ''tool'' i [])
                | (None, None) \<Rightarrow> report True (indexed ''tool'' i [])
                | (Some p, None) \<Rightarrow> report (\<not> exists_path p) (indexed ''tool'' i ''.path'')
                | (None, Some img) \<Rightarrow>
                    report (is_err (check_digest_pinned img)) (indexed ''tool'' i ''.image'')
                    @ report (ct_exec t = None) (indexed ''tool'' i ''.exec''))
               @ report (ct_image t = None \<and> ct_exec t \<noteq> None) (indexed ''tool'' i ''.exec'')))"

definition alias_problems :: "CellTool list \<Rightarrow> nat \<times> CellTool \<Rightarrow> string list" where
  "alias_problems ts it =
     (case it of (i, t) \<Rightarrow> report (repeated_at (map ct_alias ts) i (ct_alias t)) (indexed ''tool'' i ''.alias''))"

definition agent_problems :: "CellSpec \<Rightarrow> string list" where
  "agent_problems s =
     (case sp_agent s of
        None \<Rightarrow> []
      | Some a \<Rightarrow>
          env_problems ''agent.env'' (ag_env a)
          @ report (\<not> list_ex (\<lambda>t. ct_alias t = ag_exec a) (sp_tools s)) ''agent.exec''
          @ report (sp_run s \<noteq> None) ''agent'')"

definition run_problems :: "string list \<Rightarrow> nat \<times> CellRun \<Rightarrow> string list" where
  "run_problems aliases ir =
     (case ir of (i, r) \<Rightarrow>
        env_problems (indexed ''run'' i ''.env'') (cr_env r)
        @ report (cr_exec r \<notin> set aliases) (indexed ''run'' i ''.exec''))"

definition spec_problems :: "(string \<Rightarrow> bool) \<Rightarrow> CellSpec \<Rightarrow> string list" where
  "spec_problems exists_path s =
     report (trim_is_empty (sp_name s)) ''name''
     @ report (parse_size (cs_memory (sp_cell s)) = None) ''cell.memory''
     @ concat (map (cell_tool_problems exists_path (cs_allow_hosts (sp_cell s))) (enumerate 0 (sp_tools s)))
     @ concat (map (alias_problems (sp_tools s)) (enumerate 0 (sp_tools s)))
     @ agent_problems s
     @ concat (map (run_problems (map ct_alias (sp_tools s))) (enumerate 0 (run_list s)))"

definition spec_warnings :: "CellSpec \<Rightarrow> string list" where
  "spec_warnings s =
     concat (map (\<lambda>t. report (\<not> ct_interpreter t \<and> looks_like_interpreter (ct_alias t)) (''tool '' @ ct_alias t)) (sp_tools s))
     @ (case sp_agent s of
          None \<Rightarrow> []
        | Some a \<Rightarrow> report (list_ex (\<lambda>t. ct_alias t = ag_exec a \<and> \<not> ct_interpreter t) (sp_tools s)) ''agent.exec'')
     @ report (sp_tools s = []) ''tool''
     @ report (cs_require_tier (sp_cell s) = TierUnsealed) ''cell.require_tier''"

datatype SpecError = SpecIo | SpecSyntax | SpecInvalid "string list"

definition Spec_load ::
  "(string \<Rightarrow> bool) \<Rightarrow> (string \<Rightarrow> string option) \<Rightarrow> (string \<Rightarrow> CellSpec option) \<Rightarrow> string \<Rightarrow> SpecError + CellSpec" where
  "Spec_load exists_path read_to_string from_toml path =
     (case read_to_string path of
        None \<Rightarrow> Err SpecIo
      | Some text \<Rightarrow>
          (case from_toml text of
             None \<Rightarrow> Err SpecSyntax
           | Some s \<Rightarrow>
               if spec_problems exists_path s \<noteq> [] then Err (SpecInvalid (spec_problems exists_path s)) else Ok s))"

section \<open>Exactly the admissible specifications\<close>

definition env_ok :: "(string \<times> string) list \<Rightarrow> bool" where
  "env_ok env \<longleftrightarrow> list_all (\<lambda>(n, v). n \<noteq> [] \<and> CHR ''='' \<notin> set n \<and> CHR 0x00 \<notin> set n \<and> CHR 0x00 \<notin> set v) env"

text \<open>
  A tool is the fetch capability and nothing else, a file of this host, or a program inside an
  image named by a digest or by a word of the catalogue.
\<close>

definition cell_tool_ok :: "(string \<Rightarrow> bool) \<Rightarrow> string list \<Rightarrow> CellTool \<Rightarrow> bool" where
  "cell_tool_ok exists_path allow_hosts t \<longleftrightarrow>
     starts_with ''/'' (ct_alias t)
     \<and> (ct_builtin t = Some ''fetch'' \<and> ct_path t = None \<and> ct_image t = None \<and> allow_hosts \<noteq> []
        \<or> ct_builtin t = None \<and> ct_image t = None \<and> ct_exec t = None \<and> (\<exists>p. ct_path t = Some p \<and> exists_path p)
        \<or> ct_builtin t = None \<and> ct_path t = None \<and> ct_exec t \<noteq> None
          \<and> (\<exists>img. ct_image t = Some img \<and> check_digest_pinned img = Ok ()))"

definition spec_ok :: "(string \<Rightarrow> bool) \<Rightarrow> CellSpec \<Rightarrow> bool" where
  "spec_ok exists_path s \<longleftrightarrow>
     \<not> trim_is_empty (sp_name s) \<and> parse_size (cs_memory (sp_cell s)) \<noteq> None
     \<and> list_all (cell_tool_ok exists_path (cs_allow_hosts (sp_cell s))) (sp_tools s)
     \<and> distinct (map ct_alias (sp_tools s))
     \<and> (case sp_agent s of
          None \<Rightarrow> True
        | Some a \<Rightarrow> env_ok (ag_env a) \<and> ag_exec a \<in> ct_alias ` set (sp_tools s) \<and> sp_run s = None)
     \<and> list_all (\<lambda>r. env_ok (cr_env r) \<and> cr_exec r \<in> ct_alias ` set (sp_tools s)) (run_list s)"

lemma report_Nil [simp]: "report b f = [] \<longleftrightarrow> \<not> b"
  by (simp add: report_def)

lemma env_problems_Nil: "env_problems f env = [] \<longleftrightarrow> env_ok env"
  unfolding env_problems_def env_ok_def concat_map_Nil list_all_iff by (simp add: case_prod_unfold)

lemma cell_tool_problems_Nil: "cell_tool_problems ex hosts (i, t) = [] \<longleftrightarrow> cell_tool_ok ex hosts t"
proof (cases "ct_builtin t")
  case None
  then show ?thesis
    by (cases "ct_path t"; cases "ct_image t")
      (auto simp: cell_tool_problems_def cell_tool_ok_def is_err_def split: sum.splits)
qed (auto simp: cell_tool_problems_def cell_tool_ok_def)

lemma alias_problems_Nil:
  "(\<forall>x \<in> set (enumerate 0 ts). alias_problems ts x = []) \<longleftrightarrow> distinct (map ct_alias ts)"
  using repeated_at_iff [of "map ct_alias ts"] unfolding ball_enumerate alias_problems_def by simp

lemma agent_problems_Nil:
  "agent_problems s = [] \<longleftrightarrow>
     (case sp_agent s of
        None \<Rightarrow> True
      | Some a \<Rightarrow> env_ok (ag_env a) \<and> ag_exec a \<in> ct_alias ` set (sp_tools s) \<and> sp_run s = None)"
  by (force simp: agent_problems_def env_problems_Nil list_ex_iff split: option.split)

lemma spec_problems_iff: "spec_problems ex s = [] \<longleftrightarrow> spec_ok ex s"
proof -
  have tools: "(\<forall>x \<in> set (enumerate 0 ts). cell_tool_problems ex hosts x = []) \<longleftrightarrow> list_all (cell_tool_ok ex hosts) ts" for ts hosts
    unfolding ball_enumerate cell_tool_problems_Nil list_all_length ..
  have runs: "(\<forall>x \<in> set (enumerate 0 rs). run_problems aliases x = []) \<longleftrightarrow>
      list_all (\<lambda>r. env_ok (cr_env r) \<and> cr_exec r \<in> set aliases) rs" for rs aliases
    unfolding ball_enumerate list_all_length by (simp add: run_problems_def env_problems_Nil)
  show ?thesis
    unfolding spec_problems_def spec_ok_def append_is_Nil_conv concat_map_Nil tools runs alias_problems_Nil
      agent_problems_Nil report_Nil set_map by simp
qed


section \<open>Sizes\<close>

lemma unit_letter:
  assumes "is_ascii_lower (hd (to_ascii_lowercase [c]))"
  shows "graphic c \<and> \<not> is_ascii_digit c"
proof (cases "is_ascii_upper c")
  case False
  then show ?thesis using assms by (auto simp: to_ascii_lowercase_def graphic_def rust_std less_eq_char_def)
qed (auto simp: graphic_def rust_std less_eq_char_def)

lemma size_unit_letters:
  assumes "size_unit (to_ascii_lowercase u) = Some m"
  shows "list_all (\<lambda>c. graphic c \<and> \<not> is_ascii_digit c) u"
proof -
  have "list_all is_ascii_lower (to_ascii_lowercase u)"
    using assms by (cases "u = []") (auto simp: size_unit_def is_ascii_lower_def less_eq_char_def split: if_splits,
        simp add: to_ascii_lowercase_def)
  then have "is_ascii_lower (hd (to_ascii_lowercase [c]))" if "c \<in> set u" for c
    using that by (simp add: to_ascii_lowercase_def list_all_iff)
  then show ?thesis using unit_letter by (simp add: list_all_iff)
qed

lemma digit_graphic: "is_ascii_digit c \<Longrightarrow> graphic c"
  by (auto simp: graphic_def is_ascii_digit_def less_eq_char_def)

text \<open>
  A size reads as its number times its unit, in either case of the letters, and is refused
  exactly when the product does not fit 64 bits: no specification asks for a memory that wraps
  around to a small one.
\<close>

theorem size_text_exact:
  assumes "n < 2 ^ 64" "size_unit (to_ascii_lowercase u) = Some m"
  shows "parse_size (decimal n @ u) = (if n * unat m < 2 ^ 64 then Some (of_nat (n * unat m)) else None)"
proof -
  note d = decimal_digits [of n] and u = size_unit_letters [OF assms(2)]
  have "list_all graphic u" "list_all graphic (decimal n @ u)"
    using d u by (auto simp: list_all_iff digit_graphic)
  note trims = this [THEN trim_graphic]
  have parts: "takeWhile is_ascii_digit (decimal n @ u) = decimal n" "dropWhile is_ascii_digit (decimal n @ u) = u"
    using d u by (cases u; auto simp: list_all_iff takeWhile_append2 dropWhile_append2)+
  have "parse_u64 (decimal n) = Some (of_nat n)"
  proof (cases "decimal n")
    case (Cons c cs)
    then have "c \<noteq> CHR ''+''" using d by (auto simp: is_ascii_digit_def less_eq_char_def)
    then show ?thesis using d assms(1) Cons by (simp add: parse_u64_def digits_value_def)
  qed (use d in simp)
  then show ?thesis
    using assms by (simp add: parse_size_def trims parts checked_mul_def unat_of_nat Let_def)
qed

theorem size_text_exact_witness:
  "parse_size (decimal 2 @ ''GiB'') = Some 2147483648 \<and> parse_size (decimal (2 ^ 63) @ ''kb'') = None"
proof -
  have "to_ascii_lowercase ''GiB'' = ''gib''" "to_ascii_lowercase ''kb'' = ''kb''" by code_simp+
  then show ?thesis
    using size_text_exact [of 2 "''GiB''" "2 ^ 30"] size_text_exact [of "2 ^ 63" "''kb''" "2 ^ 10"]
    by (simp add: size_unit_def)
qed

end
