(* ===== verification/Records.thy ===== *)
theory Records
  imports Fs Text
begin

text \<open>
  What the router's ownership ledger and the dispatcher's journal share: errors of \<open>anyhow\<close>,
  the further calls of \<open>std::fs\<close> and \<open>tempfile\<close> they make on the failing tree, file names with
  extensions, and records named by a hash.
\<close>

section \<open>Fallible operations\<close>

datatype AnyError = AnyIo IoKind | AnyMsg string

type_synonym 'a aop = "world \<Rightarrow> world \<times> (AnyError + 'a)"

definition a_return :: "'a \<Rightarrow> 'a aop" where
  "a_return x w = (w, Ok x)"

definition a_bail :: "string \<Rightarrow> 'a aop" where
  "a_bail msg w = (w, Err (AnyMsg msg))"

definition a_result :: "AnyError + 'a \<Rightarrow> 'a aop" where
  "a_result r w = (w, r)"

definition a_bind :: "'a aop \<Rightarrow> ('a \<Rightarrow> 'b aop) \<Rightarrow> 'b aop" where
  "a_bind m f w = (case m w of (w', Inl e) \<Rightarrow> (w', Inl e) | (w', Inr x) \<Rightarrow> f x w')"

text \<open>A call with \<open>?\<close>, with \<open>.context(..)?\<close>, and under \<open>match\<close>.\<close>

definition a_io :: "'a io \<Rightarrow> 'a aop" where
  "a_io m w = (case m w of (w', Inl e) \<Rightarrow> (w', Err (AnyIo e)) | (w', Inr x) \<Rightarrow> (w', Ok x))"

definition a_context :: "string \<Rightarrow> 'a io \<Rightarrow> 'a aop" where
  "a_context msg m w = (case m w of (w', Inl e) \<Rightarrow> (w', Err (AnyMsg msg)) | (w', Inr x) \<Rightarrow> (w', Ok x))"

definition a_match :: "'a io \<Rightarrow> (IoKind + 'a \<Rightarrow> 'b aop) \<Rightarrow> 'b aop" where
  "a_match m f w = (case m w of (w', r) \<Rightarrow> f r w')"

lemmas aop_defs = a_return_def a_bail_def a_result_def a_bind_def a_io_def a_context_def a_match_def

section \<open>Further calls\<close>

definition remove_effect :: "path \<Rightarrow> fsys \<Rightarrow> fsys \<times> (IoKind + unit)" where
  "remove_effect p fs =
     (case fs_kind fs p of
        None \<Rightarrow> (fs, Inl NotFound)
      | Some Dir \<Rightarrow> (fs, Inl OtherIo)
      | Some _ \<Rightarrow> (bt_remove p fs, Inr ()))"

definition remove_file :: "path \<Rightarrow> unit io" where
  "remove_file p = io_call (remove_effect p)"

text \<open>\<open>File::create\<close> empties a file or makes one; the lock file is opened without truncation.\<close>

definition create_effect :: "bool \<Rightarrow> path \<Rightarrow> fsys \<Rightarrow> fsys \<times> (IoKind + unit)" where
  "create_effect clear p fs =
     (if fs_kind fs (butlast p) \<noteq> Some Dir then (fs, Inl NotFound)
      else (case fs_kind fs p of
              None \<Rightarrow> (bt_insert p (File []) fs, Inr ())
            | Some (File _) \<Rightarrow> (if clear then bt_insert p (File []) fs else fs, Inr ())
            | Some _ \<Rightarrow> (fs, Inl OtherIo)))"

definition create_file :: "path \<Rightarrow> unit io" where
  "create_file p = io_call (create_effect True p)"

definition open_or_create :: "path \<Rightarrow> unit io" where
  "open_or_create p = io_call (create_effect False p)"

text \<open>\<open>NamedTempFile::persist\<close>: the rename replaces a file that is there.\<close>

definition replace_effect :: "path \<Rightarrow> bytes \<Rightarrow> fsys \<Rightarrow> fsys \<times> (IoKind + unit)" where
  "replace_effect p b fs =
     (if fs_kind fs p = Some Dir then (fs, Inl OtherIo)
      else if fs_kind fs (butlast p) \<noteq> Some Dir then (fs, Inl NotFound)
      else (bt_insert p (File b) fs, Inr ()))"

definition persist :: "path \<Rightarrow> bytes \<Rightarrow> unit io" where
  "persist p b = io_call (replace_effect p b)"

text \<open>A call that changes no path: \<open>flock\<close>, \<open>sync_all\<close> and writes of a temporary file.\<close>

definition quiet_call :: "unit io" where
  "quiet_call = io_call (\<lambda>fs. (fs, Inr ()))"

text \<open>\<open>canonicalize(dir)?.ancestors()\<close>, each opened and synchronized; the tree has no links.\<close>

fun sync_each :: "string \<Rightarrow> path list \<Rightarrow> unit aop" where
  "sync_each msg [] = a_return ()"
| "sync_each msg (p # ps) =
     a_bind (a_io (open_dir_sync p)) (\<lambda>_. a_bind (a_context msg quiet_call) (\<lambda>_. sync_each msg ps))"

definition ancestors :: "path \<Rightarrow> path list" where
  "ancestors p = map (\<lambda>n. take n p) (rev [0..<Suc (length p)])"

definition sync_tree :: "string \<Rightarrow> path \<Rightarrow> unit aop" where
  "sync_tree msg dir = a_bind (a_io (file_type_of dir)) (\<lambda>_. sync_each msg (ancestors dir))"

text \<open>\<open>File::open(dir)?.sync_all()?\<close>.\<close>

definition sync_dir :: "path \<Rightarrow> unit aop" where
  "sync_dir dir = a_bind (a_io (open_dir_sync dir)) (\<lambda>_. a_io quiet_call)"

section \<open>File names\<close>

text \<open>\<open>Path::file_stem\<close>, \<open>Path::extension\<close> and \<open>Path::with_extension\<close> on a file name.\<close>

definition file_stem :: "string \<Rightarrow> string" where
  "file_stem name = (case rsplit_once (CHR ''.'') name of Some (s, e) \<Rightarrow> if s = [] then name else s | None \<Rightarrow> name)"

definition file_extension :: "string \<Rightarrow> string option" where
  "file_extension name =
     (case rsplit_once (CHR ''.'') name of Some (s, e) \<Rightarrow> if s = [] then None else Some e | None \<Rightarrow> None)"

definition with_extension :: "string \<Rightarrow> path \<Rightarrow> path" where
  "with_extension e p = butlast p @ [file_stem (last p) @ ''.'' @ e]"

definition hash_stem :: "(bytes \<Rightarrow> hash) \<Rightarrow> string \<Rightarrow> string" where
  "hash_stem hash_of i = trim_start_matches ''blake3:'' (hash_str (hash_of (as_bytes i)))"

definition record_path :: "(bytes \<Rightarrow> hash) \<Rightarrow> path \<Rightarrow> string \<Rightarrow> path" where
  "record_path hash_of dir i = dir @ [hash_stem hash_of i @ ''.json'']"

definition is_record :: "path \<Rightarrow> bool" where
  "is_record p = (file_extension (last p) = Some ''json'')"

text \<open>\<open>read_dir(..).filter(..).take(capacity).count()\<close>.\<close>

definition count_records :: "nat \<Rightarrow> (path \<times> node) list \<Rightarrow> nat" where
  "count_records capacity es = length (take capacity (filter (\<lambda>(p, k). is_record p) es))"

section \<open>Operations that keep a property of the tree\<close>

definition preserves :: "(fsys \<Rightarrow> bool) \<Rightarrow> (world \<Rightarrow> world \<times> 'r) \<Rightarrow> bool" where
  "preserves P m \<longleftrightarrow> (\<forall>w. P (w_fs w) \<longrightarrow> P (w_fs (fst (m w))))"

named_theorems preserve_intros \<open>operations that keep a property of the tree\<close>

lemma preservesD: "preserves P m \<Longrightarrow> P (w_fs w) \<Longrightarrow> P (w_fs (fst (m w)))"
  by (simp add: preserves_def)

lemma preserves_step: "preserves P m \<Longrightarrow> m w = (w', r) \<Longrightarrow> P (w_fs w) \<Longrightarrow> P (w_fs w')"
  by (metis fst_conv preserves_def)

lemma a_bind_Ok: "a_bind m f w = (w', Inr y) \<longleftrightarrow> (\<exists>w1 x. m w = (w1, Inr x) \<and> f x w1 = (w', Inr y))"
  by (auto simp: a_bind_def split: prod.splits sum.splits)

lemma a_io_Ok: "a_io m w = (w', Inr x) \<longleftrightarrow> m w = (w', Inr x)"
  by (auto simp: a_io_def split: prod.splits sum.splits)

lemma a_simple_Ok [simp]:
  "a_return x w = (w', Inr y) \<longleftrightarrow> w' = w \<and> y = x" "a_bail msg w \<noteq> (w', Inr y)" "a_result r w = (w', Inr y) \<longleftrightarrow> w' = w \<and> r = Inr y"
  by (auto simp: a_return_def a_bail_def a_result_def)

lemma preserves_call:
  assumes "\<And>fs. P fs \<Longrightarrow> P (fst (eff fs))"
  shows "preserves P (io_call eff)"
  unfolding preserves_def io_call_def
  using assms by (auto split: list.split fault.split prod.split) (metis fst_conv)+

lemma preserves_basic [preserve_intros]:
  "preserves P (a_return x)" "preserves P (a_bail msg)" "preserves P (a_result r)"
  by (simp_all add: preserves_def aop_defs)

lemma preserves_bind [preserve_intros]: "preserves P m \<Longrightarrow> (\<And>x. preserves P (f x)) \<Longrightarrow> preserves P (a_bind m f)"
  unfolding preserves_def a_bind_def by (fastforce split: prod.splits sum.splits)

lemma preserves_io [preserve_intros]: "preserves P m \<Longrightarrow> preserves P (a_io m)" "preserves P m \<Longrightarrow> preserves P (a_context msg m)"
  unfolding preserves_def a_io_def a_context_def by (fastforce split: prod.splits sum.splits)+

lemma preserves_match [preserve_intros]: "preserves P m \<Longrightarrow> (\<And>r. preserves P (f r)) \<Longrightarrow> preserves P (a_match m f)"
  unfolding preserves_def a_match_def by (fastforce split: prod.splits)

lemma preserves_if [preserve_intros]: "preserves P m \<Longrightarrow> preserves P n \<Longrightarrow> preserves P (if b then m else n)"
  by simp

lemma preserves_reads [preserve_intros]:
  "preserves P (read_limited n p)" "preserves P (file_type_of p)" "preserves P (open_dir_sync p)"
  "preserves P (stage_temp p)" "preserves P (read_dir p)" "preserves P quiet_call"
  unfolding call_defs quiet_call_def by (rule preserves_call; simp add: read_effect_def)+

lemma preserves_sync_each [preserve_intros]: "preserves P (sync_each msg ps)"
  by (induction ps) (auto intro!: preserve_intros)

lemma preserves_sync [preserve_intros]: "preserves P (sync_tree msg dir)" "preserves P (sync_dir dir)"
  unfolding sync_tree_def sync_dir_def by (intro preserve_intros)+

section \<open>Names and trees\<close>

lemma stem_extension:
  assumes "s \<noteq> []" "CHR ''.'' \<notin> set e"
  shows "file_stem (s @ ''.'' @ e) = s" "file_extension (s @ ''.'' @ e) = Some e"
proof -
  have "rsplit_once (CHR ''.'') (s @ ''.'' @ e) = Some (s, e)" using assms(2) by (simp add: rsplit_once_parts)
  then show "file_stem (s @ ''.'' @ e) = s" "file_extension (s @ ''.'' @ e) = Some e"
    using assms(1) by (simp_all add: file_stem_def file_extension_def)
qed

lemma extension_Some:
  assumes "file_extension name = Some e"
  shows "name = file_stem name @ ''.'' @ e \<and> file_stem name \<noteq> [] \<and> CHR ''.'' \<notin> set e"
proof -
  obtain s where s: "rsplit_once (CHR ''.'') name = Some (s, e)" "s \<noteq> []"
    using assms by (auto simp: file_extension_def split: option.splits if_splits)
  then have "name = s @ CHR ''.'' # e \<and> CHR ''.'' \<notin> set e" by (simp add: rsplit_once_parts)
  then show ?thesis using s by (simp add: file_stem_def)
qed

lemma fs_kind_remove: "p \<noteq> [] \<Longrightarrow> fs_kind (bt_remove p fs) q = (if q = p then None else fs_kind fs q)"
  by (simp add: fs_kind_def bt_get_remove)

lemma filter_bt_insert_fresh:
  "bt_invar fs \<Longrightarrow> bt_get fs p = None \<Longrightarrow>
     length (filter Q (bt_insert p k fs)) = length (filter Q fs) + (if Q (p, k) then 1 else 0)"
  by (induction p k fs rule: bt_insert.induct) (auto simp: bt_get_Cons bt_invar_def split: if_splits)

lemma hash_stem_plain:
  assumes "valid_hash_str (hash_str (hash_of (as_bytes i)))"
  shows "hash_stem hash_of i \<noteq> [] \<and> CHR ''.'' \<notin> set (hash_stem hash_of i)"
proof -
  obtain h where h: "hash_str (hash_of (as_bytes i)) = ''blake3:'' @ h" "length h = 64" "list_all is_lower_hex h"
    using assms by (auto simp: valid_hash_str_iff)
  have "strip_prefix ''blake3:'' h = None"
  proof (rule ccontr)
    assume "strip_prefix ''blake3:'' h \<noteq> None"
    then obtain r where "h = ''blake3:'' @ r" by (auto simp: strip_prefix_Some)
    then show False using h(3) by (simp add: rust_std less_eq_char_def)
  qed
  then have "hash_stem hash_of i = h"
    by (simp add: hash_stem_def h(1) trim_start_matches.simps [of _ "''blake3:'' @ h", simplified]
        trim_start_matches.simps [of _ h])
  moreover have "CHR ''.'' \<notin> set h" using h(3) by (auto simp: list_all_iff rust_std less_eq_char_def)
  ultimately show ?thesis using h(2) by auto
qed

text \<open>Operations that lead from one property of the tree to a weaker one.\<close>

definition leads :: "(fsys \<Rightarrow> bool) \<Rightarrow> (fsys \<Rightarrow> bool) \<Rightarrow> (world \<Rightarrow> world \<times> 'r) \<Rightarrow> bool" where
  "leads P Q m \<longleftrightarrow> (\<forall>w. P (w_fs w) \<longrightarrow> Q (w_fs (fst (m w))))"

lemma leads_bind:
  assumes "preserves P m" "\<And>x. leads P Q (f x)" "\<And>fs. P fs \<Longrightarrow> Q fs"
  shows "leads P Q (a_bind m f)"
  using assms unfolding leads_def preserves_def a_bind_def by (fastforce split: prod.splits sum.splits)

lemma leads_then:
  assumes "leads P Q m" "\<And>x. preserves Q (f x)"
  shows "leads P Q (a_bind m f)"
  using assms unfolding leads_def preserves_def a_bind_def by (fastforce split: prod.splits sum.splits)

lemma leads_weaken: "preserves P m \<Longrightarrow> (\<And>fs. P fs \<Longrightarrow> Q fs) \<Longrightarrow> leads P Q m"
  by (auto simp: leads_def preserves_def)

lemma leads_call:
  assumes "\<And>fs. P fs \<Longrightarrow> Q (fst (eff fs))" "\<And>fs. P fs \<Longrightarrow> Q fs"
  shows "leads P Q (a_io (io_call eff))"
  unfolding leads_def a_io_def io_call_def
  using assms by (fastforce split: list.split fault.split prod.split sum.split)

end
