(* ===== verification/Ledger.thy ===== *)
theory Ledger
  imports Records
begin

text \<open>
  \<open>celln-cli/src/router_ownership.rs\<close> and \<open>backend_to_addr\<close> of \<open>router.rs\<close>: the durable binding of
  an identity to the one node that owns it, shared by all replicas of the router.

  \<open>flock\<close> makes every operation that changes the directory atomic among replicas; a replica
  that finds the lock taken fails, which is a failure of the lock call here. Whether a record
  has aged is decided by the operation's own clock, an argument. The encoder and decoder of an
  owner record and the hash are parameters.
\<close>

section \<open>Records\<close>

record Owner =
  ow_version :: u8
  ow_backend :: string
  ow_body_hash :: string

record Ledger =
  lg_dir :: path
  lg_capacity :: nat

datatype Claim = ClaimNew Owner | ClaimExisting Owner | ClaimConflict | ClaimFull

record OwnerSerde =
  os_encode :: "Owner \<Rightarrow> bytes"
  os_decode :: "bytes \<Rightarrow> Owner option"
  os_hash :: "bytes \<Rightarrow> hash"

text \<open>\<open>char::is_whitespace\<close> for any character: no continuation byte starts one.\<close>

fun any_whitespace :: "string \<Rightarrow> bool" where
  "any_whitespace [] = False"
| "any_whitespace (c # s) = (ws_head (map of_char (c # s)) \<noteq> 0 \<or> any_whitespace s)"

definition backend_to_addr :: "string \<Rightarrow> AnyError + string" where
  "backend_to_addr backend =
     (case strip_prefix ''http://'' backend of
        None \<Rightarrow> Err (AnyMsg ''router backend requires http://; native TLS is unsupported'')
      | Some host \<Rightarrow>
          if host = [] \<or> list_ex (\<lambda>c. c \<in> set ''/@?#'') host \<or> any_whitespace host
          then Err (AnyMsg ''invalid router backend authority'')
          else Ok (if CHR '':'' \<in> set host then host else host @ '':80''))"

section \<open>Operations\<close>

definition Ledger_open :: "path \<Rightarrow> nat \<Rightarrow> Ledger aop" where
  "Ledger_open dir capacity =
     (if capacity = 0 then a_bail ''ownership capacity must be positive''
      else a_bind (a_context ''creating router ownership directory'' (create_dir_all dir)) (\<lambda>_.
           a_bind (sync_tree ''Unsupported: ownership filesystem must support directory fsync'' dir) (\<lambda>_.
           a_return \<lparr>lg_dir = dir, lg_capacity = capacity\<rparr>)))"

definition owner_path :: "OwnerSerde \<Rightarrow> Ledger \<Rightarrow> string \<Rightarrow> path" where
  "owner_path S L i = record_path (os_hash S) (lg_dir L) i"

definition read_owner :: "OwnerSerde \<Rightarrow> bytes \<Rightarrow> AnyError + Owner" where
  "read_owner S b =
     (if length b > 4096 then Err (AnyMsg ''invalid owner record'')
      else (case os_decode S b of
              None \<Rightarrow> Err (AnyMsg ''invalid owner record'')
            | Some ow \<Rightarrow>
                if ow_version ow \<noteq> 1 \<or> length (ow_backend ow) > 1024 then Err (AnyMsg ''unsupported owner record'')
                else (case backend_to_addr (ow_backend ow) of Inl e \<Rightarrow> Err e | Inr _ \<Rightarrow> Ok ow)))"

definition ledger_lookup :: "OwnerSerde \<Rightarrow> Ledger \<Rightarrow> string \<Rightarrow> Owner option aop" where
  "ledger_lookup S L i =
     a_match (read_limited 4097 (owner_path S L i)) (\<lambda>r.
       case r of
         Inl NotFound \<Rightarrow> a_return None
       | Inl e \<Rightarrow> a_result (Err (AnyIo e))
       | Inr b \<Rightarrow> (case read_owner S b of Inl e \<Rightarrow> a_result (Err e) | Inr ow \<Rightarrow> a_return (Some ow)))"

definition ledger_lock :: "Ledger \<Rightarrow> unit aop" where
  "ledger_lock L =
     a_bind (a_io (open_or_create (lg_dir L @ [''ownership.lock'']))) (\<lambda>_.
     a_context ''ownership ledger busy or locking unsupported'' quiet_call)"

text \<open>Staging, writing and publishing a new record.\<close>

definition publish_owner :: "OwnerSerde \<Rightarrow> Ledger \<Rightarrow> string \<Rightarrow> Owner \<Rightarrow> Claim aop" where
  "publish_owner S L i ow =
     (if length (ow_backend ow) > 1024 then a_bail ''backend URL exceeds owner record bound''
      else a_bind (a_io (stage_temp (lg_dir L))) (\<lambda>_.
           a_bind (a_io quiet_call) (\<lambda>_.
           a_bind (a_io quiet_call) (\<lambda>_.
           a_bind (a_io quiet_call) (\<lambda>_.
           a_bind (a_io (persist_noclobber (owner_path S L i) (os_encode S ow))) (\<lambda>_.
           a_bind (sync_dir (lg_dir L)) (\<lambda>_.
           a_return (ClaimNew ow))))))))"

definition ledger_claim :: "OwnerSerde \<Rightarrow> Ledger \<Rightarrow> string \<Rightarrow> bytes \<Rightarrow> string aop \<Rightarrow> Claim aop" where
  "ledger_claim S L i body pick =
     a_bind (ledger_lock L) (\<lambda>_.
     let body_hash = hash_str (os_hash S body) in
     a_bind (ledger_lookup S L i) (\<lambda>found.
       case found of
         Some ow \<Rightarrow> a_return (if ow_body_hash ow = body_hash then ClaimExisting ow else ClaimConflict)
       | None \<Rightarrow>
           a_bind (a_io (read_dir (lg_dir L))) (\<lambda>es.
           if count_records (lg_capacity L) es \<ge> lg_capacity L then a_return ClaimFull
           else a_bind pick (\<lambda>backend.
                publish_owner S L i \<lparr>ow_version = 1, ow_backend = backend, ow_body_hash = body_hash\<rparr>))))"

definition retired_path :: "OwnerSerde \<Rightarrow> Ledger \<Rightarrow> string \<Rightarrow> path" where
  "retired_path S L i = with_extension ''retired'' (owner_path S L i)"

definition remove_locked :: "Ledger \<Rightarrow> path \<Rightarrow> bool aop" where
  "remove_locked L rec =
     a_match (remove_file rec) (\<lambda>r.
       if r \<noteq> Ok () \<and> r \<noteq> Err NotFound then a_result (Err (AnyIo (projl r)))
       else a_match (remove_file (with_extension ''retired'' rec)) (\<lambda>r'.
         if r' \<noteq> Ok () \<and> r' \<noteq> Err NotFound then a_result (Err (AnyIo (projl r')))
         else a_bind (sync_dir (lg_dir L)) (\<lambda>_. a_return (r = Ok ()))))"

text \<open>\<open>elapsed\<close> is how long ago a record was modified, or that the clock has gone back.\<close>

definition aged :: "(path \<Rightarrow> duration option) \<Rightarrow> path \<Rightarrow> duration \<Rightarrow> bool io" where
  "aged elapsed rec quarantine =
     io_bind (file_type_of rec) (\<lambda>_. io_return (case elapsed rec of Some t \<Rightarrow> t \<ge> quarantine | None \<Rightarrow> False))"

definition ledger_retire ::
  "OwnerSerde \<Rightarrow> (path \<Rightarrow> duration option) \<Rightarrow> Ledger \<Rightarrow> string \<Rightarrow> duration \<Rightarrow> bool aop" where
  "ledger_retire S elapsed L i quarantine =
     a_bind (ledger_lock L) (\<lambda>_.
     let rec = owner_path S L i in
     a_match (aged elapsed rec quarantine) (\<lambda>r.
       case r of
         Inr True \<Rightarrow> remove_locked L rec
       | Inr False \<Rightarrow>
           a_bind (a_io (create_file (retired_path S L i))) (\<lambda>_.
           a_bind (a_io quiet_call) (\<lambda>_.
           a_bind (sync_dir (lg_dir L)) (\<lambda>_. a_return False)))
       | Inl NotFound \<Rightarrow> a_return False
       | Inl e \<Rightarrow> a_result (Err (AnyIo e))))"

text \<open>The loop of \<open>sweep_retired\<close> over the entries it has listed.\<close>

fun sweep_entries :: "(path \<Rightarrow> duration option) \<Rightarrow> Ledger \<Rightarrow> duration \<Rightarrow> nat \<Rightarrow> path list \<Rightarrow> nat aop" where
  "sweep_entries elapsed L quarantine removed [] = a_return removed"
| "sweep_entries elapsed L quarantine removed (marker # ms) =
     (if file_extension (last marker) \<noteq> Some ''retired'' then sweep_entries elapsed L quarantine removed ms
      else let rec = with_extension ''json'' marker in
        a_match (aged elapsed rec quarantine) (\<lambda>r.
          case r of
            Inr False \<Rightarrow> sweep_entries elapsed L quarantine removed ms
          | Inr True \<Rightarrow>
              a_bind (remove_locked L rec) (\<lambda>b. sweep_entries elapsed L quarantine (removed + (if b then 1 else 0)) ms)
          | Inl NotFound \<Rightarrow> a_bind (remove_locked L rec) (\<lambda>_. sweep_entries elapsed L quarantine removed ms)
          | Inl e \<Rightarrow> a_result (Err (AnyIo e))))"

definition sweep_retired :: "(path \<Rightarrow> duration option) \<Rightarrow> Ledger \<Rightarrow> duration \<Rightarrow> nat aop" where
  "sweep_retired elapsed L quarantine =
     a_bind (ledger_lock L) (\<lambda>_.
     a_bind (a_io (read_dir (lg_dir L))) (\<lambda>es. sweep_entries elapsed L quarantine 0 (map fst es)))"

section \<open>A binding lasts until it is retired\<close>

text \<open>The hash of the sources prints as its prefix and 64 hexadecimal digits.\<close>

definition hash_format :: "OwnerSerde \<Rightarrow> bool" where
  "hash_format S \<longleftrightarrow> (\<forall>b. valid_hash_str (hash_str (os_hash S b)))"

definition bound_to :: "OwnerSerde \<Rightarrow> Ledger \<Rightarrow> string \<Rightarrow> bytes \<Rightarrow> fsys \<Rightarrow> bool" where
  "bound_to S L i b fs \<longleftrightarrow>
     bt_invar fs \<and> fs_kind fs (owner_path S L i) = Some (File b) \<and> fs_kind fs (retired_path S L i) = None"

abbreviation stem :: "OwnerSerde \<Rightarrow> string \<Rightarrow> string" where
  "stem S i \<equiv> hash_stem (os_hash S) i"

lemma owner_path_eq: "owner_path S L i = lg_dir L @ [stem S i @ ''.json'']"
  by (simp add: owner_path_def record_path_def)

lemma stem_plain: "hash_format S \<Longrightarrow> stem S i \<noteq> [] \<and> CHR ''.'' \<notin> set (stem S i)"
  by (rule hash_stem_plain) (simp add: hash_format_def)

lemma retired_path_eq: "hash_format S \<Longrightarrow> retired_path S L i = lg_dir L @ [stem S i @ ''.retired'']"
  using stem_extension [of "stem S i" "''json''"] stem_plain [of S i]
  by (simp add: retired_path_def with_extension_def owner_path_eq)

lemma append_suffix_neq: "x @ ''.json'' \<noteq> y @ ''.retired''" "x @ ''.json'' \<noteq> ''ownership.lock''" "x @ ''.retired'' \<noteq> ''ownership.lock''"
proof -
  have "last (x @ ''.json'') \<noteq> last (y @ ''.retired'')" "last (x @ ''.json'') \<noteq> last ''ownership.lock''"
    "last (x @ ''.retired'') \<noteq> last ''ownership.lock''" by simp_all
  then show "x @ ''.json'' \<noteq> y @ ''.retired''" "x @ ''.json'' \<noteq> ''ownership.lock''" "x @ ''.retired'' \<noteq> ''ownership.lock''"
    by metis+
qed

lemmas ledger_paths = owner_path_eq retired_path_eq append_suffix_neq append_suffix_neq [symmetric]

lemma bound_insert:
  "bound_to S L i b fs \<Longrightarrow> p \<noteq> [] \<Longrightarrow> p \<noteq> owner_path S L i \<Longrightarrow> p \<noteq> retired_path S L i \<Longrightarrow> bound_to S L i b (bt_insert p k fs)"
  by (auto simp: bound_to_def fs_kind_insert bt_simps split: if_splits)

lemma bound_remove:
  "bound_to S L i b fs \<Longrightarrow> p \<noteq> [] \<Longrightarrow> p \<noteq> owner_path S L i \<Longrightarrow> bound_to S L i b (bt_remove p fs)"
  by (auto simp: bound_to_def fs_kind_remove bt_simps)

lemma bound_lock [preserve_intros]: "hash_format S \<Longrightarrow> preserves (bound_to S L i b) (ledger_lock L)"
  unfolding ledger_lock_def open_or_create_def
  by (intro preserve_intros preserves_call)
    (auto simp: create_effect_def ledger_paths intro!: bound_insert split: option.split node.split)

lemma bound_lookup [preserve_intros]: "preserves P (ledger_lookup S L j)"
  unfolding ledger_lookup_def by (auto intro!: preserve_intros split: sum.split IoKind.split)

lemma bound_remove_locked:
  assumes "hash_format S" "rec \<noteq> owner_path S L i" "rec \<noteq> []"
  shows "preserves (bound_to S L i b) (remove_locked L rec)"
proof -
  have gone: "preserves (bound_to S L i b) (remove_file p)" if "p \<noteq> []" "p \<noteq> owner_path S L i" for p
    unfolding remove_file_def
    by (rule preserves_call) (use that in \<open>auto simp: remove_effect_def intro!: bound_remove split: option.split node.split\<close>)
  have "with_extension ''retired'' rec \<noteq> owner_path S L i" "with_extension ''retired'' rec \<noteq> []"
    using append_suffix_neq(1) [symmetric] by (auto simp: with_extension_def owner_path_eq)
  then show ?thesis
    unfolding remove_locked_def by (intro preserve_intros gone assms(2,3))
qed

lemma aged_preserves [preserve_intros]: "preserves P (aged elapsed rec q)"
  using preserves_reads(2) [of P rec]
  by (auto simp: aged_def preserves_def io_bind_def io_return_def split: prod.splits sum.splits)

lemma bound_claim:
  assumes "hash_format S" "preserves (bound_to S L i b) pick"
  shows "preserves (bound_to S L i b) (ledger_claim S L j body pick)"
proof -
  have "preserves (bound_to S L i b) (persist_noclobber (owner_path S L j) c)" for c
    unfolding persist_noclobber_def
  proof (rule preserves_call)
    fix fs assume ok: "bound_to S L i b fs"
    show "bound_to S L i b (fst (persist_effect (owner_path S L j) c fs))"
    proof (cases "fs_kind fs (owner_path S L j) = None")
      case True
      then have "owner_path S L j \<noteq> owner_path S L i" using ok by (auto simp: bound_to_def)
      then show ?thesis
        using bound_insert [OF ok, of "owner_path S L j" "File c"] ok assms(1)
        by (auto simp: persist_effect_def ledger_paths)
    qed (use ok in \<open>simp add: persist_effect_def\<close>)
  qed
  then show ?thesis
    unfolding ledger_claim_def publish_owner_def Let_def
    by (auto intro!: preserve_intros assms split: option.split)
qed

lemma bound_retire:
  assumes "hash_format S" "stem S j \<noteq> stem S i"
  shows "preserves (bound_to S L i b) (ledger_retire S elapsed L j q)"
proof -
  have "preserves (bound_to S L i b) (create_file (retired_path S L j))"
    unfolding create_file_def
    by (rule preserves_call)
      (use assms in \<open>auto simp: create_effect_def ledger_paths intro!: bound_insert split: option.split node.split\<close>)
  moreover have "preserves (bound_to S L i b) (remove_locked L (owner_path S L j))"
    by (rule bound_remove_locked [OF assms(1)]) (use assms(2) in \<open>auto simp: owner_path_eq\<close>)
  ultimately show ?thesis
    unfolding ledger_retire_def Let_def
    by (auto intro!: preserve_intros assms(1) split: sum.split bool.split IoKind.split)
qed

lemma bound_sweep_entries:
  assumes "hash_format S" "\<And>m. m \<in> set ms \<Longrightarrow> m \<noteq> [] \<and> butlast m = lg_dir L \<and> m \<noteq> retired_path S L i"
  shows "preserves (bound_to S L i b) (sweep_entries elapsed L q n ms)"
  using assms(2)
proof (induction ms arbitrary: n)
  case Nil
  show ?case by (simp add: preserve_intros)
next
  case (Cons m ms)
  note rest = Cons.IH [OF Cons.prems [OF list.set_intros(2)]]
  show ?case
  proof (cases "file_extension (last m) = Some ''retired''")
    case True
    have m: "m = lg_dir L @ [last m]" using Cons.prems [of m] by (metis append_butlast_last_id list.set_intros(1))
    have "with_extension ''json'' m \<noteq> owner_path S L i"
    proof
      assume "with_extension ''json'' m = owner_path S L i"
      then have "last m = stem S i @ ''.retired''"
        using extension_Some [OF True] by (simp add: with_extension_def owner_path_eq)
      then show False using Cons.prems [of m] m assms(1) by (simp add: retired_path_eq)
    qed
    then have "preserves (bound_to S L i b) (remove_locked L (with_extension ''json'' m))"
      by (intro bound_remove_locked assms(1)) (simp_all add: with_extension_def)
    then show ?thesis
      using rest True by (auto simp: Let_def intro!: preserve_intros split: sum.split bool.split IoKind.split)
  qed (use rest in simp)
qed

lemma read_dir_entries:
  assumes "read_dir dir w = (w', Inr es)" "(p, k) \<in> set es"
  shows "p \<noteq> [] \<and> butlast p = dir \<and> (p, k) \<in> set (w_fs w) \<and> w_fs w' = w_fs w"
  using io_call_Ok [OF assms(1) [unfolded read_dir_def]] assms(2) by (auto split: if_splits)

lemma read_dir_same: "w_fs (fst (read_dir dir w)) = w_fs w"
  using preservesD [OF preserves_reads(5), of "\<lambda>fs. fs = w_fs w" w dir] by simp

lemma bt_get_mem: "bt_invar m \<Longrightarrow> (k, v) \<in> set m \<Longrightarrow> bt_get m k = Some v"
  by (simp add: bt_get_def bt_invar_def strict_sorted_iff)

lemma bound_sweep:
  assumes "hash_format S"
  shows "preserves (bound_to S L i b) (sweep_retired elapsed L q)"
proof -
  have "preserves (bound_to S L i b) (a_bind (a_io (read_dir (lg_dir L))) (\<lambda>es. sweep_entries elapsed L q 0 (map fst es)))"
    unfolding preserves_def
  proof (intro allI impI)
    fix w :: world assume ok: "bound_to S L i b (w_fs w)"
    obtain w1 r where step: "read_dir (lg_dir L) w = (w1, r)" by fastforce
    then have same: "w_fs w1 = w_fs w" using read_dir_same [of "lg_dir L" w] by simp
    show "bound_to S L i b (w_fs (fst (a_bind (a_io (read_dir (lg_dir L))) (\<lambda>es. sweep_entries elapsed L q 0 (map fst es)) w)))"
    proof (cases r)
      case (Inr es)
      have "m \<noteq> [] \<and> butlast m = lg_dir L \<and> m \<noteq> retired_path S L i" if listed: "m \<in> set (map fst es)" for m
      proof -
        obtain k where e: "(m, k) \<in> set es" using listed by auto
        note mem = read_dir_entries [OF step [unfolded Inr] e]
        then have "fs_kind (w_fs w) m = Some k" using ok by (auto simp: fs_kind_def bound_to_def bt_get_mem)
        then show ?thesis using mem ok by (auto simp: bound_to_def)
      qed
      then have "preserves (bound_to S L i b) (sweep_entries elapsed L q 0 (map fst es))"
        by (rule bound_sweep_entries [OF assms])
      then show ?thesis
        using preservesD [of "bound_to S L i b" _ w1] Inr step ok same by (simp add: a_bind_def a_io_def)
    qed (use step ok same in \<open>simp add: a_bind_def a_io_def\<close>)
  qed
  then show ?thesis unfolding sweep_retired_def by (rule preserves_bind [OF bound_lock [OF assms]])
qed

section \<open>Runs of the ledger\<close>

datatype ledger_op =
    LookupOp string
  | ClaimOp string bytes "AnyError + string"
  | RetireOp "path \<Rightarrow> duration option" string duration
  | SweepOp "path \<Rightarrow> duration option" duration

datatype ledger_result =
    LookupResult "AnyError + Owner option"
  | ClaimResult "AnyError + Claim"
  | RetireResult "AnyError + bool"
  | SweepResult "AnyError + nat"

fun ledger_step :: "OwnerSerde \<Rightarrow> Ledger \<Rightarrow> ledger_op \<Rightarrow> world \<Rightarrow> world \<times> ledger_result" where
  "ledger_step S L (LookupOp i) w = map_prod id LookupResult (ledger_lookup S L i w)"
| "ledger_step S L (ClaimOp i body backend) w = map_prod id ClaimResult (ledger_claim S L i body (a_result backend) w)"
| "ledger_step S L (RetireOp elapsed i q) w = map_prod id RetireResult (ledger_retire S elapsed L i q w)"
| "ledger_step S L (SweepOp elapsed q) w = map_prod id SweepResult (sweep_retired elapsed L q w)"

fun retires :: "OwnerSerde \<Rightarrow> string \<Rightarrow> ledger_op \<Rightarrow> bool" where
  "retires S i (RetireOp _ j _) = (stem S j = stem S i)"
| "retires S i _ = False"

lemma bound_step:
  assumes "hash_format S" "\<not> retires S i op" "bound_to S L i b (w_fs w)"
  shows "bound_to S L i b (w_fs (fst (ledger_step S L op w)))"
proof -
  note keep = preservesD [where P = "bound_to S L i b", OF _ assms(3)]
  show ?thesis
  proof (cases op)
    case (LookupOp j)
    then show ?thesis using keep [OF bound_lookup] by simp
  next
    case (ClaimOp j body backend)
    then show ?thesis using keep [OF bound_claim [OF assms(1) preserves_basic(3)]] by simp
  next
    case (RetireOp elapsed j q)
    then show ?thesis using keep [OF bound_retire [OF assms(1)]] assms(2) by simp
  next
    case (SweepOp elapsed q)
    then show ?thesis using keep [OF bound_sweep [OF assms(1)]] by simp
  qed
qed

lemma bound_run:
  assumes "hash_format S" "list_all (\<lambda>op. \<not> retires S i op) ops" "bound_to S L i b (w_fs w)"
  shows "bound_to S L i b (w_fs (run_final (ledger_step S L) w ops))"
  using assms(2,3) by (induction ops arbitrary: w) (simp_all add: bound_step [OF assms(1)])

text \<open>What the operations answer about a bound identity.\<close>

lemma bound_answers:
  assumes "bound_to S L i (os_encode S ow) (w_fs w)" "os_decode S (os_encode S ow) = Some ow"
  shows "case snd (ledger_lookup S L i w) of Inr r \<Rightarrow> r = Some ow | Inl _ \<Rightarrow> True"
proof -
  obtain w1 r where step: "read_limited 4097 (owner_path S L i) w = (w1, r)" by fastforce
  show ?thesis
  proof (cases r)
    case (Inl e)
    have "e \<noteq> NotFound"
      using step assms(1) Inl by (auto simp: read_limited_def io_call_def read_effect_def bound_to_def split: list.splits fault.splits)
    then show ?thesis using step Inl by (cases e) (simp_all add: ledger_lookup_def a_match_def a_result_def)
  next
    case (Inr x)
    have "x = take 4097 (os_encode S ow)" using read_limited_Ok [OF step [unfolded Inr]] assms(1) by (auto simp: bound_to_def)
    then have "read_owner S x = Inr o' \<Longrightarrow> o' = ow" for o'
      using assms(2) by (auto simp: read_owner_def split: if_splits option.splits sum.splits)
    then show ?thesis
      using step Inr by (cases "read_owner S x") (simp_all add: ledger_lookup_def a_match_def a_result_def a_return_def)
  qed
qed

lemma hash_str_eq: "hash_str a = hash_str b \<longleftrightarrow> a = b"
  by (metis hash.expand)

lemma bound_claims:
  assumes "hash_format S" "bound_to S L i (os_encode S ow) (w_fs w)" "os_decode S (os_encode S ow) = Some ow"
  shows "case snd (ledger_claim S L i body pick w) of
           Inr c \<Rightarrow> c = (if hash_str (os_hash S body) = ow_body_hash ow then ClaimExisting ow else ClaimConflict)
         | Inl _ \<Rightarrow> True"
proof -
  obtain w1 r where lock: "ledger_lock L w = (w1, r)" by fastforce
  have ok: "bound_to S L i (os_encode S ow) (w_fs w1)"
    using preservesD [where P = "bound_to S L i (os_encode S ow)", OF bound_lock [OF assms(1)] assms(2)] lock by simp
  show ?thesis
  proof (cases r)
    case (Inr u)
    obtain w2 f where look: "ledger_lookup S L i w1 = (w2, f)" by fastforce
    have "case f of Inr r \<Rightarrow> r = Some ow | Inl _ \<Rightarrow> True" using bound_answers [OF ok assms(3)] look by simp
    then show ?thesis
      using lock Inr look by (cases f) (auto simp: ledger_claim_def a_bind_def a_return_def Let_def)
  qed (use lock in \<open>simp add: ledger_claim_def a_bind_def\<close>)
qed

lemma publish_New:
  assumes "publish_owner S L i ow w = (w', Inr (ClaimNew ow'))" "hash_format S"
    and "bt_invar (w_fs w)" "fs_kind (w_fs w) (retired_path S L i) = None"
  shows "ow' = ow \<and> bound_to S L i (os_encode S ow) (w_fs w')"
proof -
  let ?none = "\<lambda>fs. bt_invar fs \<and> fs_kind fs (retired_path S L i) = None"
  obtain w1 w2 w3 w4 w5 w6 u1 u2 u3 u4 u5 u6 where
    steps: "stage_temp (lg_dir L) w = (w1, Inr u1)" "quiet_call w1 = (w2, Inr u2)" "quiet_call w2 = (w3, Inr u3)"
      "quiet_call w3 = (w4, Inr u4)" "persist_noclobber (owner_path S L i) (os_encode S ow) w4 = (w5, Inr u5)"
      "sync_dir (lg_dir L) w5 = (w6, Inr u6)"
      and last: "ow' = ow" "w' = w6"
    using assms(1) unfolding publish_owner_def by (auto simp: a_bind_Ok a_io_Ok split: if_splits)
  note keep = preserves_step [where P = ?none]
  have same: "?none (w_fs w4)"
    using keep [OF preserves_reads(6) steps(4) keep [OF preserves_reads(6) steps(3) keep [OF preserves_reads(6) steps(2)
      keep [OF preserves_reads(4) steps(1)]]]] assms(3,4) by blast
  have "bound_to S L i (os_encode S ow) (w_fs w5)"
    using persist_Ok [OF steps(5)] same assms(2)
    by (auto simp: bound_to_def fs_kind_insert bt_simps ledger_paths)
  then show ?thesis
    using preserves_step [where P = "bound_to S L i (os_encode S ow)", OF preserves_sync(2) steps(6)] last by simp
qed

lemma quiet_lock: "hash_format S \<Longrightarrow> preserves (\<lambda>fs. bt_invar fs \<and> fs_kind fs (retired_path S L i) = None) (ledger_lock L)"
  unfolding ledger_lock_def open_or_create_def
  by (intro preserve_intros preserves_call)
    (auto simp: create_effect_def ledger_paths fs_kind_insert bt_simps split: option.split node.split)

lemma claim_New:
  assumes "ledger_claim S L i body (a_result backend) w = (w', Inr (ClaimNew ow))" "hash_format S"
    and "bt_invar (w_fs w)" "fs_kind (w_fs w) (retired_path S L i) = None"
  shows "bound_to S L i (os_encode S ow) (w_fs w') \<and> ow_body_hash ow = hash_str (os_hash S body) \<and> backend = Ok (ow_backend ow)"
proof -
  let ?none = "\<lambda>fs. bt_invar fs \<and> fs_kind fs (retired_path S L i) = None"
  note keep = preserves_step [where P = ?none]
  obtain w1 u where lock: "ledger_lock L w = (w1, Inr u)"
    using assms(1) by (auto simp: ledger_claim_def a_bind_Ok)
  obtain w2 found where look: "ledger_lookup S L i w1 = (w2, Inr found)"
    using assms(1) lock by (auto simp: ledger_claim_def a_bind_Ok Let_def)
  obtain w3 es b where es: "read_dir (lg_dir L) w2 = (w3, Inr es)" "backend = Inr b"
      "publish_owner S L i \<lparr>ow_version = 1, ow_backend = b, ow_body_hash = hash_str (os_hash S body)\<rparr> w3 = (w', Inr (ClaimNew ow))"
    using assms(1) lock look
    by (cases found) (auto simp: ledger_claim_def a_bind_Ok a_io_Ok Let_def split: if_splits)
  have "?none (w_fs w3)"
    using keep [OF preserves_reads(5) es(1) keep [OF bound_lookup look keep [OF quiet_lock [OF assms(2)] lock]]] assms(3,4)
    by blast
  then show ?thesis using publish_New [OF es(3) assms(2)] es(2) by auto
qed

text \<open>
  C16: An identity is bound to one node until it is retired. After a claim has bound it, every
  lookup by every replica, whatever other operations have run or failed in between, gives that
  owner or an error; every further claim is answered with the same owner when it carries the
  same request, with a conflict when it carries another, or with an error, and never selects
  a node again. Assumed are that the record decodes, that the hash has its documented format,
  and that no marker of an earlier retirement is left for the identity.
\<close>

theorem owner_never_rebound:
  assumes "hash_format S" "os_decode S (os_encode S ow) = Some ow"
    and "bt_invar (w_fs w)" "fs_kind (w_fs w) (retired_path S L i) = None"
    and "ledger_claim S L i body (a_result backend) w = (w1, Inr (ClaimNew ow))"
    and "list_all (\<lambda>op. \<not> retires S i op) ops"
  shows "let w2 = run_final (ledger_step S L) w1 ops in
           (case snd (ledger_lookup S L i w2) of Inr r \<Rightarrow> r = Some ow | Inl _ \<Rightarrow> True)
         \<and> (case snd (ledger_claim S L i again pick w2) of
              Inr c \<Rightarrow> c = (if os_hash S again = os_hash S body then ClaimExisting ow else ClaimConflict)
            | Inl _ \<Rightarrow> True)"
proof -
  have new: "bound_to S L i (os_encode S ow) (w_fs w1)" "ow_body_hash ow = hash_str (os_hash S body)"
    using claim_New [OF assms(5,1,3,4)] by simp_all
  note later = bound_run [OF assms(1,6) new(1)]
  show ?thesis
    using bound_answers [OF later assms(2)] bound_claims [OF assms(1) later assms(2), of again pick]
    unfolding Let_def new(2) hash_str_eq by blast
qed

section \<open>What a client of a ledger relies on\<close>

text \<open>No record and no marker for an identity.\<close>

definition idle :: "OwnerSerde \<Rightarrow> Ledger \<Rightarrow> string \<Rightarrow> fsys \<Rightarrow> bool" where
  "idle S L i fs \<longleftrightarrow> bt_invar fs \<and> fs_kind fs (owner_path S L i) = None \<and> fs_kind fs (retired_path S L i) = None"

definition settled :: "OwnerSerde \<Rightarrow> Ledger \<Rightarrow> string \<Rightarrow> fsys \<Rightarrow> bool" where
  "settled S L i fs \<longleftrightarrow> idle S L i fs \<or> (\<exists>ow. bound_to S L i (os_encode S ow) fs)"

text \<open>An operation never undoes a binding, and from none leaves none or a complete one.\<close>

definition safe_for :: "OwnerSerde \<Rightarrow> Ledger \<Rightarrow> string \<Rightarrow> (world \<Rightarrow> world \<times> 'r) \<Rightarrow> bool" where
  "safe_for S L i m \<longleftrightarrow> (\<forall>b. preserves (bound_to S L i b) m) \<and> leads (idle S L i) (settled S L i) m"

definition local_to :: "path \<Rightarrow> (fsys \<Rightarrow> bool) \<Rightarrow> bool" where
  "local_to dir P \<longleftrightarrow>
     (\<forall>fs p k. P fs \<longrightarrow> p \<noteq> [] \<longrightarrow> butlast p = dir \<longrightarrow> P (bt_insert p k fs) \<and> P (bt_remove p fs))"

lemma local_toD: "local_to dir P \<Longrightarrow> P fs \<Longrightarrow> p \<noteq> [] \<Longrightarrow> butlast p = dir \<Longrightarrow> P (bt_insert p k fs) \<and> P (bt_remove p fs)"
  by (simp add: local_to_def)

lemma local_other:
  assumes "dir \<noteq> lg_dir L"
  shows "local_to dir (bound_to S L i b)" "local_to dir (idle S L i)"
proof -
  have "butlast (owner_path S L i) = lg_dir L" "butlast (retired_path S L i) = lg_dir L"
    "owner_path S L i \<noteq> []" "retired_path S L i \<noteq> []"
    by (simp_all add: retired_path_def with_extension_def owner_path_eq)
  then show "local_to dir (bound_to S L i b)" "local_to dir (idle S L i)"
    unfolding local_to_def bound_to_def idle_def
    using assms by (auto simp: fs_kind_insert fs_kind_remove bt_simps)
qed

lemma local_lock: "local_to (lg_dir L) P \<Longrightarrow> preserves P (ledger_lock L)"
  unfolding ledger_lock_def open_or_create_def
  by (intro preserve_intros preserves_call)
    (auto simp: create_effect_def dest: local_toD [of _ P _ "lg_dir L @ [''ownership.lock'']"] split: option.split node.split)

lemma local_claim:
  assumes "local_to (lg_dir L) P" "preserves P pick"
  shows "preserves P (ledger_claim S L i body pick)"
proof -
  have "preserves P (persist_noclobber (owner_path S L i) b)" for b
    unfolding persist_noclobber_def
    by (rule preserves_call) (use local_toD [OF assms(1), of _ "owner_path S L i"] in \<open>auto simp: persist_effect_def owner_path_eq\<close>)
  then show ?thesis
    unfolding ledger_claim_def publish_owner_def Let_def
    by (auto intro!: preserve_intros local_lock assms split: option.split)
qed

lemma safe_other_claim:
  assumes "lg_dir L' \<noteq> lg_dir L" "safe_for S L i pick" "preserves (idle S L i) pick"
  shows "safe_for S L i (ledger_claim S L' j body pick)" "preserves (idle S L i) (ledger_claim S L' j body pick)"
proof -
  show "preserves (idle S L i) (ledger_claim S L' j body pick)"
    by (rule local_claim [OF local_other(2) [OF assms(1)] assms(3)])
  then show "safe_for S L i (ledger_claim S L' j body pick)"
    unfolding safe_for_def
    using local_claim [OF local_other(1) [OF assms(1)]] assms(2)
    by (auto simp: safe_for_def settled_def intro: leads_weaken)
qed

lemma safe_lookup: "safe_for S L i (ledger_lookup S L' j)"
  by (simp add: safe_for_def bound_lookup leads_weaken settled_def)

lemma safe_pure: "safe_for S L i (a_result r)"
  by (simp add: safe_for_def preserve_intros leads_weaken settled_def)

lemma idle_lock: "hash_format S \<Longrightarrow> preserves (idle S L i) (ledger_lock L)"
  unfolding ledger_lock_def open_or_create_def
  by (intro preserve_intros preserves_call)
    (auto simp: create_effect_def ledger_paths idle_def fs_kind_insert bt_simps split: option.split node.split)

lemma publish_settles:
  assumes "hash_format S"
  shows "leads (idle S L i) (settled S L i) (publish_owner S L j ow)"
proof -
  have weaken: "idle S L i fs \<Longrightarrow> settled S L i fs" for fs by (simp add: settled_def)
  have add: "leads (idle S L i) (settled S L i) (a_io (persist_noclobber (owner_path S L j) (os_encode S ow)))"
    unfolding persist_noclobber_def
  proof (rule leads_call [OF _ weaken])
    fix fs assume ok: "idle S L i fs"
    show "settled S L i (fst (persist_effect (owner_path S L j) (os_encode S ow) fs))"
    proof (cases "stem S j = stem S i")
      case True
      then have "owner_path S L j = owner_path S L i" by (simp add: owner_path_eq)
      then show ?thesis
        using ok assms by (auto simp: persist_effect_def settled_def idle_def bound_to_def fs_kind_insert bt_simps ledger_paths)
    next
      case False
      then show ?thesis
        using ok assms by (auto simp: persist_effect_def settled_def idle_def fs_kind_insert bt_simps ledger_paths)
    qed
  qed
  have tail: "leads (idle S L i) (settled S L i)
      (a_bind (a_io (persist_noclobber (owner_path S L j) (os_encode S ow))) (\<lambda>_. a_bind (sync_dir d) (\<lambda>_. a_return c)))" for d c
    by (intro leads_then [OF add] preserve_intros)
  show ?thesis
    unfolding publish_owner_def
    by (cases "length (ow_backend ow) > 1024") (simp_all add: leads_weaken [OF _ weaken] leads_bind tail preserve_intros weaken)
qed

lemma safe_claim:
  assumes "hash_format S" "safe_for S L i pick" "preserves (idle S L i) pick"
  shows "safe_for S L i (ledger_claim S L j body pick)"
proof -
  have weaken: "idle S L i fs \<Longrightarrow> settled S L i fs" for fs by (simp add: settled_def)
  have rest: "leads (idle S L i) (settled S L i) (if b then a_return c else a_bind pick (\<lambda>x. publish_owner S L j (f x)))" for b c f
    by (cases b) (simp_all add: leads_weaken [OF _ weaken] leads_bind publish_settles assms weaken preserve_intros)
  have "leads (idle S L i) (settled S L i) (ledger_claim S L j body pick)"
    unfolding ledger_claim_def Let_def
  proof (intro leads_bind idle_lock assms(1) weaken bound_lookup)
    fix found
    show "leads (idle S L i) (settled S L i) (case found of
        Some ow \<Rightarrow> a_return (if ow_body_hash ow = hash_str (os_hash S body) then ClaimExisting ow else ClaimConflict)
      | None \<Rightarrow> a_bind (a_io (read_dir (lg_dir L))) (\<lambda>es.
          if count_records (lg_capacity L) es \<ge> lg_capacity L then a_return ClaimFull
          else a_bind pick (\<lambda>backend. publish_owner S L j
            \<lparr>ow_version = 1, ow_backend = backend, ow_body_hash = hash_str (os_hash S body)\<rparr>)))"
      by (cases found) (simp_all add: leads_weaken [OF _ weaken] preserve_intros leads_bind [OF _ rest weaken])
  qed
  then show ?thesis using assms(2) by (simp add: safe_for_def bound_claim [OF assms(1)])
qed

text \<open>The result of a claim from each of the two states.\<close>

lemma idle_lookup:
  assumes "idle S L i (w_fs w)"
  shows "case snd (ledger_lookup S L i w) of Inr r \<Rightarrow> r = None | Inl _ \<Rightarrow> True"
proof -
  obtain w1 r where step: "read_limited 4097 (owner_path S L i) w = (w1, r)" by fastforce
  then have "\<exists>e. r = Inl e" using read_limited_Ok [of 4097 "owner_path S L i" w w1] assms by (cases r) (auto simp: idle_def)
  then obtain e where "r = Inl e" ..
  then show ?thesis using step by (cases e) (simp_all add: ledger_lookup_def a_match_def a_return_def a_result_def)
qed

lemma claim_from_idle:
  assumes "hash_format S" "preserves (idle S L i) pick" "idle S L i (w_fs w)" "ledger_claim S L i body pick w = (w', Inr c)"
  shows "(\<exists>ow. c = ClaimNew ow \<and> bound_to S L i (os_encode S ow) (w_fs w')
            \<and> (\<exists>w1 w2. idle S L i (w_fs w1) \<and> pick w1 = (w2, Inr (ow_backend ow)))) \<or> c = ClaimFull"
proof -
  note keep = preserves_step [where P = "idle S L i"]
  obtain w1 u where lock: "ledger_lock L w = (w1, Inr u)"
    using assms(4) by (auto simp: ledger_claim_def a_bind_Ok)
  note i1 = keep [OF idle_lock [OF assms(1)] lock assms(3)]
  obtain w2 found where look: "ledger_lookup S L i w1 = (w2, Inr found)"
    using assms(4) lock by (auto simp: ledger_claim_def a_bind_Ok Let_def)
  note i2 = keep [OF bound_lookup look i1]
  have found: "found = None" using idle_lookup [OF i1] look by simp
  obtain w3 es where es: "read_dir (lg_dir L) w2 = (w3, Inr es)"
    using assms(4) lock look found by (auto simp: ledger_claim_def a_bind_Ok a_io_Ok Let_def)
  note i3 = keep [OF preserves_reads(5) es i2]
  show ?thesis
  proof (cases "count_records (lg_capacity L) es \<ge> lg_capacity L")
    case True
    then show ?thesis using assms(4) lock look found es by (simp add: ledger_claim_def a_bind_def a_io_def Let_def a_return_def)
  next
    case False
    obtain w4 b where b: "pick w3 = (w4, Inr b)"
        "publish_owner S L i \<lparr>ow_version = 1, ow_backend = b, ow_body_hash = hash_str (os_hash S body)\<rparr> w4 = (w', Inr c)"
      using assms(4) lock look found es False by (auto simp: ledger_claim_def a_bind_Ok a_io_Ok Let_def)
    have i4: "idle S L i (w_fs w4)" by (rule keep [OF assms(2) b(1) i3])
    obtain ow where c: "c = ClaimNew ow" using b(2) by (auto simp: publish_owner_def a_bind_Ok split: if_splits)
    from publish_New [OF b(2) [unfolded c] assms(1)] i4 show ?thesis
      using c b(1) i3 by (auto simp: idle_def)
  qed
qed

section \<open>The capacity\<close>

definition records_in :: "path \<Rightarrow> fsys \<Rightarrow> nat" where
  "records_in dir fs = length (filter (\<lambda>(p, k). p \<noteq> [] \<and> butlast p = dir \<and> is_record p) fs)"

definition records_le :: "path \<Rightarrow> nat \<Rightarrow> fsys \<Rightarrow> bool" where
  "records_le dir n fs \<longleftrightarrow> bt_invar fs \<and> records_in dir fs \<le> n"

lemma records_insert_fresh:
  "bt_invar fs \<Longrightarrow> fs_kind fs p = None \<Longrightarrow> records_in dir (bt_insert p k fs) \<le> Suc (records_in dir fs)"
  "bt_invar fs \<Longrightarrow> fs_kind fs p = None \<Longrightarrow> \<not> is_record p \<Longrightarrow> records_in dir (bt_insert p k fs) = records_in dir fs"
  unfolding records_in_def
  by (simp_all add: filter_bt_insert_fresh fs_kind_def split: if_splits)

lemma filter_bt_insert_replace:
  "bt_invar fs \<Longrightarrow> bt_get fs p = Some j \<Longrightarrow> (\<And>x y. Q (p, x) = Q (p, y)) \<Longrightarrow> length (filter Q (bt_insert p k fs)) = length (filter Q fs)"
  by (induction p k fs rule: bt_insert.induct)
    (fastforce simp: bt_get_Cons bt_invar_def dest: bt_get_in_set split: if_splits)+

lemma records_replace:
  "bt_invar fs \<Longrightarrow> fs_kind fs p = Some j \<Longrightarrow> p \<noteq> [] \<Longrightarrow> records_in dir (bt_insert p k fs) = records_in dir fs"
  unfolding records_in_def by (rule filter_bt_insert_replace) (auto simp: fs_kind_def)

lemma records_remove: "records_in dir (bt_remove p fs) \<le> records_in dir fs"
  unfolding records_in_def bt_remove_def by (induction fs) auto

lemma not_record:
  "\<not> is_record (d @ [''ownership.lock''])" "s \<noteq> [] \<Longrightarrow> \<not> is_record (d @ [s @ ''.retired''])"
  using stem_extension(2) [of "''ownership''" "''lock''"] stem_extension(2) [of s "''retired''"]
  by (simp_all add: is_record_def)

lemma records_le_create:
  assumes "\<not> is_record p" "p \<noteq> []" "records_le dir n fs"
  shows "records_le dir n (fst (create_effect clear p fs))"
proof (cases "fs_kind fs p")
  case None
  then show ?thesis
    using assms by (simp add: create_effect_def records_le_def records_insert_fresh(2) bt_simps)
next
  case (Some k)
  then show ?thesis
    using assms by (cases k) (simp_all add: create_effect_def records_le_def records_replace bt_simps)
qed

lemma records_le_remove [preserve_intros]: "preserves (records_le dir n) (remove_file p)"
  unfolding remove_file_def
  by (rule preserves_call)
    (auto simp: remove_effect_def records_le_def bt_simps intro: order_trans [OF records_remove] split: option.split node.split)

lemma records_le_lock [preserve_intros]: "preserves (records_le dir n) (ledger_lock L)"
  unfolding ledger_lock_def open_or_create_def
  by (intro preserve_intros preserves_call records_le_create not_record) simp_all

lemma records_le_remove_locked [preserve_intros]: "preserves (records_le dir n) (remove_locked L rec)"
  unfolding remove_locked_def by (intro preserve_intros)

lemma records_le_sweep_entries [preserve_intros]: "preserves (records_le dir n) (sweep_entries elapsed L q m ms)"
  by (induction ms arbitrary: m)
    (auto simp: Let_def intro!: preserve_intros split: sum.split bool.split IoKind.split)

lemma records_le_retire:
  assumes "hash_format S"
  shows "preserves (records_le dir n) (ledger_retire S elapsed L i q)"
proof -
  have "preserves (records_le dir n) (create_file (retired_path S L i))"
    unfolding create_file_def retired_path_eq [OF assms]
    by (intro preserves_call records_le_create not_record) (use stem_plain [OF assms] in auto)
  then show ?thesis
    unfolding ledger_retire_def Let_def
    by (auto intro!: preserve_intros split: sum.split bool.split IoKind.split)
qed

lemma sweep_records: "preserves (records_le dir n) (sweep_retired elapsed L q)"
  unfolding sweep_retired_def by (intro preserve_intros)

lemma publish_adds_one: "leads (records_le dir n) (records_le dir (Suc n)) (publish_owner S L i ow)"
proof -
  let ?P = "records_le dir n" and ?Q = "records_le dir (Suc n)"
  have weaken: "?P fs \<Longrightarrow> ?Q fs" for fs by (simp add: records_le_def)
  have add: "leads ?P ?Q (a_io (persist_noclobber p b))" for p b
    unfolding persist_noclobber_def
  proof (rule leads_call [OF _ weaken])
    fix fs assume "?P fs"
    then show "?Q (fst (persist_effect p b fs))"
      using records_insert_fresh(1) [of fs p dir "File b"] by (auto simp: persist_effect_def records_le_def bt_simps)
  qed
  have tail: "leads ?P ?Q (a_bind (a_io (persist_noclobber p b)) (\<lambda>_. a_bind (sync_dir d) (\<lambda>_. a_return (ClaimNew ow))))" for p b d
    by (intro leads_then [OF add] preserve_intros)
  show ?thesis
    unfolding publish_owner_def
    by (cases "length (ow_backend ow) > 1024") (simp_all add: leads_weaken [OF _ weaken] leads_bind tail preserve_intros weaken)
qed

lemma claim_within_capacity:
  assumes "\<And>n. preserves (records_le (lg_dir L) n) pick"
  shows "preserves (records_le (lg_dir L) (lg_capacity L)) (ledger_claim S L i body pick)"
proof -
  let ?P = "records_le (lg_dir L) (lg_capacity L)"
  have "preserves ?P (a_bind (a_io (read_dir (lg_dir L))) (\<lambda>es.
      if count_records (lg_capacity L) es \<ge> lg_capacity L then a_return ClaimFull
      else a_bind pick (\<lambda>backend. publish_owner S L i (f backend))))" for f
    unfolding preserves_def
  proof (intro allI impI)
    fix w :: world assume ok: "?P (w_fs w)"
    obtain w1 r where step: "read_dir (lg_dir L) w = (w1, r)" by fastforce
    then have same: "w_fs w1 = w_fs w" using read_dir_same [of "lg_dir L" w] by simp
    let ?rest = "\<lambda>es. if count_records (lg_capacity L) es \<ge> lg_capacity L then a_return ClaimFull
      else a_bind pick (\<lambda>backend. publish_owner S L i (f backend))"
    have "?P (w_fs (fst (?rest es w1)))" if r: "r = Inr es" for es
    proof (cases "count_records (lg_capacity L) es \<ge> lg_capacity L")
      case False
      have "es = filter (\<lambda>(p, k). p \<noteq> [] \<and> butlast p = lg_dir L) (w_fs w)"
        using io_call_Ok [OF step [unfolded r read_dir_def]] by (auto split: if_splits)
      then have "length (filter (\<lambda>(p, k). is_record p) es) = records_in (lg_dir L) (w_fs w)"
        by (simp add: records_in_def case_prod_unfold conj_ac)
      then have few: "records_in (lg_dir L) (w_fs w) < lg_capacity L"
        using False by (simp add: count_records_def)
      then have "records_le (lg_dir L) (lg_capacity L - 1) (w_fs w1)" using ok same by (auto simp: records_le_def)
      moreover have "leads (records_le (lg_dir L) (lg_capacity L - 1)) ?P (a_bind pick (\<lambda>backend. publish_owner S L i (f backend)))"
        using publish_adds_one [of "lg_dir L" "lg_capacity L - 1"] few assms
        by (intro leads_bind) (auto simp: records_le_def)
      ultimately show ?thesis using False by (simp add: leads_def)
    qed (use ok same in \<open>simp add: a_return_def\<close>)
    then show "?P (w_fs (fst (a_bind (a_io (read_dir (lg_dir L))) ?rest w)))"
      using step ok same by (cases r) (simp_all add: a_bind_def a_io_def)
  qed
  then show ?thesis
    unfolding ledger_claim_def Let_def by (auto intro!: preserve_intros split: option.split)
qed

text \<open>
  A ledger never holds more records than its capacity, whatever operations run on it and
  whichever of their calls fail: markers and the lock file are not counted, a claim adds at most
  one record and only below the capacity, and no other operation adds any.
\<close>

theorem ledger_within_capacity:
  assumes "hash_format S" "bt_invar (w_fs w)" "records_in (lg_dir L) (w_fs w) \<le> lg_capacity L"
  shows "records_in (lg_dir L) (w_fs (run_final (ledger_step S L) w ops)) \<le> lg_capacity L"
proof -
  let ?P = "records_le (lg_dir L) (lg_capacity L)"
  have step: "?P (w_fs (fst (ledger_step S L op w)))" if "?P (w_fs w)" for op w
  proof -
    note keep = preservesD [where P = ?P, OF _ that]
    show ?thesis
      using keep [OF bound_lookup] keep [OF claim_within_capacity] keep [OF records_le_retire [OF assms(1)]]
        keep [OF sweep_records]
      by (cases op) (simp_all add: preserves_basic)
  qed
  have "?P (w_fs w) \<Longrightarrow> ?P (w_fs (run_final (ledger_step S L) w ops))" for w
    by (induction ops arbitrary: w) (simp_all add: step)
  from this [of w] have "?P (w_fs (run_final (ledger_step S L) w ops))" using assms(2,3) by (simp add: records_le_def)
  then show ?thesis by (simp add: records_le_def)
qed

section \<open>A concrete ledger\<close>

definition sample_owner_serde :: OwnerSerde where
  "sample_owner_serde =
     \<lparr>os_encode = (\<lambda>ow. [1]),
      os_decode = (\<lambda>b. Some \<lparr>ow_version = 1, ow_backend = ''http://a'', ow_body_hash = ''blake3:'' @ replicate 64 (CHR ''b'')\<rparr>),
      os_hash = (\<lambda>b. Hash (''blake3:'' @ replicate 64 (if b = [] then CHR ''a'' else CHR ''b'')))\<rparr>"

definition sample_ledger :: Ledger where
  "sample_ledger = \<lparr>lg_dir = [''own''], lg_capacity = 2\<rparr>"

definition sample_ledger_world :: "fault list \<Rightarrow> world" where
  "sample_ledger_world fls = \<lparr>w_fs = [([''own''], Dir)], w_faults = fls, w_mtime = (\<lambda>_. 0)\<rparr>"

lemma sample_hash_format: "hash_format sample_owner_serde"
  by (auto simp: hash_format_def sample_owner_serde_def valid_hash_str_iff rust_std list_all_iff)

definition sample_ledger_run :: "ledger_op list \<Rightarrow> fault list \<Rightarrow> world" where
  "sample_ledger_run ops fls = run_final (ledger_step sample_owner_serde sample_ledger) (sample_ledger_world fls) ops"

definition sample_node_owner :: Owner where
  "sample_node_owner = \<lparr>ow_version = 1, ow_backend = ''http://a'', ow_body_hash = ''blake3:'' @ replicate 64 (CHR ''b'')\<rparr>"

lemma ledger_sample_claim:
  "\<exists>w1. ledger_claim sample_owner_serde sample_ledger [] [7] (a_result (Ok ''http://a'')) (sample_ledger_world []) =
     (w1, Ok (ClaimNew sample_node_owner))"
proof -
  have "snd (ledger_claim sample_owner_serde sample_ledger [] [7] (a_result (Ok ''http://a'')) (sample_ledger_world [])) =
     Ok (ClaimNew sample_node_owner)"
    by code_simp
  then show ?thesis by (metis prod.collapse)
qed

theorem owner_never_rebound_witness:
  "\<exists>w1. ledger_claim sample_owner_serde sample_ledger [] [7] (a_result (Ok ''http://a'')) (sample_ledger_world []) =
          (w1, Ok (ClaimNew sample_node_owner))
      \<and> (case snd (ledger_claim sample_owner_serde sample_ledger [] [] (a_result (Ok ''http://b''))
             (run_final (ledger_step sample_owner_serde sample_ledger) w1 [SweepOp (\<lambda>_. Some 9) 1])) of
           Inr c \<Rightarrow> c = ClaimConflict | Inl _ \<Rightarrow> True)"
proof -
  obtain w1 where w1: "ledger_claim sample_owner_serde sample_ledger [] [7] (a_result (Ok ''http://a'')) (sample_ledger_world []) =
      (w1, Ok (ClaimNew sample_node_owner))"
    using ledger_sample_claim by blast
  have ok: "os_decode sample_owner_serde (os_encode sample_owner_serde sample_node_owner) = Some sample_node_owner"
      "bt_invar (w_fs (sample_ledger_world []))"
      "fs_kind (w_fs (sample_ledger_world [])) (retired_path sample_owner_serde sample_ledger []) = None"
    and other: "os_hash sample_owner_serde [] = os_hash sample_owner_serde [7] \<longleftrightarrow> False"
    by (simp_all add: sample_owner_serde_def sample_node_owner_def sample_ledger_world_def bt_invar_def fs_kind_def bt_get_def
        retired_path_def with_extension_def owner_path_eq sample_ledger_def)
  have "list_all (\<lambda>op. \<not> retires sample_owner_serde [] op) [SweepOp (\<lambda>_. Some 9) 1]" by simp
  from owner_never_rebound [OF sample_hash_format ok w1 this, of "[]" "a_result (Ok ''http://b'')", unfolded other if_False Let_def]
  show ?thesis using w1 by blast
qed

theorem ledger_within_capacity_witness:
  "records_in [''own''] (w_fs (sample_ledger_run [ClaimOp [] [7] (Ok ''http://a''), ClaimOp ''x'' [] (Ok ''http://a'')] [Runs, Runs, Fails])) \<le> 2"
  using ledger_within_capacity [OF sample_hash_format, of "sample_ledger_world [Runs, Runs, Fails]" sample_ledger
      "[ClaimOp [] [7] (Ok ''http://a''), ClaimOp ''x'' [] (Ok ''http://a'')]"]
  by (simp add: sample_ledger_run_def sample_ledger_def sample_ledger_world_def bt_invar_def records_in_def)

text \<open>
  \<open>remove_locked\<close> unlinks the record before its marker. When the second call fails, or the process
  ends between the two, the marker stays; a later claim binds the identity again, and the next
  sweep after the quarantine removes that record although nobody has retired it. The test
  of the sources says that records that are not retired are never swept, however old.
\<close>

lemma stale_marker_sweeps_live_record:
  "let before = [ClaimOp [] [7] (Ok ''http://a''), RetireOp (\<lambda>_. Some 0) [] 600, SweepOp (\<lambda>_. Some 600) 600];
       faults = replicate 23 Runs @ [Fails];
       live = before @ [ClaimOp [] [7] (Ok ''http://b'')];
       p = owner_path sample_owner_serde sample_ledger []
   in fs_kind (w_fs (sample_ledger_run before faults)) p = None
      \<and> fs_kind (w_fs (sample_ledger_run live faults)) p = Some (File [1])
      \<and> fs_kind (w_fs (sample_ledger_run (live @ [SweepOp (\<lambda>_. Some 600) 600]) faults)) p = None"
  by code_simp

end
