(* ===== verification/Contract.thy ===== *)
theory Contract
  imports JsonText
begin

text \<open>
  \<open>celln-cli/src/tenancy_contract.rs\<close>: the bounded, integer-only canonical JSON of the
  authorization contract, and the identity of a scoped operation, under which the dispatcher
  keeps prepared material and the router binds a node.

  Parameters: the tokenizer of \<open>serde_json\<close> (with whether it reached the end), its writer, its
  serializer, and SHA-256.
\<close>

section \<open>Strict decoding\<close>

definition CONTRACT_MAX_BYTES :: nat where "CONTRACT_MAX_BYTES = 262144"
definition MAX_INTEGER :: int where "MAX_INTEGER = 9007199254740991"

fun strict :: "Raw \<Rightarrow> string + Value"
and strict_seq :: "Raw list \<Rightarrow> Value list \<Rightarrow> string + Value"
and strict_map :: "(string \<times> Raw) list \<Rightarrow> (string, Value) btree \<Rightarrow> string + Value" where
  "strict RNull = Ok VNull"
| "strict (RBool b) = Ok (VBool b)"
| "strict (RStr s) = Ok (VString s)"
| "strict (RI64 v) =
     (if sint v < - MAX_INTEGER \<or> sint v > MAX_INTEGER then Err ''integer outside safe range''
      else Ok (VNumber (number_of_i64 v)))"
| "strict (RU64 v) = (if uint v > MAX_INTEGER then Err ''integer outside safe range'' else Ok (VNumber (PosInt v)))"
| "strict (RF64 _) = Err ''invalid type''"
| "strict (RSeq rs) = strict_seq rs []"
| "strict (RMap rs) = strict_map rs []"
| "strict_seq [] out = Ok (VArray out)"
| "strict_seq (r # rs) out = (case strict r of Inl e \<Rightarrow> Inl e | Inr v \<Rightarrow> strict_seq rs (out @ [v]))"
| "strict_map [] out = Ok (VObject out)"
| "strict_map ((key, r) # rs) out =
     (if bt_contains_key out key then Err ''duplicate JSON key''
      else (case strict r of Inl e \<Rightarrow> Inl e | Inr v \<Rightarrow> strict_map rs (bt_insert key v out)))"

section \<open>Canonical text\<close>

text \<open>\<open>str::encode_utf16\<close> on UTF-8: characters beyond the basic plane are two units.\<close>

fun utf16_units :: "nat list \<Rightarrow> nat list" where
  "utf16_units [] = []"
| "utf16_units (a # s) =
     (if a < 128 then a # utf16_units s
      else if a < 224 then
        (case s of b # s' \<Rightarrow> ((a mod 32) * 64 + b mod 64) # utf16_units s' | [] \<Rightarrow> [])
      else if a < 240 then
        (case s of b # c # s' \<Rightarrow> ((a mod 16) * 4096 + (b mod 64) * 64 + c mod 64) # utf16_units s' | _ \<Rightarrow> [])
      else
        (case s of
           b # c # d # s' \<Rightarrow>
             (let x = (a mod 8) * 262144 + (b mod 64) * 4096 + (c mod 64) * 64 + d mod 64 - 65536
              in (55296 + x div 1024) # (56320 + x mod 1024) # utf16_units s')
         | _ \<Rightarrow> []))"

definition encode_utf16 :: "string \<Rightarrow> nat list" where
  "encode_utf16 s = utf16_units (map of_char s)"

definition contract_encode :: "JsonWriter \<Rightarrow> Value \<Rightarrow> bytes" where
  "contract_encode W v = json_text encode_utf16 W v"

record ContractSerde =
  cn_document :: "bytes \<Rightarrow> (Raw \<times> bool) option"
  cn_writer :: JsonWriter
  cn_to_vec :: "Value \<Rightarrow> bytes option"
  cn_digest :: "bytes \<Rightarrow> string"

definition contract_canonical :: "ContractSerde \<Rightarrow> bytes \<Rightarrow> string + bytes" where
  "contract_canonical D raw =
     (if raw = [] \<or> length raw > CONTRACT_MAX_BYTES then Err ''size exceeded''
      else (case cn_document D raw of
              None \<Rightarrow> Err ''invalid I-JSON''
            | Some (r, at_end) \<Rightarrow>
                (case strict r of
                   Inl _ \<Rightarrow> Err ''invalid I-JSON''
                 | Inr v \<Rightarrow> if at_end then Ok (contract_encode (cn_writer D) v) else Err ''trailing JSON'')))"

section \<open>Identity of a scoped operation\<close>

text \<open>\<open>value["key"]\<close>: absent keys and values that are no objects give \<open>Null\<close>.\<close>

definition vindex :: "Value \<Rightarrow> string \<Rightarrow> Value" where
  "vindex v k = (case v of VObject m \<Rightarrow> (case bt_get m k of Some x \<Rightarrow> x | None \<Rightarrow> VNull) | _ \<Rightarrow> VNull)"

definition operation_source :: "Value \<Rightarrow> Value" where
  "operation_source operation = vindex (vindex (vindex operation ''resolution'') ''execution'') ''source''"

definition operation_tuple :: "Value \<Rightarrow> Value \<Rightarrow> Value" where
  "operation_tuple operation decision =
     (let source = operation_source operation; parent = vindex decision ''parent'' in
      VArray [VString ''celln.scoped-operation/v1'', vindex source ''clusterId'', vindex source ''namespaceUid'',
        vindex source ''runUid'', vindex parent ''incarnation'', vindex parent ''turnId''])"

definition scoped_operation_id :: "ContractSerde \<Rightarrow> Value \<Rightarrow> Value \<Rightarrow> string + string" where
  "scoped_operation_id D operation decision =
     (case cn_to_vec D (operation_tuple operation decision) of
        None \<Rightarrow> Err ''invalid scoped operation identity''
      | Some raw \<Rightarrow> (case contract_canonical D raw of Inl e \<Rightarrow> Inl e | Inr text \<Rightarrow> Ok (cn_digest D text)))"

section \<open>What strict decoding accepts\<close>

fun raw_strict :: "Raw \<Rightarrow> bool" where
  "raw_strict (RI64 v) \<longleftrightarrow> sint v \<in> {- MAX_INTEGER..MAX_INTEGER}"
| "raw_strict (RU64 v) \<longleftrightarrow> uint v \<le> MAX_INTEGER"
| "raw_strict (RF64 _) \<longleftrightarrow> False"
| "raw_strict (RSeq rs) \<longleftrightarrow> (\<forall>r \<in> set rs. raw_strict r)"
| "raw_strict (RMap rs) \<longleftrightarrow> distinct (map fst rs) \<and> (\<forall>(k, r) \<in> set rs. raw_strict r)"
| "raw_strict _ \<longleftrightarrow> True"

lemma strict_spec:
  "strict r = Inr v \<longleftrightarrow> raw_strict r \<and> v = raw_value r"
  "strict_seq rs out = Inr v \<longleftrightarrow> (\<forall>r \<in> set rs. raw_strict r) \<and> v = VArray (out @ map raw_value rs)"
  "bt_invar m \<Longrightarrow> strict_map ks m = Inr v \<longleftrightarrow>
     distinct (map fst ks) \<and> fst ` set ks \<inter> fst ` set m = {} \<and> (\<forall>(k, r) \<in> set ks. raw_strict r)
     \<and> v = VObject (foldl (\<lambda>m (k, v). bt_insert k v m) m (map (\<lambda>(k, r). (k, raw_value r)) ks))"
proof (induction r and rs out and ks m arbitrary: v and v and v rule: strict_strict_seq_strict_map.induct)
  case (10 r rs out)
  show ?case
  proof (cases "strict r")
    case (Inr x)
    then show ?thesis using "10.IH"(1) [of x] "10.IH"(2) [OF Inr, of v] by auto
  qed (use "10.IH"(1) [of "raw_value r"] in auto)
next
  case (12 key r rs out)
  show ?case
  proof (cases "bt_contains_key out key")
    case False
    show ?thesis
    proof (cases "strict r")
      case (Inr x)
      then show ?thesis
        using "12.IH"(1) [OF False, of x] "12.IH"(2) [OF False Inr, of v] "12.prems" False bt_insert_keys [of key x out]
        by (auto simp: bt_invar_insert bt_contains_key_set)
    qed (use "12.IH"(1) [OF False, of "raw_value r"] False in auto)
  qed (auto simp: bt_contains_key_set)
qed (auto simp: bt_invar_def)


section \<open>Identities are never shared\<close>

lemma json_ok_vindex: "json_ok v \<Longrightarrow> json_ok (vindex v k)"
  by (cases v) (force simp: vindex_def dest: bt_get_in_set split: option.split)+

lemma json_ok_tuple: "json_ok operation \<Longrightarrow> json_ok decision \<Longrightarrow> json_ok (operation_tuple operation decision)"
  by (simp add: operation_tuple_def operation_source_def json_ok_vindex Let_def)

text \<open>\<open>serde_json\<close> reads back what it has written.\<close>

definition reads_back :: "ContractSerde \<Rightarrow> Value \<Rightarrow> bool" where
  "reads_back D v \<longleftrightarrow>
     (case cn_to_vec D v of
        None \<Rightarrow> True
      | Some raw \<Rightarrow> (case cn_document D raw of Some (r, _) \<Rightarrow> raw_value r = v | None \<Rightarrow> False))"

lemma scoped_operation_id_text:
  assumes "reads_back D (operation_tuple operation decision)" "scoped_operation_id D operation decision = Ok i"
  shows "i = cn_digest D (contract_encode (cn_writer D) (operation_tuple operation decision))"
  using assms by (auto simp: scoped_operation_id_def reads_back_def contract_canonical_def strict_spec(1)
      split: option.splits sum.splits if_splits)

text \<open>
  C20: Two operations have the same identity only when they are the same run of the same
  namespace and cluster, for the same parent incarnation and the same turn (or none): what is
  prepared for one is never found under another. Assumed are the writer's documented
  behaviour, that \<open>serde_json\<close> reads back the two tuples, decoded values as it holds them, and no
  hash collision on the two texts.
\<close>

theorem scoped_identity_binds:
  assumes "writer_ok (cn_writer D)"
    and "json_ok op1" "json_ok d1" "json_ok op2" "json_ok d2"
    and "reads_back D (operation_tuple op1 d1)" "reads_back D (operation_tuple op2 d2)"
    and "inj_on (cn_digest D) (contract_encode (cn_writer D) ` {operation_tuple op1 d1, operation_tuple op2 d2})"
    and "scoped_operation_id D op1 d1 = Ok i" "scoped_operation_id D op2 d2 = Ok i"
  shows "map (vindex (operation_source op1)) [''clusterId'', ''namespaceUid'', ''runUid''] =
           map (vindex (operation_source op2)) [''clusterId'', ''namespaceUid'', ''runUid'']
         \<and> map (vindex (vindex d1 ''parent'')) [''incarnation'', ''turnId''] =
           map (vindex (vindex d2 ''parent'')) [''incarnation'', ''turnId'']"
proof -
  let ?t1 = "operation_tuple op1 d1" and ?t2 = "operation_tuple op2 d2"
  let ?e = "contract_encode (cn_writer D)"
  have "cn_digest D (?e ?t1) = cn_digest D (?e ?t2)"
    using scoped_operation_id_text [OF assms(6,9)] scoped_operation_id_text [OF assms(7,10)] by simp
  then have "?e ?t1 @ [] = ?e ?t2 @ []" using assms(8) by (auto dest: inj_onD)
  then have "?t1 = ?t2 \<and> ([] :: bytes) = []"
    unfolding contract_encode_def
    by (rule json_text_inj [OF assms(1), rotated 4]) (simp_all add: json_ok_tuple assms(2-5) delimited_def)
  then show ?thesis by (simp add: operation_tuple_def Let_def)
qed

definition sample_operation :: "string \<Rightarrow> Value" where
  "sample_operation run =
     VObject [(''resolution'', VObject [(''execution'', VObject [(''source'',
       VObject [(''clusterId'', VString ''c''), (''namespaceUid'', VString ''n''), (''runUid'', VString run)])])])]"

definition sample_raw :: "string \<Rightarrow> Raw" where
  "sample_raw run = RSeq [RStr ''celln.scoped-operation/v1'', RStr ''c'', RStr ''n'', RStr run, RNull, RNull]"

definition sample_contract :: ContractSerde where
  "sample_contract =
     \<lparr>cn_document = (\<lambda>b. Some (sample_raw (if b = [1] then ''one'' else ''two''), True)),
      cn_writer = frame_writer,
      cn_to_vec = (\<lambda>v. Some (if v = operation_tuple (sample_operation ''one'') VNull then [1] else [2])),
      cn_digest = (\<lambda>b. hash_str (frame_hash b))\<rparr>"

lemma sample_tuple:
  "operation_tuple (sample_operation run) VNull =
     VArray [VString ''celln.scoped-operation/v1'', VString ''c'', VString ''n'', VString run, VNull, VNull]"
  by (simp add: operation_tuple_def operation_source_def vindex_def sample_operation_def bt_get_def Let_def)

theorem scoped_identity_binds_witness:
  "\<exists>i j. scoped_operation_id sample_contract (sample_operation ''one'') VNull = Ok i
        \<and> scoped_operation_id sample_contract (sample_operation ''two'') VNull = Ok j \<and> i \<noteq> j"
proof -
  let ?id = "\<lambda>run. scoped_operation_id sample_contract (sample_operation run) VNull"
  have ok: "\<exists>i. ?id run = Ok i" for run
    by (auto simp: scoped_operation_id_def contract_canonical_def sample_contract_def CONTRACT_MAX_BYTES_def sample_raw_def)
  then obtain i j where ij: "?id ''one'' = Ok i" "?id ''two'' = Ok j" by blast
  have j: "json_ok (sample_operation run)" for run by (simp add: sample_operation_def bt_invar_def)
  have r: "reads_back sample_contract (operation_tuple (sample_operation run) VNull)" if "run \<in> {''one'', ''two''}" for run
    using that by (auto simp: reads_back_def sample_contract_def sample_tuple sample_raw_def)
  have inj: "inj_on (cn_digest sample_contract) S" for S
    using frame_hash_inj by (auto simp: sample_contract_def inj_on_def hash.expand)
  have "i \<noteq> j"
  proof
    assume "i = j"
    from scoped_identity_binds [of sample_contract "sample_operation ''one''" VNull "sample_operation ''two''" VNull i,
        OF _ j _ j _ r r inj] ij this
    have "map (vindex (operation_source (sample_operation ''one''))) [''clusterId'', ''namespaceUid'', ''runUid''] =
        map (vindex (operation_source (sample_operation ''two''))) [''clusterId'', ''namespaceUid'', ''runUid'']"
      by (simp add: sample_contract_def frame_writer_ok)
    then show False by (simp add: operation_source_def vindex_def sample_operation_def bt_get_def)
  qed
  then show ?thesis using ij by blast
qed

end
