(* ===== verification/Router.thy ===== *)
theory Router
  imports Ledger Contract
begin

text \<open>
  \<open>celln-cli/src/router.rs\<close> and \<open>router_parents.rs\<close>: placing work on a node, forwarding a
  submission, an execution's status, and the requests of a parent. What is sent to a node is
  kept in a trace, every attempt to connect included; probes of a node's health are not.

  Parameters of one request, which may differ from request to request: the nodes known now,
  what they answer (or that the exchange failed), the random start, the credentials as read
  from their files, and the JSON decoders.
\<close>

section \<open>Placement\<close>

datatype RoutingMode = RoundRobin | Random

record HealthNode =
  hl_live_cells :: u32
  hl_max_cells :: u32
  hl_memory_bytes :: u64

record Health =
  hl_ok :: bool
  hl_kvm :: bool
  hl_node :: "HealthNode option"

record RouterEnv =
  rv_mode :: RoutingMode
  rv_static :: "string list"
  rv_discovered :: "string list option"
  rv_random :: nat
  rv_get :: "string \<Rightarrow> string \<Rightarrow> string option"
  rv_post :: "string \<Rightarrow> string \<Rightarrow> bytes \<Rightarrow> string option"
  rv_exchange :: "string \<Rightarrow> string \<Rightarrow> string \<Rightarrow> bytes \<Rightarrow> string option"
  rv_health :: "string \<Rightarrow> Health option"
  rv_json :: "bytes \<Rightarrow> Value option"
  rv_create :: "bytes \<Rightarrow> (string \<times> string) option"
  rv_client_token :: "string option"
  rv_token :: "string option"
  rv_capability_token :: "string option option"
  rv_parent_token :: "string option option"
  rv_scoped_token :: "string option option"

text \<open>FNV-1a on 64 bits.\<close>

definition fnv1a :: "bytes \<Rightarrow> u64" where
  "fnv1a bs = foldl (\<lambda>h b. xor h (ucast b) * 0x100000001b3) 0xcbf29ce484222325 bs"

definition Health_spare :: "Health \<Rightarrow> u32 \<times> u64" where
  "Health_spare h =
     (let node = (case hl_node h of Some n \<Rightarrow> n | None \<Rightarrow> \<lparr>hl_live_cells = 0, hl_max_cells = 0, hl_memory_bytes = 0\<rparr>) in
      (if hl_max_cells node \<ge> hl_live_cells node then hl_max_cells node - hl_live_cells node else 0,
       hl_memory_bytes node))"

text \<open>The order of pairs.\<close>

definition spare_less :: "u32 \<times> u64 \<Rightarrow> u32 \<times> u64 \<Rightarrow> bool" where
  "spare_less a b = (fst a < fst b \<or> fst a = fst b \<and> snd a < snd b)"

definition parse_status :: "string \<Rightarrow> u16" where
  "parse_status response =
     (case str_lines (as_bytes response) of
        [] \<Rightarrow> 502
      | line # _ \<Rightarrow>
          (case split_whitespace (bytes_str line) of
             _ # code # _ \<Rightarrow> (case parse_u16 code of Some c \<Rightarrow> c | None \<Rightarrow> 502)
           | _ \<Rightarrow> 502))"

text \<open>The text behind the first occurrence of a separator.\<close>

fun after_first :: "string \<Rightarrow> string \<Rightarrow> string option" where
  "after_first sep s =
     (case strip_prefix sep s of Some r \<Rightarrow> Some r | None \<Rightarrow> (case s of [] \<Rightarrow> None | _ # t \<Rightarrow> after_first sep t))"

declare after_first.simps [simp del]

definition extract_body :: "string \<Rightarrow> string" where
  "extract_body response =
     (case after_first [CHR 0x0D, CHR 0x0A, CHR 0x0D, CHR 0x0A] response of
        Some b \<Rightarrow> b
      | None \<Rightarrow> (case after_first [CHR 0x0A, CHR 0x0A] response of Some b \<Rightarrow> b | None \<Rightarrow> []))"

text \<open>\<open>as_str\<close> of the member of an object.\<close>

definition vstring :: "Value \<Rightarrow> string option" where
  "vstring v = (case v of VString s \<Rightarrow> Some s | _ \<Rightarrow> None)"

definition extract_id :: "RouterEnv \<Rightarrow> bytes \<Rightarrow> string option" where
  "extract_id E body = (case rv_json E body of None \<Rightarrow> None | Some v \<Rightarrow> vstring (vindex v ''id''))"

definition router_backends :: "RouterEnv \<Rightarrow> string list" where
  "router_backends E =
     (case rv_discovered E of
        None \<Rightarrow> rv_static E
      | Some urls \<Rightarrow> foldl (\<lambda>us u. if u \<in> set us then us else us @ [u]) (rv_static E) urls)"

definition forward_get :: "RouterEnv \<Rightarrow> string \<Rightarrow> string \<Rightarrow> string option" where
  "forward_get E backend path = (case backend_to_addr backend of Inl _ \<Rightarrow> None | Inr _ \<Rightarrow> rv_get E backend path)"

definition forward_post :: "RouterEnv \<Rightarrow> string \<Rightarrow> string \<Rightarrow> bytes \<Rightarrow> string option" where
  "forward_post E backend path body = (case backend_to_addr backend of Inl _ \<Rightarrow> None | Inr _ \<Rightarrow> rv_post E backend path body)"

definition health_of :: "RouterEnv \<Rightarrow> string \<Rightarrow> Health option" where
  "health_of E backend =
     (case forward_get E backend ''/v1/health'' of
        None \<Rightarrow> None
      | Some resp \<Rightarrow>
          if parse_status resp \<noteq> 200 then None
          else (case rv_health E (extract_body resp) of None \<Rightarrow> None | Some h \<Rightarrow> if hl_ok h \<and> hl_kvm h then Some h else None))"

definition probe_order :: "string list \<Rightarrow> nat \<Rightarrow> string list" where
  "probe_order backends start = map (\<lambda>offset. backends ! ((start + offset) mod length backends)) [0..<length backends]"

definition better :: "RouterEnv \<Rightarrow> (string \<times> (u32 \<times> u64)) option \<Rightarrow> string \<Rightarrow> (string \<times> (u32 \<times> u64)) option" where
  "better E best backend =
     (case health_of E backend of
        None \<Rightarrow> best
      | Some h \<Rightarrow>
          (case best of
             None \<Rightarrow> Some (backend, Health_spare h)
           | Some (_, current) \<Rightarrow> if spare_less current (Health_spare h) then Some (backend, Health_spare h) else best))"

definition pick_owner :: "RouterEnv \<Rightarrow> string \<Rightarrow> AnyError + string" where
  "pick_owner E action_id =
     (let backends = router_backends E in
      if backends = [] then Err (AnyMsg ''no dispatcher backends configured or discovered'')
      else (case foldl (better E) None (probe_order backends (unat (fnv1a (as_bytes action_id)) mod length backends)) of
              Some (backend, _) \<Rightarrow> Ok backend
            | None \<Rightarrow> Err (AnyMsg ''no healthy dispatcher backends among candidates'')))"

definition pick_backend :: "RouterEnv \<Rightarrow> string \<Rightarrow> AnyError + string" where
  "pick_backend E action_id =
     (let backends = router_backends E in
      if backends = [] then Err (AnyMsg ''no dispatcher backends configured or discovered'')
      else (let start = (case rv_mode E of RoundRobin \<Rightarrow> unat (fnv1a (as_bytes action_id)) | Random \<Rightarrow> rv_random E)
                        mod length backends in
            case find (\<lambda>b. health_of E b \<noteq> None) (probe_order backends start) of
              Some b \<Rightarrow> Ok b
            | None \<Rightarrow> Err (AnyMsg ''no healthy dispatcher backends among candidates'')))"

section \<open>State and replies\<close>

text \<open>What was sent: for which identity, to which node, with which method, path and body.\<close>

datatype purpose = ForSubmission string | ForExecution string | ForPrewarm | ForProvision string | ForCreate string | ForParent string | ForScoped string

record Sent =
  sn_for :: purpose
  sn_backend :: string
  sn_method :: string
  sn_path :: string
  sn_body :: bytes

record Ledgers =
  ls_executions :: Ledger
  ls_parents :: Ledger
  ls_provisions :: Ledger
  ls_scoped_parents :: Ledger
  ls_scoped_ops :: Ledger

record RouterState =
  rt_world :: world
  rt_sent :: "Sent list"

text \<open>A reply of the router's own, a node's response passed on, or a closed connection.\<close>

datatype RouterReply = Reply nat string | RawReply string | Dropped

definition note_sent :: "Sent \<Rightarrow> RouterState \<Rightarrow> RouterState" where
  "note_sent s st = st\<lparr>rt_sent := rt_sent st @ [s]\<rparr>"

definition router_open :: "path \<Rightarrow> Ledgers aop" where
  "router_open dir =
     a_bind (Ledger_open dir 100000) (\<lambda>executions.
     a_bind (Ledger_open (dir @ [''parents'']) 100000) (\<lambda>parents.
     a_bind (Ledger_open (dir @ [''provisions'']) 100000) (\<lambda>provisions.
     a_bind (Ledger_open (dir @ [''scoped-parents'']) 100000) (\<lambda>scoped_parents.
     a_bind (Ledger_open (dir @ [''scoped-ops'']) 100000) (\<lambda>scoped_ops.
     a_return \<lparr>ls_executions = executions, ls_parents = parents, ls_provisions = provisions,
       ls_scoped_parents = scoped_parents, ls_scoped_ops = scoped_ops\<rparr>)))))"

section \<open>Executions\<close>

definition valid_path_id :: "string \<Rightarrow> bool" where
  "valid_path_id i =
     (i \<noteq> [] \<and> length i \<le> 512 \<and> i \<noteq> ''.'' \<and> i \<noteq> ''..'' \<and> list_all (\<lambda>c. is_ascii_alphanumeric c \<or> c \<in> set ''-_.'') i)"

definition strip_suffix :: "string \<Rightarrow> string \<Rightarrow> string option" where
  "strip_suffix p s = map_option rev (strip_prefix (rev p) (rev s))"

definition execution_path_id :: "string \<Rightarrow> bool \<Rightarrow> string option" where
  "execution_path_id path cancel =
     (case strip_prefix ''/v1/executions/'' path of
        None \<Rightarrow> None
      | Some suffix \<Rightarrow>
          (case (if cancel then strip_suffix ''/cancel'' suffix
                 else Some (case strip_suffix ''/audit'' suffix of Some i \<Rightarrow> i | None \<Rightarrow> suffix)) of
             None \<Rightarrow> None
           | Some i \<Rightarrow> if valid_path_id i then Some i else None))"

definition forward_owned ::
  "RouterEnv \<Rightarrow> string \<Rightarrow> string \<Rightarrow> string \<Rightarrow> string \<Rightarrow> RouterState \<Rightarrow> RouterState \<times> RouterReply" where
  "forward_owned E i backend verb path st =
     (if backend \<notin> set (router_backends E)
      then (st, Reply 503 ''recorded owner removed from configured backends; no reroute'')
      else (note_sent \<lparr>sn_for = ForExecution i, sn_backend = backend, sn_method = verb, sn_path = path, sn_body = []\<rparr> st,
            case (if verb = ''POST'' then forward_post E backend path [] else forward_get E backend path) of
              Some resp \<Rightarrow>
                if parse_status resp \<noteq> 404 then RawReply resp
                else Reply 503 ''recorded owner unavailable or outcome lost; no reroute or replay''
            | None \<Rightarrow> Reply 503 ''recorded owner unavailable or outcome lost; no reroute or replay''))"

definition forward_submission ::
  "OwnerSerde \<Rightarrow> RouterEnv \<Rightarrow> Ledgers \<Rightarrow> bytes \<Rightarrow> string option \<Rightarrow> RouterState \<Rightarrow> RouterState \<times> RouterReply" where
  "forward_submission S E Ls body pinned st =
     (if body = [] \<or> length body > 65536 then (st, Reply 413 ''request body exceeds 64 KiB or is empty'')
      else (case extract_id E body of
        None \<Rightarrow> (st, Reply 400 ''id must be a path component'')
      | Some i \<Rightarrow>
          if \<not> valid_path_id i then (st, Reply 400 ''id must be a path component'')
          else (let pick = (case pinned of Some b \<Rightarrow> Ok b | None \<Rightarrow> pick_backend E i);
                    (w, claim) = ledger_claim S (ls_executions Ls) i body (a_result pick) (rt_world st);
                    st = st\<lparr>rt_world := w\<rparr> in
            case claim of
              Inl _ \<Rightarrow> (st, Reply 503 ''ownership unavailable; retry same request without changing id'')
            | Inr ClaimConflict \<Rightarrow> (st, Reply 409 ''execution id already binds different request bytes'')
            | Inr ClaimFull \<Rightarrow> (st, Reply 503 ''ownership capacity exhausted; operator reconciliation required'')
            | Inr (ClaimExisting ow) \<Rightarrow>
                (if (case pinned of Some pin \<Rightarrow> pin \<noteq> ow_backend ow | None \<Rightarrow> False)
                 then (st, Reply 409 ''execution already binds a different backend; no reroute'')
                 else forward_owned E i (ow_backend ow) ''GET'' (''/v1/executions/'' @ i) st)
            | Inr (ClaimNew ow) \<Rightarrow>
                (note_sent \<lparr>sn_for = ForSubmission i, sn_backend = ow_backend ow, sn_method = ''POST'',
                   sn_path = ''/v1/executions'', sn_body = body\<rparr> st,
                 case forward_post E (ow_backend ow) ''/v1/executions'' body of
                   Some resp \<Rightarrow> RawReply resp
                 | None \<Rightarrow> Reply 503 ''submission outcome unknown; owner retained; POST will not be replayed''))))"

definition forward_prewarm :: "RouterEnv \<Rightarrow> bytes \<Rightarrow> string option \<Rightarrow> RouterState \<Rightarrow> RouterState \<times> RouterReply" where
  "forward_prewarm E body pinned st =
     (case pinned of
        None \<Rightarrow> (st, Reply 400 ''prewarm requires an explicit backend pin'')
      | Some backend \<Rightarrow>
          if body = [] \<or> length body > 65536 then (st, Reply 413 ''prewarm body exceeds 64 KiB or is empty'')
          else (note_sent \<lparr>sn_for = ForPrewarm, sn_backend = backend, sn_method = ''POST'',
                  sn_path = ''/v1/artifacts/prewarm'', sn_body = body\<rparr> st,
                case forward_post E backend ''/v1/artifacts/prewarm'' body of
                  Some resp \<Rightarrow> RawReply resp
                | None \<Rightarrow> Reply 503 ''pinned prewarm unavailable; no fallback''))"

definition forward_existing ::
  "OwnerSerde \<Rightarrow> RouterEnv \<Rightarrow> Ledgers \<Rightarrow> string \<Rightarrow> string \<Rightarrow> bool \<Rightarrow> RouterState \<Rightarrow> RouterState \<times> RouterReply" where
  "forward_existing S E Ls verb path cancel st =
     (case execution_path_id path cancel of
        None \<Rightarrow> (st, Dropped)
      | Some i \<Rightarrow>
          (let (w, found) = ledger_lookup S (ls_executions Ls) i (rt_world st); st = st\<lparr>rt_world := w\<rparr> in
           case found of
             Inl _ \<Rightarrow> (st, Reply 503 ''execution ownership unavailable'')
           | Inr (Some ow) \<Rightarrow> forward_owned E i (ow_backend ow) verb path st
           | Inr None \<Rightarrow> (st, Reply 404 ''unknown execution'')))"

section \<open>Credentials\<close>

text \<open>\<open>constant_time_eq\<close> of \<open>dispatch_http.rs\<close>: no early exit on the first difference.\<close>

definition constant_time_eq :: "bytes \<Rightarrow> bytes \<Rightarrow> bool" where
  "constant_time_eq left right =
     (if length left \<noteq> length right then False
      else foldl (\<lambda>acc (a, b). or acc (xor a b)) 0 (zip left right) = 0)"

definition token_eq :: "string \<Rightarrow> string \<Rightarrow> bool" where
  "token_eq a b = constant_time_eq (as_bytes a) (as_bytes b)"

text \<open>A configured file that cannot be read is \<open>Some None\<close>.\<close>

definition capability_credential :: "RouterEnv \<Rightarrow> string \<Rightarrow> string \<Rightarrow> string option option" where
  "capability_credential E client backend =
     (case rv_capability_token E of
        None \<Rightarrow> Some None
      | Some None \<Rightarrow> None
      | Some (Some token) \<Rightarrow> if token_eq token client \<or> token_eq token backend then None else Some (Some token))"

definition credentials :: "RouterEnv \<Rightarrow> (string \<times> string \<times> string option) option" where
  "credentials E =
     (case (rv_client_token E, rv_token E) of
        (Some client, Some backend) \<Rightarrow>
          if token_eq client backend then None
          else (case capability_credential E client backend of None \<Rightarrow> None | Some cap \<Rightarrow> Some (client, backend, cap))
      | _ \<Rightarrow> None)"

section \<open>Parents\<close>

definition router_hash_valid :: "string \<Rightarrow> bool" where
  "router_hash_valid i =
     (case strip_prefix ''blake3:'' i of None \<Rightarrow> False | Some h \<Rightarrow> length h = 64 \<and> list_all is_lower_hex h)"

definition turn_name_ok :: "string \<Rightarrow> bool" where
  "turn_name_ok t = (t \<noteq> [] \<and> length t \<le> 64 \<and> list_all (\<lambda>c. is_ascii_alphanumeric c \<or> c \<in> set ''_-'') t)"

definition parent_id :: "string \<Rightarrow> string \<Rightarrow> string option" where
  "parent_id verb path =
     (case strip_prefix ''/v1/parents/'' path of
        None \<Rightarrow> None
      | Some r \<Rightarrow>
          (case split_on (CHR ''/'') r of
             [] \<Rightarrow> None
           | i # rest \<Rightarrow>
               if \<not> router_hash_valid i then None
               else if (case rest of
                          [] \<Rightarrow> verb = ''GET''
                        | [a] \<Rightarrow> verb = ''POST'' \<and> a \<in> {''stop'', ''cancel'', ''turns''}
                        | [a, t] \<Rightarrow> verb = ''GET'' \<and> a = ''turns'' \<and> turn_name_ok t
                        | [a, t, c] \<Rightarrow> verb = ''POST'' \<and> a = ''turns'' \<and> c = ''cancel'' \<and> turn_name_ok t
                        | _ \<Rightarrow> False)
               then Some i else None))"

datatype ParentRoute = RouteProvision | RouteCreate | RouteOther

text \<open>The node a request of a parent goes to, or the refusal.\<close>

definition parent_owner ::
  "OwnerSerde \<Rightarrow> RouterEnv \<Rightarrow> Ledgers \<Rightarrow> ParentRoute \<Rightarrow> string \<Rightarrow> bytes \<Rightarrow> world \<Rightarrow> world \<times> (RouterReply + string)" where
  "parent_owner S E Ls route i body w =
     (case route of
        RouteProvision \<Rightarrow>
          (if (case rv_json E body of None \<Rightarrow> None | Some plan \<Rightarrow> vstring (vindex plan ''apiVersion''))
              \<noteq> Some ''celln.parent-provision-plan/v1''
           then (w, Inl (Reply 400 ''invalid parent provision plan''))
           else (case ledger_claim S (ls_provisions Ls) i body (a_result (pick_owner E i)) w of
                   (w', Inr (ClaimNew ow)) \<Rightarrow> (w', Inr (ow_backend ow))
                 | (w', Inr (ClaimExisting ow)) \<Rightarrow> (w', Inr (ow_backend ow))
                 | (w', Inr ClaimConflict) \<Rightarrow>
                     (w', Inl (Reply 409 ''parent identity already provisioned with another plan; reconcile original owner''))
                 | (w', _) \<Rightarrow> (w', Inl (Reply 503 ''parent ownership unavailable''))))
      | RouteCreate \<Rightarrow>
          (case rv_create E body of
             None \<Rightarrow> (w, Inl (Reply 400 ''invalid parent create''))
           | Some (version, profile) \<Rightarrow>
               if version \<noteq> ''celln.parent-create/v1'' \<or> \<not> router_hash_valid profile
               then (w, Inl (Reply 400 ''invalid parent create''))
               else (let pick = a_bind (ledger_lookup S (ls_provisions Ls) i) (\<lambda>found.
                       case found of Some ow \<Rightarrow> a_return (ow_backend ow) | None \<Rightarrow> a_result (pick_owner E i)) in
                     case ledger_claim S (ls_parents Ls) i body pick w of
                       (w', Inr (ClaimNew ow)) \<Rightarrow> (w', Inr (ow_backend ow))
                     | (w', Inr (ClaimExisting _)) \<Rightarrow>
                         (w', Inl (Reply 409 ''parent identity already claimed; reconcile original owner''))
                     | (w', Inr ClaimConflict) \<Rightarrow>
                         (w', Inl (Reply 409 ''parent identity already claimed; reconcile original owner''))
                     | (w', _) \<Rightarrow> (w', Inl (Reply 503 ''parent ownership unavailable''))))
      | RouteOther \<Rightarrow>
          (case ledger_lookup S (ls_parents Ls) i w of
             (w', Inr (Some ow)) \<Rightarrow> (w', Inr (ow_backend ow))
           | (w', Inr None) \<Rightarrow> (w', Inl (Reply 404 ''parent owner unknown''))
           | (w', Inl _) \<Rightarrow> (w', Inl (Reply 503 ''parent ownership unavailable''))))"

definition parent_response :: "RouterEnv \<Rightarrow> ParentRoute \<Rightarrow> string \<Rightarrow> string option \<Rightarrow> RouterReply" where
  "parent_response E route i response =
     (case response of
        None \<Rightarrow> Reply 502 ''parent outcome uncertain; reconcile original owner''
      | Some resp \<Rightarrow>
          if route \<noteq> RouteOther \<and> 200 \<le> parse_status resp \<and> parse_status resp < 300
          then (case rv_json E (as_bytes (extract_body resp)) of
                  None \<Rightarrow> Dropped
                | Some result \<Rightarrow>
                    if vstring (vindex result ''incarnation'') \<noteq> Some i
                    then Reply 502 ''parent owner returned another incarnation'' else RawReply resp)
          else RawReply resp)"

definition parent_exchange :: "RouterEnv \<Rightarrow> string \<Rightarrow> string \<Rightarrow> string \<Rightarrow> bytes \<Rightarrow> string option" where
  "parent_exchange E verb backend path body =
     (case backend_to_addr backend of Inl _ \<Rightarrow> None | Inr _ \<Rightarrow> rv_exchange E verb backend path body)"

definition parent_purpose :: "ParentRoute \<Rightarrow> string \<Rightarrow> purpose" where
  "parent_purpose route i = (case route of RouteProvision \<Rightarrow> ForProvision i | RouteCreate \<Rightarrow> ForCreate i | RouteOther \<Rightarrow> ForParent i)"

text \<open>The checks before the ledger is consulted: credentials, route, identity and length.\<close>

definition parent_request ::
  "RouterEnv \<Rightarrow> string \<Rightarrow> string \<Rightarrow> bytes \<Rightarrow> string option \<Rightarrow> RouterReply + (ParentRoute \<times> string)" where
  "parent_request E verb path body incarnation =
     (case rv_parent_token E of
        Some (Some token) \<Rightarrow>
          (case credentials E of
             None \<Rightarrow> Inl Dropped
           | Some (client, backend, capability) \<Rightarrow>
               let others = [client, backend] @ (case capability of Some c \<Rightarrow> [c] | None \<Rightarrow> [])
                              @ (case rv_scoped_token E of Some (Some t) \<Rightarrow> [t] | _ \<Rightarrow> []) in
               if list_ex (token_eq token) others then Inl (Reply 503 ''parent credential must be distinct'')
               else
                 let route = (if verb = ''POST'' \<and> path = ''/v1/parents'' then RouteCreate
                              else if verb = ''POST'' \<and> path = ''/v1/parents/provision'' then RouteProvision else RouteOther);
                     i = (if route = RouteOther then parent_id verb path
                          else case incarnation of Some x \<Rightarrow> if router_hash_valid x then Some x else None | None \<Rightarrow> None) in
                 case i of
                   None \<Rightarrow> Inl (Reply 400 ''invalid parent route or missing immutable incarnation'')
                 | Some i \<Rightarrow>
                     if length body > 65536 \<or> (verb = ''GET'' \<and> length body \<noteq> 0)
                     then Inl (Reply 400 ''invalid parent body length'') else Inr (route, i))
      | _ \<Rightarrow> Inl (Reply 503 ''parent routing is not configured''))"

definition parents_forward ::
  "OwnerSerde \<Rightarrow> RouterEnv \<Rightarrow> Ledgers \<Rightarrow> string \<Rightarrow> string \<Rightarrow> bytes \<Rightarrow> string option \<Rightarrow> RouterState \<Rightarrow> RouterState \<times> RouterReply" where
  "parents_forward S E Ls verb path body incarnation st =
     (case parent_request E verb path body incarnation of
        Inl refusal \<Rightarrow> (st, refusal)
      | Inr (route, i) \<Rightarrow>
          (case parent_owner S E Ls route i body (rt_world st) of
             (w, Inl refusal) \<Rightarrow> (st\<lparr>rt_world := w\<rparr>, refusal)
           | (w, Inr owner) \<Rightarrow>
               if owner \<notin> set (router_backends E)
               then (st\<lparr>rt_world := w\<rparr>, Reply 503 ''original parent backend removed'')
               else (note_sent \<lparr>sn_for = parent_purpose route i, sn_backend = owner, sn_method = verb,
                       sn_path = path, sn_body = body\<rparr> (st\<lparr>rt_world := w\<rparr>),
                     parent_response E route i (parent_exchange E verb owner path body))))"

section \<open>One owner per identity\<close>

definition sent_for :: "(purpose \<Rightarrow> bool) \<Rightarrow> RouterState \<Rightarrow> Sent list" where
  "sent_for P st = filter (\<lambda>e. P (sn_for e)) (rt_sent st)"

text \<open>
  The requests for an identity, \<open>mine\<close>, all went to the node its record names, and those that
  must not be repeated, \<open>once\<close>, went there at most once.
\<close>

definition one_owner ::
  "OwnerSerde \<Rightarrow> Ledger \<Rightarrow> string \<Rightarrow> (purpose \<Rightarrow> bool) \<Rightarrow> (purpose \<Rightarrow> bool) \<Rightarrow> RouterState \<Rightarrow> bool" where
  "one_owner S L i mine once st \<longleftrightarrow>
     (idle S L i (w_fs (rt_world st)) \<and> sent_for mine st = [] \<and> sent_for once st = [])
     \<or> (\<exists>ow. bound_to S L i (os_encode S ow) (w_fs (rt_world st))
           \<and> list_all (\<lambda>e. sn_backend e = ow_backend ow) (sent_for mine st) \<and> length (sent_for once st) \<le> 1)"

definition serde_law :: "OwnerSerde \<Rightarrow> bool" where
  "serde_law S \<longleftrightarrow> hash_format S \<and> (\<forall>ow. os_decode S (os_encode S ow) = Some ow)"

lemma sent_for_simps [simp]:
  "sent_for P (st\<lparr>rt_world := w\<rparr>) = sent_for P st"
  "sent_for P (note_sent e st) = sent_for P st @ (if P (sn_for e) then [e] else [])"
  "rt_world (note_sent e st) = rt_world st"
  by (simp_all add: sent_for_def note_sent_def)

lemma one_owner_world:
  assumes "safe_for S L i m" "one_owner S L i mine once st" "m (rt_world st) = (w, r)"
  shows "one_owner S L i mine once (st\<lparr>rt_world := w\<rparr>)"
proof -
  consider "idle S L i (w_fs (rt_world st))" "sent_for mine st = []" "sent_for once st = []"
    | ow where "bound_to S L i (os_encode S ow) (w_fs (rt_world st))"
        "list_all (\<lambda>e. sn_backend e = ow_backend ow) (sent_for mine st)" "length (sent_for once st) \<le> 1"
    using assms(2) by (auto simp: one_owner_def)
  then show ?thesis
  proof cases
    case 1
    then have "settled S L i (w_fs (fst (m (rt_world st))))" using assms(1) by (simp add: safe_for_def leads_def)
    then show ?thesis using 1 assms(3) by (auto simp: one_owner_def settled_def)
  next
    case 2
    then have "bound_to S L i (os_encode S ow) (w_fs w)"
      using assms(1,3) by (auto simp: safe_for_def intro: preserves_step)
    then show ?thesis using 2 by (auto simp: one_owner_def)
  qed
qed

lemma one_owner_other: "\<not> mine (sn_for e) \<Longrightarrow> \<not> once (sn_for e) \<Longrightarrow> one_owner S L i mine once st \<Longrightarrow> one_owner S L i mine once (note_sent e st)"
  by (auto simp: one_owner_def)

lemma one_owner_bound:
  assumes "bound_to S L i (os_encode S ow) (w_fs (rt_world st))" "one_owner S L i mine once st" "serde_law S"
    and "sn_backend e = ow_backend ow" "\<not> once (sn_for e)"
  shows "one_owner S L i mine once (note_sent e st)"
proof -
  obtain ow' where ow': "bound_to S L i (os_encode S ow') (w_fs (rt_world st))"
      "list_all (\<lambda>e. sn_backend e = ow_backend ow') (sent_for mine st)" "length (sent_for once st) \<le> 1"
    using assms(1,2) by (auto simp: one_owner_def idle_def bound_to_def)
  then have "os_encode S ow' = os_encode S ow" using assms(1) by (simp add: bound_to_def)
  then have "ow' = ow" using assms(3) by (metis serde_law_def option.inject)
  then show ?thesis unfolding one_owner_def using assms(1,4,5) ow' by (auto intro!: exI [of _ ow])
qed

lemma one_owner_settled: "one_owner S L i mine once st \<Longrightarrow> settled S L i (w_fs (rt_world st))"
  by (auto simp: one_owner_def settled_def)

lemma lookup_bound:
  assumes "settled S L i (w_fs w)" "serde_law S" "ledger_lookup S L i w = (w', Inr (Some ow))"
  shows "bound_to S L i (os_encode S ow) (w_fs w')"
proof -
  obtain ow' where ow': "bound_to S L i (os_encode S ow') (w_fs w)"
    using assms(1,3) idle_lookup [of S L i w] by (auto simp: settled_def)
  moreover have "ow' = ow" using bound_answers [OF ow'] assms(2,3) by (simp add: serde_law_def)
  ultimately show ?thesis
    using preserves_step [where P = "bound_to S L i (os_encode S ow)", OF bound_lookup assms(3)] by simp
qed

lemma existing_bound:
  assumes "settled S L i (w_fs w)" "serde_law S" "safe_for S L i pick" "preserves (idle S L i) pick"
    and "ledger_claim S L i body pick w = (w', Inr (ClaimExisting ow))"
  shows "bound_to S L i (os_encode S ow) (w_fs w')"
proof -
  have hf: "hash_format S" using assms(2) by (simp add: serde_law_def)
  obtain ow' where ow': "bound_to S L i (os_encode S ow') (w_fs w)"
    using assms(1,5) claim_from_idle [OF hf assms(4)] by (fastforce simp: settled_def)
  moreover have "ow' = ow" using bound_claims [OF hf ow', of body pick] assms(2,5) by (simp add: serde_law_def split: if_splits)
  ultimately show ?thesis
    using preserves_step [where P = "bound_to S L i (os_encode S ow)", OF bound_claim [OF hf] assms(5)] assms(3)
    by (simp add: safe_for_def)
qed

text \<open>A new binding is possible only while nothing has been sent.\<close>

lemma one_owner_new:
  assumes "one_owner S L i mine once st" "serde_law S" "preserves (idle S L i) pick"
    and "ledger_claim S L i body pick (rt_world st) = (w, Inr (ClaimNew ow))" "sn_backend e = ow_backend ow"
  shows "one_owner S L i mine once (note_sent e (st\<lparr>rt_world := w\<rparr>))"
proof -
  have hf: "hash_format S" using assms(2) by (simp add: serde_law_def)
  have "idle S L i (w_fs (rt_world st)) \<and> sent_for mine st = [] \<and> sent_for once st = []"
    using assms(1) unfolding one_owner_def
  proof (elim disjE exE conjE)
    fix ow' assume "bound_to S L i (os_encode S ow') (w_fs (rt_world st))"
    from bound_claims [OF hf this, of body pick] show ?thesis using assms(2,4) by (simp add: serde_law_def split: if_splits)
  qed simp
  then show ?thesis
    using claim_from_idle [OF hf assms(3) _ assms(4)] assms(5) unfolding one_owner_def by (auto intro!: exI [of _ ow])
qed

lemma safe_pure_idle: "preserves (idle S L i) (a_result r)"
  by (rule preserves_basic)

section \<open>Runs of the router\<close>

text \<open>Requests of any replica, each in its own environment, one after the other.\<close>

datatype router_op =
    SubmitOp RouterEnv bytes "string option"
  | ExistingOp RouterEnv string string bool
  | PrewarmOp RouterEnv bytes "string option"
  | ParentsOp RouterEnv string string bytes "string option"

fun router_step :: "OwnerSerde \<Rightarrow> Ledgers \<Rightarrow> router_op \<Rightarrow> RouterState \<Rightarrow> RouterState \<times> RouterReply" where
  "router_step S Ls (SubmitOp E body pinned) st = forward_submission S E Ls body pinned st"
| "router_step S Ls (ExistingOp E verb path cancel) st = forward_existing S E Ls verb path cancel st"
| "router_step S Ls (PrewarmOp E body pinned) st = forward_prewarm E body pinned st"
| "router_step S Ls (ParentsOp E verb path body incarnation) st = parents_forward S E Ls verb path body incarnation st"

definition ledgers_apart :: "Ledgers \<Rightarrow> bool" where
  "ledgers_apart Ls \<longleftrightarrow>
     distinct (map lg_dir [ls_executions Ls, ls_parents Ls, ls_provisions Ls, ls_scoped_parents Ls, ls_scoped_ops Ls])"

lemma Ledger_open_Ok: "Ledger_open dir n w = (w', Inr L) \<Longrightarrow> L = \<lparr>lg_dir = dir, lg_capacity = n\<rparr>"
  by (auto simp: Ledger_open_def a_bind_Ok split: if_splits)

lemma router_open_apart: "router_open dir w = (w', Inr Ls) \<Longrightarrow> ledgers_apart Ls"
  by (auto simp: router_open_def a_bind_Ok ledgers_apart_def dest!: Ledger_open_Ok)

text \<open>Submissions and everything later about an execution.\<close>

definition about_execution :: "string \<Rightarrow> purpose \<Rightarrow> bool" where
  "about_execution i p \<longleftrightarrow> p = ForSubmission i \<or> p = ForExecution i"

definition about_parent :: "string \<Rightarrow> purpose \<Rightarrow> bool" where
  "about_parent i p \<longleftrightarrow> p = ForCreate i \<or> p = ForParent i"

lemma execution_owned:
  assumes "one_owner S L i (about_execution i) (\<lambda>p. p = ForSubmission i) st"
    and "bound_to S L i (os_encode S ow) (w_fs (rt_world st)) \<or> j \<noteq> i" "serde_law S"
  shows "one_owner S L i (about_execution i) (\<lambda>p. p = ForSubmission i) (fst (forward_owned E j (ow_backend ow) verb path st))"
  unfolding forward_owned_def
  using assms one_owner_other [OF _ _ assms(1)] one_owner_bound [OF _ assms(1,3)]
  by (auto simp: about_execution_def)

lemma submission_keeps:
  assumes "serde_law S" and I: "one_owner S (ls_executions Ls) i (about_execution i) (\<lambda>p. p = ForSubmission i) st"
  shows "one_owner S (ls_executions Ls) i (about_execution i) (\<lambda>p. p = ForSubmission i) (fst (forward_submission S E Ls body pinned st))"
proof -
  let ?L = "ls_executions Ls"
  let ?I = "one_owner S ?L i (about_execution i) (\<lambda>p. p = ForSubmission i)"
  have hf: "hash_format S" using assms(1) by (simp add: serde_law_def)
  show ?thesis
  proof (cases "\<exists>j. body \<noteq> [] \<and> length body \<le> 65536 \<and> extract_id E body = Some j \<and> valid_path_id j")
    case False
    then show ?thesis using I by (auto simp: forward_submission_def split: option.split)
  next
    case True
    then obtain j where ok: "\<not> (body = [] \<or> length body > 65536)" "extract_id E body = Some j" "valid_path_id j" by auto
    let ?pick = "a_result (case pinned of Some b \<Rightarrow> Ok b | None \<Rightarrow> pick_backend E j)"
    obtain w c where step: "ledger_claim S ?L j body ?pick (rt_world st) = (w, c)" by fastforce
    have world: "?I (st\<lparr>rt_world := w\<rparr>)"
      by (rule one_owner_world [OF safe_claim [OF hf safe_pure safe_pure_idle] I step])
    note unfold = forward_submission_def if_not_P [OF ok(1)] ok(2,3) step Let_def
    show ?thesis
    proof (cases c)
      case (Inl e)
      then show ?thesis using world by (simp add: unfold)
    next
      case (Inr cl)
      show ?thesis
      proof (cases cl)
        case (ClaimNew ow)
        let ?e = "\<lparr>sn_for = ForSubmission j, sn_backend = ow_backend ow, sn_method = ''POST'', sn_path = ''/v1/executions'', sn_body = body\<rparr>"
        have "?I (note_sent ?e (st\<lparr>rt_world := w\<rparr>))"
        proof (cases "j = i")
          case True
          show ?thesis
            by (rule one_owner_new [OF I assms(1) safe_pure_idle step [unfolded Inr ClaimNew True]]) simp
        next
          case False
          then show ?thesis using one_owner_other [OF _ _ world, of ?e] by (simp add: about_execution_def)
        qed
        then show ?thesis using Inr ClaimNew by (simp add: unfold)
      next
        case (ClaimExisting ow)
        have "bound_to S ?L i (os_encode S ow) (w_fs w) \<or> j \<noteq> i"
          using existing_bound [OF one_owner_settled [OF I] assms(1) safe_pure safe_pure_idle] step Inr ClaimExisting by metis
        then show ?thesis
          using execution_owned [OF world _ assms(1)] world Inr ClaimExisting by (simp add: unfold)
      qed (use world Inr in \<open>simp_all add: unfold\<close>)
    qed
  qed
qed

lemma existing_keeps:
  assumes "serde_law S" and I: "one_owner S (ls_executions Ls) i (about_execution i) (\<lambda>p. p = ForSubmission i) st"
  shows "one_owner S (ls_executions Ls) i (about_execution i) (\<lambda>p. p = ForSubmission i)
           (fst (forward_existing S E Ls verb path cancel st))"
proof (cases "execution_path_id path cancel")
  case None
  then show ?thesis using I by (simp add: forward_existing_def)
next
  case (Some j)
  obtain w r where step: "ledger_lookup S (ls_executions Ls) j (rt_world st) = (w, r)" by fastforce
  have world: "one_owner S (ls_executions Ls) i (about_execution i) (\<lambda>p. p = ForSubmission i) (st\<lparr>rt_world := w\<rparr>)"
    by (rule one_owner_world [OF safe_lookup I step])
  show ?thesis
  proof (cases "\<exists>ow. r = Inr (Some ow)")
    case True
    then obtain ow where r: "r = Inr (Some ow)" by blast
    have "bound_to S (ls_executions Ls) i (os_encode S ow) (w_fs w) \<or> j \<noteq> i"
      using lookup_bound [OF one_owner_settled [OF I] assms(1)] step r by metis
    then show ?thesis
      using execution_owned [OF world _ assms(1)] r Some step by (simp add: forward_existing_def)
  next
    case False
    then show ?thesis
      using world Some step by (cases r) (auto simp: forward_existing_def split: option.split)
  qed
qed

lemma parents_forward_cases:
  obtains (refused) "fst (parents_forward S E Ls verb path body incarnation st) = st"
  | (kept) route j w r where "parent_owner S E Ls route j body (rt_world st) = (w, r)"
      "fst (parents_forward S E Ls verb path body incarnation st) = st\<lparr>rt_world := w\<rparr>"
  | (forwarded) route j w owner e where "parent_owner S E Ls route j body (rt_world st) = (w, Inr owner)"
      "sn_for e = parent_purpose route j" "sn_backend e = owner"
      "fst (parents_forward S E Ls verb path body incarnation st) = note_sent e (st\<lparr>rt_world := w\<rparr>)"
proof -
  show ?thesis
  proof (cases "parent_request E verb path body incarnation")
    case (Inl x)
    then show ?thesis by (intro refused) (simp add: parents_forward_def)
  next
    case (Inr p)
    obtain route j where p: "p = (route, j)" by fastforce
    obtain w r where step: "parent_owner S E Ls route j body (rt_world st) = (w, r)" by fastforce
    show ?thesis
    proof (cases r)
      case (Inl x)
      then show ?thesis using kept [OF step] Inr p step by (simp add: parents_forward_def)
    next
      case owner: (Inr owner)
      show ?thesis
      proof (cases "owner \<in> set (router_backends E)")
        case True
        show ?thesis
          by (rule forwarded [OF step [unfolded owner], of "\<lparr>sn_for = parent_purpose route j, sn_backend = owner,
                sn_method = verb, sn_path = path, sn_body = body\<rparr>"])
            (use True Inr p step owner in \<open>simp_all add: parents_forward_def\<close>)
      qed (use kept [OF step] owner Inr p step in \<open>simp add: parents_forward_def\<close>)
    qed
  qed
qed

lemma safe_reads: "(\<And>P. preserves P pick) \<Longrightarrow> safe_for S L i pick"
  by (simp add: safe_for_def leads_weaken settled_def)

lemma provision_pick: "preserves P (a_bind (ledger_lookup S L j) (\<lambda>found.
    case found of Some ow \<Rightarrow> a_return (ow_backend ow) | None \<Rightarrow> a_result r))"
  by (auto intro!: preserve_intros split: option.split)

text \<open>The effect of placing a parent's request is the effect of one operation of a ledger.\<close>

lemma parent_owner_world:
  "fst (parent_owner S E Ls RouteProvision j body w) = w \<or>
     fst (parent_owner S E Ls RouteProvision j body w) = fst (ledger_claim S (ls_provisions Ls) j body (a_result (pick_owner E j)) w)"
  "fst (parent_owner S E Ls RouteCreate j body w) = w \<or>
     fst (parent_owner S E Ls RouteCreate j body w) = fst (ledger_claim S (ls_parents Ls) j body
       (a_bind (ledger_lookup S (ls_provisions Ls) j) (\<lambda>found.
          case found of Some ow \<Rightarrow> a_return (ow_backend ow) | None \<Rightarrow> a_result (pick_owner E j))) w)"
  "fst (parent_owner S E Ls RouteOther j body w) = fst (ledger_lookup S (ls_parents Ls) j w)"
  by (auto simp: parent_owner_def Let_def split: prod.splits sum.splits Claim.splits option.splits if_splits)

lemma safe_alternative:
  assumes "safe_for S L i m" "\<And>w. fst (n w) = w \<or> fst (n w) = fst (m w)"
  shows "safe_for S L i n"
  unfolding safe_for_def preserves_def leads_def
proof (intro conjI allI impI)
  fix b and w :: world assume "bound_to S L i b (w_fs w)"
  then show "bound_to S L i b (w_fs (fst (n w)))"
    using assms by (metis safe_for_def preserves_def)
next
  fix w :: world assume "idle S L i (w_fs w)"
  then show "settled S L i (w_fs (fst (n w)))"
    using assms by (metis safe_for_def leads_def settled_def)
qed

lemma safe_parent_owner:
  assumes "hash_format S" "ledgers_apart Ls" "L \<in> {ls_executions Ls, ls_parents Ls, ls_scoped_parents Ls, ls_scoped_ops Ls}"
  shows "safe_for S L i (parent_owner S E Ls route j body)"
proof -
  note pure = safe_pure safe_pure_idle and reads = safe_reads [OF provision_pick] provision_pick
  have apart: "lg_dir (ls_provisions Ls) \<noteq> lg_dir L" "L = ls_parents Ls \<or> lg_dir (ls_parents Ls) \<noteq> lg_dir L"
    using assms(2,3) by (auto simp: ledgers_apart_def)
  show ?thesis
  proof (cases route)
    case RouteProvision
    show ?thesis unfolding RouteProvision
      by (rule safe_alternative [OF safe_other_claim(1) [OF apart(1) pure] parent_owner_world(1)])
  next
    case RouteCreate
    have "safe_for S L i (ledger_claim S (ls_parents Ls) j body (a_bind (ledger_lookup S (ls_provisions Ls) j) (\<lambda>found.
        case found of Some ow \<Rightarrow> a_return (ow_backend ow) | None \<Rightarrow> a_result (pick_owner E j))))"
      using apart(2) safe_claim [OF assms(1) reads] safe_other_claim(1) [OF _ reads] by blast
    from safe_alternative [OF this parent_owner_world(2)] show ?thesis unfolding RouteCreate .
  next
    case RouteOther
    show ?thesis unfolding RouteOther
      by (rule safe_alternative [OF safe_lookup disjI2]) (rule parent_owner_world(3))
  qed
qed

lemma parents_keep_executions:
  assumes "serde_law S" "ledgers_apart Ls"
    and I: "one_owner S (ls_executions Ls) i (about_execution i) (\<lambda>p. p = ForSubmission i) st"
  shows "one_owner S (ls_executions Ls) i (about_execution i) (\<lambda>p. p = ForSubmission i)
           (fst (parents_forward S E Ls verb path body incarnation st))"
proof -
  have hf: "hash_format S" using assms(1) by (simp add: serde_law_def)
  have world: "one_owner S (ls_executions Ls) i (about_execution i) (\<lambda>p. p = ForSubmission i) (st\<lparr>rt_world := w\<rparr>)"
    if "parent_owner S E Ls route j body (rt_world st) = (w, r)" for route j w r
    by (rule one_owner_world [OF safe_parent_owner [OF hf assms(2)] I that]) simp
  show ?thesis
  proof (cases rule: parents_forward_cases [of S E Ls verb path body incarnation st])
    case refused
    then show ?thesis using I by simp
  next
    case (kept route j w r)
    then show ?thesis using world by simp
  next
    case (forwarded route j w owner e)
    have "\<not> about_execution i (sn_for e)" "sn_for e \<noteq> ForSubmission i"
      using forwarded(2) by (cases route; simp add: about_execution_def parent_purpose_def)+
    then show ?thesis using one_owner_other [OF _ _ world [OF forwarded(1)]] forwarded(4) by simp
  qed
qed

lemma parents_keep_parents:
  assumes "serde_law S" "ledgers_apart Ls"
    and I: "one_owner S (ls_parents Ls) i (about_parent i) (\<lambda>p. p = ForCreate i) st"
  shows "one_owner S (ls_parents Ls) i (about_parent i) (\<lambda>p. p = ForCreate i)
           (fst (parents_forward S E Ls verb path body incarnation st))"
proof -
  let ?I = "one_owner S (ls_parents Ls) i (about_parent i) (\<lambda>p. p = ForCreate i)"
  have hf: "hash_format S" using assms(1) by (simp add: serde_law_def)
  have world: "?I (st\<lparr>rt_world := w\<rparr>)" if "parent_owner S E Ls route j body (rt_world st) = (w, r)" for route j w r
    by (rule one_owner_world [OF safe_parent_owner [OF hf assms(2)] I that]) simp
  show ?thesis
  proof (cases rule: parents_forward_cases [of S E Ls verb path body incarnation st])
    case refused
    then show ?thesis using I by simp
  next
    case (kept route j w r)
    then show ?thesis using world by simp
  next
    case (forwarded route j w owner e)
    note here = world [OF forwarded(1)]
    consider (other) "\<not> about_parent i (sn_for e)" | (create) "route = RouteCreate" "j = i" | (later) "route = RouteOther" "j = i"
      using forwarded(2) by (cases route) (auto simp: about_parent_def parent_purpose_def)
    then have "?I (note_sent e (st\<lparr>rt_world := w\<rparr>))"
    proof cases
      case other
      then show ?thesis using one_owner_other [OF _ _ here] by (auto simp: about_parent_def)
    next
      case create
      then obtain ow where ow: "ledger_claim S (ls_parents Ls) i body (a_bind (ledger_lookup S (ls_provisions Ls) i) (\<lambda>found.
          case found of Some ow \<Rightarrow> a_return (ow_backend ow) | None \<Rightarrow> a_result (pick_owner E i))) (rt_world st) =
          (w, Inr (ClaimNew ow))" "ow_backend ow = owner"
        using forwarded(1) by (auto simp: parent_owner_def Let_def split: prod.splits sum.splits Claim.splits option.splits if_splits)
      show ?thesis by (rule one_owner_new [OF I assms(1) provision_pick ow(1)]) (use forwarded(3) ow(2) in simp)
    next
      case later
      then obtain ow where ow: "ledger_lookup S (ls_parents Ls) i (rt_world st) = (w, Inr (Some ow))" "ow_backend ow = owner"
        using forwarded(1) by (auto simp: parent_owner_def split: prod.splits sum.splits option.splits)
      show ?thesis
        by (rule one_owner_bound [OF _ here assms(1)])
          (use lookup_bound [OF one_owner_settled [OF I] assms(1) ow(1)] ow(2) [symmetric] forwarded(2,3) later in
            \<open>simp_all add: parent_purpose_def\<close>)
    qed
    then show ?thesis using forwarded(4) by simp
  qed
qed

lemma executions_keep_other:
  assumes apart: "lg_dir (ls_executions Ls) \<noteq> lg_dir L" and I: "one_owner S L i mine once st"
    and others: "\<And>p j. p \<in> {ForPrewarm, ForSubmission j, ForExecution j} \<Longrightarrow> \<not> mine p \<and> \<not> once p"
  shows "one_owner S L i mine once (fst (forward_submission S E Ls body pinned st))"
    and "one_owner S L i mine once (fst (forward_existing S E Ls verb path cancel st))"
    and "one_owner S L i mine once (fst (forward_prewarm E body pinned st))"
proof -
  let ?I = "one_owner S L i mine once"
  have claim: "?I (st\<lparr>rt_world := w\<rparr>)" if "ledger_claim S (ls_executions Ls) j body (a_result r) (rt_world st) = (w, c)" for j r w c
    by (rule one_owner_world [OF safe_other_claim(1) [OF apart safe_pure safe_pure_idle] I that])
  have look: "?I (st\<lparr>rt_world := w\<rparr>)" if "ledger_lookup S (ls_executions Ls) j (rt_world st) = (w, c)" for j w c
    by (rule one_owner_world [OF safe_lookup I that])
  have note_other: "?I (note_sent e st')" if "?I st'" "sn_for e \<in> {ForPrewarm, ForSubmission j, ForExecution j}" for e st' j
    using one_owner_other [OF _ _ that(1)] others [OF that(2)] by blast
  have owned: "?I (fst (forward_owned E j b verb path st'))" if "?I st'" for j b verb path st'
    using note_other [OF that] that by (simp add: forward_owned_def)
  show "?I (fst (forward_submission S E Ls body pinned st))"
    using I unfolding forward_submission_def Let_def
    by (auto split: option.split prod.split sum.split Claim.split intro: claim note_other owned)
  show "?I (fst (forward_existing S E Ls verb path cancel st))"
    using I unfolding forward_existing_def Let_def
    by (auto split: option.split prod.split sum.split intro: look owned)
  show "?I (fst (forward_prewarm E body pinned st))"
    using I unfolding forward_prewarm_def by (auto split: option.split intro: note_other)
qed

lemma executions_keep_parents:
  assumes "ledgers_apart Ls" and I: "one_owner S (ls_parents Ls) i (about_parent i) (\<lambda>p. p = ForCreate i) st"
  shows "one_owner S (ls_parents Ls) i (about_parent i) (\<lambda>p. p = ForCreate i) (fst (forward_submission S E Ls body pinned st))"
    and "one_owner S (ls_parents Ls) i (about_parent i) (\<lambda>p. p = ForCreate i) (fst (forward_existing S E Ls verb path cancel st))"
    and "one_owner S (ls_parents Ls) i (about_parent i) (\<lambda>p. p = ForCreate i) (fst (forward_prewarm E body pinned st))"
proof -
  have apart: "lg_dir (ls_executions Ls) \<noteq> lg_dir (ls_parents Ls)" using assms(1) by (simp add: ledgers_apart_def)
  have others: "\<not> about_parent i p \<and> p \<noteq> ForCreate i" if "p \<in> {ForPrewarm, ForSubmission j, ForExecution j}" for p j
    using that by (auto simp: about_parent_def)
  note keep = executions_keep_other [OF apart I others]
  show "one_owner S (ls_parents Ls) i (about_parent i) (\<lambda>p. p = ForCreate i) (fst (forward_submission S E Ls body pinned st))"
    and "one_owner S (ls_parents Ls) i (about_parent i) (\<lambda>p. p = ForCreate i) (fst (forward_existing S E Ls verb path cancel st))"
    and "one_owner S (ls_parents Ls) i (about_parent i) (\<lambda>p. p = ForCreate i) (fst (forward_prewarm E body pinned st))"
    by (rule keep; simp)+
qed

lemma prewarm_keeps:
  assumes "one_owner S L i (about_execution i) (\<lambda>p. p = ForSubmission i) st"
  shows "one_owner S L i (about_execution i) (\<lambda>p. p = ForSubmission i) (fst (forward_prewarm E body pinned st))"
  using assms one_owner_other [OF _ _ assms] by (auto simp: forward_prewarm_def about_execution_def split: option.split)

lemma router_step_keeps:
  assumes "serde_law S" "ledgers_apart Ls"
  shows "one_owner S (ls_executions Ls) i (about_execution i) (\<lambda>p. p = ForSubmission i) st \<Longrightarrow>
      one_owner S (ls_executions Ls) i (about_execution i) (\<lambda>p. p = ForSubmission i) (fst (router_step S Ls op st))"
    and "one_owner S (ls_parents Ls) i (about_parent i) (\<lambda>p. p = ForCreate i) st \<Longrightarrow>
      one_owner S (ls_parents Ls) i (about_parent i) (\<lambda>p. p = ForCreate i) (fst (router_step S Ls op st))"
  by (cases op; simp add: submission_keeps existing_keeps prewarm_keeps parents_keep_executions assms)
    (cases op; simp add: executions_keep_parents parents_keep_parents assms)

section \<open>Placement finds a node\<close>

lemma probe_surj: "0 < n \<Longrightarrow> (\<lambda>k. (s + k) mod n) ` {0..<n} = {0..<n::nat}"
proof
  assume n: "0 < n"
  show "(\<lambda>k. (s + k) mod n) ` {0..<n} \<subseteq> {0..<n}" using n by auto
  show "{0..<n} \<subseteq> (\<lambda>k. (s + k) mod n) ` {0..<n}"
  proof
    fix j assume j: "j \<in> {0..<n}"
    let ?k = "(j + (n - s mod n)) mod n"
    have "(s + ?k) mod n = (s mod n + (j + (n - s mod n))) mod n" by (simp add: mod_simps)
    also have "s mod n + (j + (n - s mod n)) = j + n" using mod_less_divisor [OF n, of s] by linarith
    finally show "j \<in> (\<lambda>k. (s + k) mod n) ` {0..<n}" using j n by (auto intro!: image_eqI [of _ _ ?k])
  qed
qed

lemma probe_order_set: "set (probe_order bs s) = set bs"
proof (cases "bs = []")
  case False
  then have "set (probe_order bs s) = (!) bs ` (\<lambda>k. (s + k) mod length bs) ` {0..<length bs}"
    by (simp add: probe_order_def image_image)
  also have "\<dots> = set bs" using False by (subst probe_surj) (auto simp: set_conv_nth)
  finally show ?thesis .
qed (simp add: probe_order_def)

text \<open>The best node so far among those probed.\<close>

definition best_among :: "RouterEnv \<Rightarrow> string set \<Rightarrow> (string \<times> (u32 \<times> u64)) option \<Rightarrow> bool" where
  "best_among E bs best \<longleftrightarrow>
     (case best of
        None \<Rightarrow> \<forall>b\<in>bs. health_of E b = None
      | Some (b, spare) \<Rightarrow>
          b \<in> bs \<and> (\<exists>h. health_of E b = Some h \<and> Health_spare h = spare)
          \<and> (\<forall>b'\<in>bs. case health_of E b' of Some h \<Rightarrow> \<not> spare_less spare (Health_spare h) | None \<Rightarrow> True))"

lemma spare_less_trans: "spare_less a b \<Longrightarrow> spare_less b c \<Longrightarrow> spare_less a c"
  by (auto simp: spare_less_def)

lemma spare_less_irrefl [simp]: "\<not> spare_less a a"
  by (simp add: spare_less_def)

lemma best_step: "best_among E bs best \<Longrightarrow> best_among E (insert b bs) (better E best b)"
  by (cases "health_of E b"; cases best) (auto simp: best_among_def better_def split: option.splits if_splits, metis spare_less_trans)

lemma best_fold: "best_among E bs best \<Longrightarrow> best_among E (bs \<union> set xs) (foldl (better E) best xs)"
proof (induction xs arbitrary: bs best)
  case (Cons b xs)
  from Cons.IH [OF best_step [OF Cons.prems]] show ?case by simp
qed simp

text \<open>
  An owner is chosen by the room it has. The choice fails exactly when no known node answers
  as healthy with KVM; otherwise it is a known healthy node, and no healthy node has more
  free cells, nor as many and more memory.
\<close>

theorem owner_chosen_by_room:
  "case pick_owner E i of
     Inl _ \<Rightarrow> list_all (\<lambda>b. health_of E b = None) (router_backends E)
   | Inr b \<Rightarrow> b \<in> set (router_backends E)
       \<and> (case health_of E b of
            None \<Rightarrow> False
          | Some h \<Rightarrow> list_all (\<lambda>b'. case health_of E b' of None \<Rightarrow> True | Some h' \<Rightarrow> \<not> spare_less (Health_spare h) (Health_spare h'))
                       (router_backends E))"
proof -
  let ?bs = "router_backends E"
  have "best_among E {} None" by (simp add: best_among_def)
  from best_fold [OF this, of "probe_order ?bs (unat (fnv1a (as_bytes i)) mod length ?bs)"]
  have "best_among E (set ?bs) (foldl (better E) None (probe_order ?bs (unat (fnv1a (as_bytes i)) mod length ?bs)))"
    by (simp add: probe_order_set)
  then show ?thesis
    by (cases "?bs = []") (fastforce simp: pick_owner_def Let_def best_among_def list_all_iff split: option.splits)+
qed

lemma find_complete: "b \<in> set xs \<Longrightarrow> P b \<Longrightarrow> \<exists>c. find P xs = Some c \<and> c \<in> set xs \<and> P c"
  by (induction xs) auto

lemma pick_backend_finds:
  assumes "b \<in> set (router_backends E)" "health_of E b \<noteq> None"
  obtains c where "pick_backend E i = Ok c" "c \<in> set (router_backends E)" "health_of E c \<noteq> None"
proof -
  define start where "start = (case rv_mode E of RoundRobin \<Rightarrow> unat (fnv1a (as_bytes i)) | Random \<Rightarrow> rv_random E) mod length (router_backends E)"
  obtain c where "find (\<lambda>b. health_of E b \<noteq> None) (probe_order (router_backends E) start) = Some c"
      "c \<in> set (router_backends E)" "health_of E c \<noteq> None"
    using find_complete [of b "probe_order (router_backends E) start" "\<lambda>b. health_of E b \<noteq> None"] assms
    by (auto simp: probe_order_set)
  moreover have "router_backends E \<noteq> []" using assms(1) by auto
  ultimately show thesis using that by (simp add: pick_backend_def Let_def start_def)
qed

section \<open>A submission is delivered\<close>

text \<open>A claim in a world whose calls succeed.\<close>

lemma calm_call: "w_faults w = [] \<Longrightarrow> io_call eff w = (w\<lparr>w_fs := fst (eff (w_fs w))\<rparr>, snd (eff (w_fs w)))"
  by (simp add: io_call_def split: prod.split)

lemma calm_lock:
  assumes "idle S L i (w_fs w)" "hash_format S" "w_faults w = []" "fs_kind (w_fs w) (lg_dir L) = Some Dir"
    and "fs_kind (w_fs w) (lg_dir L @ [''ownership.lock'']) \<in> {None, Some (File b)}"
  obtains fs where "ledger_lock L w = (w\<lparr>w_fs := fs\<rparr>, Ok ())" "idle S L i fs" "fs_kind fs (lg_dir L) = Some Dir"
    "records_in (lg_dir L) fs = records_in (lg_dir L) (w_fs w)"
proof -
  let ?p = "lg_dir L @ [''ownership.lock'']"
  define fs where "fs = fst (create_effect False ?p (w_fs w))"
  have step: "ledger_lock L w = (w\<lparr>w_fs := fs\<rparr>, Ok ())"
    using assms(3-5) by (auto simp: ledger_lock_def aop_defs open_or_create_def quiet_call_def calm_call create_effect_def fs_def)
  have inv: "bt_invar (w_fs w)" using assms(1) by (simp add: idle_def)
  have "idle S L i fs" using preserves_step [where P = "idle S L i", OF idle_lock [OF assms(2)] step assms(1)] by simp
  moreover have "fs_kind fs (lg_dir L) = Some Dir"
    using assms(4) inv by (auto simp: fs_def create_effect_def fs_kind_insert split: option.split node.split)
  moreover have "\<not> is_record ?p" by (simp add: is_record_def stem_extension(2) [of "''ownership''" "''lock''", simplified])
  then have "records_in (lg_dir L) fs = records_in (lg_dir L) (w_fs w)"
    using assms(4) records_insert_fresh(2) [OF inv, of ?p "lg_dir L"]
    by (auto simp: fs_def create_effect_def split: option.split node.split)
  ultimately show thesis using that step by blast
qed

lemma claim_calm:
  assumes "hash_format S" "idle S L i (w_fs w)" "w_faults w = []" "fs_kind (w_fs w) (lg_dir L) = Some Dir"
    and "fs_kind (w_fs w) (lg_dir L @ [''ownership.lock'']) \<in> {None, Some (File b)}"
    and "records_in (lg_dir L) (w_fs w) < lg_capacity L" "length backend \<le> 1024"
    and pick: "\<And>w1. ledger_lock L w = (w1, Ok ()) \<Longrightarrow> w_faults w1 = [] \<Longrightarrow> pick w1 = (w1, Ok backend)"
  shows "\<exists>w'. ledger_claim S L i body pick w =
      (w', Ok (ClaimNew \<lparr>ow_version = 1, ow_backend = backend, ow_body_hash = hash_str (os_hash S body)\<rparr>)) \<and> w_faults w' = []"
proof -
  obtain fs where lock: "ledger_lock L w = (w\<lparr>w_fs := fs\<rparr>, Ok ())" and fs: "idle S L i fs" "fs_kind fs (lg_dir L) = Some Dir"
      "records_in (lg_dir L) fs = records_in (lg_dir L) (w_fs w)"
    by (rule calm_lock [OF assms(2,1,3,4,5)])
  let ?es = "filter (\<lambda>(p, k). p \<noteq> [] \<and> butlast p = lg_dir L) fs"
  have "count_records (lg_capacity L) ?es \<le> records_in (lg_dir L) fs"
    unfolding count_records_def records_in_def filter_filter by (simp add: case_prod_unfold conj_assoc)
  then have room: "\<not> count_records (lg_capacity L) ?es \<ge> lg_capacity L" using fs(3) assms(6) by simp
  have free: "fs_kind fs (owner_path S L i) = None" and inv: "bt_invar fs" using fs(1) by (simp_all add: idle_def)
  have dir: "butlast (owner_path S L i) = lg_dir L" "owner_path S L i \<noteq> lg_dir L" by (simp_all add: owner_path_eq)
  have picked: "pick (w\<lparr>w_fs := fs\<rparr>) = (w\<lparr>w_fs := fs\<rparr>, Ok backend)" using pick [OF lock] assms(3) by simp
  note calls = read_limited_def read_dir_def stage_temp_def quiet_call_def persist_noclobber_def sync_dir_def open_dir_sync_def
    read_effect_def persist_effect_def
  show ?thesis
    using assms(3,7) room free dir fs(2) inv
    by (simp add: ledger_claim_def ledger_lookup_def publish_owner_def aop_defs Let_def lock calls calm_call fs_kind_insert picked)
qed

text \<open>A record within the bounds its reader checks.\<close>

definition readable :: "OwnerSerde \<Rightarrow> Owner \<Rightarrow> bool" where
  "readable S ow \<longleftrightarrow> ow_version ow = 1 \<and> length (ow_backend ow) \<le> 1024 \<and> \<not> isl (backend_to_addr (ow_backend ow)) \<and> length (os_encode S ow) \<le> 4096"

lemma lookup_calm:
  assumes "bound_to S L i (os_encode S ow) (w_fs w)" "w_faults w = []" "serde_law S" "readable S ow"
  shows "ledger_lookup S L i w = (w, Ok (Some ow))"
  using assms by (cases "backend_to_addr (ow_backend ow)")
    (simp_all add: ledger_lookup_def aop_defs read_limited_def calm_call read_effect_def bound_to_def read_owner_def serde_law_def readable_def)

text \<open>
  C19: A submission is delivered. When some known node answers as healthy, every call on the ledger
  succeeds, the ledger has room and knows nothing of the identity, a well-formed submission
  without a pin is posted, once, with its own bytes, to a known healthy node; and the ledger
  then names that node for the execution. Assumed are that URLs of nodes are within their
  bound and well-formed and that a record can be read back.
\<close>

theorem submission_delivered:
  assumes "serde_law S" "idle S (ls_executions Ls) i (w_fs (rt_world st))" "w_faults (rt_world st) = []"
    and "fs_kind (w_fs (rt_world st)) (lg_dir (ls_executions Ls)) = Some Dir"
    and "fs_kind (w_fs (rt_world st)) (lg_dir (ls_executions Ls) @ [''ownership.lock'']) \<in> {None, Some (File c)}"
    and "records_in (lg_dir (ls_executions Ls)) (w_fs (rt_world st)) < lg_capacity (ls_executions Ls)"
    and "body \<noteq> []" "length body \<le> 65536" "extract_id E body = Some i" "valid_path_id i"
    and "b \<in> set (router_backends E)" "health_of E b \<noteq> None"
    and bounds: "list_all (\<lambda>b. readable S \<lparr>ow_version = 1, ow_backend = b, ow_body_hash = hash_str (os_hash S body)\<rparr>) (router_backends E)"
  shows "\<exists>owner st' reply. forward_submission S E Ls body None st = (st', reply)
     \<and> owner \<in> set (router_backends E) \<and> health_of E owner \<noteq> None
     \<and> rt_sent st' = rt_sent st @ [\<lparr>sn_for = ForSubmission i, sn_backend = owner, sn_method = ''POST'',
           sn_path = ''/v1/executions'', sn_body = body\<rparr>]
     \<and> map_sum id (map_option ow_backend) (snd (ledger_lookup S (ls_executions Ls) i (rt_world st'))) = Inr (Some owner)"
proof -
  let ?L = "ls_executions Ls"
  have hf: "hash_format S" using assms(1) by (simp add: serde_law_def)
  obtain owner where owner: "pick_backend E i = Ok owner" "owner \<in> set (router_backends E)" "health_of E owner \<noteq> None"
    using pick_backend_finds assms(11,12) by blast
  define ow where "ow = \<lparr>ow_version = 1, ow_backend = owner, ow_body_hash = hash_str (os_hash S body)\<rparr>"
  have fits: "readable S ow" using bounds owner(2) by (auto simp: list_all_iff ow_def)
  then have "length owner \<le> 1024" by (simp add: readable_def ow_def)
  then obtain w' where w': "ledger_claim S ?L i body (a_result (Ok owner)) (rt_world st) = (w', Ok (ClaimNew ow))" "w_faults w' = []"
    using claim_calm [OF hf assms(2-6), of owner "a_result (Ok owner)" body] by (auto simp: ow_def a_result_def)
  have "bound_to S ?L i (os_encode S ow) (w_fs w')"
    using claim_from_idle [OF hf safe_pure_idle assms(2) w'(1)] by simp
  then have "snd (ledger_lookup S ?L i w') = Ok (Some ow)" using lookup_calm [OF _ w'(2) assms(1) fits] by simp
  moreover have "\<not> (body = [] \<or> length body > 65536)" using assms(7,8) by simp
  ultimately show ?thesis
    using owner(2,3) by (intro exI [of _ owner])
      (simp add: forward_submission_def assms(9,10) owner(1) w'(1) note_sent_def ow_def)
qed

section \<open>A concrete router\<close>

text \<open>A record: its version and the length of its URL as runs of ones, each closed by a zero, then its text.\<close>

definition sample_encode :: "Owner \<Rightarrow> bytes" where
  "sample_encode ow = replicate (unat (ow_version ow)) 1 @ 0 # replicate (length (ow_backend ow)) 1 @ 0 #
     as_bytes (ow_backend ow) @ as_bytes (ow_body_hash ow)"

definition sample_decode :: "bytes \<Rightarrow> Owner option" where
  "sample_decode b =
     (let v = length (takeWhile (\<lambda>x. x = 1) b); c = drop (Suc v) b; n = length (takeWhile (\<lambda>x. x = 1) c);
          t = bytes_str (drop (Suc n) c) in
      Some \<lparr>ow_version = of_nat v, ow_backend = take n t, ow_body_hash = drop n t\<rparr>)"

definition sample_router_serde :: OwnerSerde where
  "sample_router_serde = sample_owner_serde\<lparr>os_encode := sample_encode, os_decode := sample_decode\<rparr>"

lemma sample_serde_law: "serde_law sample_router_serde"
proof -
  have ones: "takeWhile (\<lambda>x. x = 1) (replicate n 1 @ 0 # b) = replicate n (1::u8)" for n b
    by (induction n) auto
  have "sample_decode (sample_encode ow) = Some ow" for ow
    by (simp add: sample_decode_def sample_encode_def ones Let_def as_bytes_def bytes_str_def comp_def)
  then show ?thesis
    using sample_hash_format by (simp add: serde_law_def sample_router_serde_def hash_format_def)
qed

definition sample_router_env :: RouterEnv where
  "sample_router_env =
     \<lparr>rv_mode = RoundRobin, rv_static = [''http://a'', ''http://b''], rv_discovered = None, rv_random = 0,
      rv_get = (\<lambda>_ _. Some (''H 200'')), rv_post = (\<lambda>_ _ _. None),
      rv_exchange = (\<lambda>_ _ _ _. None),
      rv_health = (\<lambda>_. Some \<lparr>hl_ok = True, hl_kvm = True, hl_node = None\<rparr>),
      rv_json = (\<lambda>_. Some (VObject [(''id'', VString ''x'')])), rv_create = (\<lambda>_. Some (''celln.parent-create/v1'', ''blake3:'' @ replicate 64 (CHR ''a''))),
      rv_client_token = Some ''c'', rv_token = Some ''b'', rv_capability_token = None, rv_parent_token = Some (Some ''p''),
      rv_scoped_token = None\<rparr>"

definition sample_router_world :: world where
  "sample_router_world = \<lparr>w_fs = [], w_faults = [], w_mtime = (\<lambda>_. 0)\<rparr>"

definition sample_ledgers :: Ledgers where
  "sample_ledgers =
     \<lparr>ls_executions = \<lparr>lg_dir = [''own''], lg_capacity = 100000\<rparr>, ls_parents = \<lparr>lg_dir = [''own'', ''parents''], lg_capacity = 100000\<rparr>,
      ls_provisions = \<lparr>lg_dir = [''own'', ''provisions''], lg_capacity = 100000\<rparr>,
      ls_scoped_parents = \<lparr>lg_dir = [''own'', ''scoped-parents''], lg_capacity = 100000\<rparr>,
      ls_scoped_ops = \<lparr>lg_dir = [''own'', ''scoped-ops''], lg_capacity = 100000\<rparr>\<rparr>"

definition sample_opened :: world where
  "sample_opened = sample_router_world\<lparr>w_fs := map (\<lambda>p. (p, Dir))
     [[''own''], [''own'', ''parents''], [''own'', ''provisions''], [''own'', ''scoped-ops''], [''own'', ''scoped-parents'']]\<rparr>"

lemma ancestors_sample: "ancestors [a] = [[a], []]" "ancestors [a, b] = [[a, b], [a], []]"
  by (simp_all add: ancestors_def)

lemma sample_router_opens: "router_open [''own''] sample_router_world = (sample_opened, Ok sample_ledgers)"
  by (simp add: router_open_def Ledger_open_def aop_defs sample_router_world_def create_dir_all_def calm_call sync_tree_def
      file_type_of_def open_dir_sync_def quiet_call_def ancestors_sample fs_kind_def bt_get_def sample_opened_def sample_ledgers_def
      less_char_def)


lemma sample_opened_idle:
  "length p = 3 \<Longrightarrow> fs_kind (w_fs sample_opened) p = None"
  "fs_kind (w_fs sample_opened) [''own''] = Some Dir"
  "CHR ''.'' \<in> set x \<Longrightarrow> fs_kind (w_fs sample_opened) [''own'', x] = None"
  "bt_invar (w_fs sample_opened)"
proof -
  have names: "fst ` set (w_fs sample_opened) =
      {[''own''], [''own'', ''parents''], [''own'', ''provisions''], [''own'', ''scoped-ops''], [''own'', ''scoped-parents'']}"
    by (simp add: sample_opened_def)
  have absent: "fs_kind (w_fs sample_opened) p = None" if "p \<noteq> []" "p \<notin> fst ` set (w_fs sample_opened)" for p
    using that by (simp add: fs_kind_def bt_get_def map_of_eq_None_iff)
  show "fs_kind (w_fs sample_opened) p = None" if "length p = 3"
    by (rule absent) (use that in \<open>auto simp only: names list.size\<close>)
  show "fs_kind (w_fs sample_opened) [''own'', x] = None" if "CHR ''.'' \<in> set x"
    by (rule absent) (use that in \<open>auto simp: names\<close>)
  show "fs_kind (w_fs sample_opened) [''own''] = Some Dir" by (simp add: sample_opened_def fs_kind_def bt_get_def)
  show "bt_invar (w_fs sample_opened)" by (simp add: sample_opened_def bt_invar_def less_char_def)
qed

lemma sample_router_idle:
  "idle sample_router_serde (ls_executions sample_ledgers) i (w_fs sample_opened)"
  "idle sample_router_serde (ls_parents sample_ledgers) i (w_fs sample_opened)"
  using sample_serde_law
  by (simp_all add: idle_def sample_opened_idle owner_path_eq retired_path_eq serde_law_def sample_ledgers_def)

lemma sample_scoped_idle: "idle sample_router_serde (ls_scoped_ops sample_ledgers) i (w_fs sample_opened)"
  using sample_serde_law by (simp add: idle_def sample_opened_idle owner_path_eq retired_path_eq serde_law_def sample_ledgers_def)

definition sample_incarnation :: string where
  "sample_incarnation = ''blake3:'' @ replicate 64 (CHR ''a'')"

lemma sample_addr: "backend_to_addr ''http://a'' = Ok ''a:80''" "backend_to_addr ''http://b'' = Ok ''b:80''"
  by (simp_all add: backend_to_addr_def)

lemma sample_status: "parse_status ''H 200'' = 200"
proof -
  have "str_lines (as_bytes ''H 200'') = [as_bytes ''H 200'']"
    by (simp add: str_lines_def as_bytes_def strip_line_ending_def)
  moreover have "bytes_str (as_bytes x) = x" for x by (simp add: as_bytes_def bytes_str_def comp_def)
  moreover have "split_whitespace ''H 200'' = [''H'', ''200'']" by (simp add: split_whitespace_def split_whitespace_aux.simps)
  ultimately show ?thesis by (simp add: parse_status_def parse_u16_def rust_std less_eq_char_def digits_value_def)
qed

lemma sample_healthy: "health_of sample_router_env ''http://a'' \<noteq> None"
  by (simp add: health_of_def forward_get_def sample_addr sample_router_env_def sample_status)

theorem submission_delivered_witness:
  "\<exists>owner st' reply. forward_submission sample_router_serde sample_router_env sample_ledgers [1] None
       \<lparr>rt_world = sample_opened, rt_sent = []\<rparr> = (st', reply)
     \<and> owner \<in> {''http://a'', ''http://b''}
     \<and> rt_sent st' = [\<lparr>sn_for = ForSubmission ''x'', sn_backend = owner, sn_method = ''POST'', sn_path = ''/v1/executions'', sn_body = [1]\<rparr>]
     \<and> map_sum id (map_option ow_backend) (snd (ledger_lookup sample_router_serde (ls_executions sample_ledgers) ''x'' (rt_world st'))) =
         Inr (Some owner)"
proof -
  let ?st = "\<lparr>rt_world = sample_opened, rt_sent = []\<rparr>"
  have known: "set (router_backends sample_router_env) = {''http://a'', ''http://b''}"
    by (simp add: router_backends_def sample_router_env_def)
  have world: "fs_kind (w_fs (rt_world ?st)) (lg_dir (ls_executions sample_ledgers)) = Some Dir"
      "fs_kind (w_fs (rt_world ?st)) (lg_dir (ls_executions sample_ledgers) @ [''ownership.lock'']) \<in> {None, Some (File [])}"
      "records_in (lg_dir (ls_executions sample_ledgers)) (w_fs (rt_world ?st)) < lg_capacity (ls_executions sample_ledgers)"
      "w_faults (rt_world ?st) = []"
    by (simp_all add: sample_opened_idle sample_ledgers_def records_in_def, simp_all add: sample_opened_def sample_router_world_def)
  have req: "extract_id sample_router_env [1] = Some ''x''" "valid_path_id ''x''"
    by (simp_all add: extract_id_def sample_router_env_def vindex_def bt_get_def vstring_def valid_path_id_def rust_std less_eq_char_def)
  have fits: "list_all (\<lambda>b. readable sample_router_serde
      \<lparr>ow_version = 1, ow_backend = b, ow_body_hash = hash_str (os_hash sample_router_serde [1])\<rparr>) (router_backends sample_router_env)"
    by (simp add: list_all_iff known readable_def sample_addr sample_router_serde_def sample_encode_def sample_owner_serde_def as_bytes_def)
  have in_known: "''http://a'' \<in> set (router_backends sample_router_env)" by (simp add: known)
  show ?thesis
    using submission_delivered [where st = ?st and body = "[1]", OF sample_serde_law _ world(4,1,2,3) _ _ req in_known sample_healthy fits]
      sample_router_idle(1) known by (auto simp: Let_def) 
qed

end
