(* ===== verification/Scoped.thy ===== *)
theory Scoped
  imports Router
begin

text \<open>
  \<open>celln-cli/src/router_scoped.rs\<close>: forwarding of the scoped operations. An operation is bound to
  one node before anything is sent; the root of an enduring run binds its parent as well, and
  a turn follows its parent. Confirmed cleanup retires the bindings.

  Further parameters of one request: the JSON contract of \<open>tenancy_contract.rs\<close>, the bearer
  presented, whether a backend was pinned, the ages of records at each sweep and retirement,
  whether a node can be connected to, and what it answers.
\<close>

section \<open>Requests\<close>

definition MAX_BODY :: nat where
  "MAX_BODY = 262144"

definition QUARANTINE :: duration where
  "QUARANTINE = 600 * 1000000000"

datatype ScopedRoute = RoutePrepare | RouteStart | RouteRead | RouteCleanup

datatype Lifecycle = OneShot | Initial string | Turn string

datatype ScopedSent = SentResponse string | SentLost | SentUncertain

record ScopedEnv =
  sv_router :: RouterEnv
  sv_contract :: ContractSerde
  sv_presented :: "string option"
  sv_pinned :: bool
  sv_age :: "nat \<Rightarrow> path \<Rightarrow> duration option"
  sv_connect :: "string \<Rightarrow> bool"
  sv_answer :: "string \<Rightarrow> string \<Rightarrow> bytes \<Rightarrow> string option"

definition context_lost :: RouterReply where
  "context_lost = Reply 409 ''scoped admission refused: AUTH_CONTEXT_LOST''"

text \<open>\<open>None\<close> is an error; \<open>Some None\<close> that no scoped token is configured.\<close>

definition scoped_credential :: "RouterEnv \<Rightarrow> string option option" where
  "scoped_credential E =
     (case rv_scoped_token E of
        None \<Rightarrow> Some None
      | Some None \<Rightarrow> None
      | Some (Some token) \<Rightarrow>
          (case credentials E of
             None \<Rightarrow> None
           | Some (client, backend, capability) \<Rightarrow>
               if rv_parent_token E = Some None then None
               else if list_ex (token_eq token)
                        ([client, backend] @ (case capability of Some c \<Rightarrow> [c] | None \<Rightarrow> [])
                         @ (case rv_parent_token E of Some (Some p) \<Rightarrow> [p] | _ \<Rightarrow> []))
               then None else Some (Some token)))"

definition scoped_route :: "string \<Rightarrow> string \<Rightarrow> ScopedRoute option" where
  "scoped_route verb path =
     (if verb \<noteq> ''POST'' then None
      else if path = ''/v1/scoped/prepare'' then Some RoutePrepare
      else if path = ''/v1/scoped/start'' then Some RouteStart
      else if path = ''/v1/scoped/read'' then Some RouteRead
      else if path = ''/v1/scoped/cleanup'' then Some RouteCleanup
      else None)"

text \<open>\<open>as_str().filter(..)\<close>.\<close>

definition bounded_str :: "Value \<Rightarrow> string option" where
  "bounded_str v = (case vstring v of Some s \<Rightarrow> if length s \<le> 512 then Some s else None | None \<Rightarrow> None)"

definition vget :: "Value \<Rightarrow> string \<Rightarrow> Value option" where
  "vget v k = (case v of VObject m \<Rightarrow> bt_get m k | _ \<Rightarrow> None)"

definition object_len :: "Value \<Rightarrow> nat" where
  "object_len v = (case v of VObject m \<Rightarrow> length m | _ \<Rightarrow> 0)"

definition read_lifecycle :: "Value \<Rightarrow> Lifecycle option" where
  "read_lifecycle decision =
     (let parent = vindex decision ''parent''; incarnation = bounded_str (vindex parent ''incarnation'') in
      case (vstring (vindex decision ''lifecycle''), incarnation) of
        (Some l, None) \<Rightarrow> if l = ''one-shot'' \<and> parent = VNull then Some OneShot else None
      | (Some l, Some p) \<Rightarrow>
          if l = ''enduring-initial'' then Some (Initial p) else if l = ''enduring-turn'' then Some (Turn p) else None
      | (None, _) \<Rightarrow> None)"

section \<open>Placing an operation\<close>

definition scoped_claim ::
  "OwnerSerde \<Rightarrow> (path \<Rightarrow> duration option) \<Rightarrow> Ledger \<Rightarrow> string \<Rightarrow> bytes \<Rightarrow> string aop \<Rightarrow> Claim aop" where
  "scoped_claim S age L i body pick =
     a_bind (ledger_claim S L i body pick) (\<lambda>c.
       if c = ClaimFull
       then a_bind (sweep_retired age L QUARANTINE) (\<lambda>_. ledger_claim S L i body pick)
       else a_return c)"

definition claimed_backend :: "string \<Rightarrow> Claim \<Rightarrow> AnyError + string" where
  "claimed_backend msg c =
     (case c of ClaimNew ow \<Rightarrow> Ok (ow_backend ow) | ClaimExisting ow \<Rightarrow> Ok (ow_backend ow) | _ \<Rightarrow> Err (AnyMsg msg))"

text \<open>The closure \<open>choose\<close>. The flag \<open>lost\<close> is set exactly when it fails with the last message.\<close>

definition parent_absent :: AnyError where
  "parent_absent = AnyMsg ''scoped parent binding absent''"

definition choose_node :: "OwnerSerde \<Rightarrow> ScopedEnv \<Rightarrow> Ledgers \<Rightarrow> string \<Rightarrow> Lifecycle \<Rightarrow> string aop" where
  "choose_node S V Ls i lifecycle =
     (case lifecycle of
        OneShot \<Rightarrow> a_result (pick_owner (sv_router V) i)
      | Initial parent \<Rightarrow>
          a_bind (scoped_claim S (sv_age V 0) (ls_scoped_parents Ls) parent (as_bytes parent) (a_result (pick_owner (sv_router V) parent)))
            (\<lambda>c. a_result (claimed_backend ''scoped parent ownership unavailable'' c))
      | Turn parent \<Rightarrow>
          a_bind (ledger_lookup S (ls_scoped_parents Ls) parent) (\<lambda>found.
            case found of Some ow \<Rightarrow> a_return (ow_backend ow) | None \<Rightarrow> a_result (Err parent_absent)))"

definition scoped_identity :: "ScopedEnv \<Rightarrow> Value \<Rightarrow> RouterReply + (string \<times> Lifecycle)" where
  "scoped_identity V request =
     (case (vget request ''operation'', vget request ''decision'') of
        (Some operation, Some decision) \<Rightarrow>
          if object_len request \<noteq> 2 then Inl (Reply 400 ''invalid scoped preparation'')
          else (case scoped_operation_id (sv_contract V) operation decision of
                  Inl _ \<Rightarrow> Inl (Reply 422 ''scoped preparation refused'')
                | Inr i \<Rightarrow>
                    (case read_lifecycle decision of
                       None \<Rightarrow> Inl (Reply 422 ''scoped preparation refused: unsupported scoped lifecycle operation'')
                     | Some lifecycle \<Rightarrow> Inr (i, lifecycle)))
      | _ \<Rightarrow> Inl (Reply 400 ''invalid scoped preparation''))"

definition scoped_bind ::
  "OwnerSerde \<Rightarrow> ScopedEnv \<Rightarrow> Ledgers \<Rightarrow> string \<Rightarrow> Lifecycle \<Rightarrow> bytes \<Rightarrow> world \<Rightarrow> world \<times> (RouterReply + string)" where
  "scoped_bind S V Ls i lifecycle body w =
     (let (w', claim) = scoped_claim S (sv_age V 1) (ls_scoped_ops Ls) i body (choose_node S V Ls i lifecycle) w in
      (w', case claim of
             Inr (ClaimNew ow) \<Rightarrow> Inr (ow_backend ow)
           | Inr (ClaimExisting ow) \<Rightarrow> Inr (ow_backend ow)
           | Inr ClaimConflict \<Rightarrow> Inl (Reply 409 ''operation identity already has different prepared material'')
           | Inr ClaimFull \<Rightarrow> Inl (Reply 503 ''scoped ownership unavailable'')
           | Inl e \<Rightarrow> Inl (if e = parent_absent then context_lost else Reply 503 ''scoped ownership unavailable'')))"

text \<open>The operation and its node, or the refusal.\<close>

definition scoped_place ::
  "OwnerSerde \<Rightarrow> ScopedEnv \<Rightarrow> Ledgers \<Rightarrow> Value \<Rightarrow> bytes \<Rightarrow> world \<Rightarrow> world \<times> (RouterReply + string \<times> string)" where
  "scoped_place S V Ls request body w =
     (case scoped_identity V request of
        Inl refusal \<Rightarrow> (w, Inl refusal)
      | Inr (i, lifecycle) \<Rightarrow>
          (case scoped_bind S V Ls i lifecycle body w of
             (w', Inl refusal) \<Rightarrow> (w', Inl refusal)
           | (w', Inr backend) \<Rightarrow> (w', Inr (i, backend))))"

section \<open>Forwarding\<close>

definition scoped_find ::
  "OwnerSerde \<Rightarrow> Ledgers \<Rightarrow> ScopedRoute \<Rightarrow> Value \<Rightarrow> world \<Rightarrow> world \<times> (RouterReply + string \<times> string)" where
  "scoped_find S Ls route request w =
     (case bounded_str (vindex request ''id'') of
        None \<Rightarrow> (w, Inl (Reply 400 (if route = RouteStart then ''invalid scoped start'' else ''invalid scoped access'')))
      | Some i \<Rightarrow>
          (case ledger_lookup S (ls_scoped_ops Ls) i w of
             (w', Inr (Some ow)) \<Rightarrow> (w', Inr (i, ow_backend ow))
           | (w', Inr None) \<Rightarrow> (w', Inl (Reply 404 ''unknown prepared operation''))
           | (w', Inl _) \<Rightarrow> (w', Inl (Reply 503 ''scoped ownership unavailable''))))"

definition scoped_send :: "ScopedEnv \<Rightarrow> string \<Rightarrow> string \<Rightarrow> bytes \<Rightarrow> ScopedSent" where
  "scoped_send V backend path body =
     (if backend \<notin> set (router_backends (sv_router V)) then SentLost
      else if isl (backend_to_addr backend) \<or> \<not> sv_connect V backend then SentLost
      else (case sv_answer V backend path body of Some resp \<Rightarrow> SentResponse resp | None \<Rightarrow> SentUncertain))"

definition scoped_retire :: "OwnerSerde \<Rightarrow> ScopedEnv \<Rightarrow> Ledgers \<Rightarrow> Value \<Rightarrow> string \<Rightarrow> world \<Rightarrow> world" where
  "scoped_retire S V Ls request response w =
     (let confirmed = (case rv_json (sv_router V) (as_bytes response) of
                         Some status \<Rightarrow> vindex status ''cleanupConfirmed'' = VBool True | None \<Rightarrow> False) in
      case (if confirmed then vstring (vindex request ''id'') else None) of
        None \<Rightarrow> w
      | Some i \<Rightarrow>
          (let w = fst (ledger_retire S (sv_age V 2) (ls_scoped_ops Ls) i QUARANTINE w); decision = vindex request ''decision'' in
           if vindex decision ''lifecycle'' = VString ''enduring-initial''
           then (case vstring (vindex (vindex decision ''parent'') ''incarnation'') of
                   Some parent \<Rightarrow> fst (ledger_retire S (sv_age V 3) (ls_scoped_parents Ls) parent QUARANTINE w)
                 | None \<Rightarrow> w)
           else w))"

text \<open>The checks before the body is read, then the body in its canonical form.\<close>

definition scoped_gate :: "ScopedEnv \<Rightarrow> string \<Rightarrow> string \<Rightarrow> nat \<Rightarrow> RouterReply + ScopedRoute" where
  "scoped_gate V verb path n =
     (if rv_scoped_token (sv_router V) = None then Inl (Reply 404 ''scoped receiver disabled'')
      else (case scoped_credential (sv_router V) of
        Some (Some token) \<Rightarrow>
          if \<not> (case sv_presented V of Some got \<Rightarrow> token_eq got token | None \<Rightarrow> False) then Inl (Reply 401 ''unauthorized'')
          else if sv_pinned V then Inl (Reply 400 ''backend pin only applies to submission or prewarm'')
          else (case scoped_route verb path of
                  None \<Rightarrow> Inl (Reply 404 ''not found'')
                | Some route \<Rightarrow> if n > MAX_BODY then Inl (Reply 413 ''scoped request body exceeds 256 KiB'') else Inr route)
      | _ \<Rightarrow> Inl (Reply 503 ''scoped receiver unavailable'')))"

definition scoped_admit :: "ScopedEnv \<Rightarrow> string \<Rightarrow> string \<Rightarrow> bytes \<Rightarrow> RouterReply + (ScopedRoute \<times> bytes \<times> Value)" where
  "scoped_admit V verb path raw =
     (case scoped_gate V verb path (length raw) of
        Inl refusal \<Rightarrow> Inl refusal
      | Inr route \<Rightarrow>
          (case contract_canonical (sv_contract V) raw of
             Inl _ \<Rightarrow> Inl (Reply 400 ''scoped request must be bounded unambiguous I-JSON'')
           | Inr body \<Rightarrow>
               (case rv_json (sv_router V) body of
                  None \<Rightarrow> Inl Dropped
                | Some request \<Rightarrow> Inr (route, body, request))))"

definition scoped_forward ::
  "OwnerSerde \<Rightarrow> ScopedEnv \<Rightarrow> Ledgers \<Rightarrow> string \<Rightarrow> string \<Rightarrow> bytes \<Rightarrow> RouterState \<Rightarrow> RouterState \<times> RouterReply" where
  "scoped_forward S V Ls verb path raw st =
     (case scoped_admit V verb path raw of
        Inl refusal \<Rightarrow> (st, refusal)
      | Inr (route, body, request) \<Rightarrow>
          (case (if route = RoutePrepare then scoped_place S V Ls request body (rt_world st)
                 else scoped_find S Ls route request (rt_world st)) of
             (w, Inl refusal) \<Rightarrow> (st\<lparr>rt_world := w\<rparr>, refusal)
           | (w, Inr (i, backend)) \<Rightarrow>
               (let st = note_sent \<lparr>sn_for = ForScoped i, sn_backend = backend, sn_method = ''POST'', sn_path = path, sn_body = body\<rparr>
                           (st\<lparr>rt_world := w\<rparr>) in
                case scoped_send V backend path body of
                  SentLost \<Rightarrow> (st, context_lost)
                | SentUncertain \<Rightarrow> (st, Reply 502 ''scoped outcome uncertain; retry the same request'')
                | SentResponse resp \<Rightarrow>
                    (if route = RouteCleanup \<and> parse_status resp = 200
                     then st\<lparr>rt_world := scoped_retire S V Ls request (extract_body resp) (rt_world st)\<rparr> else st,
                     RawReply resp))))"

section \<open>Sweeping and retiring\<close>

lemma idle_remove: "preserves (idle S L i) (remove_file p)"
  unfolding remove_file_def
  by (rule preserves_call, cases "p = []")
    (auto simp: remove_effect_def idle_def fs_kind_remove bt_simps split: option.split node.split)

lemma idle_remove_locked [preserve_intros]: "preserves (idle S L i) (remove_locked L' rec)"
  unfolding remove_locked_def by (intro preserve_intros idle_remove)

lemma idle_sweep_entries [preserve_intros]: "preserves (idle S L i) (sweep_entries age L' q n ms)"
  by (induction ms arbitrary: n) (auto simp: Let_def intro!: preserve_intros split: sum.split bool.split IoKind.split)

lemma idle_sweep: "hash_format S \<Longrightarrow> preserves (idle S L i) (sweep_retired age L q)"
  unfolding sweep_retired_def by (intro preserve_intros idle_lock)

lemma safe_preserved: "(\<And>b. preserves (bound_to S L i b) m) \<Longrightarrow> preserves (idle S L i) m \<Longrightarrow> safe_for S L i m"
  by (simp add: safe_for_def leads_weaken settled_def)

lemma local_remove_locked:
  assumes "local_to (lg_dir L) P" "rec \<noteq> []" "butlast rec = lg_dir L"
  shows "preserves P (remove_locked L rec)"
proof -
  have "preserves P (remove_file p)" if "p \<noteq> []" "butlast p = lg_dir L" for p
    unfolding remove_file_def
    by (rule preserves_call) (use local_toD [OF assms(1) _ that] in \<open>auto simp: remove_effect_def split: option.split node.split\<close>)
  then show ?thesis unfolding remove_locked_def
    by (intro preserve_intros) (use assms in \<open>simp_all add: with_extension_def\<close>)
qed

lemma local_sweep:
  assumes "local_to (lg_dir L) P"
  shows "preserves P (sweep_retired age L q)"
proof -
  have entries: "preserves P (sweep_entries age L q n ms)" if "list_all (\<lambda>m. m \<noteq> [] \<and> butlast m = lg_dir L) ms" for n ms
    using that
    by (induction ms arbitrary: n)
      (auto simp: Let_def with_extension_def intro!: preserve_intros local_remove_locked [OF assms] split: sum.split bool.split IoKind.split)
  have "preserves P (a_bind (a_io (read_dir (lg_dir L))) (\<lambda>es. sweep_entries age L q 0 (map fst es)))"
    unfolding preserves_def
  proof (intro allI impI)
    fix w :: world assume ok: "P (w_fs w)"
    obtain w1 r where step: "read_dir (lg_dir L) w = (w1, r)" by fastforce
    then have same: "w_fs w1 = w_fs w" using read_dir_same [of "lg_dir L" w] by simp
    show "P (w_fs (fst (a_bind (a_io (read_dir (lg_dir L))) (\<lambda>es. sweep_entries age L q 0 (map fst es)) w)))"
    proof (cases r)
      case (Inr es)
      have "list_all (\<lambda>m. m \<noteq> [] \<and> butlast m = lg_dir L) (map fst es)"
        using read_dir_entries [OF step [unfolded Inr]] by (auto simp: list_all_iff)
      from preservesD [OF entries [OF this], of w1] show ?thesis
        using Inr step ok same by (simp add: a_bind_def a_io_def)
    qed (use step ok same in \<open>simp add: a_bind_def a_io_def\<close>)
  qed
  then show ?thesis unfolding sweep_retired_def by (rule preserves_bind [OF local_lock [OF assms]])
qed

lemma local_retire:
  assumes "local_to (lg_dir L) P"
  shows "preserves P (ledger_retire S age L j q)"
proof -
  have path: "retired_path S L j \<noteq> []" "butlast (retired_path S L j) = lg_dir L" "owner_path S L j \<noteq> []" "butlast (owner_path S L j) = lg_dir L"
    by (simp_all add: retired_path_def with_extension_def owner_path_eq)
  have "preserves P (create_file (retired_path S L j))"
    unfolding create_file_def
    by (rule preserves_call)
      (use local_toD [OF assms _ path(1,2)] in \<open>auto simp: create_effect_def split: option.split node.split\<close>)
  then show ?thesis
    unfolding ledger_retire_def Let_def
    by (auto intro!: preserve_intros local_lock [OF assms] local_remove_locked [OF assms path(3,4)]
        split: sum.split bool.split IoKind.split)
qed

text \<open>Retiring another identity of the same ledger.\<close>

lemma idle_retire:
  assumes "hash_format S" "stem S j \<noteq> stem S i"
  shows "preserves (idle S L i) (ledger_retire S age L j q)"
proof -
  have "preserves (idle S L i) (create_file (retired_path S L j))"
    unfolding create_file_def
    by (rule preserves_call)
      (use assms in \<open>auto simp: create_effect_def ledger_paths idle_def fs_kind_insert bt_simps split: option.split node.split\<close>)
  then show ?thesis
    unfolding ledger_retire_def Let_def
    by (auto intro!: preserve_intros idle_lock [OF assms(1)] split: sum.split bool.split IoKind.split)
qed

section \<open>What a scoped claim keeps\<close>

text \<open>A property kept by claiming and sweeping is kept by both in turn.\<close>

lemma scoped_claim_preserves:
  "preserves P (ledger_claim S L j body pick) \<Longrightarrow> preserves P (sweep_retired age L QUARANTINE) \<Longrightarrow> preserves P (scoped_claim S age L j body pick)"
  unfolding scoped_claim_def by (intro preserve_intros)

lemma scoped_claim_other:
  assumes "local_to (lg_dir L) P" "preserves P pick"
  shows "preserves P (scoped_claim S age L j body pick)"
  by (rule scoped_claim_preserves) (simp_all add: local_claim local_sweep assms)

lemma safe_iff: "safe_for S L i m \<longleftrightarrow> (\<forall>b. preserves (bound_to S L i b) m) \<and> preserves (settled S L i) m"
  unfolding safe_for_def leads_def preserves_def settled_def by blast

lemma safe_settled: "safe_for S L i m \<Longrightarrow> m w = (w', r) \<Longrightarrow> settled S L i (w_fs w) \<Longrightarrow> settled S L i (w_fs w')"
  unfolding safe_iff preserves_def by (metis fst_conv)

lemma safe_sweep: "hash_format S \<Longrightarrow> safe_for S L i (sweep_retired age L q)"
  by (simp add: safe_preserved bound_sweep idle_sweep)

lemma safe_scoped_claim:
  assumes "hash_format S" "safe_for S L i pick" "preserves (idle S L i) pick"
  shows "safe_for S L i (scoped_claim S age L j body pick)"
  using safe_claim [OF assms, of j body] safe_sweep [OF assms(1), of L i age QUARANTINE]
  unfolding safe_iff by (simp add: scoped_claim_preserves)

text \<open>The record that a claim leaves when it names an owner.\<close>

lemma claim_bound:
  assumes "settled S L i (w_fs w)" "serde_law S" "safe_for S L i pick" "preserves (idle S L i) pick"
    and "ledger_claim S L i body pick w = (w', Inr c)" "c \<in> {ClaimNew ow, ClaimExisting ow}"
  shows "bound_to S L i (os_encode S ow) (w_fs w')"
proof -
  have hf: "hash_format S" using assms(2) by (simp add: serde_law_def)
  consider (idle) "idle S L i (w_fs w)" | (bound) ow' where "bound_to S L i (os_encode S ow') (w_fs w)"
    using assms(1) by (auto simp: settled_def)
  then show ?thesis
  proof cases
    case idle
    then show ?thesis using claim_from_idle [OF hf assms(4) _ assms(5)] assms(6) by auto
  next
    case bound
    then have "c = ClaimExisting ow"
      using bound_claims [OF hf bound, of body pick] assms(2,5,6) by (auto simp: serde_law_def split: if_splits)
    then show ?thesis using existing_bound [OF assms(1-4)] assms(5) by simp
  qed
qed

lemma scoped_claim_bound:
  assumes "settled S L i (w_fs w)" "serde_law S" "safe_for S L i pick" "preserves (idle S L i) pick"
    and "scoped_claim S age L i body pick w = (w', Inr c)" "c \<in> {ClaimNew ow, ClaimExisting ow}"
  shows "bound_to S L i (os_encode S ow) (w_fs w')"
proof -
  have hf: "hash_format S" using assms(2) by (simp add: serde_law_def)
  obtain w1 c1 where first: "ledger_claim S L i body pick w = (w1, Inr c1)"
    using assms(5) by (auto simp: scoped_claim_def a_bind_Ok)
  show ?thesis
  proof (cases "c1 = ClaimFull")
    case True
    then obtain w2 n where second: "sweep_retired age L QUARANTINE w1 = (w2, Inr n)" "ledger_claim S L i body pick w2 = (w', Inr c)"
      using assms(5) first by (auto simp: scoped_claim_def a_bind_Ok)
    have "settled S L i (w_fs w1)" by (rule safe_settled [OF safe_claim [OF hf assms(3,4)] first assms(1)])
    then have "settled S L i (w_fs w2)" by (rule safe_settled [OF safe_sweep [OF hf] second(1)])
    then show ?thesis by (rule claim_bound [OF _ assms(2-4) second(2) assms(6)])
  next
    case False
    then have "ledger_claim S L i body pick w = (w', Inr c)" using assms(5) first by (simp add: scoped_claim_def a_bind_def)
    then show ?thesis by (rule claim_bound [OF assms(1-4) _ assms(6)])
  qed
qed

lemma choose_other:
  assumes "local_to (lg_dir (ls_scoped_parents Ls)) P"
  shows "preserves P (choose_node S V Ls i lifecycle)"
  unfolding choose_node_def
  by (cases lifecycle) (auto intro!: preserve_intros scoped_claim_other [OF assms] split: option.split)

text \<open>Choosing a node never touches the ledger of operations.\<close>

lemma choose_safe:
  assumes "ledgers_apart Ls"
  shows "safe_for S (ls_scoped_ops Ls) i (choose_node S V Ls j lifecycle)"
    "preserves (idle S (ls_scoped_ops Ls) i) (choose_node S V Ls j lifecycle)"
proof -
  have apart: "lg_dir (ls_scoped_parents Ls) \<noteq> lg_dir (ls_scoped_ops Ls)" using assms by (simp add: ledgers_apart_def)
  show "preserves (idle S (ls_scoped_ops Ls) i) (choose_node S V Ls j lifecycle)"
    by (rule choose_other [OF local_other(2) [OF apart]])
  then show "safe_for S (ls_scoped_ops Ls) i (choose_node S V Ls j lifecycle)"
    by (intro safe_preserved choose_other local_other apart)
qed

lemma place_safe:
  assumes "hash_format S" "ledgers_apart Ls"
  shows "safe_for S (ls_scoped_ops Ls) i (scoped_place S V Ls request body)"
proof (rule safe_iff [THEN iffD2], intro conjI allI)
  note claim = safe_scoped_claim [OF assms(1) choose_safe [OF assms(2)], unfolded safe_iff]
  have keep: "preserves P (scoped_place S V Ls request body)"
    if "\<And>j lifecycle. preserves P (scoped_claim S (sv_age V 1) (ls_scoped_ops Ls) j body (choose_node S V Ls j lifecycle))" for P
    using that unfolding preserves_def scoped_place_def scoped_bind_def Let_def
    by (auto split: sum.split prod.split) (metis fst_conv)+
  show "preserves (bound_to S (ls_scoped_ops Ls) i b) (scoped_place S V Ls request body)" for b
    by (rule keep) (use claim in blast)
  show "preserves (settled S (ls_scoped_ops Ls) i) (scoped_place S V Ls request body)"
    by (rule keep) (use claim in blast)
qed

lemma place_bound:
  assumes "serde_law S" "ledgers_apart Ls" "settled S (ls_scoped_ops Ls) i (w_fs w)"
    and "scoped_place S V Ls request body w = (w', Inr (i, backend))"
  obtains ow where "ow_backend ow = backend" "bound_to S (ls_scoped_ops Ls) i (os_encode S ow) (w_fs w')"
proof -
  obtain lifecycle c ow where "scoped_claim S (sv_age V 1) (ls_scoped_ops Ls) i body (choose_node S V Ls i lifecycle) w = (w', Inr c)"
      "c \<in> {ClaimNew ow, ClaimExisting ow}" "ow_backend ow = backend"
    using assms(4)
    by (auto simp: scoped_place_def scoped_bind_def Let_def split: sum.splits prod.splits Claim.splits)
  with scoped_claim_bound [OF assms(3,1) choose_safe [OF assms(2)]] that show thesis by blast
qed

section \<open>An operation stays on its node\<close>

lemma find_bound:
  assumes "serde_law S" "settled S (ls_scoped_ops Ls) i (w_fs w)" "scoped_find S Ls route request w = (w', Inr (i, backend))"
  obtains ow where "ow_backend ow = backend" "bound_to S (ls_scoped_ops Ls) i (os_encode S ow) (w_fs w')"
proof -
  obtain ow where "ledger_lookup S (ls_scoped_ops Ls) i w = (w', Inr (Some ow))" "ow_backend ow = backend"
    using assms(3) by (auto simp: scoped_find_def split: option.splits prod.splits sum.splits)
  with lookup_bound [OF assms(2,1)] that show thesis by blast
qed

lemma find_safe: "safe_for S L i (scoped_find S Ls route request)"
proof -
  have keep: "preserves P (scoped_find S Ls route request)" for P
  proof -
    have "preserves P (ledger_lookup S (ls_scoped_ops Ls) j)" for j by (rule bound_lookup)
    then show ?thesis unfolding preserves_def scoped_find_def
      by (auto split: option.split prod.split sum.split) (metis fst_conv)+
  qed
  show ?thesis by (intro safe_preserved keep)
qed

text \<open>The identities whose binding a request may retire: those it names for cleanup.\<close>

definition cleans_up :: "OwnerSerde \<Rightarrow> ScopedEnv \<Rightarrow> string \<Rightarrow> string \<Rightarrow> bytes \<Rightarrow> string \<Rightarrow> bool" where
  "cleans_up S V verb path raw i =
     (case scoped_admit V verb path raw of
        Inr (RouteCleanup, body, request) \<Rightarrow>
          (case vstring (vindex request ''id'') of Some j \<Rightarrow> stem S j = stem S i | None \<Rightarrow> False)
      | _ \<Rightarrow> False)"

lemma retire_safe:
  assumes "hash_format S" "ledgers_apart Ls"
    and "case vstring (vindex request ''id'') of Some j \<Rightarrow> stem S j \<noteq> stem S i | None \<Rightarrow> True"
  shows "safe_for S (ls_scoped_ops Ls) i (\<lambda>w. (scoped_retire S V Ls request response w, ()))"
proof -
  have apart: "lg_dir (ls_scoped_parents Ls) \<noteq> lg_dir (ls_scoped_ops Ls)" using assms(2) by (simp add: ledgers_apart_def)
  have keep: "preserves P (\<lambda>w. (scoped_retire S V Ls request response w, ()))"
    if "local_to (lg_dir (ls_scoped_parents Ls)) P"
      "\<And>j. stem S j \<noteq> stem S i \<Longrightarrow> preserves P (ledger_retire S (sv_age V 2) (ls_scoped_ops Ls) j QUARANTINE)" for P
    using that(2) local_retire [OF that(1), of S "sv_age V 3" _ QUARANTINE] assms(3)
    unfolding preserves_def scoped_retire_def Let_def by (auto split: option.splits)
  show ?thesis
    by (intro safe_preserved keep local_other apart bound_retire idle_retire assms(1))
qed

lemma scoped_keeps:
  assumes "serde_law S" "ledgers_apart Ls" "\<not> cleans_up S V verb path raw i"
    and I: "one_owner S (ls_scoped_ops Ls) i (\<lambda>p. p = ForScoped i) (\<lambda>_. False) st"
  shows "one_owner S (ls_scoped_ops Ls) i (\<lambda>p. p = ForScoped i) (\<lambda>_. False) (fst (scoped_forward S V Ls verb path raw st))"
proof (cases "scoped_admit V verb path raw")
  case (Inl refusal)
  then show ?thesis using I by (simp add: scoped_forward_def)
next
  case admitted: (Inr p)
  let ?L = "ls_scoped_ops Ls" and ?I = "one_owner S (ls_scoped_ops Ls) i (\<lambda>p. p = ForScoped i) (\<lambda>_. False)"
  obtain route body request where p: "p = (route, body, request)" by (cases p)
  have hf: "hash_format S" using assms(1) by (simp add: serde_law_def)
  define m where "m = (if route = RoutePrepare then scoped_place S V Ls request body else scoped_find S Ls route request)"
  obtain w r where step: "m (rt_world st) = (w, r)" by fastforce
  have world: "?I (st\<lparr>rt_world := w\<rparr>)"
    using one_owner_world [OF place_safe [OF hf assms(2)] I] one_owner_world [OF find_safe I] step
    by (simp add: m_def split: if_splits)
  have target: "(if route = RoutePrepare then scoped_place S V Ls request body (rt_world st)
      else scoped_find S Ls route request (rt_world st)) = (w, r)"
    using step by (simp add: m_def split: if_splits)
  show ?thesis
  proof (cases r)
    case (Inl x)
    then show ?thesis using world admitted p by (simp add: scoped_forward_def target)
  next
    case (Inr q)
    obtain j backend where q: "q = (j, backend)" by fastforce
    let ?e = "\<lparr>sn_for = ForScoped j, sn_backend = backend, sn_method = ''POST'', sn_path = path, sn_body = body\<rparr>"
    have sent: "?I (note_sent ?e (st\<lparr>rt_world := w\<rparr>))"
    proof (cases "j = i")
      case True
      then obtain ow where ow: "ow_backend ow = backend" "bound_to S ?L i (os_encode S ow) (w_fs w)"
        using place_bound [OF assms(1,2) one_owner_settled [OF I]] find_bound [OF assms(1) one_owner_settled [OF I]] step Inr q
        by (metis m_def)
      show ?thesis by (rule one_owner_bound [OF _ world assms(1)]) (use ow in auto)
    next
      case False
      then show ?thesis using one_owner_other [OF _ _ world] by simp
    qed
    have cleanup: "?I (note_sent ?e (st\<lparr>rt_world := w\<rparr>)\<lparr>rt_world := scoped_retire S V Ls request resp w\<rparr>)" if "route = RouteCleanup" for resp
      by (rule one_owner_world [OF retire_safe [OF hf assms(2)] sent])
        (use assms(3) admitted p that in \<open>auto simp: cleans_up_def split: option.splits\<close>)
    show ?thesis
      using sent cleanup
      by (simp add: scoped_forward_def admitted p target Inr q Let_def split: ScopedSent.split)
  qed
qed

lemma router_keeps_scoped:
  assumes "serde_law S" "ledgers_apart Ls"
    and I: "one_owner S (ls_scoped_ops Ls) i (\<lambda>p. p = ForScoped i) (\<lambda>_. False) st"
  shows "one_owner S (ls_scoped_ops Ls) i (\<lambda>p. p = ForScoped i) (\<lambda>_. False) (fst (router_step S Ls op st))"
proof -
  let ?I = "one_owner S (ls_scoped_ops Ls) i (\<lambda>p. p = ForScoped i) (\<lambda>_. False)"
  have hf: "hash_format S" using assms(1) by (simp add: serde_law_def)
  have apart: "lg_dir (ls_executions Ls) \<noteq> lg_dir (ls_scoped_ops Ls)" using assms(2) by (simp add: ledgers_apart_def)
  have parents: "?I (fst (parents_forward S E Ls verb path body incarnation st))" for E verb path body incarnation
  proof -
    have world: "?I (st\<lparr>rt_world := w\<rparr>)" if "parent_owner S E Ls route j body (rt_world st) = (w, r)" for route j w r
      by (rule one_owner_world [OF safe_parent_owner [OF hf assms(2)] I that]) simp
    show ?thesis
    proof (cases rule: parents_forward_cases [of S E Ls verb path body incarnation st])
      case (forwarded route j w owner e)
      have "sn_for e \<noteq> ForScoped i" using forwarded(2) by (cases route) (simp_all add: parent_purpose_def)
      then show ?thesis using one_owner_other [OF _ _ world [OF forwarded(1)]] forwarded(4) by simp
    qed (use I world in simp_all)
  qed
  show ?thesis
    by (cases op) (auto intro!: parents executions_keep_other [OF apart I])
qed

text \<open>Requests of both kinds.\<close>

datatype service_op = RouterOp router_op | ScopedOp ScopedEnv string string bytes

fun service_step :: "OwnerSerde \<Rightarrow> Ledgers \<Rightarrow> service_op \<Rightarrow> RouterState \<Rightarrow> RouterState \<times> RouterReply" where
  "service_step S Ls (RouterOp op) st = router_step S Ls op st"
| "service_step S Ls (ScopedOp V verb path raw) st = scoped_forward S V Ls verb path raw st"

fun ends_operation :: "OwnerSerde \<Rightarrow> string \<Rightarrow> service_op \<Rightarrow> bool" where
  "ends_operation S i (RouterOp op) \<longleftrightarrow> False"
| "ends_operation S i (ScopedOp V verb path raw) \<longleftrightarrow> cleans_up S V verb path raw i"

lemma service_run_keeps:
  assumes "serde_law S" "ledgers_apart Ls" "list_all (\<lambda>op. \<not> ends_operation S i op) ops"
    and "one_owner S (ls_scoped_ops Ls) i (\<lambda>p. p = ForScoped i) (\<lambda>_. False) st"
  shows "one_owner S (ls_scoped_ops Ls) i (\<lambda>p. p = ForScoped i) (\<lambda>_. False) (run_final (service_step S Ls) st ops)"
  using assms(3,4)
proof (induction ops arbitrary: st)
  case (Cons op ops)
  then have "one_owner S (ls_scoped_ops Ls) i (\<lambda>p. p = ForScoped i) (\<lambda>_. False) (fst (service_step S Ls op st))"
    by (cases op) (simp_all add: scoped_keeps router_keeps_scoped assms(1,2))
  with Cons show ?case by simp
qed simp

text \<open>Scoped requests leave the other ledgers alone.\<close>

lemma scoped_place_other:
  assumes "local_to (lg_dir (ls_scoped_ops Ls)) P" "local_to (lg_dir (ls_scoped_parents Ls)) P"
  shows "preserves P (scoped_place S V Ls request body)"
proof -
  have "preserves P (scoped_claim S age (ls_scoped_ops Ls) j body (choose_node S V Ls j lifecycle))" for age j lifecycle
    by (rule scoped_claim_other [OF assms(1) choose_other [OF assms(2)]])
  then show ?thesis
    unfolding preserves_def scoped_place_def scoped_bind_def Let_def by (auto split: sum.split prod.split) (metis fst_conv)+
qed

lemma scoped_retire_other:
  assumes "local_to (lg_dir (ls_scoped_ops Ls)) P" "local_to (lg_dir (ls_scoped_parents Ls)) P" "P (w_fs w)"
  shows "P (w_fs (scoped_retire S V Ls request response w))"
  using preservesD [OF local_retire [OF assms(1)]] preservesD [OF local_retire [OF assms(2)]] assms(3)
  by (simp add: scoped_retire_def Let_def split: option.split)

lemma scoped_keeps_other:
  assumes apart: "lg_dir (ls_scoped_ops Ls) \<noteq> lg_dir L" "lg_dir (ls_scoped_parents Ls) \<noteq> lg_dir L"
    and I: "one_owner S L i mine once st" and others: "\<And>j. \<not> mine (ForScoped j) \<and> \<not> once (ForScoped j)"
  shows "one_owner S L i mine once (fst (scoped_forward S V Ls verb path raw st))"
proof -
  let ?I = "one_owner S L i mine once"
  note local = local_other [OF apart(1)] local_other [OF apart(2)]
  have safe_place: "safe_for S L i (scoped_place S V Ls request body)" for request body
    by (intro safe_preserved scoped_place_other local)
  have safe_retire: "safe_for S L i (\<lambda>w. (scoped_retire S V Ls request response w, ()))" for request response
    by (intro safe_preserved) (simp_all add: preserves_def scoped_retire_other local)
  have placed: "?I (st\<lparr>rt_world := w\<rparr>)" if "scoped_place S V Ls request body (rt_world st) = (w, r)" for request body w r
    by (rule one_owner_world [OF safe_place I that])
  have found: "?I (st\<lparr>rt_world := w\<rparr>)" if "scoped_find S Ls route request (rt_world st) = (w, r)" for route request w r
    by (rule one_owner_world [OF find_safe I that])
  have sent: "?I (note_sent e st')" if "?I st'" "sn_for e = ForScoped j" for e st' j
    using one_owner_other [OF _ _ that(1)] others that(2) by metis
  have retired: "?I (st'\<lparr>rt_world := scoped_retire S V Ls request response w\<rparr>)" if "rt_world st' = w" "?I st'" for st' request response w
    using one_owner_world [OF safe_retire that(2)] that(1) by blast
  show ?thesis
    using I unfolding scoped_forward_def Let_def
    by (auto split: sum.split prod.split ScopedSent.split dest!: placed found intro!: sent retired split: if_splits)
qed

lemma service_keeps:
  assumes "serde_law S" "ledgers_apart Ls"
  shows "one_owner S (ls_executions Ls) i (about_execution i) (\<lambda>p. p = ForSubmission i) st \<Longrightarrow>
      one_owner S (ls_executions Ls) i (about_execution i) (\<lambda>p. p = ForSubmission i) (run_final (service_step S Ls) st ops)"
    and "one_owner S (ls_parents Ls) i (about_parent i) (\<lambda>p. p = ForCreate i) st \<Longrightarrow>
      one_owner S (ls_parents Ls) i (about_parent i) (\<lambda>p. p = ForCreate i) (run_final (service_step S Ls) st ops)"
proof -
  have apart: "lg_dir (ls_scoped_ops Ls) \<noteq> lg_dir (ls_executions Ls)" "lg_dir (ls_scoped_parents Ls) \<noteq> lg_dir (ls_executions Ls)"
    "lg_dir (ls_scoped_ops Ls) \<noteq> lg_dir (ls_parents Ls)" "lg_dir (ls_scoped_parents Ls) \<noteq> lg_dir (ls_parents Ls)"
    using assms(2) by (auto simp: ledgers_apart_def)
  have ex: "one_owner S (ls_executions Ls) i (about_execution i) (\<lambda>p. p = ForSubmission i) st \<Longrightarrow>
      one_owner S (ls_executions Ls) i (about_execution i) (\<lambda>p. p = ForSubmission i) (fst (service_step S Ls op st))" for op st
    by (cases op) (simp_all add: router_step_keeps(1) assms scoped_keeps_other [OF apart(1,2)] about_execution_def)
  have pa: "one_owner S (ls_parents Ls) i (about_parent i) (\<lambda>p. p = ForCreate i) st \<Longrightarrow>
      one_owner S (ls_parents Ls) i (about_parent i) (\<lambda>p. p = ForCreate i) (fst (service_step S Ls op st))" for op st
    by (cases op) (simp_all add: router_step_keeps(2) assms scoped_keeps_other [OF apart(3,4)] about_parent_def)
  show "one_owner S (ls_executions Ls) i (about_execution i) (\<lambda>p. p = ForSubmission i) st \<Longrightarrow>
      one_owner S (ls_executions Ls) i (about_execution i) (\<lambda>p. p = ForSubmission i) (run_final (service_step S Ls) st ops)"
    by (induction ops arbitrary: st) (simp_all add: ex)
  show "one_owner S (ls_parents Ls) i (about_parent i) (\<lambda>p. p = ForCreate i) st \<Longrightarrow>
      one_owner S (ls_parents Ls) i (about_parent i) (\<lambda>p. p = ForCreate i) (run_final (service_step S Ls) st ops)"
    by (induction ops arbitrary: st) (simp_all add: pa)
qed

text \<open>
  C18: A scoped operation is never placed again. From an identity nothing is recorded for, after any
  requests of both kinds handled by any replicas, with any failures, none of them a cleanup of
  the operation, its preparation, start and reads all went to one node, also after a full
  ledger was swept and after its node disappeared from the nodes known.
\<close>

theorem scoped_operation_stays:
  assumes "serde_law S" "router_open dir w0 = (w, Inr Ls)" "idle S (ls_scoped_ops Ls) i (w_fs w)"
    and "list_all (\<lambda>op. \<not> ends_operation S i op) ops"
  shows "\<exists>b. list_all (\<lambda>e. sn_backend e = b)
           (sent_for (\<lambda>p. p = ForScoped i) (run_final (service_step S Ls) \<lparr>rt_world = w, rt_sent = []\<rparr> ops))"
proof -
  have "one_owner S (ls_scoped_ops Ls) i (\<lambda>p. p = ForScoped i) (\<lambda>_. False) \<lparr>rt_world = w, rt_sent = []\<rparr>"
    using assms(3) by (simp add: one_owner_def sent_for_def)
  from service_run_keeps [OF assms(1) router_open_apart [OF assms(2)] assms(4) this]
  show ?thesis unfolding one_owner_def by (elim disjE exE conjE) auto
qed

section \<open>A turn follows its parent\<close>

text \<open>A claim that selects a node, or finds the ledger full, has changed nothing but the lock file before.\<close>

lemma claim_reaches:
  assumes "preserves P (ledger_lock L)" "P (w_fs w)" "ledger_claim S L i body pick w = (w', Inr c)"
  shows "c = ClaimFull \<Longrightarrow> P (w_fs w')"
    and "c = ClaimNew ow \<Longrightarrow> \<exists>w1 w2. P (w_fs w1) \<and> pick w1 = (w2, Inr (ow_backend ow))"
proof -
  note keep = preserves_step [where P = P]
  obtain w1 u where lock: "ledger_lock L w = (w1, Inr u)"
    using assms(3) by (auto simp: ledger_claim_def a_bind_Ok)
  obtain w2 found where look: "ledger_lookup S L i w1 = (w2, Inr found)"
    using assms(3) lock by (auto simp: ledger_claim_def a_bind_Ok Let_def)
  have p2: "P (w_fs w2)" by (rule keep [OF bound_lookup look keep [OF assms(1) lock assms(2)]])
  have rest: "\<exists>w3 es. read_dir (lg_dir L) w2 = (w3, Inr es) \<and> P (w_fs w3) \<and>
      (if count_records (lg_capacity L) es \<ge> lg_capacity L then w' = w3 \<and> c = ClaimFull
       else \<exists>w4 b. pick w3 = (w4, Inr b) \<and> publish_owner S L i
              \<lparr>ow_version = 1, ow_backend = b, ow_body_hash = hash_str (os_hash S body)\<rparr> w4 = (w', Inr c))"
    if none: "found = None"
  proof -
    obtain w3 es where es: "read_dir (lg_dir L) w2 = (w3, Inr es)"
      using assms(3) lock look none by (auto simp: ledger_claim_def a_bind_Ok a_io_Ok Let_def)
    moreover have "P (w_fs w3)" by (rule keep [OF preserves_reads(5) es p2])
    ultimately show ?thesis
      using assms(3) lock look none by (auto simp: ledger_claim_def a_bind_Ok a_io_Ok Let_def split: if_splits)
  qed
  have found: "found = None" if "c = ClaimFull \<or> c = ClaimNew ow"
    using assms(3) lock look that by (cases found) (auto simp: ledger_claim_def a_bind_def Let_def a_return_def split: if_splits)
  have published: "\<exists>ow. c = ClaimNew ow \<and> ow_backend ow = b"
    if "publish_owner S L i \<lparr>ow_version = 1, ow_backend = b, ow_body_hash = hash_str (os_hash S body)\<rparr> w4 = (w', Inr c)" for w4 b
    using that by (auto simp: publish_owner_def a_bind_Ok split: if_splits)
  show "P (w_fs w')" if "c = ClaimFull"
    using rest [OF found] published that by (auto split: if_splits)
  show "\<exists>w1 w2. P (w_fs w1) \<and> pick w1 = (w2, Inr (ow_backend ow))" if "c = ClaimNew ow"
    using rest [OF found] published that by (fastforce split: if_splits)
qed

lemma scoped_claim_picks:
  assumes "local_to (lg_dir L) P" "preserves P pick" "P (w_fs w)" "scoped_claim S age L i body pick w = (w', Inr (ClaimNew ow))"
  shows "\<exists>w1 w2. P (w_fs w1) \<and> pick w1 = (w2, Inr (ow_backend ow))"
proof -
  note lock = local_lock [OF assms(1)]
  obtain w1 c1 where first: "ledger_claim S L i body pick w = (w1, Inr c1)"
    using assms(4) by (auto simp: scoped_claim_def a_bind_Ok)
  show ?thesis
  proof (cases "c1 = ClaimFull")
    case True
    then obtain w2 n where second: "sweep_retired age L QUARANTINE w1 = (w2, Inr n)" "ledger_claim S L i body pick w2 = (w', Inr (ClaimNew ow))"
      using assms(4) first by (auto simp: scoped_claim_def a_bind_Ok)
    have "P (w_fs w1)" by (rule preserves_step [where P = P, OF local_claim [OF assms(1,2)] first assms(3)])
    then have "P (w_fs w2)" by (rule preserves_step [where P = P, OF local_sweep [OF assms(1)] second(1)])
    then show ?thesis using claim_reaches(2) [OF lock _ second(2)] by simp
  next
    case False
    then have "ledger_claim S L i body pick w = (w', Inr (ClaimNew ow))" using assms(4) first by (simp add: scoped_claim_def a_bind_def)
    then show ?thesis using claim_reaches(2) [OF lock assms(3)] by simp
  qed
qed

text \<open>A claim names an existing owner only when one is recorded.\<close>

lemma scoped_claim_fresh:
  assumes "hash_format S" "preserves (idle S L i) pick" "idle S L i (w_fs w)" "scoped_claim S age L i body pick w = (w', Inr c)"
  shows "c \<noteq> ClaimExisting ow"
proof -
  obtain w1 c1 where first: "ledger_claim S L i body pick w = (w1, Inr c1)"
    using assms(4) by (auto simp: scoped_claim_def a_bind_Ok)
  show ?thesis
  proof (cases "c1 = ClaimFull")
    case True
    then obtain w2 n where second: "sweep_retired age L QUARANTINE w1 = (w2, Inr n)" "ledger_claim S L i body pick w2 = (w', Inr c)"
      using assms(4) first by (auto simp: scoped_claim_def a_bind_Ok)
    have "idle S L i (w_fs w1)"
      using claim_reaches(1) [where P = "idle S L i", OF idle_lock [OF assms(1)] assms(3) first] True by simp
    then have "idle S L i (w_fs w2)" by (rule preserves_step [where P = "idle S L i", OF idle_sweep [OF assms(1)] second(1)])
    then show ?thesis using claim_from_idle [OF assms(1,2) _ second(2)] by auto
  next
    case False
    then have "ledger_claim S L i body pick w = (w', Inr c)" using assms(4) first by (simp add: scoped_claim_def a_bind_def)
    then show ?thesis using claim_from_idle [OF assms(1-3)] by fastforce
  qed
qed

text \<open>
  A turn follows its parent and never places one. When a preparation of a turn that is new to
  the ledger is given a node, that node is the one recorded for the turn's parent, before and
  after; so a turn whose parent has no record is refused, whatever nodes are healthy.
\<close>

theorem turn_follows_parent:
  assumes "serde_law S" "router_open dir w0 = (w1, Inr Ls)"
    and "scoped_identity V request = Inr (i, Turn parent)"
    and "idle S (ls_scoped_ops Ls) i (w_fs w)" "settled S (ls_scoped_parents Ls) parent (w_fs w)"
    and "scoped_place S V Ls request body w = (w', Inr (i, backend))"
  shows "\<exists>ow. ow_backend ow = backend \<and> bound_to S (ls_scoped_parents Ls) parent (os_encode S ow) (w_fs w)
           \<and> bound_to S (ls_scoped_parents Ls) parent (os_encode S ow) (w_fs w')"
proof -
  let ?O = "ls_scoped_ops Ls" and ?P = "ls_scoped_parents Ls" and ?pick = "choose_node S V Ls i (Turn parent)"
  have hf: "hash_format S" and law: "os_decode S (os_encode S ow) = Some ow" for ow using assms(1) by (simp_all add: serde_law_def)
  have apart: "lg_dir ?O \<noteq> lg_dir ?P" and la: "ledgers_apart Ls"
    using router_open_apart [OF assms(2)] by (auto simp: ledgers_apart_def)
  have reads: "preserves Q ?pick" for Q
    unfolding choose_node_def by (auto intro!: preserve_intros split: option.split)
  obtain c where c: "scoped_claim S (sv_age V 1) ?O i body ?pick w = (w', Inr c)"
      "\<exists>ow. c \<in> {ClaimNew ow, ClaimExisting ow} \<and> ow_backend ow = backend"
    using assms(3,6) by (auto simp: scoped_place_def scoped_bind_def Let_def split: sum.splits prod.splits Claim.splits)
  then obtain ow where new: "c = ClaimNew ow" "ow_backend ow = backend"
    using scoped_claim_fresh [OF hf choose_safe(2) [OF la] assms(4) c(1)] by auto
  have picked: "\<exists>u u'. Q (w_fs u) \<and> ?pick u = (u', Inr backend)" if "local_to (lg_dir ?O) Q" "Q (w_fs w)" for Q
    using scoped_claim_picks [OF that(1) reads that(2)] c(1) new by blast
  have answer: "\<exists>ow. ledger_lookup S ?P parent u = (u', Inr (Some ow)) \<and> ow_backend ow = backend" if "?pick u = (u', Inr backend)" for u u'
    using that by (auto simp: choose_node_def a_bind_Ok split: option.splits)
  obtain po where po: "bound_to S ?P parent (os_encode S po) (w_fs w)"
    using assms(5) picked [OF local_other(2) [OF apart]] answer idle_lookup by (fastforce simp: settled_def)
  obtain u u' where u: "bound_to S ?P parent (os_encode S po) (w_fs u)" "?pick u = (u', Inr backend)"
    using picked [OF local_other(1) [OF apart] po] by blast
  have "ow_backend po = backend"
    using answer [OF u(2)] bound_answers [OF u(1) law] by auto
  moreover have "bound_to S ?P parent (os_encode S po) (w_fs w')"
    by (rule preserves_step [where P = "bound_to S ?P parent (os_encode S po)",
          OF scoped_claim_other [OF local_other(1) [OF apart] reads] c(1) po])
  ultimately show ?thesis using po by blast
qed

text \<open>Conversely, a turn whose parent is recorded is placed when every call succeeds and there is room.\<close>

lemma turn_placed:
  assumes "serde_law S" "ledgers_apart Ls" "scoped_identity V request = Inr (i, Turn parent)"
    and "idle S (ls_scoped_ops Ls) i (w_fs w)" "w_faults w = []" "fs_kind (w_fs w) (lg_dir (ls_scoped_ops Ls)) = Some Dir"
    and "fs_kind (w_fs w) (lg_dir (ls_scoped_ops Ls) @ [''ownership.lock'']) \<in> {None, Some (File b)}"
    and "records_in (lg_dir (ls_scoped_ops Ls)) (w_fs w) < lg_capacity (ls_scoped_ops Ls)"
    and "bound_to S (ls_scoped_parents Ls) parent (os_encode S ow) (w_fs w)" "readable S ow"
  shows "\<exists>w'. scoped_place S V Ls request body w = (w', Inr (i, ow_backend ow))"
proof -
  let ?pick = "choose_node S V Ls i (Turn parent)"
  have hf: "hash_format S" using assms(1) by (simp add: serde_law_def)
  have apart: "lg_dir (ls_scoped_ops Ls) \<noteq> lg_dir (ls_scoped_parents Ls)" using assms(2) by (auto simp: ledgers_apart_def)
  have pick: "?pick w1 = (w1, Ok (ow_backend ow))" if "ledger_lock (ls_scoped_ops Ls) w = (w1, Ok ())" "w_faults w1 = []" for w1
  proof -
    have "bound_to S (ls_scoped_parents Ls) parent (os_encode S ow) (w_fs w1)"
      by (rule preserves_step [where P = "bound_to S (ls_scoped_parents Ls) parent (os_encode S ow)",
            OF local_lock [OF local_other(1) [OF apart]] that(1) assms(9)])
    from lookup_calm [OF this that(2) assms(1,10)] show ?thesis by (simp add: choose_node_def aop_defs)
  qed
  have "length (ow_backend ow) \<le> 1024" using assms(10) by (simp add: readable_def)
  from claim_calm [OF hf assms(4-8) this, of ?pick body, OF pick]
  obtain w' c where "ledger_claim S (ls_scoped_ops Ls) i body ?pick w = (w', Ok (ClaimNew c))" "ow_backend c = ow_backend ow" by fastforce
  then show ?thesis by (simp add: scoped_place_def assms(3) scoped_bind_def scoped_claim_def aop_defs)
qed

section \<open>A concrete service\<close>

definition sample_scoped_env :: "string list \<Rightarrow> ScopedEnv" where
  "sample_scoped_env nodes =
     \<lparr>sv_router = sample_router_env\<lparr>rv_static := nodes, rv_scoped_token := Some (Some ''s'')\<rparr>, sv_contract = sample_contract,
      sv_presented = Some ''s'', sv_pinned = False, sv_age = (\<lambda>_ _. Some 0), sv_connect = (\<lambda>_. True), sv_answer = (\<lambda>_ _ _. None)\<rparr>"

lemma admit_route: "scoped_admit V verb path raw = Inr (route, body, request) \<Longrightarrow> scoped_route verb path = Some route"
  by (auto simp: scoped_admit_def scoped_gate_def split: if_splits option.splits sum.splits)

lemma no_cleanup: "scoped_route verb path \<noteq> Some RouteCleanup \<Longrightarrow> \<not> cleans_up S V verb path raw i"
  by (auto simp: cleans_up_def dest: admit_route split: sum.splits ScopedRoute.splits)

theorem scoped_operation_stays_witness:
  "\<exists>b. list_all (\<lambda>e. sn_backend e = b) (sent_for (\<lambda>p. p = ForScoped ''x'')
     (run_final (service_step sample_router_serde sample_ledgers) \<lparr>rt_world = sample_opened, rt_sent = []\<rparr>
       [ScopedOp (sample_scoped_env [''http://a'']) ''POST'' ''/v1/scoped/prepare'' [1],
        RouterOp (SubmitOp sample_router_env [1] None),
        ScopedOp (sample_scoped_env [''http://b'']) ''POST'' ''/v1/scoped/prepare'' [1],
        ScopedOp (sample_scoped_env [''http://a'', ''http://b'']) ''POST'' ''/v1/scoped/start'' [1]]))"
proof (rule scoped_operation_stays [OF sample_serde_law sample_router_opens])
  show "idle sample_router_serde (ls_scoped_ops sample_ledgers) ''x'' (w_fs sample_opened)" by (rule sample_scoped_idle)
qed (simp add: no_cleanup scoped_route_def)

definition sample_turn_request :: Value where
  "sample_turn_request =
     VObject [(''decision'', VObject [(''lifecycle'', VString ''enduring-turn''), (''parent'', VObject [(''incarnation'', VString ''p'')])]),
              (''operation'', sample_operation ''one'')]"

definition sample_parent_owner :: Owner where
  "sample_parent_owner = \<lparr>ow_version = 1, ow_backend = ''http://a'', ow_body_hash = hash_str (os_hash sample_router_serde (as_bytes ''p''))\<rparr>"

definition sample_bound_world :: world where
  "sample_bound_world = sample_opened\<lparr>w_fs := bt_insert (owner_path sample_router_serde (ls_scoped_parents sample_ledgers) ''p'')
     (File (sample_encode sample_parent_owner)) (w_fs sample_opened)\<rparr>"

lemma sample_turn_identity: "\<exists>i. scoped_identity (sample_scoped_env nodes) sample_turn_request = Inr (i, Turn ''p'')"
  by (simp add: scoped_identity_def sample_turn_request_def vget_def bt_get_def object_len_def sample_scoped_env_def read_lifecycle_def
      bounded_str_def vstring_def vindex_def scoped_operation_id_def contract_canonical_def sample_contract_def CONTRACT_MAX_BYTES_def
      sample_raw_def split: option.split)

lemma sample_bound_facts:
  "bound_to sample_router_serde (ls_scoped_parents sample_ledgers) ''p'' (os_encode sample_router_serde sample_parent_owner) (w_fs sample_bound_world)"
  "readable sample_router_serde sample_parent_owner"
  "idle sample_router_serde (ls_scoped_ops sample_ledgers) i (w_fs sample_bound_world)"
  "w_faults sample_bound_world = []"
  "fs_kind (w_fs sample_bound_world) (lg_dir (ls_scoped_ops sample_ledgers)) = Some Dir"
  "fs_kind (w_fs sample_bound_world) (lg_dir (ls_scoped_ops sample_ledgers) @ [''ownership.lock'']) = None"
  "records_in (lg_dir (ls_scoped_ops sample_ledgers)) (w_fs sample_bound_world) < lg_capacity (ls_scoped_ops sample_ledgers)"
proof -
  have hf: "hash_format sample_router_serde" using sample_serde_law by (simp add: serde_law_def)
  let ?p = "owner_path sample_router_serde (ls_scoped_parents sample_ledgers) ''p''"
  have p: "?p = [''own'', ''scoped-parents'', stem sample_router_serde ''p'' @ ''.json'']" by (simp add: owner_path_eq sample_ledgers_def)
  have kind: "fs_kind (w_fs sample_bound_world) q = (if q = ?p then Some (File (sample_encode sample_parent_owner)) else fs_kind (w_fs sample_opened) q)" for q
    by (simp add: sample_bound_world_def fs_kind_insert sample_opened_idle p)
  have inv: "bt_invar (w_fs sample_bound_world)" by (simp add: sample_bound_world_def bt_simps sample_opened_idle)
  note paths = owner_path_eq retired_path_eq [OF hf] sample_ledgers_def
  show "bound_to sample_router_serde (ls_scoped_parents sample_ledgers) ''p'' (os_encode sample_router_serde sample_parent_owner) (w_fs sample_bound_world)"
  proof -
    have "os_encode sample_router_serde = sample_encode" by (simp add: sample_router_serde_def)
    then show ?thesis
      by (simp add: bound_to_def kind inv) (simp add: paths sample_opened_idle append_suffix_neq [symmetric])
  qed
  show "readable sample_router_serde sample_parent_owner"
    by (simp add: readable_def sample_parent_owner_def sample_addr sample_router_serde_def sample_encode_def sample_owner_serde_def as_bytes_def)
  show "idle sample_router_serde (ls_scoped_ops sample_ledgers) i (w_fs sample_bound_world)"
    by (simp add: idle_def kind inv) (simp add: paths sample_opened_idle)
  show "w_faults sample_bound_world = []" by (simp add: sample_bound_world_def sample_opened_def sample_router_world_def)
  show "fs_kind (w_fs sample_bound_world) (lg_dir (ls_scoped_ops sample_ledgers)) = Some Dir"
    by (simp add: kind paths) (simp add: sample_opened_def fs_kind_def bt_get_def)
  show "fs_kind (w_fs sample_bound_world) (lg_dir (ls_scoped_ops sample_ledgers) @ [''ownership.lock'']) = None"
    by (simp add: kind paths sample_opened_idle)
  have "records_in [''own'', ''scoped-ops''] (w_fs sample_bound_world) = records_in [''own'', ''scoped-ops''] (w_fs sample_opened)"
    unfolding records_in_def sample_bound_world_def
    using filter_bt_insert_fresh [OF sample_opened_idle(4), of ?p] sample_opened_idle(1) [of ?p] by (simp add: fs_kind_def p)
  then show "records_in (lg_dir (ls_scoped_ops sample_ledgers)) (w_fs sample_bound_world) < lg_capacity (ls_scoped_ops sample_ledgers)"
    by (simp add: sample_ledgers_def records_in_def sample_opened_def)
qed

theorem turn_follows_parent_witness:
  "\<exists>i w' backend ow. scoped_place sample_router_serde (sample_scoped_env [''http://a'', ''http://b'']) sample_ledgers sample_turn_request [1]
       sample_bound_world = (w', Inr (i, backend))
     \<and> ow_backend ow = backend
     \<and> bound_to sample_router_serde (ls_scoped_parents sample_ledgers) ''p'' (os_encode sample_router_serde ow) (w_fs w')"
proof -
  obtain i where i: "scoped_identity (sample_scoped_env [''http://a'', ''http://b'']) sample_turn_request = Inr (i, Turn ''p'')"
    using sample_turn_identity by blast
  obtain w' where w': "scoped_place sample_router_serde (sample_scoped_env [''http://a'', ''http://b'']) sample_ledgers sample_turn_request [1]
       sample_bound_world = (w', Inr (i, ow_backend sample_parent_owner))"
    using turn_placed [OF sample_serde_law router_open_apart [OF sample_router_opens] i sample_bound_facts(3-5) _ sample_bound_facts(7,1,2)]
      sample_bound_facts(6) by auto
  have "settled sample_router_serde (ls_scoped_parents sample_ledgers) ''p'' (w_fs sample_bound_world)"
    using sample_bound_facts(1) by (auto simp: settled_def)
  from turn_follows_parent [OF sample_serde_law sample_router_opens i sample_bound_facts(3) this w'] w' show ?thesis by blast
qed

end
