(* ===== verification/Gateway.thy ===== *)
theory Gateway
  imports Scoped
begin

text \<open>
  \<open>handle_request\<close> of \<open>celln-cli/src/router.rs\<close>: one connection, from the bytes received to the
  handler they are passed to. The bytes are those the client sent before it closed the
  connection or the read timed out. Three read-only reports of the fleet are named by what
  they are asked for; they involve no ledger.
\<close>

section \<open>Lines and headers\<close>

text \<open>\<open>byte as char\<close>, pushed to a string: two bytes above 127.\<close>

definition push_latin1 :: "u8 \<Rightarrow> string" where
  "push_latin1 b =
     (if b < 128 then [char_of (unat b)] else [char_of (192 + unat b div 64), char_of (128 + unat b mod 64)])"

text \<open>\<open>read_bounded_line\<close>: the line and what follows it, or that it is too long.\<close>

fun read_bounded_line :: "nat \<Rightarrow> string \<Rightarrow> bytes \<Rightarrow> (string \<times> bytes) option" where
  "read_bounded_line cap line [] = Some (line, [])"
| "read_bounded_line cap line (b # bs) =
     (if b = 10 then Some (line @ push_latin1 b, bs)
      else if length (line @ push_latin1 b) \<ge> cap then None
      else read_bounded_line cap (line @ push_latin1 b) bs)"

record GatewayHeaders =
  gh_length :: "nat option"
  gh_authorization :: "string option"
  gh_pinned :: "string option"
  gh_incarnation :: "string option"
  gh_respond_async :: bool
  gh_execution_permit :: "string option"
  gh_model_permit :: "string option"

definition no_headers :: GatewayHeaders where
  "no_headers = \<lparr>gh_length = None, gh_authorization = None, gh_pinned = None, gh_incarnation = None, gh_respond_async = False,
     gh_execution_permit = None, gh_model_permit = None\<rparr>"

definition permit_value_ok :: "string option \<Rightarrow> string \<Rightarrow> bool" where
  "permit_value_ok slot v = (slot = None \<and> v \<noteq> [] \<and> list_all is_ascii_graphic v)"

text \<open>One header line, trimmed at its end.\<close>

definition gateway_header :: "string \<Rightarrow> GatewayHeaders \<Rightarrow> RouterReply + GatewayHeaders" where
  "gateway_header header h =
     (case split_once (CHR '':'') header of
        None \<Rightarrow> Inl (Reply 400 ''invalid header'')
      | Some (name, raw) \<Rightarrow>
          (let v = str_trim raw; is = eq_ignore_ascii_case name in
           if is ''authorization'' then
             (if gh_authorization h \<noteq> None then Inl (Reply 400 ''duplicate authorization'') else Inr (h\<lparr>gh_authorization := Some v\<rparr>))
           else if is ''x-celln-backend'' then
             (if gh_pinned h \<noteq> None then Inl (Reply 400 ''duplicate backend pin'') else Inr (h\<lparr>gh_pinned := Some v\<rparr>))
           else if is ''x-celln-parent-incarnation'' then
             (if gh_incarnation h \<noteq> None then Inl (Reply 400 ''duplicate parent identity'') else Inr (h\<lparr>gh_incarnation := Some v\<rparr>))
           else if is ''x-celln-execution-permit'' then
             (if \<not> permit_value_ok (gh_execution_permit h) v then Inl (Reply 400 ''invalid or duplicate permit header'')
              else Inr (h\<lparr>gh_execution_permit := Some v\<rparr>))
           else if is ''x-celln-model-permit'' then
             (if \<not> permit_value_ok (gh_model_permit h) v then Inl (Reply 400 ''invalid or duplicate permit header'')
              else Inr (h\<lparr>gh_model_permit := Some v\<rparr>))
           else if is ''prefer'' then
             (if v \<noteq> ''respond-async'' \<or> gh_respond_async h then Inl (Reply 400 ''unsupported or duplicate preference'')
              else Inr (h\<lparr>gh_respond_async := True\<rparr>))
           else if is ''content-length'' then
             (if gh_length h \<noteq> None \<or> \<not> list_all is_ascii_digit v then Inl (Reply 400 ''invalid content length'')
              else (case parse_u64 v of
                      None \<Rightarrow> Inl (Reply 400 ''invalid content length'')
                    | Some n \<Rightarrow> Inr (h\<lparr>gh_length := Some (unat n)\<rparr>)))
           else if is ''transfer-encoding'' then Inl (Reply 400 ''transfer encoding unsupported'')
           else Inr h))"

text \<open>The loop over the header lines, with how many more are allowed.\<close>

fun gateway_headers :: "nat \<Rightarrow> GatewayHeaders \<Rightarrow> bytes \<Rightarrow> RouterReply + (GatewayHeaders \<times> bytes)" where
  "gateway_headers n h bs =
     (case read_bounded_line 8192 [] bs of
        None \<Rightarrow> Inl Dropped
      | Some (line, rest) \<Rightarrow>
          if line = [] then Inl Dropped
          else if trim_end line = [] then Inr (h, rest)
          else (case n of
                  0 \<Rightarrow> Inl Dropped
                | Suc m \<Rightarrow>
                    (case gateway_header (trim_end line) h of
                       Inl refusal \<Rightarrow> Inl refusal
                     | Inr h' \<Rightarrow> gateway_headers m h' rest)))"

declare gateway_headers.simps [simp del]

record GatewayRequest =
  gr_verb :: string
  gr_path :: string
  gr_headers :: GatewayHeaders
  gr_rest :: bytes

definition gateway_parse :: "bytes \<Rightarrow> RouterReply + GatewayRequest" where
  "gateway_parse conn =
     (case read_bounded_line 8192 [] conn of
        None \<Rightarrow> Inl Dropped
      | Some (line, rest) \<Rightarrow>
          (case split_once (CHR '' '') (trim_end line) of
             None \<Rightarrow> Inl (Reply 400 ''malformed request line'')
           | Some (verb, raw_path) \<Rightarrow>
               (case gateway_headers 64 no_headers rest of
                  Inl refusal \<Rightarrow> Inl refusal
                | Inr (h, body) \<Rightarrow>
                    Inr \<lparr>gr_verb = verb, gr_path = (case split_whitespace raw_path of p # _ \<Rightarrow> p | [] \<Rightarrow> []),
                         gr_headers = h, gr_rest = body\<rparr>)))"

definition presented :: "GatewayHeaders \<Rightarrow> string option" where
  "presented h =
     (case gh_authorization h of
        None \<Rightarrow> None
      | Some v \<Rightarrow> (case split_once (CHR '' '') v of
                     Some (scheme, token) \<Rightarrow> if eq_ignore_ascii_case scheme ''bearer'' then Some token else None
                   | None \<Rightarrow> None))"

definition content_length :: "GatewayHeaders \<Rightarrow> nat" where
  "content_length h = (case gh_length h of Some n \<Rightarrow> n | None \<Rightarrow> 0)"

text \<open>\<open>read_exact\<close> of the body.\<close>

definition read_body :: "GatewayRequest \<Rightarrow> bytes option" where
  "read_body r =
     (let n = content_length (gr_headers r) in if n \<le> length (gr_rest r) then Some (take n (gr_rest r)) else None)"

section \<open>Routing\<close>

definition report_query :: "string \<Rightarrow> string option option" where
  "report_query target =
     (case split_once (CHR ''?'') target of
        None \<Rightarrow> if target = ''/v1/cells'' then Some None else None
      | Some (path, query) \<Rightarrow> if path = ''/v1/cells'' then Some (Some query) else None)"

datatype GatewayReply = Answer RouterReply | CapabilityReport | ScopedCapabilityReport | CellsReport string

definition scoped_connection ::
  "OwnerSerde \<Rightarrow> ScopedEnv \<Rightarrow> Ledgers \<Rightarrow> GatewayRequest \<Rightarrow> RouterState \<Rightarrow> RouterState \<times> RouterReply" where
  "scoped_connection S V Ls r st =
     (case read_body r of
        Some raw \<Rightarrow> scoped_forward S V Ls (gr_verb r) (gr_path r) raw st
      | None \<Rightarrow>
          (st, case scoped_gate V (gr_verb r) (gr_path r) (content_length (gr_headers r)) of Inl refusal \<Rightarrow> refusal | Inr _ \<Rightarrow> Dropped))"

definition parents_connection ::
  "OwnerSerde \<Rightarrow> RouterEnv \<Rightarrow> Ledgers \<Rightarrow> GatewayRequest \<Rightarrow> RouterState \<Rightarrow> RouterState \<times> RouterReply" where
  "parents_connection S E Ls r st =
     (let h = gr_headers r in
      case read_body r of
        Some body \<Rightarrow> parents_forward S E Ls (gr_verb r) (gr_path r) body (gh_incarnation h) st
      | None \<Rightarrow>
          (st, case parent_request E (gr_verb r) (gr_path r) (replicate (content_length h) 0) (gh_incarnation h) of
                 Inl refusal \<Rightarrow> refusal | Inr _ \<Rightarrow> Dropped))"

definition submission_connection ::
  "OwnerSerde \<Rightarrow> RouterEnv \<Rightarrow> Ledgers \<Rightarrow> GatewayRequest \<Rightarrow> RouterState \<Rightarrow> RouterState \<times> RouterReply" where
  "submission_connection S E Ls r st =
     (case read_body r of
        Some body \<Rightarrow> forward_submission S E Ls body (gh_pinned (gr_headers r)) st
      | None \<Rightarrow> (st, if content_length (gr_headers r) > 65536 then Reply 413 ''request body exceeds 64 KiB or is empty'' else Dropped))"

definition prewarm_connection :: "RouterEnv \<Rightarrow> GatewayRequest \<Rightarrow> RouterState \<Rightarrow> RouterState \<times> RouterReply" where
  "prewarm_connection E r st =
     (case read_body r of
        Some body \<Rightarrow> forward_prewarm E body (gh_pinned (gr_headers r)) st
      | None \<Rightarrow>
          (st, if gh_pinned (gr_headers r) = None then Reply 400 ''prewarm requires an explicit backend pin''
               else if content_length (gr_headers r) > 65536 then Reply 413 ''prewarm body exceeds 64 KiB or is empty'' else Dropped))"

text \<open>The routes behind the client's credential.\<close>

definition client_route ::
  "OwnerSerde \<Rightarrow> RouterEnv \<Rightarrow> Ledgers \<Rightarrow> GatewayRequest \<Rightarrow> RouterState \<Rightarrow> RouterState \<times> GatewayReply" where
  "client_route S E Ls r st =
     (let verb = gr_verb r; path = gr_path r in
      if path = ''/v1/parents'' \<or> starts_with ''/v1/parents/'' path then map_prod id Answer (parents_connection S E Ls r st)
      else if verb = ''GET'' \<and> path = ''/v1/capabilities'' then (st, CapabilityReport)
      else if verb = ''GET'' \<and> report_query path \<noteq> None then (st, CellsReport path)
      else if verb = ''POST'' \<and> path = ''/v1/artifacts/prewarm'' then map_prod id Answer (prewarm_connection E r st)
      else if verb = ''POST'' \<and> path = ''/v1/executions'' then map_prod id Answer (submission_connection S E Ls r st)
      else if verb = ''POST'' \<and> execution_path_id path True \<noteq> None then
        (if content_length (gr_headers r) \<noteq> 0 then (st, Answer (Reply 400 ''cancel body must be empty''))
         else map_prod id Answer (forward_existing S E Ls ''POST'' path True st))
      else if verb = ''GET'' \<and> execution_path_id path False \<noteq> None
      then map_prod id Answer (forward_existing S E Ls ''GET'' path False st)
      else (st, Answer (Reply 404 ''not found'')))"

definition pin_refused :: "RouterEnv \<Rightarrow> GatewayRequest \<Rightarrow> RouterReply option" where
  "pin_refused E r =
     (case gh_pinned (gr_headers r) of
        None \<Rightarrow> None
      | Some backend \<Rightarrow>
          if length backend > 1024 \<or> backend \<notin> set (router_backends E) then Some (Reply 400 ''backend pin is not configured'')
          else if gr_verb r \<noteq> ''POST'' \<or> gr_path r \<notin> {''/v1/executions'', ''/v1/artifacts/prewarm''}
          then Some (Reply 400 ''backend pin only applies to submission or prewarm'') else None)"

definition gateway_route ::
  "OwnerSerde \<Rightarrow> ScopedEnv \<Rightarrow> Ledgers \<Rightarrow> GatewayRequest \<Rightarrow> RouterState \<Rightarrow> RouterState \<times> GatewayReply" where
  "gateway_route S V Ls r st =
     (let E = sv_router V; got = presented (gr_headers r); shown = (\<lambda>t. case got of Some g \<Rightarrow> token_eq g t | None \<Rightarrow> False) in
      if starts_with ''/v1/scoped/'' (gr_path r)
      then map_prod id Answer (scoped_connection S (V\<lparr>sv_presented := got, sv_pinned := (gh_pinned (gr_headers r) \<noteq> None)\<rparr>) Ls r st)
      else if gr_verb r = ''GET'' \<and> gr_path r = ''/v1/capabilities'' \<and> credentials E \<noteq> None
              \<and> (case scoped_credential E of Some (Some t) \<Rightarrow> shown t | _ \<Rightarrow> False)
      then (st, ScopedCapabilityReport)
      else (case credentials E of
        None \<Rightarrow> (st, Answer (Reply 503 ''router credentials unavailable''))
      | Some (client, backend, capability) \<Rightarrow>
          (let discovery = gr_verb r = ''GET'' \<and> (gr_path r = ''/v1/capabilities'' \<or> report_query (gr_path r) \<noteq> None) in
           if \<not> (shown client \<or> (discovery \<and> (case capability of Some t \<Rightarrow> shown t | None \<Rightarrow> False)))
           then (st, Answer (Reply 401 ''unauthorized''))
           else (case pin_refused E r of
                   Some refusal \<Rightarrow> (st, Answer refusal)
                 | None \<Rightarrow> client_route S E Ls r st))))"

definition gateway_handle ::
  "OwnerSerde \<Rightarrow> Ledgers \<Rightarrow> ScopedEnv \<times> bytes \<Rightarrow> RouterState \<Rightarrow> RouterState \<times> GatewayReply" where
  "gateway_handle S Ls c st =
     (case gateway_parse (snd c) of
        Inl refusal \<Rightarrow> (st, Answer refusal)
      | Inr r \<Rightarrow> gateway_route S (fst c) Ls r st)"

section \<open>A connection is at most one request of the service\<close>

definition one_request :: "OwnerSerde \<Rightarrow> Ledgers \<Rightarrow> RouterState \<Rightarrow> RouterState \<Rightarrow> bool" where
  "one_request S Ls st st' \<longleftrightarrow> st' = st \<or> (\<exists>op. st' = fst (service_step S Ls op st))"

lemma one_request_same [simp]: "one_request S Ls st st"
  by (simp add: one_request_def)

lemma one_request_step [simp]:
  "one_request S Ls st (fst (scoped_forward S V Ls verb path raw st))"
  "one_request S Ls st (fst (parents_forward S E Ls verb path body incarnation st))"
  "one_request S Ls st (fst (forward_submission S E Ls body pinned st))"
  "one_request S Ls st (fst (forward_prewarm E body pinned st))"
  "one_request S Ls st (fst (forward_existing S E Ls verb path cancel st))"
  unfolding one_request_def by (metis service_step.simps router_step.simps)+

lemma one_request_connection [simp]:
  "one_request S Ls st (fst (scoped_connection S V Ls r st))"
  "one_request S Ls st (fst (parents_connection S E Ls r st))"
  "one_request S Ls st (fst (submission_connection S E Ls r st))"
  "one_request S Ls st (fst (prewarm_connection E r st))"
  by (simp_all add: scoped_connection_def parents_connection_def submission_connection_def prewarm_connection_def Let_def
      split: option.split)

lemma one_request_route: "one_request S Ls st (fst (client_route S E Ls r st))"
  by (simp add: client_route_def Let_def)

lemma connection_step: "one_request S Ls st (fst (gateway_handle S Ls c st))"
  by (simp add: gateway_handle_def gateway_route_def one_request_route Let_def split: option.split sum.split)

text \<open>
  The service answers connections as a sequence of requests. Whatever bytes are sent over any
  connections, the state of the ledgers and what was sent to the nodes is that of handling, one
  after the other, at most one request of the model for each connection.
\<close>

lemma connections_as_service:
  "\<exists>ops. length ops \<le> length conns
     \<and> run_final (gateway_handle S Ls) st conns = run_final (service_step S Ls) st ops"
proof (induction conns arbitrary: st)
  case (Cons c conns)
  obtain ops where ops: "length ops \<le> length conns"
      "run_final (gateway_handle S Ls) (fst (gateway_handle S Ls c st)) conns = run_final (service_step S Ls) (fst (gateway_handle S Ls c st)) ops"
    using Cons.IH by blast
  from connection_step [of S Ls st c] show ?case unfolding one_request_def
  proof (elim disjE exE)
    assume "fst (gateway_handle S Ls c st) = st"
    then show ?thesis using ops by (intro exI [of _ ops]) simp
  next
    fix op assume "fst (gateway_handle S Ls c st) = fst (service_step S Ls op st)"
    then show ?thesis using ops by (intro exI [of _ "op # ops"]) simp
  qed
qed (intro exI [of _ "[]"], simp)

section \<open>Credentials\<close>

lemma fold_or_zero: "foldl (\<lambda>acc (a, b). or acc (xor a b)) (0::u8) xs = 0 \<longleftrightarrow> list_all (\<lambda>(a, b). a = b) xs"
proof -
  have "foldl (\<lambda>acc (a, b). or acc (xor a b)) (c::u8) xs = 0 \<longleftrightarrow> c = 0 \<and> list_all (\<lambda>(a, b). a = b) xs" for c
  proof (induction xs arbitrary: c)
    case (Cons x xs)
    obtain a b where x: "x = (a, b)" by fastforce
    have "or c (xor a b) = 0 \<longleftrightarrow> c = 0 \<and> a = b" 
    proof -
      have "xor a b = 0 \<longleftrightarrow> a = b" by (auto simp: bit_eq_iff bit_simps)
      then show ?thesis by (simp add: or_eq_0_iff)
    qed
    then show ?case using Cons.IH [of "or c (xor a b)"] x by auto
  qed simp
  then show ?thesis by simp
qed

text \<open>The comparison without early exit decides equality.\<close>

lemma constant_time_eq_iff: "constant_time_eq a b \<longleftrightarrow> a = b"
proof (cases "length a = length b")
  case True
  then have "list_all (\<lambda>(x, y). x = y) (zip a b) \<longleftrightarrow> a = b" by (induction a b rule: list_induct2) auto
  with True show ?thesis by (simp add: constant_time_eq_def fold_or_zero)
qed (auto simp: constant_time_eq_def)

lemma token_eq_iff [simp]: "token_eq a b \<longleftrightarrow> a = b"
  by (simp add: token_eq_def constant_time_eq_iff as_bytes_def inj_map_eq_map inj_def)

text \<open>A request that may be handed on with the capability credential alone leads to a report.\<close>

lemma report_path:
  assumes "report_query path \<noteq> None"
  shows "\<exists>q. path = ''/v1/cells'' @ q"
proof (cases "split_once (CHR ''?'') path")
  case None
  then show ?thesis using assms by (simp add: report_query_def split: if_splits)
next
  case (Some p)
  then have "takeWhile (\<lambda>d. d \<noteq> CHR ''?'') path = ''/v1/cells''"
    using assms by (auto simp: report_query_def split_once_def split: if_splits)
  then show ?thesis by (metis takeWhile_dropWhile_id)
qed

lemma discovery_changes_nothing:
  assumes "gr_verb r = ''GET''" "gr_path r = ''/v1/capabilities'' \<or> report_query (gr_path r) \<noteq> None"
  shows "fst (client_route S E Ls r st) = st"
proof -
  have "\<not> (gr_path r = ''/v1/parents'' \<or> starts_with ''/v1/parents/'' (gr_path r))"
    using assms(2) report_path [of "gr_path r"] by (auto simp: starts_with_iff)
  then show ?thesis using assms by (auto simp: client_route_def Let_def)
qed

lemma gate_shows: "scoped_gate V verb path n = Inr route \<Longrightarrow>
    \<exists>token. sv_presented V = Some token \<and> scoped_credential (sv_router V) = Some (Some token)"
  by (auto simp: scoped_gate_def split: if_splits option.splits)

lemma scoped_changes: "fst (scoped_forward S V Ls verb path raw st) \<noteq> st \<Longrightarrow>
    \<exists>token. sv_presented V = Some token \<and> scoped_credential (sv_router V) = Some (Some token)"
  by (cases "scoped_gate V verb path (length raw)") (simp_all add: scoped_forward_def scoped_admit_def gate_shows)


section \<open>Once, over all connections\<close>

text \<open>
  C9: A submission is delivered at most once. From an identity nothing is recorded for, whatever
  bytes arrive over any connections at any replicas, each with its own answers from the nodes,
  its own list of nodes and any failed calls on the ledgers, the submission was posted to at
  most one node and at most once, and every later request about the execution went to that
  same node.
\<close>

theorem submission_posted_once:
  assumes "serde_law S" "router_open dir w0 = (w, Inr Ls)" "idle S (ls_executions Ls) i (w_fs w)"
  shows "let st = run_final (gateway_handle S Ls) \<lparr>rt_world = w, rt_sent = []\<rparr> conns in
           length (sent_for (\<lambda>p. p = ForSubmission i) st) \<le> 1
         \<and> (\<exists>b. list_all (\<lambda>e. sn_backend e = b) (sent_for (about_execution i) st))"
proof -
  obtain ops where ops: "run_final (gateway_handle S Ls) \<lparr>rt_world = w, rt_sent = []\<rparr> conns =
      run_final (service_step S Ls) \<lparr>rt_world = w, rt_sent = []\<rparr> ops"
    using connections_as_service [of conns] by blast
  have "one_owner S (ls_executions Ls) i (about_execution i) (\<lambda>p. p = ForSubmission i) \<lparr>rt_world = w, rt_sent = []\<rparr>"
    using assms(3) by (simp add: one_owner_def sent_for_def)
  from service_keeps(1) [OF assms(1) router_open_apart [OF assms(2)] this, of ops]
  show ?thesis unfolding one_owner_def Let_def ops by (elim disjE exE conjE) auto
qed

text \<open>
  C17: A parent is created at most once. From an incarnation nothing is recorded for, whatever
  bytes arrive over any connections at any replicas, its creation was sent to at most one node
  and at most once, also when it was provisioned before, and every turn, stop, cancellation and
  status request of the parent went to that same node.
\<close>

theorem parent_created_once:
  assumes "serde_law S" "router_open dir w0 = (w, Inr Ls)" "idle S (ls_parents Ls) i (w_fs w)"
  shows "let st = run_final (gateway_handle S Ls) \<lparr>rt_world = w, rt_sent = []\<rparr> conns in
           length (sent_for (\<lambda>p. p = ForCreate i) st) \<le> 1
         \<and> (\<exists>b. list_all (\<lambda>e. sn_backend e = b) (sent_for (about_parent i) st))"
proof -
  obtain ops where ops: "run_final (gateway_handle S Ls) \<lparr>rt_world = w, rt_sent = []\<rparr> conns =
      run_final (service_step S Ls) \<lparr>rt_world = w, rt_sent = []\<rparr> ops"
    using connections_as_service [of conns] by blast
  have "one_owner S (ls_parents Ls) i (about_parent i) (\<lambda>p. p = ForCreate i) \<lparr>rt_world = w, rt_sent = []\<rparr>"
    using assms(3) by (simp add: one_owner_def sent_for_def)
  from service_keeps(2) [OF assms(1) router_open_apart [OF assms(2)] this, of ops]
  show ?thesis unfolding one_owner_def Let_def ops by (elim disjE exE conjE) auto
qed

section \<open>Concrete connections\<close>

definition sample_submission_bytes :: bytes where
  "sample_submission_bytes = as_bytes (''POST /v1/executions HTTP/1.1'' @ [CHR 0x0A] @ ''Authorization: Bearer c'' @ [CHR 0x0A]
     @ ''Content-Length: 1'' @ [CHR 0x0A, CHR 0x0A] @ ''1'')"

definition sample_create_bytes :: bytes where
  "sample_create_bytes = as_bytes (''POST /v1/parents HTTP/1.1'' @ [CHR 0x0A] @ ''Authorization: Bearer c'' @ [CHR 0x0A]
     @ ''X-Celln-Parent-Incarnation: '' @ sample_incarnation @ [CHR 0x0A, CHR 0x0A])"

definition sample_connections :: "(ScopedEnv \<times> bytes) list" where
  "sample_connections =
     map (\<lambda>c. (sample_scoped_env [''http://a'', ''http://b''], c))
       [sample_submission_bytes, sample_submission_bytes, sample_create_bytes, sample_create_bytes]"

theorem submission_posted_once_witness:
  "let st = run_final (gateway_handle sample_router_serde sample_ledgers) \<lparr>rt_world = sample_opened, rt_sent = []\<rparr> sample_connections in
     length (sent_for (\<lambda>p. p = ForSubmission ''x'') st) \<le> 1
   \<and> (\<exists>b. list_all (\<lambda>e. sn_backend e = b) (sent_for (about_execution ''x'') st))"
  using submission_posted_once [OF sample_serde_law sample_router_opens sample_router_idle(1), where i = "''x''" and conns = sample_connections] .

theorem parent_created_once_witness:
  "let st = run_final (gateway_handle sample_router_serde sample_ledgers) \<lparr>rt_world = sample_opened, rt_sent = []\<rparr> sample_connections in
     length (sent_for (\<lambda>p. p = ForCreate sample_incarnation) st) \<le> 1
   \<and> (\<exists>b. list_all (\<lambda>e. sn_backend e = b) (sent_for (about_parent sample_incarnation) st))"
  using parent_created_once [OF sample_serde_law sample_router_opens sample_router_idle(2), where i = sample_incarnation and conns = sample_connections] .

end
