(* ===== verification/ExecJournal.thy ===== *)
theory ExecJournal
  imports Execution Records
begin

text \<open>
  \<open>celln-cli/src/dispatch_journal.rs\<close>, the durable record of every execution a dispatcher has
  admitted, and the audit envelope of \<open>dispatch_audit.rs\<close> that is stored with it. The journal is
  one file per execution, named by the hash of its identity; calls of the file system fail as
  in \<open>Fs\<close>. Encoders and decoders are parameters. Of the audit, the field \<open>execution\<close>, which no code
  reads back, is left out.
\<close>

section \<open>Records\<close>

record ExecutionRecord =
  er_request_id :: string
  er_phase :: string
  er_reason :: "string option"
  er_output :: "string option"
  er_receipt :: "ExecutionReceipt option"

definition execution_is_active :: "ExecutionRecord \<Rightarrow> bool" where
  "execution_is_active r \<longleftrightarrow> er_phase r \<notin> {''Succeeded'', ''Failed'', ''Refused'', ''Cancelled''}"

text \<open>\<open>format!("{:?}", phase)\<close>.\<close>

definition phase_name :: "ExecutionPhase \<Rightarrow> string" where
  "phase_name p = (case p of PhaseSucceeded \<Rightarrow> ''Succeeded'' | PhaseFailed \<Rightarrow> ''Failed'' | PhaseCancelled \<Rightarrow> ''Cancelled'')"

record Event =
  ev_sequence :: nat
  ev_at :: string
  ev_phase :: string
  ev_observed :: instant

record Audit =
  ad_request_id :: string
  ad_caller :: string
  ad_workload :: string
  ad_node :: string
  ad_events :: "Event list"
  ad_receipt :: "ExecutionReceipt option"

text \<open>\<open>stamp\<close> is the wall clock's text and the instant at which the event is observed.\<close>

definition audit_phase :: "string \<times> instant \<Rightarrow> string \<Rightarrow> Audit \<Rightarrow> Audit" where
  "audit_phase stamp phase a =
     (if ad_events a \<noteq> [] \<and> ev_phase (last (ad_events a)) = phase then a
      else if length (ad_events a) < 32
      then a\<lparr>ad_events := ad_events a @ [\<lparr>ev_sequence = length (ad_events a), ev_at = fst stamp, ev_phase = phase, ev_observed = snd stamp\<rparr>]\<rparr>
      else a)"

definition Audit_new :: "string \<times> instant \<Rightarrow> ExecutionRequest \<Rightarrow> string \<Rightarrow> Audit" where
  "Audit_new stamp r node =
     audit_phase stamp ''Admitting''
       \<lparr>ad_request_id = xr_id r, ad_caller = wi_caller (xr_workload r), ad_workload = wi_id (xr_workload r), ad_node = node,
        ad_events = [], ad_receipt = None\<rparr>"

text \<open>The events of a finished cell, merged by the instants at which they were observed.\<close>

definition push_event :: "Event list \<Rightarrow> Event \<Rightarrow> Event list" where
  "push_event es e = (if length es < 32 then es @ [e\<lparr>ev_sequence := length es\<rparr>] else es)"

definition audit_executed :: "Event list \<Rightarrow> Audit \<Rightarrow> Audit" where
  "audit_executed lifecycle a =
     a\<lparr>ad_events := map (\<lambda>(i, e). e\<lparr>ev_sequence := i\<rparr>)
         (enumerate 0 (sort_key ev_observed (foldl push_event (ad_events a) lifecycle)))\<rparr>"

record Snapshot =
  sp_version :: u8
  sp_request_hash :: string
  sp_record :: ExecutionRecord
  sp_audit :: Value

record ExecSerde =
  xs_encode :: "Snapshot \<Rightarrow> bytes option"
  xs_decode :: "bytes \<Rightarrow> Snapshot option"
  xs_audit :: "Audit \<Rightarrow> Value option"
  xs_hash :: "bytes \<Rightarrow> hash"

section \<open>Operations\<close>

definition EXEC_CAPACITY :: nat where
  "EXEC_CAPACITY = 100000"

definition EXEC_MAX_BYTES :: nat where
  "EXEC_MAX_BYTES = 16 * 1024 * 1024"

definition exec_directory :: "path \<Rightarrow> path" where
  "exec_directory root = root @ [''execution-journal'']"

definition exec_path :: "ExecSerde \<Rightarrow> path \<Rightarrow> string \<Rightarrow> path" where
  "exec_path X root i = record_path (xs_hash X) (exec_directory root) i"

definition exec_prepare :: "path \<Rightarrow> unit aop" where
  "exec_prepare root =
     a_bind (a_io (create_dir_all (exec_directory root))) (\<lambda>_.
     sync_tree ''Unsupported: dispatcher journal requires directory fsync'' (exec_directory root))"

text \<open>The checks on a record that has been read.\<close>

definition exec_check :: "ExecSerde \<Rightarrow> string \<Rightarrow> bytes \<Rightarrow> AnyError + Snapshot" where
  "exec_check X i b =
     (if length b > EXEC_MAX_BYTES then Err (AnyMsg ''dispatcher journal record too large'')
      else case xs_decode X b of
        None \<Rightarrow> Err (AnyMsg ''invalid dispatcher journal record'')
      | Some s \<Rightarrow>
          if sp_version s \<noteq> 1 \<or> er_request_id (sp_record s) \<noteq> i then Err (AnyMsg ''invalid dispatcher journal identity/version'')
          else if (case er_receipt (sp_record s) of
                     None \<Rightarrow> False
                   | Some r \<Rightarrow> rc_request_id r \<noteq> i \<or> phase_name (rc_phase r) \<noteq> er_phase (sp_record s))
          then Err (AnyMsg ''invalid dispatcher journal receipt'')
          else Ok s)"

definition exec_read :: "ExecSerde \<Rightarrow> path \<Rightarrow> string \<Rightarrow> Snapshot option aop" where
  "exec_read X root i =
     a_match (read_limited (Suc EXEC_MAX_BYTES) (exec_path X root i)) (\<lambda>r.
       case r of
         Inl NotFound \<Rightarrow> a_return None
       | Inl e \<Rightarrow> a_result (Err (AnyIo e))
       | Inr b \<Rightarrow>
           (case exec_check X i b of
              Inl e \<Rightarrow> a_result (Err e)
            | Inr s \<Rightarrow> a_bind (sync_dir (exec_directory root)) (\<lambda>_. a_return (Some s))))"

definition exec_publish :: "ExecSerde \<Rightarrow> path \<Rightarrow> Snapshot \<Rightarrow> bool \<Rightarrow> unit aop" where
  "exec_publish X root s fresh =
     (case xs_encode X s of
        None \<Rightarrow> a_bail ''invalid dispatcher journal record''
      | Some b \<Rightarrow>
          if length b > EXEC_MAX_BYTES then a_bail ''dispatcher journal record too large''
          else a_bind (a_io (stage_temp (exec_directory root))) (\<lambda>_.
               a_bind (a_io quiet_call) (\<lambda>_.
               a_bind (a_io quiet_call) (\<lambda>_.
               a_bind (a_io ((if fresh then persist_noclobber else persist) (exec_path X root (er_request_id (sp_record s))) b)) (\<lambda>_.
               sync_dir (exec_directory root))))))"

definition claim_with_capacity :: "ExecSerde \<Rightarrow> path \<Rightarrow> bytes \<Rightarrow> ExecutionRecord \<Rightarrow> Audit \<Rightarrow> nat \<Rightarrow> unit aop" where
  "claim_with_capacity X root body r audit capacity =
     a_bind (exec_prepare root) (\<lambda>_.
     a_bind (a_io (read_dir (exec_directory root))) (\<lambda>es.
       if count_records capacity es \<ge> capacity
       then a_bail ''dispatcher journal capacity exhausted; operator reconciliation required''
       else (case xs_audit X audit of
               None \<Rightarrow> a_bail ''invalid audit''
             | Some v \<Rightarrow> exec_publish X root \<lparr>sp_version = 1, sp_request_hash = hash_str (xs_hash X body), sp_record = r, sp_audit = v\<rparr> True)))"

definition exec_claim :: "ExecSerde \<Rightarrow> path \<Rightarrow> bytes \<Rightarrow> ExecutionRecord \<Rightarrow> Audit \<Rightarrow> unit aop" where
  "exec_claim X root body r audit = claim_with_capacity X root body r audit EXEC_CAPACITY"

definition exec_complete :: "ExecSerde \<Rightarrow> path \<Rightarrow> ExecutionRecord \<Rightarrow> Audit \<Rightarrow> unit aop" where
  "exec_complete X root r audit =
     (if execution_is_active r then a_bail ''cannot archive active execution as terminal''
      else a_bind (exec_read X root (er_request_id r)) (\<lambda>found.
        case found of
          None \<Rightarrow> a_bail ''missing durable admission claim''
        | Some previous \<Rightarrow>
            (case xs_audit X audit of
               None \<Rightarrow> a_bail ''invalid audit''
             | Some v \<Rightarrow>
                 (let s = \<lparr>sp_version = 1, sp_request_hash = sp_request_hash previous, sp_record = r, sp_audit = v\<rparr> in
                  if \<not> execution_is_active (sp_record previous) then
                    (case (xs_encode X previous, xs_encode X s) of
                       (Some a, Some b) \<Rightarrow>
                         if a \<noteq> b then a_bail ''terminal journal record is immutable'' else sync_dir (exec_directory root)
                     | _ \<Rightarrow> a_bail ''invalid dispatcher journal record'')
                  else exec_publish X root s False))))"

section \<open>The audit\<close>

text \<open>Events are numbered from zero, at most thirty-two of them.\<close>

definition audit_ok :: "Audit \<Rightarrow> bool" where
  "audit_ok a \<longleftrightarrow> map ev_sequence (ad_events a) = [0..<length (ad_events a)] \<and> length (ad_events a) \<le> 32"

lemma audit_phase_ok: "audit_ok a \<Longrightarrow> audit_ok (audit_phase stamp phase a)"
  by (auto simp: audit_phase_def audit_ok_def)

lemma audit_new_ok: "audit_ok (Audit_new stamp r node)"
  by (simp add: Audit_new_def audit_phase_def audit_ok_def)

lemma push_events_length: "length es \<le> 32 \<Longrightarrow> length (foldl push_event es ls) \<le> 32"
  by (induction ls arbitrary: es) (auto simp: push_event_def)

lemma renumber:
  "map ev_observed (map (\<lambda>(i, e). e\<lparr>ev_sequence := i\<rparr>) (enumerate n es)) = map ev_observed es"
  "map ev_sequence (map (\<lambda>(i, e). e\<lparr>ev_sequence := i\<rparr>) (enumerate n es)) = [n..<n + length es]"
  by (induction es arbitrary: n) (simp_all add: upt_rec [of n for n])

text \<open>After a cell has run, events are in the order they were observed and numbered in that order.\<close>

lemma audit_executed_ok:
  assumes "audit_ok a"
  shows "audit_ok (audit_executed lifecycle a) \<and> sorted (map ev_observed (ad_events (audit_executed lifecycle a)))"
  using push_events_length [of "ad_events a" lifecycle] assms renumber [of 0 "sort_key ev_observed (foldl push_event (ad_events a) lifecycle)"]
  by (simp add: audit_executed_def audit_ok_def)

section \<open>What the journal keeps\<close>

text \<open>A record is there, whatever it says.\<close>

definition recorded :: "ExecSerde \<Rightarrow> path \<Rightarrow> string \<Rightarrow> fsys \<Rightarrow> bool" where
  "recorded X root i fs \<longleftrightarrow> bt_invar fs \<and> (\<exists>b. fs_kind fs (exec_path X root i) = Some (File b))"

text \<open>A record of a finished execution is there.\<close>

definition archived :: "ExecSerde \<Rightarrow> path \<Rightarrow> string \<Rightarrow> bytes \<Rightarrow> fsys \<Rightarrow> bool" where
  "archived X root i b fs \<longleftrightarrow> bt_invar fs \<and> fs_kind fs (exec_path X root i) = Some (File b)
     \<and> (\<exists>s. xs_decode X b = Some s \<and> er_request_id (sp_record s) = i \<and> \<not> execution_is_active (sp_record s))"

definition unrecorded :: "ExecSerde \<Rightarrow> path \<Rightarrow> string \<Rightarrow> fsys \<Rightarrow> bool" where
  "unrecorded X root i fs \<longleftrightarrow> bt_invar fs \<and> fs_kind fs (exec_path X root i) = None"

lemma exec_path_simps [simp]: "exec_path X root i \<noteq> []" "butlast (exec_path X root i) = exec_directory root"
  by (simp_all add: exec_path_def record_path_def)

lemma dirs_effect_keeps:
  "bt_invar fs \<Longrightarrow> bt_invar (fst (dirs_effect made cs fs))"
  "bt_invar fs \<Longrightarrow> length q > length (made @ cs) \<Longrightarrow> fs_kind (fst (dirs_effect made cs fs)) q = fs_kind fs q"
  by (induction made cs fs rule: dirs_effect.induct)
    (auto simp: bt_simps fs_kind_insert split: option.split node.split)

text \<open>A property of the journal's records that creating directories above them keeps.\<close>

lemma prepare_keeps:
  assumes "\<And>fs fs'. P fs \<Longrightarrow> bt_invar fs' \<Longrightarrow> fs_kind fs' (exec_path X root i) = fs_kind fs (exec_path X root i) \<Longrightarrow> P fs'"
    and "\<And>fs. P fs \<Longrightarrow> bt_invar fs"
  shows "preserves P (exec_prepare root)"
proof -
  have len: "length (exec_path X root i) > length (exec_directory root)" by (simp add: exec_path_def record_path_def)
  have "preserves P (create_dir_all (exec_directory root))"
    unfolding create_dir_all_def
  proof (rule preserves_call)
    fix fs assume ok: "P fs"
    show "P (fst (dirs_effect [] (exec_directory root) fs))"
      by (rule assms(1) [OF ok]) (use dirs_effect_keeps [OF assms(2) [OF ok]] len in simp_all)
  qed
  then show ?thesis unfolding exec_prepare_def by (intro preserve_intros)
qed

lemma exec_read_preserves [preserve_intros]: "preserves P (exec_read X root i)"
  unfolding exec_read_def by (auto intro!: preserve_intros split: sum.split IoKind.split)

lemma exec_publish_keeps:
  assumes "\<And>b fs. P fs \<Longrightarrow> P (fst ((if fresh then persist_effect else replace_effect) (exec_path X root (er_request_id (sp_record s))) b fs))"
  shows "preserves P (exec_publish X root s fresh)"
proof -
  have "preserves P ((if fresh then persist_noclobber else persist) (exec_path X root (er_request_id (sp_record s))) b)" for b
    using assms by (cases fresh) (simp_all add: persist_noclobber_def persist_def preserves_call)
  then show ?thesis unfolding exec_publish_def by (auto intro!: preserve_intros split: option.split)
qed

lemma claim_keeps:
  assumes "preserves P (exec_prepare root)"
    and "\<And>b fs. P fs \<Longrightarrow> P (fst (persist_effect (exec_path X root (er_request_id r)) b fs))"
  shows "preserves P (exec_claim X root body r audit)"
  unfolding exec_claim_def claim_with_capacity_def
  by (auto intro!: preserve_intros assms(1) exec_publish_keeps split: option.split) (simp add: assms(2))

lemma recorded_keeps:
  "preserves (recorded X root i) (exec_claim X root body r audit)"
  "preserves (archived X root i b) (exec_claim X root body r audit)"
proof -
  have "recorded X root i (fst (persist_effect p c fs))" if "recorded X root i fs" "p \<noteq> []" for p c fs
    using that by (auto simp: persist_effect_def recorded_def fs_kind_insert bt_simps)
  moreover have "preserves (recorded X root i) (exec_prepare root)"
    by (rule prepare_keeps [of _ X root i]) (auto simp: recorded_def)
  ultimately show "preserves (recorded X root i) (exec_claim X root body r audit)"
    by (intro claim_keeps) simp_all
  have "archived X root i b (fst (persist_effect p c fs))" if "archived X root i b fs" "p \<noteq> []" for p c fs
    using that by (auto simp: persist_effect_def archived_def fs_kind_insert bt_simps)
  moreover have "preserves (archived X root i b) (exec_prepare root)"
    by (rule prepare_keeps [of _ X root i]) (auto simp: archived_def)
  ultimately show "preserves (archived X root i b) (exec_claim X root body r audit)"
    by (intro claim_keeps) simp_all
qed

lemma complete_keeps_recorded: "preserves (recorded X root i) (exec_complete X root r audit)"
proof -
  have "recorded X root i (fst (replace_effect p c fs))" if "recorded X root i fs" "p \<noteq> []" for p c fs
    using that by (auto simp: replace_effect_def recorded_def fs_kind_insert bt_simps)
  then show ?thesis
    unfolding exec_complete_def Let_def
    by (auto intro!: preserve_intros exec_publish_keeps split: option.split prod.split)
qed

lemma read_dir_keeps: "w_fs (fst (read_dir dir w)) = w_fs w"
  using preservesD [where P = "\<lambda>fs. fs = w_fs w", OF preserves_reads(5), of w dir] by simp

text \<open>What a record that has been read says, and that there is one.\<close>

lemma exec_read_Some:
  assumes "exec_read X root i w = (w', Inr (Some s))"
  shows "w_fs w' = w_fs w \<and> (\<exists>b. fs_kind (w_fs w) (exec_path X root i) = Some (File b) \<and> length b \<le> EXEC_MAX_BYTES
     \<and> xs_decode X b = Some s \<and> er_request_id (sp_record s) = i)"
proof -
  obtain w1 r where read: "read_limited (Suc EXEC_MAX_BYTES) (exec_path X root i) w = (w1, r)" by fastforce
  have same: "w_fs w' = w_fs w"
    using preserves_step [where P = "\<lambda>fs. fs = w_fs w", OF exec_read_preserves assms] by simp
  obtain b where b: "r = Inr b" "exec_check X i b = Inr s"
    using assms read
    by (auto simp: exec_read_def a_match_def a_return_def a_result_def a_bind_Ok split: sum.splits IoKind.splits)
  obtain c where c: "fs_kind (w_fs w) (exec_path X root i) = Some (File c)" "b = take (Suc EXEC_MAX_BYTES) c"
    using read_limited_Ok [OF read [unfolded b(1)]] by auto
  have short: "length b \<le> EXEC_MAX_BYTES" and s: "xs_decode X b = Some s" "er_request_id (sp_record s) = i"
    using b(2) by (auto simp: exec_check_def split: if_splits option.splits)
  have "b = c" using c(2) short by (simp add: min_def split: if_splits)
  then show ?thesis using same c(1) short s by blast
qed

lemma complete_keeps_archived: "preserves (archived X root i b) (exec_complete X root r audit)"
  unfolding preserves_def
proof (intro allI impI)
  fix w :: world assume ok: "archived X root i b (w_fs w)"
  show "archived X root i b (w_fs (fst (exec_complete X root r audit w)))"
  proof (cases "\<exists>w1 s. exec_read X root (er_request_id r) w = (w1, Inr (Some s)) \<and> execution_is_active (sp_record s)")
    case True
    then obtain w1 s where s: "exec_read X root (er_request_id r) w = (w1, Inr (Some s))" "execution_is_active (sp_record s)" by blast
    note facts = exec_read_Some [OF s(1)]
    have other: "exec_path X root (er_request_id r) \<noteq> exec_path X root i"
      using facts s(2) ok by (auto simp: archived_def)
    have keeps: "preserves (archived X root i b) (exec_publish X root t False)" if "sp_record t = r" for t
      by (rule exec_publish_keeps)
        (use other that in \<open>auto simp: replace_effect_def archived_def fs_kind_insert bt_simps\<close>)
    have "archived X root i b (w_fs w1)" using facts ok by simp
    then have "archived X root i b (w_fs (fst (exec_publish X root t False w1)))" if "sp_record t = r" for t
      using preservesD [OF keeps [OF that]] by simp
    then show ?thesis
      using s facts ok
      by (auto simp: exec_complete_def a_bind_def a_bail_def Let_def split: option.split)
  next
    case False
    obtain w1 f where read: "exec_read X root (er_request_id r) w = (w1, f)" by fastforce
    have "archived X root i b (w_fs w1)" by (rule preserves_step [where P = "archived X root i b", OF exec_read_preserves read ok])
    then show ?thesis
      using False read ok preservesD [where P = "archived X root i b", OF preserves_sync(2), of w1]
      by (auto simp: exec_complete_def a_bind_def a_bail_def Let_def split: sum.split option.split)
  qed
qed

text \<open>A claim that succeeds was the first of its identity, and leaves a record.\<close>

lemma publish_fresh:
  assumes "exec_publish X root s True w = (w', Inr u)"
  shows "fs_kind (w_fs w) (exec_path X root (er_request_id (sp_record s))) = None
     \<and> (\<exists>b. w_fs w' = bt_insert (exec_path X root (er_request_id (sp_record s))) (File b) (w_fs w))"
proof -
  let ?p = "exec_path X root (er_request_id (sp_record s))"
  obtain b where b: "xs_encode X s = Some b" "\<not> length b > EXEC_MAX_BYTES"
    using assms by (auto simp: exec_publish_def split: option.splits if_splits)
  obtain w1 w2 w3 w4 where steps: "stage_temp (exec_directory root) w = (w1, Inr ())" "quiet_call w1 = (w2, Inr ())" "quiet_call w2 = (w3, Inr ())"
      "persist_noclobber ?p b w3 = (w4, Inr ())" "sync_dir (exec_directory root) w4 = (w', Inr u)"
    using assms b by (auto simp: exec_publish_def a_bind_Ok a_io_Ok)
  have "w_fs w1 = w_fs w" by (rule preserves_step [where P = "\<lambda>fs. fs = w_fs w", OF preserves_reads(4) steps(1)]) simp
  moreover have "w_fs w2 = w_fs w1" by (rule preserves_step [where P = "\<lambda>fs. fs = w_fs w1", OF preserves_reads(6) steps(2)]) simp
  moreover have "w_fs w3 = w_fs w2" by (rule preserves_step [where P = "\<lambda>fs. fs = w_fs w2", OF preserves_reads(6) steps(3)]) simp
  ultimately have before: "w_fs w3 = w_fs w" by simp
  have after: "w_fs w' = w_fs w4"
    using preserves_step [where P = "\<lambda>fs. fs = w_fs w4", OF preserves_sync(2) steps(5)] by simp
  obtain fs where "persist_effect ?p b (w_fs w3) = (fs, Inr ())" "w_fs w4 = fs"
    using io_call_Ok [OF steps(4) [unfolded persist_noclobber_def]] by auto
  then have "fs_kind (w_fs w3) ?p = None" "w_fs w4 = bt_insert ?p (File b) (w_fs w3)"
    by (auto simp: persist_effect_def split: if_splits)
  then show ?thesis using before after by auto
qed

lemma claim_first:
  assumes "exec_claim X root body r audit w = (w', Inr u)" "bt_invar (w_fs w)"
  shows "\<not> recorded X root (er_request_id r) (w_fs w) \<and> recorded X root (er_request_id r) (w_fs w')"
proof -
  let ?i = "er_request_id r"
  obtain w1 w2 es v where steps: "exec_prepare root w = (w1, Inr ())" "read_dir (exec_directory root) w1 = (w2, Inr es)"
      "exec_publish X root \<lparr>sp_version = 1, sp_request_hash = hash_str (xs_hash X body), sp_record = r, sp_audit = v\<rparr> True w2 = (w', Inr u)"
    using assms(1) by (auto simp: exec_claim_def claim_with_capacity_def a_bind_Ok a_io_Ok split: if_splits option.splits)
  note fresh = publish_fresh [OF steps(3), simplified]
  have same: "w_fs w2 = w_fs w1" using read_dir_keeps [of "exec_directory root" w1] steps(2) by simp
  have prepared: "preserves (recorded X root ?i) (exec_prepare root)" "preserves bt_invar (exec_prepare root)"
    by (rule prepare_keeps [of _ X root ?i]; auto simp: recorded_def)+
  have "recorded X root ?i (w_fs w1)" if "recorded X root ?i (w_fs w)"
    by (rule preserves_step [where P = "recorded X root ?i", OF prepared(1) steps(1) that])
  then have "\<not> recorded X root ?i (w_fs w)" using fresh same by (auto simp: recorded_def)
  moreover have "bt_invar (w_fs w1)"
    by (rule preserves_step [where P = bt_invar, OF prepared(2) steps(1) assms(2)])
  then have "recorded X root ?i (w_fs w')"
    using fresh same by (auto simp: recorded_def fs_kind_insert bt_simps)
  ultimately show ?thesis by blast
qed

end
