(* ===== verification/Node.thy ===== *)
theory Node
  imports Execution Registry
begin

text \<open>
  The capacity of a node: \<open>celln-cli/src/node.rs\<close>, the reservations of \<open>dispatch_http.rs\<close>, and the
  authority a dispatcher supports (\<open>dispatch.rs\<close>, \<open>dispatch_inputs.rs\<close>). What the host offers (KVM,
  a bootable kernel, readable stores), how many cells other processes run and the limits the
  operator configured are arguments.
\<close>

section \<open>Authority\<close>

definition MAX_INPUT_BYTES :: u64 where
  "MAX_INPUT_BYTES = 65536"

text \<open>\<open>try_fold\<close> with \<open>checked_add\<close>.\<close>

fun checked_total :: "u64 \<Rightarrow> u64 list \<Rightarrow> u64 option" where
  "checked_total n [] = Some n"
| "checked_total n (x # xs) = (if uint n + uint x < 2 ^ 64 then checked_total (n + x) xs else None)"

definition inputs_validate :: "ExecutionRequest \<Rightarrow> string + unit" where
  "inputs_validate r =
     (if xr_inputs r \<noteq> [] \<and> ca_workspace (xr_capabilities r) = WsNone
      then Err ''inputs require read-only or read-write workspace authority''
      else if (case checked_total 0 (map xi_bytes (xr_inputs r)) of None \<Rightarrow> True | Some n \<Rightarrow> n > MAX_INPUT_BYTES)
              \<or> length (xr_inputs r) > 16
      then Err ''input budget exceeded: at most 16 inputs and 65536 bytes total''
      else Ok ())"

text \<open>\<open>stopped\<close> is the verdict of the control of the calling thread.\<close>

definition check_supported_authority :: "bool \<Rightarrow> ExecutionRequest \<Rightarrow> string + unit" where
  "check_supported_authority stopped r =
     (if stopped then Err ''execution stopped''
      else case inputs_validate r of
        Inl e \<Rightarrow> Inl e
      | Inr _ \<Rightarrow>
          if xr_harness r \<noteq> None then (if request_problems r \<noteq> [] then Err ''invalid Harness binding'' else Ok ())
          else if list_ex (\<lambda>t. tr_closure t \<noteq> None) (xr_tools r)
                  \<and> (xr_forge r \<noteq> None \<or> xr_inputs r \<noteq> [] \<or> ca_egress (xr_capabilities r) \<noteq> [])
          then Err ''unsupported authority: closure delivery with forge, inputs or egress''
          else if length (xr_tools r) > 1 then Err ''unsupported authority: only the invoked tool can be delivered''
          else Ok ())"

section \<open>Eligibility and admission\<close>

record NodeEligibility =
  nd_name :: string
  nd_kvm :: bool
  nd_cpu_virtualization :: bool
  nd_guest_kernel :: bool
  nd_mote_store :: bool
  nd_tool_store :: bool
  nd_live_cells :: u32
  nd_max_cells :: u32
  nd_memory_bytes :: u64
  nd_egress_slots :: u32

definition node_eligible :: "NodeEligibility \<Rightarrow> bool" where
  "node_eligible n \<longleftrightarrow>
     nd_kvm n \<and> nd_cpu_virtualization n \<and> nd_guest_kernel n \<and> nd_mote_store n \<and> nd_tool_store n
     \<and> nd_live_cells n < nd_max_cells n \<and> nd_memory_bytes n > 0"

datatype RefusalCode = InvalidRequest | Unsupported | NoEligibleNode | AtCapacity

datatype Admission = Accepted | Refused RefusalCode

definition node_admit :: "bool \<Rightarrow> ExecutionRequest \<Rightarrow> NodeEligibility \<Rightarrow> Admission" where
  "node_admit stopped r n =
     (if request_problems r \<noteq> [] then Refused InvalidRequest
      else if isl (check_supported_authority stopped r)
              \<or> xp_require_hardware_isolation (xr_execution r) \<and> (\<not> nd_kvm n \<or> \<not> nd_cpu_virtualization n)
      then Refused Unsupported
      else if nd_live_cells n \<ge> nd_max_cells n \<or> ca_memory_bytes (xr_capabilities r) > nd_memory_bytes n
              \<or> (ca_egress (xr_capabilities r) \<noteq> [] \<and> nd_egress_slots n = 0)
      then Refused AtCapacity
      else if \<not> node_eligible n then Refused NoEligibleNode
      else Accepted)"

section \<open>Reservations\<close>

record NodeReservation =
  rv_memory_bytes :: u64
  rv_egress_slots :: u32

definition Reservation_for_request :: "ExecutionRequest \<Rightarrow> NodeReservation" where
  "Reservation_for_request r =
     \<lparr>rv_memory_bytes = ca_memory_bytes (xr_capabilities r), rv_egress_slots = (if ca_egress (xr_capabilities r) = [] then 0 else 1)\<rparr>"

definition sat_sub :: "'a::len word \<Rightarrow> 'a word \<Rightarrow> 'a word" where
  "sat_sub a b = (if b \<le> a then a - b else 0)"

definition sat_add :: "'a::len word \<Rightarrow> 'a word \<Rightarrow> 'a word" where
  "sat_add a b = (if unat a + unat b < 2 ^ LENGTH('a) then a + b else - 1)"

definition sat_mul :: "'a::len word \<Rightarrow> 'a word \<Rightarrow> 'a word" where
  "sat_mul a b = (if unat a * unat b < 2 ^ LENGTH('a) then a * b else - 1)"

definition reserve_one :: "NodeEligibility \<Rightarrow> NodeReservation option \<Rightarrow> NodeEligibility" where
  "reserve_one n reservation =
     (let n = n\<lparr>nd_live_cells := sat_add (nd_live_cells n) 1\<rparr> in
      case reservation of
        Some r \<Rightarrow> n\<lparr>nd_memory_bytes := sat_sub (nd_memory_bytes n) (rv_memory_bytes r),
                    nd_egress_slots := sat_sub (nd_egress_slots n) (rv_egress_slots r)\<rparr>
      | None \<Rightarrow> n\<lparr>nd_memory_bytes := 0, nd_egress_slots := 0\<rparr>)"

text \<open>The reservations of the active executions, in the order the registry lists them.\<close>

definition apply_reservations :: "NodeEligibility \<Rightarrow> NodeReservation option list \<Rightarrow> u32 \<Rightarrow> NodeEligibility" where
  "apply_reservations n active other =
     (let n = n\<lparr>nd_live_cells := other\<rparr>;
          n = (if other \<noteq> 0 then n\<lparr>nd_memory_bytes := 0, nd_egress_slots := 0\<rparr> else n) in
      foldl reserve_one n active)"

text \<open>
  \<open>probed\<close> is \<open>from_probe\<close> of a node without live cells; \<open>reserved\<close> what the parent registry answers.
\<close>

definition current_node ::
  "NodeEligibility \<Rightarrow> u32 \<Rightarrow> NodeReservation option \<Rightarrow> RegError + ReservedCapacity \<Rightarrow> NodeReservation option list \<Rightarrow> NodeEligibility" where
  "current_node probed other prewarm reserved active =
     (let n = apply_reservations probed active other;
          n = (case prewarm of
                 None \<Rightarrow> n
               | Some r \<Rightarrow> n\<lparr>nd_live_cells := sat_add (nd_live_cells n) 1,
                              nd_memory_bytes := sat_sub (nd_memory_bytes n) (rv_memory_bytes r)\<rparr>) in
      case reserved of
        Inr c \<Rightarrow> n\<lparr>nd_live_cells := sat_add (nd_live_cells n) (sat_mul (rc_owners c) 2),
                    nd_memory_bytes := sat_sub (nd_memory_bytes n) (rc_memory_bytes c),
                    nd_egress_slots := sat_sub (nd_egress_slots n) (rc_egress_slots c)\<rparr>
      | Inl _ \<Rightarrow> n\<lparr>nd_live_cells := nd_max_cells n, nd_memory_bytes := 0, nd_egress_slots := 0\<rparr>)"

section \<open>Admission stays within the node\<close>

lemma unat_sat_sub: "unat (sat_sub a b) = unat a - unat b"
  by (simp add: sat_sub_def unat_sub word_le_nat_alt)

lemma unat_top: "unat (- 1 :: 'a::len word) = 2 ^ LENGTH('a) - 1"
  by (simp add: unsigned_minus_1_eq_mask mask_eq_exp_minus_1)

lemma unat_sat_add: "unat (sat_add a b) = min (unat a + unat b) (2 ^ LENGTH('a) - 1)" for a b :: "'a::len word"
  by (auto simp: sat_add_def unat_word_ariths unat_top)

lemma unat_sat_mul: "unat (sat_mul a b) = min (unat a * unat b) (2 ^ LENGTH('a) - 1)" for a b :: "'a::len word"
  by (auto simp: sat_mul_def unat_word_ariths unat_top)

text \<open>What executions have reserved, in numbers.\<close>

definition memory_of :: "NodeReservation option list \<Rightarrow> nat" where
  "memory_of active = sum_list (map (\<lambda>r. case r of Some r \<Rightarrow> unat (rv_memory_bytes r) | None \<Rightarrow> 0) active)"

definition egress_of :: "NodeReservation option list \<Rightarrow> nat" where
  "egress_of active = sum_list (map (\<lambda>r. case r of Some r \<Rightarrow> unat (rv_egress_slots r) | None \<Rightarrow> 0) active)"

lemma u32_bound: "unat (x :: u32) \<le> 4294967295"
  using unsigned_less [of x, where ?'a = nat] by simp

lemma reserve_all:
  "unat (nd_memory_bytes (foldl reserve_one n active)) = (if None \<in> set active then 0 else unat (nd_memory_bytes n) - memory_of active)"
  "unat (nd_egress_slots (foldl reserve_one n active)) = (if None \<in> set active then 0 else unat (nd_egress_slots n) - egress_of active)"
  "unat (nd_live_cells (foldl reserve_one n active)) = min (unat (nd_live_cells n) + length active) (2 ^ 32 - 1)"
  "nd_max_cells (foldl reserve_one n active) = nd_max_cells n"
  by (induction active arbitrary: n)
    (auto simp: u32_bound reserve_one_def Let_def memory_of_def egress_of_def unat_sat_sub unat_sat_add split: option.split)

text \<open>
  C15: Admission never overcommits a node. When a request is admitted, the memory it declares fits
  beside all that active executions, the prewarming in progress and the retained parents have
  reserved; the cells in use, with two for each parent, leave one free below the limit; and
  when it needs egress a slot is free. A live cell of another process, an execution without
  a recorded reservation and an unreadable parent registry each rule out admission.
\<close>

theorem admission_within_node:
  assumes "node_admit stopped r (current_node probed other prewarm reserved active) = Accepted"
  shows "other = 0 \<and> None \<notin> set active
     \<and> (case reserved of Inl _ \<Rightarrow> False | Inr c \<Rightarrow>
          memory_of active + (case prewarm of Some p \<Rightarrow> unat (rv_memory_bytes p) | None \<Rightarrow> 0) + unat (rc_memory_bytes c)
            + unat (ca_memory_bytes (xr_capabilities r)) \<le> unat (nd_memory_bytes probed)
        \<and> length active + (case prewarm of Some _ \<Rightarrow> 1 | None \<Rightarrow> 0) + 2 * unat (rc_owners c) < unat (nd_max_cells probed)
        \<and> (if ca_egress (xr_capabilities r) = [] then 0 else egress_of active + unat (rc_egress_slots c) + 1) \<le> unat (nd_egress_slots probed))"
proof -
  let ?n = "current_node probed other prewarm reserved active"
  have live: "unat (nd_live_cells ?n) < unat (nd_max_cells ?n)" and fits: "unat (ca_memory_bytes (xr_capabilities r)) \<le> unat (nd_memory_bytes ?n)"
    and some: "0 < unat (nd_memory_bytes ?n)" and slot: "ca_egress (xr_capabilities r) \<noteq> [] \<longrightarrow> 0 < unat (nd_egress_slots ?n)"
    using assms by (auto simp: node_admit_def node_eligible_def word_less_nat_alt word_le_nat_alt not_le not_less unat_gt_0
        split: if_splits)
  obtain c where c: "reserved = Inr c"
    using some by (cases reserved) (auto simp: current_node_def Let_def)
  have other: "other = 0"
    using some by (rule_tac ccontr) (cases prewarm; simp add: c current_node_def apply_reservations_def Let_def unat_sat_sub reserve_all split: if_splits)
  have max: "nd_max_cells ?n = nd_max_cells probed"
    by (simp add: c current_node_def apply_reservations_def Let_def reserve_all split: option.split)
  have cells: "unat (nd_live_cells ?n) = min (length active + (case prewarm of Some _ \<Rightarrow> 1 | None \<Rightarrow> 0) + 2 * unat (rc_owners c)) (2 ^ 32 - 1)"
    by (cases prewarm) (simp_all add: c other current_node_def apply_reservations_def Let_def reserve_all unat_sat_add unat_sat_mul min_def)
  have "unat (nd_max_cells probed) \<le> 2 ^ 32 - 1" using u32_bound by simp
  then have room: "length active + (case prewarm of Some _ \<Rightarrow> 1 | None \<Rightarrow> 0) + 2 * unat (rc_owners c) < unat (nd_max_cells probed)"
    using live unfolding max cells by (simp add: min_def split: if_splits)
  have memory: "unat (nd_memory_bytes ?n) = (if None \<in> set active then 0 else unat (nd_memory_bytes probed) - memory_of active
      - (case prewarm of Some p \<Rightarrow> unat (rv_memory_bytes p) | None \<Rightarrow> 0) - unat (rc_memory_bytes c))"
    by (cases prewarm) (simp_all add: c other current_node_def apply_reservations_def Let_def reserve_all unat_sat_sub add.assoc)
  have egress: "unat (nd_egress_slots ?n) = (if None \<in> set active then 0 else unat (nd_egress_slots probed) - egress_of active - unat (rc_egress_slots c))"
    by (cases prewarm) (simp_all add: c other current_node_def apply_reservations_def Let_def reserve_all unat_sat_sub add.assoc)
  have known: "None \<notin> set active" using some memory by (auto split: if_splits)
  have "memory_of active + (case prewarm of Some p \<Rightarrow> unat (rv_memory_bytes p) | None \<Rightarrow> 0) + unat (rc_memory_bytes c)
      + unat (ca_memory_bytes (xr_capabilities r)) \<le> unat (nd_memory_bytes probed)"
    using fits some memory known by simp
  moreover have "(if ca_egress (xr_capabilities r) = [] then 0 else egress_of active + unat (rc_egress_slots c) + 1) \<le> unat (nd_egress_slots probed)"
    using slot egress known by (auto split: if_splits)
  ultimately show ?thesis using other known room c by simp
qed

definition sample_node :: NodeEligibility where
  "sample_node = \<lparr>nd_name = ''n'', nd_kvm = True, nd_cpu_virtualization = True, nd_guest_kernel = True, nd_mote_store = True,
     nd_tool_store = True, nd_live_cells = 0, nd_max_cells = 4, nd_memory_bytes = 10000, nd_egress_slots = 2\<rparr>"

lemma sample_authority: "check_supported_authority False sample_execution = Ok ()"
  by (simp add: check_supported_authority_def inputs_validate_def sample_execution_def MAX_INPUT_BYTES_def)

theorem admission_within_node_witness:
  "let active = [Some \<lparr>rv_memory_bytes = 5000, rv_egress_slots = 1\<rparr>];
       reserved = Inr \<lparr>rc_owners = 1, rc_memory_bytes = 904, rc_egress_slots = 0\<rparr> in
   node_admit False sample_execution (current_node sample_node 0 None reserved active) = Accepted
   \<and> 5000 + 904 + unat (ca_memory_bytes (xr_capabilities sample_execution)) \<le> unat (nd_memory_bytes sample_node)"
proof -
  let ?active = "[Some \<lparr>rv_memory_bytes = 5000, rv_egress_slots = 1\<rparr>]"
  let ?reserved = "Inr \<lparr>rc_owners = 1, rc_memory_bytes = 904, rc_egress_slots = 0\<rparr> :: RegError + ReservedCapacity"
  have caps: "xr_capabilities sample_execution = \<lparr>ca_workspace = WsNone, ca_egress = [''https://api.example''], ca_allow_insecure = False,
        ca_timeout_ms = 1000, ca_memory_bytes = 4096, ca_output_bytes = 1024\<rparr>"
    and hw: "xp_require_hardware_isolation (xr_execution sample_execution)" by (simp_all add: sample_execution_def)
  have ok: "node_admit False sample_execution (current_node sample_node 0 None ?reserved ?active) = Accepted"
    by (simp add: node_admit_def sample_execution_ok sample_authority current_node_def apply_reservations_def Let_def reserve_one_def
        sample_node_def sat_add_def sat_mul_def sat_sub_def node_eligible_def caps)
  show ?thesis unfolding Let_def
    using admission_within_node [OF ok] ok by (simp add: memory_of_def caps)
qed

end
