(* ===== verification/Dispatch.thy ===== *)
theory Dispatch
  imports ExecJournal Node
begin

text \<open>
  The execution routes of \<open>celln-cli/src/dispatch_http.rs\<close>: submitting, cancelling and reading an
  execution, the registry of executions in memory, and the updates its worker makes. A
  handler runs under the registry's lock from its first look at the registry, so it is one
  step; a restart loses the registry and keeps the journal. Workers run in between, at any time.

  Parameters of one request: the clock, the decoder, the nodes' facts of \<open>Node\<close>, the operator's
  egress hosts, and whether a thread can be created.
\<close>

section \<open>State\<close>

definition RECORD_TTL :: duration where
  "RECORD_TTL = 3600 * 1000000000"

record ExecEntry =
  de_at :: instant
  de_value :: ExecutionRecord
  de_control :: "Control option"
  de_reservation :: "NodeReservation option"
  de_audit :: "Audit option"
  de_journal_root :: "path option"

definition Entry_new :: "instant \<Rightarrow> ExecutionRecord \<Rightarrow> ExecEntry" where
  "Entry_new now r =
     \<lparr>de_at = now, de_value = r, de_control = None, de_reservation = None, de_audit = None, de_journal_root = None\<rparr>"

record DispatchEnv =
  dv_now :: instant
  dv_clk :: "nat \<Rightarrow> instant"
  dv_stamp :: "string \<times> instant"
  dv_request :: "bytes \<Rightarrow> ExecutionRequest option"
  dv_hosts :: "string list"
  dv_probed :: NodeEligibility
  dv_other :: u32
  dv_prewarm :: "NodeReservation option"
  dv_reserved :: "RegError + ReservedCapacity"
  dv_thread :: bool

text \<open>\<open>ds_started\<close> lists the executions whose worker has been started, with their request bytes.\<close>

record DispatchState =
  ds_world :: world
  ds_registry :: "(string, ExecEntry) btree"
  ds_stops :: stops
  ds_fresh :: nat
  ds_started :: "(string \<times> bytes) list"

datatype DispatchReply =
    DReply nat string | DRecord nat ExecutionRecord | DAudit Audit | DStoredAudit Value | DDropped

section \<open>Egress policy\<close>

definition EgressPolicy_new :: "string list \<Rightarrow> string + string list" where
  "EgressPolicy_new hosts =
     (if list_all (\<lambda>h. let host = to_ascii_lowercase h in
           host \<noteq> [] \<and> list_all (\<lambda>c. is_ascii_alphanumeric c \<or> c \<in> set ''.-'') host) hosts
      then Ok (map to_ascii_lowercase hosts)
      else Err ''invalid --allow-egress-host'')"

definition http_rest :: "string \<Rightarrow> string option" where
  "http_rest destination =
     (case (case strip_prefix ''https://'' destination of Some r \<Rightarrow> Some r | None \<Rightarrow> strip_prefix ''http://'' destination) of
        Some r \<Rightarrow> if r = [] then None else Some r | None \<Rightarrow> None)"

definition EgressPolicy_check :: "string list \<Rightarrow> ExecutionRequest \<Rightarrow> bool" where
  "EgressPolicy_check hosts r =
     list_all (\<lambda>destination. case http_rest destination of
         None \<Rightarrow> False
       | Some rest \<Rightarrow> (let host = takeWhile (\<lambda>c. c \<notin> set ''/:'') rest in host \<noteq> [] \<and> to_ascii_lowercase host \<in> set hosts))
       (ca_egress (xr_capabilities r))"

section \<open>Entries and the journal\<close>

definition persist_terminal :: "ExecSerde \<Rightarrow> ExecEntry \<Rightarrow> unit aop" where
  "persist_terminal X e =
     (if execution_is_active (de_value e) then a_return ()
      else case de_journal_root e of
        None \<Rightarrow> a_return ()
      | Some root \<Rightarrow> (case de_audit e of None \<Rightarrow> a_bail ''missing audit'' | Some a \<Rightarrow> exec_complete X root (de_value e) a))"

definition reply_entry :: "ExecSerde \<Rightarrow> ExecEntry \<Rightarrow> bool \<Rightarrow> world \<Rightarrow> world \<times> DispatchReply" where
  "reply_entry X e audit w =
     (case persist_terminal X e w of
        (w', Inl _) \<Rightarrow> (w', DReply 503 ''terminal record not durable; do not replay'')
      | (w', Inr _) \<Rightarrow>
          (w', if audit then (case de_audit e of Some a \<Rightarrow> DAudit a | None \<Rightarrow> DReply 404 ''unknown execution audit'')
               else DRecord 200 (de_value e)))"

definition reply_snapshot :: "Snapshot \<Rightarrow> bool \<Rightarrow> DispatchReply" where
  "reply_snapshot s audit =
     (if execution_is_active (sp_record s)
      then DReply 503 ''interrupted execution requires operator reconciliation; teardown is unproven; do not replay''
      else if audit then DStoredAudit (sp_audit s) else DRecord 200 (sp_record s))"

definition reply_archived :: "ExecSerde \<Rightarrow> path \<Rightarrow> string \<Rightarrow> bool \<Rightarrow> world \<Rightarrow> world \<times> DispatchReply" where
  "reply_archived X root i audit w =
     (case exec_read X root i w of
        (w', Inr (Some s)) \<Rightarrow> (w', reply_snapshot s audit)
      | (w', Inr None) \<Rightarrow> (w', DReply 404 ''unknown execution'')
      | (w', Inl _) \<Rightarrow> (w', DReply 503 ''execution journal unavailable; do not replay''))"

text \<open>\<open>retain\<close> over the registry, reading the journal for each expired entry.\<close>

fun evict_expired :: "ExecSerde \<Rightarrow> instant \<Rightarrow> (string, ExecEntry) btree \<Rightarrow> world \<Rightarrow> world \<times> (string, ExecEntry) btree" where
  "evict_expired X now [] w = (w, [])"
| "evict_expired X now ((k, e) # m) w =
     (let (w1, keep) =
        (if execution_is_active (de_value e) \<or> now - de_at e < RECORD_TTL then (w, True)
         else case de_journal_root e of
           None \<Rightarrow> (w, False)
         | Some root \<Rightarrow>
             (case exec_read X root (er_request_id (de_value e)) w of
                (w', Inr (Some s)) \<Rightarrow> (w', execution_is_active (sp_record s))
              | (w', _) \<Rightarrow> (w', True)));
        (w2, rest) = evict_expired X now m w1
      in (w2, if keep then (k, e) # rest else rest))"

section \<open>Worker updates\<close>

definition stopped_text :: "Stopped \<Rightarrow> string" where
  "stopped_text s = (case s of Cancelled \<Rightarrow> ''execution cancelled'' | Deadline \<Rightarrow> ''execution deadline exceeded'')"

definition stopped_phase :: "Stopped \<Rightarrow> ExecutionPhase" where
  "stopped_phase s = (case s of Cancelled \<Rightarrow> PhaseCancelled | Deadline \<Rightarrow> PhaseFailed)"

definition stopped_record :: "Stopped option \<Rightarrow> ExecutionRecord \<Rightarrow> ExecutionRecord" where
  "stopped_record reason v =
     (case reason of
        None \<Rightarrow> v
      | Some s \<Rightarrow>
          if \<not> execution_is_active v then
            v\<lparr>er_phase := phase_name (stopped_phase s), er_reason := Some (stopped_text s),
              er_receipt := map_option (\<lambda>r. r\<lparr>rc_phase := stopped_phase s\<rparr>) (er_receipt v)\<rparr>
          else if s = Cancelled then v\<lparr>er_phase := ''Cancelling''\<rparr>
          else v)"

definition updated_entry ::
  "DispatchEnv \<Rightarrow> (ExecutionRecord \<Rightarrow> ExecutionRecord) \<Rightarrow> ExecEntry \<Rightarrow> stops \<Rightarrow> stops \<times> ExecEntry" where
  "updated_entry E f e stops =
     (let (stops, reason) = (case de_control e of None \<Rightarrow> (stops, None) | Some c \<Rightarrow> Control_reason (dv_clk E) c stops);
          v = stopped_record reason (f (de_value e))
      in (stops, e\<lparr>de_value := v, de_at := (if execution_is_active v then de_at e else dv_now E),
             de_audit := map_option (\<lambda>a. (audit_phase (dv_stamp E) (er_phase v) a)\<lparr>ad_receipt := er_receipt v\<rparr>) (de_audit e)\<rparr>))"

definition update_execution ::
  "ExecSerde \<Rightarrow> DispatchEnv \<Rightarrow> string \<Rightarrow> (ExecutionRecord \<Rightarrow> ExecutionRecord) \<Rightarrow> DispatchState \<Rightarrow> DispatchState" where
  "update_execution X E i f st =
     (case bt_get (ds_registry st) i of
        None \<Rightarrow> st
      | Some e \<Rightarrow>
          (let (stops, e) = updated_entry E f e (ds_stops st);
               w = fst (persist_terminal X e (ds_world st))
           in st\<lparr>ds_world := w, ds_stops := stops, ds_registry := bt_insert i e (ds_registry st)\<rparr>))"

definition fail_execution :: "ExecSerde \<Rightarrow> DispatchEnv \<Rightarrow> string \<Rightarrow> string \<Rightarrow> DispatchState \<Rightarrow> DispatchState" where
  "fail_execution X E i reason = update_execution X E i (\<lambda>r. r\<lparr>er_phase := ''Failed'', er_reason := Some reason\<rparr>)"

section \<open>Submission\<close>

text \<open>The checks before the registry is locked.\<close>

definition submission_request :: "DispatchEnv \<Rightarrow> nat \<Rightarrow> bytes \<Rightarrow> DispatchReply + (ExecutionRequest \<times> Control)" where
  "submission_request E fresh body =
     (if length body > 65536 then Inl (DReply 413 ''request body exceeds 64 KiB'')
      else case dv_request E body of
        None \<Rightarrow> Inl (DReply 400 ''parsing execution request'')
      | Some r \<Rightarrow>
          if request_problems r \<noteq> [] then Inl (DReply 400 ''invalid execution request'')
          else if isl (check_supported_authority False r) then Inl (DReply 422 ''request refused'')
          else (case Control_new (dv_now E) fresh (Duration_from_millis (ca_timeout_ms (xr_capabilities r))) of
                  None \<Rightarrow> Inl DDropped
                | Some c \<Rightarrow>
                    if \<not> EgressPolicy_check (dv_hosts E) r then Inl (DReply 403 ''egress policy refused execution request'')
                    else Inr (r, c)))"

definition active_reservations :: "(string, ExecEntry) btree \<Rightarrow> NodeReservation option list" where
  "active_reservations m = map de_reservation (filter (\<lambda>e. execution_is_active (de_value e)) (bt_values m))"

text \<open>What the journal or the registry already says about the identity.\<close>

definition submission_known ::
  "ExecSerde \<Rightarrow> path \<Rightarrow> ExecutionRequest \<Rightarrow> bytes \<Rightarrow> (string, ExecEntry) btree \<Rightarrow> world \<Rightarrow> world \<times> DispatchReply option" where
  "submission_known X root r body m w =
     (case exec_read X root (xr_id r) w of
        (w', Inl _) \<Rightarrow> (w', Some (DReply 503 ''execution journal unavailable; do not replay''))
      | (w', Inr (Some s)) \<Rightarrow>
          if sp_request_hash s \<noteq> hash_str (xs_hash X body)
          then (w', Some (DReply 409 ''execution id already bound to different request bytes''))
          else (case bt_get m (xr_id r) of
                  Some e \<Rightarrow>
                    if execution_is_active (de_value e) then (w', Some (DRecord 202 (de_value e)))
                    else map_prod id Some (reply_entry X e False w')
                | None \<Rightarrow> (w', Some (reply_snapshot s False)))
      | (w', Inr None) \<Rightarrow> (w', case bt_get m (xr_id r) of Some e \<Rightarrow> Some (DRecord 202 (de_value e)) | None \<Rightarrow> None))"

definition admitting :: "ExecutionRequest \<Rightarrow> ExecutionRecord" where
  "admitting r = \<lparr>er_request_id = xr_id r, er_phase = ''Admitting'', er_reason = None, er_output = None, er_receipt = None\<rparr>"

definition submission_entry :: "DispatchEnv \<Rightarrow> ExecutionRequest \<Rightarrow> Control \<Rightarrow> ExecEntry" where
  "submission_entry E r c =
     (Entry_new (dv_now E) (admitting r))\<lparr>de_control := Some c, de_reservation := Some (Reservation_for_request r),
        de_audit := Some (Audit_new (dv_stamp E) r (nd_name (dv_probed E)))\<rparr>"

text \<open>Admission on a node with room, and the durable claim.\<close>

definition submission_admit ::
  "ExecSerde \<Rightarrow> DispatchEnv \<Rightarrow> path \<Rightarrow> ExecutionRequest \<Rightarrow> Control \<Rightarrow> bytes \<Rightarrow> DispatchState \<Rightarrow> DispatchState \<times> DispatchReply" where
  "submission_admit X E root r c body st =
     (let (w, m) = evict_expired X (dv_now E) (ds_registry st) (ds_world st);
          st = st\<lparr>ds_world := w, ds_registry := m\<rparr>;
          node = current_node (dv_probed E) (dv_other E) (dv_prewarm E) (dv_reserved E) (active_reservations m) in
      case node_admit False r node of
        Refused reason \<Rightarrow>
          (st, if reason = AtCapacity then DReply 503 ''node at capacity'' else DReply 422 ''request refused'')
      | Accepted \<Rightarrow>
          (let e = submission_entry E r c;
               (w, claim) = exec_claim X root body (de_value e) (the (de_audit e)) (ds_world st);
               st = st\<lparr>ds_world := w\<rparr> in
           case claim of
             Inl _ \<Rightarrow> (st, DReply 503 ''durable admission unavailable; retry same id'')
           | Inr _ \<Rightarrow>
               (let st = st\<lparr>ds_registry := bt_insert (xr_id r) (e\<lparr>de_journal_root := Some root\<rparr>) m\<rparr> in
                if dv_thread E then (st\<lparr>ds_started := ds_started st @ [(xr_id r, body)]\<rparr>, DRecord 202 (de_value e))
                else (fail_execution X E (xr_id r) ''execution worker unavailable'' st, DReply 503 ''execution worker unavailable''))))"

definition dispatch_submit :: "ExecSerde \<Rightarrow> DispatchEnv \<Rightarrow> path \<Rightarrow> bytes \<Rightarrow> DispatchState \<Rightarrow> DispatchState \<times> DispatchReply" where
  "dispatch_submit X E root body st =
     (case submission_request E (ds_fresh st) body of
        Inl refusal \<Rightarrow> (st, refusal)
      | Inr (r, c) \<Rightarrow>
          (let (w, known) = submission_known X root r body (ds_registry st) (ds_world st);
               st = st\<lparr>ds_world := w, ds_stops := (ds_stops st)(ds_fresh st := 0), ds_fresh := Suc (ds_fresh st)\<rparr> in
           case known of
             Some reply \<Rightarrow> (st, reply)
           | None \<Rightarrow> submission_admit X E root r c body st))"

section \<open>Cancelling and reading\<close>

definition dispatch_cancel :: "ExecSerde \<Rightarrow> DispatchEnv \<Rightarrow> path \<Rightarrow> string \<Rightarrow> DispatchState \<Rightarrow> DispatchState \<times> DispatchReply" where
  "dispatch_cancel X E root i st =
     (case bt_get (ds_registry st) i of
        None \<Rightarrow> (case reply_archived X root i False (ds_world st) of (w, reply) \<Rightarrow> (st\<lparr>ds_world := w\<rparr>, reply))
      | Some e \<Rightarrow>
          if execution_is_active (de_value e) then
            (let stops = (case de_control e of Some c \<Rightarrow> Control_cancel (dv_clk E) c (ds_stops st) | None \<Rightarrow> ds_stops st);
                 e = e\<lparr>de_value := (de_value e)\<lparr>er_phase := ''Cancelling'', er_reason := Some ''cancellation requested; cleanup pending''\<rparr>,
                       de_audit := map_option (audit_phase (dv_stamp E) ''Cancelling'') (de_audit e)\<rparr>
             in (st\<lparr>ds_stops := stops, ds_registry := bt_insert i e (ds_registry st)\<rparr>, DRecord 202 (de_value e)))
          else (case reply_entry X e False (ds_world st) of (w, reply) \<Rightarrow> (st\<lparr>ds_world := w\<rparr>, reply)))"

definition dispatch_status :: "ExecSerde \<Rightarrow> path \<Rightarrow> string \<Rightarrow> bool \<Rightarrow> DispatchState \<Rightarrow> DispatchState \<times> DispatchReply" where
  "dispatch_status X root i audit st =
     (case bt_get (ds_registry st) i of
        Some e \<Rightarrow> (case reply_entry X e audit (ds_world st) of (w, reply) \<Rightarrow> (st\<lparr>ds_world := w\<rparr>, reply))
      | None \<Rightarrow> (case reply_archived X root i audit (ds_world st) of (w, reply) \<Rightarrow> (st\<lparr>ds_world := w\<rparr>, reply)))"

section \<open>Steps\<close>

text \<open>The updates \<open>run_execution\<close> makes: a phase, a refusal, a failure, and the result.\<close>

datatype WorkerChange =
    SetPhase string
  | SetRefused string
  | SetFailed string
  | SetResult ExecutionPhase "string option" "string option" ExecutionReceipt

definition worker_change :: "WorkerChange \<Rightarrow> ExecutionRecord \<Rightarrow> ExecutionRecord" where
  "worker_change c r =
     (case c of
        SetPhase p \<Rightarrow> r\<lparr>er_phase := p\<rparr>
      | SetRefused reason \<Rightarrow> r\<lparr>er_phase := ''Refused'', er_reason := Some reason\<rparr>
      | SetFailed reason \<Rightarrow> r\<lparr>er_phase := ''Failed'', er_reason := Some reason\<rparr>
      | SetResult p reason out receipt \<Rightarrow>
          r\<lparr>er_phase := phase_name p, er_reason := reason, er_output := out, er_receipt := Some receipt\<rparr>)"

datatype dispatch_op =
    SubmitExecution DispatchEnv bytes
  | CancelExecution DispatchEnv string
  | ReadExecution string bool
  | WorkerUpdate DispatchEnv string WorkerChange
  | WorkerAudit string "Event list"
  | Restart

fun dispatch_step :: "ExecSerde \<Rightarrow> path \<Rightarrow> dispatch_op \<Rightarrow> DispatchState \<Rightarrow> DispatchState \<times> DispatchReply" where
  "dispatch_step X root (SubmitExecution E body) st = dispatch_submit X E root body st"
| "dispatch_step X root (CancelExecution E i) st = dispatch_cancel X E root i st"
| "dispatch_step X root (ReadExecution i audit) st = dispatch_status X root i audit st"
| "dispatch_step X root (WorkerUpdate E i c) st = (update_execution X E i (worker_change c) st, DDropped)"
| "dispatch_step X root (WorkerAudit i lifecycle) st =
     (st\<lparr>ds_registry := bt_adjust i (\<lambda>e. e\<lparr>de_audit := map_option (audit_executed lifecycle) (de_audit e)\<rparr>) (ds_registry st)\<rparr>, DDropped)"
| "dispatch_step X root Restart st = (st\<lparr>ds_registry := []\<rparr>, DDropped)"

section \<open>What every step keeps of the journal\<close>

text \<open>A property of the tree that completing and claiming records of this journal keep.\<close>

definition journal_keeps :: "ExecSerde \<Rightarrow> path \<Rightarrow> (fsys \<Rightarrow> bool) \<Rightarrow> bool" where
  "journal_keeps X root P \<longleftrightarrow>
     (\<forall>r a. preserves P (exec_complete X root r a)) \<and> (\<forall>body r a. preserves P (exec_claim X root body r a))"

text \<open>Entries belong to this journal, under their identity.\<close>

definition exec_entry_ok :: "path \<Rightarrow> string \<Rightarrow> ExecEntry \<Rightarrow> bool" where
  "exec_entry_ok root k e \<longleftrightarrow> er_request_id (de_value e) = k \<and> de_journal_root e = Some root"

definition registry_ok :: "path \<Rightarrow> (string, ExecEntry) btree \<Rightarrow> bool" where
  "registry_ok root m \<longleftrightarrow> bt_invar m \<and> (\<forall>k e. bt_get m k = Some e \<longrightarrow> exec_entry_ok root k e)"

lemma registry_okD: "registry_ok root m \<Longrightarrow> bt_get m k = Some e \<Longrightarrow> exec_entry_ok root k e"
  by (simp add: registry_ok_def)

lemma registry_ok_insert: "registry_ok root m \<Longrightarrow> exec_entry_ok root k e \<Longrightarrow> registry_ok root (bt_insert k e m)"
  by (auto simp: registry_ok_def bt_simps split: if_splits)

lemma registry_ok_Nil [simp]: "registry_ok root []"
  by (simp add: registry_ok_def bt_invar_def)

lemma persist_terminal_keeps:
  assumes "journal_keeps X root P" "exec_entry_ok root k e" "P (w_fs w)"
  shows "P (w_fs (fst (persist_terminal X e w)))"
  using assms preservesD [of P "exec_complete X root r a" w for r a]
  by (auto simp: persist_terminal_def exec_entry_ok_def journal_keeps_def a_return_def a_bail_def split: option.split)

lemma reply_keeps:
  "journal_keeps X root P \<Longrightarrow> exec_entry_ok root k e \<Longrightarrow> P (w_fs w) \<Longrightarrow> P (w_fs (fst (reply_entry X e audit w)))"
  "P (w_fs w) \<Longrightarrow> P (w_fs (fst (reply_archived X root i audit w)))"
proof -
  show "P (w_fs (fst (reply_entry X e audit w)))" if "journal_keeps X root P" "exec_entry_ok root k e" "P (w_fs w)"
    using persist_terminal_keeps [OF that] by (auto simp: reply_entry_def split: prod.splits sum.splits)
  show "P (w_fs (fst (reply_archived X root i audit w)))" if "P (w_fs w)"
    using preservesD [OF exec_read_preserves [of P X root i] that]
    by (auto simp: reply_archived_def split: prod.splits sum.splits option.splits)
qed

lemma exec_read_same: "exec_read X root i w = (w', r) \<Longrightarrow> w_fs w' = w_fs w"
  using preserves_step [where P = "\<lambda>fs. fs = w_fs w", OF exec_read_preserves] by blast

lemma evict_expired_facts:
  "evict_expired X now m w = (w', m') \<Longrightarrow> w_fs w' = w_fs w \<and> set m' \<subseteq> set m \<and> (bt_invar m \<longrightarrow> bt_invar m')"
proof (induction X now m w arbitrary: w' m' rule: evict_expired.induct)
  case (2 X now k e m w)
  define step where "step = (if execution_is_active (de_value e) \<or> now - de_at e < RECORD_TTL then (w, True)
         else case de_journal_root e of
           None \<Rightarrow> (w, False)
         | Some root \<Rightarrow>
             (case exec_read X root (er_request_id (de_value e)) w of
                (w', Inr (Some s)) \<Rightarrow> (w', execution_is_active (sp_record s))
              | (w', _) \<Rightarrow> (w', True)))"
  obtain w1 keep where s: "step = (w1, keep)" by fastforce
  have same: "w_fs w1 = w_fs w"
    using s exec_read_same by (fastforce simp: step_def split: if_splits option.splits prod.splits sum.splits)
  obtain w2 rest where r: "evict_expired X now m w1 = (w2, rest)" by fastforce
  have m': "w' = w2" "m' = (if keep then (k, e) # rest else rest)"
    using "2.prems" s r by (simp_all add: step_def [symmetric])
  have "w_fs w2 = w_fs w1 \<and> set rest \<subseteq> set m \<and> (bt_invar m \<longrightarrow> bt_invar rest)"
    using "2.IH" [OF s [unfolded step_def, symmetric] refl r] .
  then show ?case using same m' by (auto simp: bt_invar_def)
qed simp

lemma bt_get_set: "bt_invar m \<Longrightarrow> bt_get m k = Some e \<longleftrightarrow> (k, e) \<in> set m"
  by (simp add: bt_get_def bt_invar_def strict_sorted_iff)

lemma evict_get:
  "evict_expired X now m w = (w', m') \<Longrightarrow> bt_invar m \<Longrightarrow> bt_get m' k = Some e \<Longrightarrow> bt_get m k = Some e"
  using evict_expired_facts by (metis bt_get_set subsetD)

lemma evict_registry_ok: "evict_expired X now m w = (w', m') \<Longrightarrow> registry_ok root m \<Longrightarrow> registry_ok root m'"
  using evict_get evict_expired_facts unfolding registry_ok_def by metis

section \<open>Updates keep entries in place\<close>

lemma worker_change_id: "er_request_id (worker_change c r) = er_request_id r"
  by (simp add: worker_change_def split: WorkerChange.split)

lemma stopped_record_id: "er_request_id (stopped_record s r) = er_request_id r"
  by (simp add: stopped_record_def split: option.split)

lemma updated_entry_facts:
  assumes "updated_entry E f e stops = (stops', e')"
  shows "de_control e' = de_control e" "de_journal_root e' = de_journal_root e" "de_reservation e' = de_reservation e"
    "\<exists>reason. de_value e' = stopped_record reason (f (de_value e))
       \<and> (case de_control e of None \<Rightarrow> stops' = stops | Some c \<Rightarrow> Control_reason (dv_clk E) c stops = (stops', reason))"
  using assms by (auto simp: updated_entry_def Let_def split: option.splits prod.splits)

lemma update_facts:
  assumes "registry_ok root (ds_registry st)" "\<And>r. er_request_id (f r) = er_request_id r"
  shows "registry_ok root (ds_registry (update_execution X E i f st))"
    and "journal_keeps X root P \<Longrightarrow> P (w_fs (ds_world st)) \<Longrightarrow> P (w_fs (ds_world (update_execution X E i f st)))"
    and "ds_started (update_execution X E i f st) = ds_started st" "ds_fresh (update_execution X E i f st) = ds_fresh st"
proof -
  have ok: "exec_entry_ok root i e'" if "bt_get (ds_registry st) i = Some e" "updated_entry E f e (ds_stops st) = (stops, e')" for e e' stops
    using registry_okD [OF assms(1) that(1)] updated_entry_facts [OF that(2)] assms(2)
    by (auto simp: exec_entry_ok_def stopped_record_id)
  show "registry_ok root (ds_registry (update_execution X E i f st))"
    using assms(1) ok by (auto simp: update_execution_def intro!: registry_ok_insert split: option.split prod.split)
  show "P (w_fs (ds_world (update_execution X E i f st)))" if "journal_keeps X root P" "P (w_fs (ds_world st))"
    using that persist_terminal_keeps [OF that(1) ok that(2)] by (auto simp: update_execution_def split: option.split prod.split)
  show "ds_started (update_execution X E i f st) = ds_started st" "ds_fresh (update_execution X E i f st) = ds_fresh st"
    by (simp_all add: update_execution_def split: option.split prod.split)
qed

lemma known_keeps:
  assumes "registry_ok root m" "journal_keeps X root P" "P (w_fs w)" "submission_known X root r body m w = (w', known)"
  shows "P (w_fs w')"
proof -
  obtain w1 x where read: "exec_read X root (xr_id r) w = (w1, x)" by fastforce
  have p1: "P (w_fs w1)" using exec_read_same [OF read] assms(3) by simp
  have entry: "P (w_fs (fst (reply_entry X e False w1)))" if "bt_get m (xr_id r) = Some e" for e
    by (rule reply_keeps(1) [OF assms(2) registry_okD [OF assms(1) that] p1])
  show ?thesis
    using assms(4) read p1 entry
    by (auto simp: submission_known_def map_prod_def case_prod_unfold split: sum.splits option.splits if_splits)
qed

section \<open>Submissions\<close>

text \<open>The state once the claim is durable and the entry is in the registry.\<close>

definition claimed_state :: "DispatchEnv \<Rightarrow> path \<Rightarrow> ExecutionRequest \<Rightarrow> Control \<Rightarrow> world \<Rightarrow> (string, ExecEntry) btree \<Rightarrow> DispatchState \<Rightarrow> DispatchState" where
  "claimed_state E root r c w m st =
     st\<lparr>ds_world := w, ds_registry := bt_insert (xr_id r) ((submission_entry E r c)\<lparr>de_journal_root := Some root\<rparr>) m\<rparr>"

lemma submission_entry_value [simp]: "de_value (submission_entry E r c) = admitting r" "de_control (submission_entry E r c) = Some c"
  by (simp_all add: submission_entry_def Entry_new_def)

lemma admit_cases:
  assumes "submission_admit X E root r c body st = (st', reply)"
  obtains w m w2 cl a where "evict_expired X (dv_now E) (ds_registry st) (ds_world st) = (w, m)"
    "exec_claim X root body (admitting r) a w = (w2, cl)"
    "(\<exists>v. (v = w \<or> v = w2) \<and> st' = st\<lparr>ds_world := v, ds_registry := m\<rparr>)
     \<or> cl = Inr () \<and> st' = (claimed_state E root r c w2 m st)\<lparr>ds_started := ds_started st @ [(xr_id r, body)]\<rparr>
     \<or> cl = Inr () \<and> st' = fail_execution X E (xr_id r) ''execution worker unavailable'' (claimed_state E root r c w2 m st)"
proof -
  obtain w m where ev: "evict_expired X (dv_now E) (ds_registry st) (ds_world st) = (w, m)" by fastforce
  define node where "node = current_node (dv_probed E) (dv_other E) (dv_prewarm E) (dv_reserved E) (active_reservations m)"
  let ?e = "submission_entry E r c"
  obtain w2 cl where claim: "exec_claim X root body (admitting r) (the (de_audit ?e)) w = (w2, cl)" by fastforce
  show thesis
    by (rule that [OF ev claim], use assms ev claim in \<open>cases "node_admit False r node"; cases cl; cases "dv_thread E"\<close>)
      (auto simp: submission_admit_def claimed_state_def Let_def node_def)
qed

lemma admit_facts:
  assumes ok: "registry_ok root (ds_registry st)" and admit: "submission_admit X E root r c body st = (st', reply)"
  shows "registry_ok root (ds_registry st')"
    and "journal_keeps X root P \<Longrightarrow> P (w_fs (ds_world st)) \<Longrightarrow> P (w_fs (ds_world st'))"
    and "ds_started st' = ds_started st \<or> (ds_started st' = ds_started st @ [(xr_id r, body)]
           \<and> (\<exists>w a. w_fs w = w_fs (ds_world st) \<and> exec_claim X root body (admitting r) a w = (ds_world st', Inr ())))"
proof -
  obtain w m w2 cl a where ev: "evict_expired X (dv_now E) (ds_registry st) (ds_world st) = (w, m)"
    and claim: "exec_claim X root body (admitting r) a w = (w2, cl)"
    and cases: "(\<exists>v. (v = w \<or> v = w2) \<and> st' = st\<lparr>ds_world := v, ds_registry := m\<rparr>)
     \<or> cl = Inr () \<and> st' = (claimed_state E root r c w2 m st)\<lparr>ds_started := ds_started st @ [(xr_id r, body)]\<rparr>
     \<or> cl = Inr () \<and> st' = fail_execution X E (xr_id r) ''execution worker unavailable'' (claimed_state E root r c w2 m st)"
    by (rule admit_cases [OF admit])
  have same: "w_fs w = w_fs (ds_world st)" and m: "registry_ok root m"
    using evict_expired_facts [OF ev] evict_registry_ok [OF ev ok] by simp_all
  let ?st2 = "claimed_state E root r c w2 m st"
  have ok2: "registry_ok root (ds_registry ?st2)"
    using m by (simp add: claimed_state_def registry_ok_insert exec_entry_ok_def admitting_def)
  have kept: "P (w_fs w2)" if "journal_keeps X root P" "P (w_fs (ds_world st))" for P
    using that same claim preserves_step [where P = P, of "exec_claim X root body (admitting r) a" w w2 cl]
    by (simp add: journal_keeps_def)
  note fail = update_facts [where f = "\<lambda>r. r\<lparr>er_phase := ''Failed'', er_reason := Some ''execution worker unavailable''\<rparr>" and X = X and E = E
      and i = "xr_id r", OF ok2, simplified, folded fail_execution_def]
  show "registry_ok root (ds_registry st')"
    using cases m ok2 fail(1) by auto
  show "P (w_fs (ds_world st'))" if "journal_keeps X root P" "P (w_fs (ds_world st))"
    using cases kept [OF that] that same fail(2) [OF that(1)] by (auto simp: claimed_state_def)
  show "ds_started st' = ds_started st \<or> (ds_started st' = ds_started st @ [(xr_id r, body)]
           \<and> (\<exists>w a. w_fs w = w_fs (ds_world st) \<and> exec_claim X root body (admitting r) a w = (ds_world st', Inr ())))"
    using cases claim same fail(3) by (auto simp: claimed_state_def) blast
qed

lemma journal_keeps_laws:
  "journal_keeps X root (recorded X root i)" "journal_keeps X root (archived X root i b)" "journal_keeps X root bt_invar"
proof -
  show "journal_keeps X root (recorded X root i)" by (simp add: journal_keeps_def recorded_keeps complete_keeps_recorded)
  show "journal_keeps X root (archived X root i b)" by (simp add: journal_keeps_def recorded_keeps complete_keeps_archived)
  have effects: "bt_invar (fst (persist_effect p c fs))" "bt_invar (fst (replace_effect p c fs))" if "bt_invar fs" for p c fs
    using that by (auto simp: persist_effect_def replace_effect_def bt_simps)
  have "preserves bt_invar (exec_claim X root body r a)" for body r a
    by (rule claim_keeps) (auto intro: prepare_keeps simp: effects)
  moreover have "preserves bt_invar (exec_complete X root r a)" for r a
    unfolding exec_complete_def Let_def
    by (auto intro!: preserve_intros exec_publish_keeps simp: effects split: option.split prod.split)
  ultimately show "journal_keeps X root bt_invar" by (simp add: journal_keeps_def)
qed

lemma submit_facts:
  assumes ok: "registry_ok root (ds_registry st)" and submit: "dispatch_submit X E root body st = (st', reply)"
  shows "registry_ok root (ds_registry st')"
    and "journal_keeps X root P \<Longrightarrow> P (w_fs (ds_world st)) \<Longrightarrow> P (w_fs (ds_world st'))"
    and "bt_invar (w_fs (ds_world st)) \<Longrightarrow> ds_started st' = ds_started st \<or> (\<exists>i. ds_started st' = ds_started st @ [(i, body)]
           \<and> \<not> recorded X root i (w_fs (ds_world st)) \<and> recorded X root i (w_fs (ds_world st')))"
proof -
  consider (refused) "st' = st" | (next_step) r c w known where "submission_request E (ds_fresh st) body = Inr (r, c)"
      "submission_known X root r body (ds_registry st) (ds_world st) = (w, known)"
    using submit by (cases "submission_request E (ds_fresh st) body") (auto simp: dispatch_submit_def split: prod.splits)
  then have "registry_ok root (ds_registry st') \<and> (\<forall>P. journal_keeps X root P \<longrightarrow> P (w_fs (ds_world st)) \<longrightarrow> P (w_fs (ds_world st')))
     \<and> (bt_invar (w_fs (ds_world st)) \<longrightarrow> ds_started st' = ds_started st \<or> (\<exists>i. ds_started st' = ds_started st @ [(i, body)]
           \<and> \<not> recorded X root i (w_fs (ds_world st)) \<and> recorded X root i (w_fs (ds_world st'))))"
  proof cases
    case refused
    then show ?thesis using ok by simp
  next
    case next_step
    let ?st = "st\<lparr>ds_world := w, ds_stops := (ds_stops st)(ds_fresh st := 0), ds_fresh := Suc (ds_fresh st)\<rparr>"
    have kept: "P (w_fs w)" if "journal_keeps X root P" "P (w_fs (ds_world st))" for P
      by (rule known_keeps [OF ok that next_step(2)])
    show ?thesis
    proof (cases known)
      case (Some x)
      then have "st' = ?st" using submit next_step by (simp add: dispatch_submit_def)
      then show ?thesis using ok kept by auto
    next
      case None
      then have admit: "submission_admit X E root r c body ?st = (st', reply)" using submit next_step by (simp add: dispatch_submit_def)
      have ok': "registry_ok root (ds_registry ?st)" using ok by simp
      note facts = admit_facts [OF ok' admit]
      have "ds_started st' = ds_started st \<or> (\<exists>i. ds_started st' = ds_started st @ [(i, body)]
           \<and> \<not> recorded X root i (w_fs (ds_world st)) \<and> recorded X root i (w_fs (ds_world st')))" if inv: "bt_invar (w_fs (ds_world st))"
      proof -
        have "\<not> recorded X root (xr_id r) (w_fs (ds_world st)) \<and> recorded X root (xr_id r) (w_fs (ds_world st'))"
          if "w_fs v = w_fs w" "exec_claim X root body (admitting r) a v = (ds_world st', Inr ())" for v a
          using claim_first [OF that(2)] that(1) kept [OF journal_keeps_laws(3) inv] kept [OF journal_keeps_laws(1), of "xr_id r"]
          by (auto simp: admitting_def)
        then show ?thesis using facts(3) by fastforce
      qed
      then show ?thesis using facts(1,2) kept by auto
    qed
  qed
  then show "registry_ok root (ds_registry st')"
    and "journal_keeps X root P \<Longrightarrow> P (w_fs (ds_world st)) \<Longrightarrow> P (w_fs (ds_world st'))"
    and "bt_invar (w_fs (ds_world st)) \<Longrightarrow> ds_started st' = ds_started st \<or> (\<exists>i. ds_started st' = ds_started st @ [(i, body)]
           \<and> \<not> recorded X root i (w_fs (ds_world st)) \<and> recorded X root i (w_fs (ds_world st')))"
    by blast+
qed

lemma read_facts:
  assumes ok: "registry_ok root (ds_registry st)"
  shows "registry_ok root (ds_registry (fst (dispatch_status X root i audit st))) \<and> registry_ok root (ds_registry (fst (dispatch_cancel X E root i st)))"
    and "ds_started (fst (dispatch_status X root i audit st)) = ds_started st \<and> ds_started (fst (dispatch_cancel X E root i st)) = ds_started st"
    and "journal_keeps X root P \<Longrightarrow> P (w_fs (ds_world st)) \<Longrightarrow>
      P (w_fs (ds_world (fst (dispatch_status X root i audit st)))) \<and> P (w_fs (ds_world (fst (dispatch_cancel X E root i st))))"
proof -
  have entry: "exec_entry_ok root i e" if "bt_get (ds_registry st) i = Some e" for e using registry_okD [OF ok that] .
  show "registry_ok root (ds_registry (fst (dispatch_status X root i audit st))) \<and> registry_ok root (ds_registry (fst (dispatch_cancel X E root i st)))"
    using ok entry
    by (auto simp: dispatch_status_def dispatch_cancel_def Let_def exec_entry_ok_def intro!: registry_ok_insert split: option.split prod.split)
  show "ds_started (fst (dispatch_status X root i audit st)) = ds_started st \<and> ds_started (fst (dispatch_cancel X E root i st)) = ds_started st"
    by (auto simp: dispatch_status_def dispatch_cancel_def Let_def split: option.split prod.split)
  show "P (w_fs (ds_world (fst (dispatch_status X root i audit st)))) \<and> P (w_fs (ds_world (fst (dispatch_cancel X E root i st))))"
    if "journal_keeps X root P" "P (w_fs (ds_world st))"
  proof -
    have r: "P (w_fs (fst (reply_entry X e a (ds_world st))))" if "bt_get (ds_registry st) i = Some e" for e a
      by (rule reply_keeps(1) [OF \<open>journal_keeps X root P\<close> entry [OF that] \<open>P (w_fs (ds_world st))\<close>])
    have a: "P (w_fs (fst (reply_archived X root i b (ds_world st))))" for b by (rule reply_keeps(2) [where P = P, OF that(2)])
    have r': "P (w_fs w)" if "bt_get (ds_registry st) i = Some e" "reply_entry X e b (ds_world st) = (w, y)" for e b w y
      using r [OF that(1), of b] that(2) by simp
    have a': "P (w_fs w)" if "reply_archived X root i b (ds_world st) = (w, y)" for b w y using a [of b] that by simp
    show ?thesis using that(2)
      by (auto simp: dispatch_status_def dispatch_cancel_def Let_def split: option.split prod.split intro: r' a')
  qed
qed

lemma step_facts:
  assumes ok: "registry_ok root (ds_registry st)"
  shows "registry_ok root (ds_registry (fst (dispatch_step X root op st)))"
    and "journal_keeps X root P \<Longrightarrow> P (w_fs (ds_world st)) \<Longrightarrow> P (w_fs (ds_world (fst (dispatch_step X root op st))))"
    and "bt_invar (w_fs (ds_world st)) \<Longrightarrow> ds_started (fst (dispatch_step X root op st)) = ds_started st
       \<or> (\<exists>i body. ds_started (fst (dispatch_step X root op st)) = ds_started st @ [(i, body)]
            \<and> \<not> recorded X root i (w_fs (ds_world st)) \<and> recorded X root i (w_fs (ds_world (fst (dispatch_step X root op st)))))"
proof -
  have adjust: "registry_ok root (bt_adjust i f (ds_registry st))" if "\<And>e. de_value (f e) = de_value e \<and> de_journal_root (f e) = de_journal_root e" for i f
    using ok that by (auto simp: registry_ok_def bt_get_adjust exec_entry_ok_def split: if_splits)
  note submit = submit_facts [OF ok prod.collapse [symmetric]] and update = update_facts [OF ok worker_change_id]
  show "registry_ok root (ds_registry (fst (dispatch_step X root op st)))"
    using submit(1) read_facts(1) [OF ok] update(1) adjust by (cases op) simp_all
  show "P (w_fs (ds_world (fst (dispatch_step X root op st))))" if "journal_keeps X root P" "P (w_fs (ds_world st))"
    using submit(2) [OF that] read_facts(3) [OF ok that] update(2) [OF that] that(2) by (cases op) simp_all
  show "ds_started (fst (dispatch_step X root op st)) = ds_started st
       \<or> (\<exists>i body. ds_started (fst (dispatch_step X root op st)) = ds_started st @ [(i, body)]
            \<and> \<not> recorded X root i (w_fs (ds_world st)) \<and> recorded X root i (w_fs (ds_world (fst (dispatch_step X root op st)))))"
    if "bt_invar (w_fs (ds_world st))"
    using submit(3) [OF that] read_facts(2) [OF ok] update(3) by (cases op) (simp_all, blast?)
qed

lemma exec_read_None:
  assumes "exec_read X root i w = (w', Inr None)"
  shows "fs_kind (w_fs w) (exec_path X root i) \<noteq> Some (File b)"
proof
  assume kind: "fs_kind (w_fs w) (exec_path X root i) = Some (File b)"
  obtain w1 r where read: "read_limited (Suc EXEC_MAX_BYTES) (exec_path X root i) w = (w1, r)" by fastforce
  have "r = Inl NotFound"
    using assms read
    by (auto simp: exec_read_def a_match_def a_result_def a_return_def a_bind_def split: sum.splits IoKind.splits prod.splits)
  then show False
    using read kind by (auto simp: read_limited_def io_call_def read_effect_def split: list.splits fault.splits)
qed

section \<open>An execution is started once\<close>

definition times_started :: "string \<Rightarrow> DispatchState \<Rightarrow> nat" where
  "times_started i st = length (filter (\<lambda>(j, _). j = i) (ds_started st))"

lemma started_run:
  assumes "registry_ok root (ds_registry st)" "bt_invar (w_fs (ds_world st))"
  shows "times_started i (run_final (dispatch_step X root) st ops) \<le>
           times_started i st + (if recorded X root i (w_fs (ds_world st)) then 0 else 1)"
  using assms
proof (induction ops arbitrary: st)
  case (Cons op ops)
  let ?st = "fst (dispatch_step X root op st)"
  note facts = step_facts [OF Cons.prems(1), where X = X and op = op]
  have inv: "bt_invar (w_fs (ds_world ?st))" by (rule facts(2) [OF journal_keeps_laws(3) Cons.prems(2)])
  have kept: "recorded X root i (w_fs (ds_world ?st))" if "recorded X root i (w_fs (ds_world st))"
    by (rule facts(2) [OF journal_keeps_laws(1) that])
  have "times_started i ?st + (if recorded X root i (w_fs (ds_world ?st)) then 0 else 1)
      \<le> times_started i st + (if recorded X root i (w_fs (ds_world st)) then 0 else 1)"
    using facts(3) [OF Cons.prems(2)] kept by (auto simp: times_started_def)
  with Cons.IH [OF facts(1) inv] show ?case by simp
qed simp

text \<open>
  C11: An execution is started at most once. Over any sequence of submissions, cancellations, reads,
  updates by workers and restarts of the dispatcher, with any calls on the journal failing, no
  identity has its worker started twice, and none at all when the journal already had a
  record of it when the dispatcher started.
\<close>

theorem execution_started_once:
  assumes "bt_invar (w_fs (ds_world st))" "ds_registry st = []" "ds_started st = []"
  shows "times_started i (run_final (dispatch_step X root) st ops) \<le>
           (if recorded X root i (w_fs (ds_world st)) then 0 else 1)"
proof -
  have "registry_ok root (ds_registry st)" using assms(2) by simp
  from started_run [OF this assms(1), of i X ops] show ?thesis using assms(3) by (simp add: times_started_def)
qed

lemma archived_run:
  "registry_ok root (ds_registry st) \<Longrightarrow> archived X root i b (w_fs (ds_world st)) \<Longrightarrow>
   archived X root i b (w_fs (ds_world (run_final (dispatch_step X root) st ops)))"
proof (induction ops arbitrary: st)
  case (Cons op ops)
  note facts = step_facts [OF Cons.prems(1), where X = X and op = op]
  from Cons.IH [OF facts(1) facts(2) [OF journal_keeps_laws(2) Cons.prems(2)]] show ?case by simp
qed simp

text \<open>
  C12: The record of a finished execution never changes. Once the journal holds a terminal record,
  its bytes are the same after any further submissions, cancellations, reads, updates by
  workers and restarts, with any failures; and a reader is given that record or an error.
\<close>

theorem terminal_record_immutable:
  assumes "registry_ok root (ds_registry st)" "archived X root i b (w_fs (ds_world st))"
  shows "let st' = run_final (dispatch_step X root) st ops in
           fs_kind (w_fs (ds_world st')) (exec_path X root i) = Some (File b)
         \<and> (case snd (exec_read X root i (ds_world st')) of Inr s \<Rightarrow> s = xs_decode X b | Inl _ \<Rightarrow> True)"
proof -
  let ?st = "run_final (dispatch_step X root) st ops"
  have kept: "fs_kind (w_fs (ds_world ?st)) (exec_path X root i) = Some (File b)"
    using archived_run [OF assms] by (simp add: archived_def)
  obtain w r where read: "exec_read X root i (ds_world ?st) = (w, r)" by fastforce
  have "s = xs_decode X b" if "r = Inr s" for s
  proof (cases s)
    case None
    then show ?thesis using read that kept exec_read_None by fastforce
  next
    case (Some t)
    then show ?thesis using exec_read_Some read that kept by fastforce
  qed
  then show ?thesis using kept read by (simp add: Let_def split: sum.split)
qed

section \<open>A cancelled execution never succeeds\<close>

definition unsuccessful :: "ExecEntry \<Rightarrow> bool" where
  "unsuccessful e \<longleftrightarrow> er_phase (de_value e) \<notin> {''Succeeded'', ''Refused''}"

text \<open>An entry after a step: the same control, and no success once the control has stopped.\<close>

definition follows :: "stops \<Rightarrow> ExecEntry \<Rightarrow> ExecEntry \<Rightarrow> bool" where
  "follows s e e' \<longleftrightarrow> de_control e' = de_control e
     \<and> (\<forall>c. de_control e = Some c \<and> s (ctl_stop c) \<in> {1, 2} \<and> unsuccessful e \<longrightarrow> unsuccessful e')"

lemma follows_refl [simp]: "follows s e e"
  by (simp add: follows_def)

lemma stop_of_iff: "stop_of b \<noteq> None \<longleftrightarrow> b \<in> {1, 2}"
  by (auto simp: stop_of_def)

lemma stopped_unsuccessful: "reason \<noteq> None \<Longrightarrow> er_phase (stopped_record reason v) \<notin> {''Succeeded'', ''Refused''}"
  by (auto simp: stopped_record_def stopped_phase_def phase_name_def execution_is_active_def split: Stopped.splits if_splits)

lemma update_entry_follows:
  assumes "bt_invar (ds_registry st)"
  shows "bt_get (ds_registry (update_execution X E i f st)) k = Some e' \<Longrightarrow>
      \<exists>e. bt_get (ds_registry st) k = Some e \<and> follows (ds_stops st) e e'"
    and "stops_le (ds_stops st) (ds_stops (update_execution X E i f st))"
    and "stops_ok (ds_stops st) \<Longrightarrow> stops_ok (ds_stops (update_execution X E i f st))"
proof -
  have step: "follows (ds_stops st) e e' \<and> stops_le (ds_stops st) s \<and> (stops_ok (ds_stops st) \<longrightarrow> stops_ok s)"
    if upd: "updated_entry E f e (ds_stops st) = (s, e')" for e e' s
  proof -
    obtain reason where value_is: "de_value e' = stopped_record reason (f (de_value e))"
      and reason: "case de_control e of None \<Rightarrow> s = ds_stops st | Some c \<Rightarrow> Control_reason (dv_clk E) c (ds_stops st) = (s, reason)"
      using updated_entry_facts(4) [OF upd] by blast
    have "reason \<noteq> None" if c: "de_control e = Some c" and stop: "ds_stops st (ctl_stop c) \<in> {1, 2}" for c
    proof -
      obtain y where "stop_of (ds_stops st (ctl_stop c)) = Some y" using stop stop_of_iff by fastforce
      from Control_reason_sticky [where st' = "ds_stops st", OF this stops_le_refl, of "dv_clk E"] show ?thesis using reason c by simp
    qed
    then have "follows (ds_stops st) e e'"
      using updated_entry_facts(1) [OF upd] stopped_unsuccessful value_is by (auto simp: follows_def unsuccessful_def)
    moreover have "stops_le (ds_stops st) s \<and> (stops_ok (ds_stops st) \<longrightarrow> stops_ok s)"
      using reason Control_reason_le stops_ok_reason by (cases "de_control e") (auto, metis fst_conv, metis fst_conv)
    ultimately show ?thesis by blast
  qed
  show "\<exists>e. bt_get (ds_registry st) k = Some e \<and> follows (ds_stops st) e e'"
    if "bt_get (ds_registry (update_execution X E i f st)) k = Some e'"
    using that assms step by (auto simp: update_execution_def bt_simps split: option.splits prod.splits if_splits)
  show "stops_le (ds_stops st) (ds_stops (update_execution X E i f st))"
    "stops_ok (ds_stops st) \<Longrightarrow> stops_ok (ds_stops (update_execution X E i f st))"
    using step by (auto simp: update_execution_def split: option.splits prod.splits)
qed

text \<open>
  Every entry of the registry has a durable record and a control whose byte is allocated.
\<close>

definition dispatch_ok :: "ExecSerde \<Rightarrow> path \<Rightarrow> DispatchState \<Rightarrow> bool" where
  "dispatch_ok X root st \<longleftrightarrow> registry_ok root (ds_registry st) \<and> bt_invar (w_fs (ds_world st)) \<and> stops_ok (ds_stops st)
     \<and> (\<forall>k e. bt_get (ds_registry st) k = Some e \<longrightarrow>
          recorded X root k (w_fs (ds_world st)) \<and> (\<exists>c. de_control e = Some c \<and> ctl_stop c < ds_fresh st))"

text \<open>What a step does to the entries and to the stop bytes.\<close>

definition entries_step :: "ExecSerde \<Rightarrow> path \<Rightarrow> DispatchState \<Rightarrow> DispatchState \<Rightarrow> bool" where
  "entries_step X root st st' \<longleftrightarrow>
     (\<forall>k e'. bt_get (ds_registry st') k = Some e' \<longrightarrow>
        (\<exists>e. bt_get (ds_registry st) k = Some e \<and> follows (ds_stops st) e e')
        \<or> \<not> recorded X root k (w_fs (ds_world st)) \<and> recorded X root k (w_fs (ds_world st'))
          \<and> (\<exists>c. de_control e' = Some c \<and> ctl_stop c < ds_fresh st'))
     \<and> (\<forall>n < ds_fresh st. ds_stops st n \<noteq> 0 \<longrightarrow> ds_stops st' n = ds_stops st n)
     \<and> ds_fresh st \<le> ds_fresh st' \<and> (stops_ok (ds_stops st) \<longrightarrow> stops_ok (ds_stops st'))"

lemma entries_stepI:
  assumes "\<And>k e'. bt_get (ds_registry st') k = Some e' \<Longrightarrow> \<exists>e. bt_get (ds_registry st) k = Some e \<and> follows (ds_stops st) e e'"
    and "stops_le (ds_stops st) (ds_stops st')" "ds_fresh st' = ds_fresh st" "stops_ok (ds_stops st) \<Longrightarrow> stops_ok (ds_stops st')"
  shows "entries_step X root st st'"
  using assms by (auto simp: entries_step_def stops_le_def)

lemma entries_stepD:
  assumes "entries_step X root st st'" "bt_get (ds_registry st') k = Some e'"
  shows "(\<exists>e. bt_get (ds_registry st) k = Some e \<and> follows (ds_stops st) e e')
     \<or> \<not> recorded X root k (w_fs (ds_world st)) \<and> recorded X root k (w_fs (ds_world st'))
       \<and> (\<exists>c. de_control e' = Some c \<and> ctl_stop c < ds_fresh st')"
  using assms unfolding entries_step_def by blast

lemma update_entries_step:
  "registry_ok root (ds_registry st) \<Longrightarrow> (\<And>r. er_request_id (f r) = er_request_id r) \<Longrightarrow>
   entries_step X root st (update_execution X E i f st)"
  using update_entry_follows [of st] update_facts(4) [of root st f]
  by (intro entries_stepI) (simp_all add: registry_ok_def)

lemma entries_step_trans:
  assumes ok: "dispatch_ok X root st" and 1: "entries_step X root st st1" and 2: "entries_step X root st1 st2"
    and kept: "\<And>k. recorded X root k (w_fs (ds_world st)) \<Longrightarrow> recorded X root k (w_fs (ds_world st1))"
      "\<And>k. recorded X root k (w_fs (ds_world st1)) \<Longrightarrow> recorded X root k (w_fs (ds_world st2))"
  shows "entries_step X root st st2"
proof -
  have "(\<exists>e. bt_get (ds_registry st) k = Some e \<and> follows (ds_stops st) e e2)
        \<or> \<not> recorded X root k (w_fs (ds_world st)) \<and> recorded X root k (w_fs (ds_world st2))
          \<and> (\<exists>c. de_control e2 = Some c \<and> ctl_stop c < ds_fresh st2)"
    if k: "bt_get (ds_registry st2) k = Some e2" for k e2
  proof (cases "\<exists>e1. bt_get (ds_registry st1) k = Some e1 \<and> follows (ds_stops st1) e1 e2")
    case True
    then obtain e1 where e1: "bt_get (ds_registry st1) k = Some e1" "follows (ds_stops st1) e1 e2" by blast
    show ?thesis
    proof (cases "\<exists>e. bt_get (ds_registry st) k = Some e \<and> follows (ds_stops st) e e1")
      case True
      then obtain e where e: "bt_get (ds_registry st) k = Some e" "follows (ds_stops st) e e1" by blast
      moreover obtain c where "de_control e = Some c" "ctl_stop c < ds_fresh st" using ok e(1) by (auto simp: dispatch_ok_def)
      ultimately have "follows (ds_stops st) e e2" using e1(2) 1 by (auto simp: follows_def entries_step_def)
      then show ?thesis using e(1) by blast
    next
      case False
      then have "\<not> recorded X root k (w_fs (ds_world st))" "recorded X root k (w_fs (ds_world st1))"
          "\<exists>c. de_control e1 = Some c \<and> ctl_stop c < ds_fresh st1"
        using entries_stepD [OF 1 e1(1)] by blast+
      then show ?thesis using e1(2) 2 kept(2) by (auto simp: follows_def entries_step_def)
    qed
  next
    case False
    then show ?thesis using entries_stepD [OF 2 k] kept(1) by blast
  qed
  moreover have "\<forall>n < ds_fresh st. ds_stops st n \<noteq> 0 \<longrightarrow> ds_stops st2 n = ds_stops st n"
    using 1 2 by (fastforce simp: entries_step_def)
  ultimately show ?thesis using 1 2 unfolding entries_step_def by auto
qed

lemma admit_entries_step:
  assumes ok: "dispatch_ok X root st" and c: "ctl_stop c < ds_fresh st"
    and admit: "submission_admit X E root r c body st = (st', reply)"
  shows "entries_step X root st st'"
proof -
  obtain w m w2 cl a where ev: "evict_expired X (dv_now E) (ds_registry st) (ds_world st) = (w, m)"
    and claim: "exec_claim X root body (admitting r) a w = (w2, cl)"
    and cases: "(\<exists>v. (v = w \<or> v = w2) \<and> st' = st\<lparr>ds_world := v, ds_registry := m\<rparr>)
     \<or> cl = Inr () \<and> st' = (claimed_state E root r c w2 m st)\<lparr>ds_started := ds_started st @ [(xr_id r, body)]\<rparr>
     \<or> cl = Inr () \<and> st' = fail_execution X E (xr_id r) ''execution worker unavailable'' (claimed_state E root r c w2 m st)"
    by (rule admit_cases [OF admit])
  let ?st2 = "claimed_state E root r c w2 m st"
  have reg: "registry_ok root (ds_registry st)" and inv: "bt_invar (ds_registry st)" "bt_invar (w_fs (ds_world st))"
    using ok by (auto simp: dispatch_ok_def registry_ok_def)
  have m: "registry_ok root m" "w_fs w = w_fs (ds_world st)"
    using evict_registry_ok [OF ev reg] evict_expired_facts [OF ev] by simp_all
  have old: "bt_get (ds_registry st) k = Some e" if "bt_get m k = Some e" for k e using evict_get [OF ev inv(1) that] .
  have first: "\<not> recorded X root (xr_id r) (w_fs (ds_world st)) \<and> recorded X root (xr_id r) (w_fs w2)" if "cl = Inr ()"
    using claim_first [OF claim [unfolded that]] m(2) inv(2) by (simp add: admitting_def)
  have reg2: "registry_ok root (ds_registry ?st2)"
    using m by (simp add: claimed_state_def registry_ok_insert exec_entry_ok_def admitting_def)
  have step2: "entries_step X root st ?st2" if "cl = Inr ()"
    using first [OF that] old m(1) c
    by (auto simp: entries_step_def claimed_state_def registry_ok_def bt_simps split: if_splits)
  have fail: "entries_step X root ?st2 (fail_execution X E (xr_id r) ''execution worker unavailable'' ?st2)"
    "recorded X root k (w_fs (ds_world ?st2)) \<Longrightarrow>
     recorded X root k (w_fs (ds_world (fail_execution X E (xr_id r) ''execution worker unavailable'' ?st2)))" for k
    unfolding fail_execution_def
    using update_entries_step [OF reg2] update_facts(2) [OF reg2 _ journal_keeps_laws(1)] by simp_all
  have kept: "recorded X root k (w_fs w2)" if "recorded X root k (w_fs (ds_world st))" for k
    using preserves_step [where P = "recorded X root k", OF recorded_keeps(1) claim] m(2) that by simp
  have evicted: "entries_step X root st (st\<lparr>ds_world := v, ds_registry := m\<rparr>)" for v
    using old by (intro entries_stepI) auto
  have started: "entries_step X root st (?st2\<lparr>ds_started := x\<rparr>)" if "cl = Inr ()" for x
    using step2 [OF that] by (simp add: entries_step_def)
  from cases show ?thesis
    using evicted started entries_step_trans [OF ok step2 fail(1)] kept fail(2) by (auto simp: claimed_state_def)
qed

lemma dispatch_ok_step:
  assumes ok: "dispatch_ok X root st" and step: "entries_step X root st st'"
    and reg: "registry_ok root (ds_registry st')" and inv: "bt_invar (w_fs (ds_world st'))"
    and kept: "\<And>k. recorded X root k (w_fs (ds_world st)) \<Longrightarrow> recorded X root k (w_fs (ds_world st'))"
  shows "dispatch_ok X root st'"
proof -
  have "recorded X root k (w_fs (ds_world st')) \<and> (\<exists>c. de_control e' = Some c \<and> ctl_stop c < ds_fresh st')"
    if k: "bt_get (ds_registry st') k = Some e'" for k e'
    using entries_stepD [OF step k]
  proof
    assume "\<exists>e. bt_get (ds_registry st) k = Some e \<and> follows (ds_stops st) e e'"
    then obtain e where e: "bt_get (ds_registry st) k = Some e" "de_control e' = de_control e" by (auto simp: follows_def)
    have "ds_fresh st \<le> ds_fresh st'" using step by (simp add: entries_step_def)
    then show ?thesis using ok e kept [of k] unfolding dispatch_ok_def by (metis order_less_le_trans)
  qed blast
  then show ?thesis using ok step reg inv by (auto simp: dispatch_ok_def entries_step_def)
qed

lemma submit_entries_step:
  assumes ok: "dispatch_ok X root st" and submit: "dispatch_submit X E root body st = (st', reply)"
  shows "entries_step X root st st'"
proof (cases "submission_request E (ds_fresh st) body")
  case (Inl x)
  then show ?thesis using submit by (auto simp: dispatch_submit_def intro!: entries_stepI)
next
  case (Inr rc)
  then obtain r c where req: "submission_request E (ds_fresh st) body = Inr (r, c)" by (cases rc) simp
  have c: "ctl_stop c = ds_fresh st"
    using req by (auto simp: submission_request_def Control_new_def split: if_splits option.splits)
  obtain w known where kn: "submission_known X root r body (ds_registry st) (ds_world st) = (w, known)" by fastforce
  define st1 where "st1 = st\<lparr>ds_world := w, ds_stops := (ds_stops st)(ds_fresh st := 0), ds_fresh := Suc (ds_fresh st)\<rparr>"
  have reg: "registry_ok root (ds_registry st)" and inv: "bt_invar (w_fs (ds_world st))" using ok by (auto simp: dispatch_ok_def)
  have kept: "P (w_fs (ds_world st1))" if "journal_keeps X root P" "P (w_fs (ds_world st))" for P
    using known_keeps [OF reg that kn] by (simp add: st1_def)
  have 1: "entries_step X root st st1" by (auto simp: entries_step_def st1_def stops_ok_def)
  have ok1: "dispatch_ok X root st1"
    by (rule dispatch_ok_step [OF ok 1]) (use reg kept [OF journal_keeps_laws(3) inv] kept [OF journal_keeps_laws(1)] in \<open>simp_all add: st1_def\<close>)
  show ?thesis
  proof (cases known)
    case None
    then have admit: "submission_admit X E root r c body st1 = (st', reply)"
      using submit req kn by (simp add: dispatch_submit_def st1_def)
    have reg1: "registry_ok root (ds_registry st1)" using ok1 by (simp add: dispatch_ok_def)
    have "entries_step X root st1 st'" by (rule admit_entries_step [OF ok1 _ admit]) (simp add: c st1_def)
    from entries_step_trans [OF ok 1 this] show ?thesis
      using kept [OF journal_keeps_laws(1)] admit_facts(2) [OF reg1 admit journal_keeps_laws(1)] by blast
  next
    case (Some x)
    then have "st' = st1" using submit req kn by (simp add: dispatch_submit_def st1_def)
    then show ?thesis using 1 by simp
  qed
qed

lemma step_entries:
  assumes ok: "dispatch_ok X root st"
  shows "entries_step X root st (fst (dispatch_step X root op st))"
proof -
  have reg: "registry_ok root (ds_registry st)" and inv: "bt_invar (ds_registry st)"
    using ok by (auto simp: dispatch_ok_def registry_ok_def)
  have cancel: "entries_step X root st (fst (dispatch_cancel X E root i st))" for E i
    by (rule entries_stepI)
      (use inv in \<open>auto simp: dispatch_cancel_def Let_def bt_simps follows_def unsuccessful_def Control_cancel_le
          intro: stops_ok_cancel split: option.splits prod.splits if_splits\<close>)
  have read: "entries_step X root st (fst (dispatch_status X root i a st))" for i a
    by (rule entries_stepI) (auto simp: dispatch_status_def split: option.splits prod.splits)
  show ?thesis
  proof (cases op)
    case (SubmitExecution E body)
    then show ?thesis using submit_entries_step [OF ok prod.collapse [symmetric]] by simp
  next
    case (WorkerUpdate E i c)
    then show ?thesis using update_entries_step [OF reg worker_change_id] by simp
  next
    case (WorkerAudit i l)
    then show ?thesis
      by (auto intro!: entries_stepI simp: bt_get_adjust follows_def unsuccessful_def split: if_splits)
  next
    case Restart
    then show ?thesis by (auto intro!: entries_stepI)
  qed (simp_all add: cancel read)
qed

lemma step_ok:
  assumes ok: "dispatch_ok X root st"
  shows "dispatch_ok X root (fst (dispatch_step X root op st))"
proof -
  have reg: "registry_ok root (ds_registry st)" and inv: "bt_invar (w_fs (ds_world st))"
    using ok by (auto simp: dispatch_ok_def registry_ok_def)
  show ?thesis
    by (rule dispatch_ok_step [OF ok step_entries [OF ok]])
      (simp_all add: step_facts(1) [OF reg] step_facts(2) [OF reg journal_keeps_laws(3) inv] step_facts(2) [OF reg journal_keeps_laws(1)])
qed

text \<open>The execution is known to the journal, and its entry, if it has one, is stopped and has not succeeded.\<close>

definition stopped_entry :: "ExecSerde \<Rightarrow> path \<Rightarrow> string \<Rightarrow> DispatchState \<Rightarrow> bool" where
  "stopped_entry X root i st \<longleftrightarrow> dispatch_ok X root st \<and> recorded X root i (w_fs (ds_world st))
     \<and> (\<forall>e c. bt_get (ds_registry st) i = Some e \<longrightarrow> de_control e = Some c \<longrightarrow> unsuccessful e \<and> ds_stops st (ctl_stop c) \<in> {1, 2})"

lemma stopped_entry_step:
  assumes "stopped_entry X root i st"
  shows "stopped_entry X root i (fst (dispatch_step X root op st))"
proof -
  let ?st = "fst (dispatch_step X root op st)"
  have ok: "dispatch_ok X root st" and rec: "recorded X root i (w_fs (ds_world st))" using assms by (simp_all add: stopped_entry_def)
  then have reg: "registry_ok root (ds_registry st)" by (simp add: dispatch_ok_def)
  note step = step_entries [OF ok, of op]
  have "unsuccessful e' \<and> ds_stops ?st (ctl_stop c) \<in> {1, 2}" if k: "bt_get (ds_registry ?st) i = Some e'" and c: "de_control e' = Some c" for e' c
  proof -
    obtain e where e: "bt_get (ds_registry st) i = Some e" "follows (ds_stops st) e e'"
      using entries_stepD [OF step k] rec by blast
    then have ctl1: "de_control e = Some c" using c by (simp add: follows_def)
    have ctl2: "ctl_stop c < ds_fresh st" using ok e(1) ctl1 unfolding dispatch_ok_def by fastforce
    note ctl = ctl1 ctl2
    have "unsuccessful e" "ds_stops st (ctl_stop c) \<in> {1, 2}" using ctl1 assms e(1) unfolding stopped_entry_def by blast+
    then show ?thesis using e(2) ctl step by (auto simp: follows_def entries_step_def)
  qed
  then show ?thesis
    using step_ok [OF ok] step_facts(2) [OF reg journal_keeps_laws(1) rec] by (simp add: stopped_entry_def)
qed

lemma cancel_stops_entry:
  assumes ok: "dispatch_ok X root st" and e: "bt_get (ds_registry st) i = Some e" "execution_is_active (de_value e)"
  shows "stopped_entry X root i (fst (dispatch_step X root (CancelExecution E i) st))"
proof -
  have inv: "bt_invar (ds_registry st)" using ok by (simp add: dispatch_ok_def registry_ok_def)
  obtain c where c: "de_control e = Some c" "stops_ok (ds_stops st)" "recorded X root i (w_fs (ds_world st))"
    using ok e(1) unfolding dispatch_ok_def by blast
  have "Control_cancel (dv_clk E) c (ds_stops st) (ctl_stop c) \<in> {1, 2}"
    using Control_cancel_stops [OF c(2)] stops_ok_cancel [OF c(2)] unfolding stops_ok_def by blast
  then show ?thesis
    using step_ok [OF ok, of "CancelExecution E i"] e c inv
    by (simp add: stopped_entry_def dispatch_cancel_def Let_def bt_simps unsuccessful_def)
qed

lemma ok_run: "dispatch_ok X root st \<Longrightarrow> dispatch_ok X root (run_final (dispatch_step X root) st ops)"
  by (induction ops arbitrary: st) (simp_all add: step_ok)

lemma stopped_run: "stopped_entry X root i st \<Longrightarrow> stopped_entry X root i (run_final (dispatch_step X root) st ops)"
  by (induction ops arbitrary: st) (simp_all add: stopped_entry_step)


section \<open>Samples\<close>

definition sample_exec_serde :: ExecSerde where
  "sample_exec_serde =
     \<lparr>xs_encode = (\<lambda>s. Some [1]),
      xs_decode = (\<lambda>b. Some \<lparr>sp_version = 1, sp_request_hash = ''h'',
        sp_record = \<lparr>er_request_id = xr_id sample_execution, er_phase = ''Succeeded'', er_reason = None, er_output = None, er_receipt = None\<rparr>,
        sp_audit = VNull\<rparr>),
      xs_audit = (\<lambda>a. Some VNull),
      xs_hash = (\<lambda>b. Hash ''blake3:a'')\<rparr>"

definition sample_dispatch_env :: DispatchEnv where
  "sample_dispatch_env =
     \<lparr>dv_now = 0, dv_clk = (\<lambda>n. 0), dv_stamp = (''t'', 0), dv_request = (\<lambda>b. Some sample_execution), dv_hosts = [''api.example''],
      dv_probed = sample_node, dv_other = 0, dv_prewarm = None,
      dv_reserved = Inr \<lparr>rc_owners = 0, rc_memory_bytes = 0, rc_egress_slots = 0\<rparr>, dv_thread = True\<rparr>"

definition sample_dispatch :: DispatchState where
  "sample_dispatch = \<lparr>ds_world = \<lparr>w_fs = [([''r''], Dir), ([''r'', ''execution-journal''], Dir)], w_faults = [], w_mtime = (\<lambda>p. 0)\<rparr>, ds_registry = [], ds_stops = (\<lambda>n. 0),
     ds_fresh = 0, ds_started = []\<rparr>"


lemmas io_eval = a_bind_def a_io_def io_call_def fs_kind_def bt_get_def sample_dispatch_def

lemma sample_prepare: "exec_prepare [''r''] (ds_world sample_dispatch) = (ds_world sample_dispatch, Inr ())"
  by (simp add: exec_prepare_def io_eval exec_directory_def create_dir_all_def sync_tree_def sync_dir_def file_type_of_def ancestors_def a_context_def open_dir_sync_def quiet_call_def a_return_def)

lemma sample_entries: "read_dir [''r'', ''execution-journal''] (ds_world sample_dispatch) = (ds_world sample_dispatch, Inr [])"
  by (simp add: read_dir_def io_eval)

lemma sample_publish: "\<exists>w. exec_publish sample_exec_serde [''r''] s True (ds_world sample_dispatch) = (w, Inr ())"
  by (simp add: exec_publish_def sample_exec_serde_def exec_directory_def exec_path_def record_path_def hash_stem_def EXEC_MAX_BYTES_def
    io_eval stage_temp_def quiet_call_def persist_noclobber_def persist_effect_def sync_dir_def open_dir_sync_def a_context_def)

lemma sample_exec_claim:
  "\<exists>w. exec_claim sample_exec_serde [''r''] [7] r a (ds_world sample_dispatch) = (w, Inr ())"
proof -
  have "exec_directory [''r''] = [''r'', ''execution-journal'']" "xs_audit sample_exec_serde a = Some VNull"
    by (simp_all add: exec_directory_def sample_exec_serde_def)
  then show ?thesis using sample_publish
    by (simp add: exec_claim_def claim_with_capacity_def EXEC_CAPACITY_def count_records_def a_bind_def a_io_def sample_prepare sample_entries)
qed

lemma sample_read: "exec_read sample_exec_serde [''r''] i (ds_world sample_dispatch) = (ds_world sample_dispatch, Inr None)"
  by (simp add: exec_read_def a_match_def read_limited_def read_effect_def io_eval exec_path_def record_path_def exec_directory_def a_return_def hash_stem_def)

lemma sample_submission: "\<exists>c. submission_request sample_dispatch_env 0 [7] = Inr (sample_execution, c)"
proof -
  have "EgressPolicy_check [''api.example''] sample_execution" by code_simp
  moreover have "\<exists>c. Control_new 0 0 (Duration_from_millis (ca_timeout_ms (xr_capabilities sample_execution))) = Some c"
    by (simp add: sample_execution_def Control_new_def Instant_checked_add_def Duration_from_millis_def instant_max_def)
  ultimately show ?thesis
    by (auto simp: submission_request_def sample_dispatch_env_def sample_execution_ok sample_authority)
qed

lemma sample_submitted:
  "\<exists>e. bt_get (ds_registry (fst (dispatch_step sample_exec_serde [''r''] (SubmitExecution sample_dispatch_env [7]) sample_dispatch))) ''run'' = Some e
     \<and> execution_is_active (de_value e)
     \<and> ds_started (fst (dispatch_step sample_exec_serde [''r''] (SubmitExecution sample_dispatch_env [7]) sample_dispatch)) = [(''run'', [7])]"
proof -
  obtain c where c: "submission_request sample_dispatch_env 0 [7] = Inr (sample_execution, c)" using sample_submission by blast
  have st: "ds_registry sample_dispatch = []" "ds_fresh sample_dispatch = 0" "ds_started sample_dispatch = []"
    by (simp_all add: sample_dispatch_def)
  have caps: "xr_capabilities sample_execution = \<lparr>ca_workspace = WsNone, ca_egress = [''https://api.example''], ca_allow_insecure = False,
        ca_timeout_ms = 1000, ca_memory_bytes = 4096, ca_output_bytes = 1024\<rparr>"
    and hw: "xp_require_hardware_isolation (xr_execution sample_execution)" by (simp_all add: sample_execution_def)
  have env: "dv_thread sample_dispatch_env" "node_admit False sample_execution (current_node (dv_probed sample_dispatch_env) (dv_other sample_dispatch_env)
      (dv_prewarm sample_dispatch_env) (dv_reserved sample_dispatch_env) []) = Accepted"
    by (simp_all add: sample_dispatch_env_def node_admit_def sample_execution_ok sample_authority current_node_def apply_reservations_def Let_def
        sample_node_def sat_add_def sat_mul_def sat_sub_def node_eligible_def caps)
  have sub: "active_reservations [] = []" "execution_is_active (admitting sample_execution)"
    by (simp_all add: active_reservations_def bt_values_def execution_is_active_def admitting_def)
  have "xr_id sample_execution = ''run''" by (simp add: sample_execution_def)
  then show ?thesis
    using c sample_exec_claim [of "admitting sample_execution" "the (de_audit (submission_entry sample_dispatch_env sample_execution c))"]
    by (auto simp: dispatch_submit_def submission_known_def submission_admit_def sample_read st env sub bt_simps bt_get_def Let_def)
qed

theorem execution_started_once_witness:
  "let ops = [SubmitExecution sample_dispatch_env [7], Restart, SubmitExecution sample_dispatch_env [7]] in
   times_started ''run'' (run_final (dispatch_step sample_exec_serde [''r'']) sample_dispatch (take 1 ops)) = 1
   \<and> times_started ''run'' (run_final (dispatch_step sample_exec_serde [''r'']) sample_dispatch ops) \<le> 1"
proof -
  have "bt_invar (w_fs (ds_world sample_dispatch))" "ds_registry sample_dispatch = []" "ds_started sample_dispatch = []"
    by (simp_all add: sample_dispatch_def bt_invar_def less_list_code)
  from execution_started_once [OF this, of "''run''" sample_exec_serde "[''r'']"
      "[SubmitExecution sample_dispatch_env [7], Restart, SubmitExecution sample_dispatch_env [7]]"]
  show ?thesis using sample_submitted by (auto simp: Let_def times_started_def split: if_splits)
qed

theorem terminal_record_immutable_witness:
  "let X = sample_exec_serde; w = \<lparr>w_fs = [(exec_path X [''r''] ''run'', File [1])], w_faults = [Fails], w_mtime = (\<lambda>p. 0)\<rparr>;
       st = run_final (dispatch_step X [''r'']) (sample_dispatch\<lparr>ds_world := w\<rparr>) [CancelExecution sample_dispatch_env ''run''] in
   fs_kind (w_fs (ds_world st)) (exec_path X [''r''] ''run'') = Some (File [1])
   \<and> (case snd (exec_read X [''r''] ''run'' (ds_world st)) of Inr s \<Rightarrow> s = xs_decode X [1] | Inl _ \<Rightarrow> True)"
proof -
  let ?X = sample_exec_serde
  let ?st = "sample_dispatch\<lparr>ds_world := \<lparr>w_fs = [(exec_path ?X [''r''] ''run'', File [1])], w_faults = [Fails], w_mtime = (\<lambda>p. 0)\<rparr>\<rparr>"
  have "registry_ok [''r''] (ds_registry ?st)" by (simp add: sample_dispatch_def)
  moreover have "archived ?X [''r''] ''run'' [1] (w_fs (ds_world ?st))"
    by (simp add: archived_def bt_invar_def fs_kind_def bt_get_def sample_exec_serde_def sample_execution_def execution_is_active_def)
  ultimately show ?thesis
    using terminal_record_immutable [of "[''r'']" ?st ?X "''run''" "[1]" "[CancelExecution sample_dispatch_env ''run'']"]
    by (simp add: Let_def)
qed


end
