(* ===== verification/Worker.thy ===== *)
theory Worker
  imports Dispatch Store Report
begin

text \<open>
  The thread that carries out an admitted execution: \<open>run_execution\<close> and \<open>collect_result\<close> of
  \<open>celln-cli/src/dispatch_http.rs\<close>. Between any two of its steps the dispatcher goes on serving: the
  operations in between are an argument. What the steps outside this file answer (the input
  policy, the forge, the launch of the cell) is given by a record; the output is stored with the
  model of the content-addressed store. A panic of the worker, which the caller turns into a
  failed record, is not modelled.
\<close>

section \<open>The worker\<close>

record RunAnswers =
  rn_env :: "nat \<Rightarrow> DispatchEnv"
  rn_inputs :: "string + unit"
  rn_forge :: "string + string"
  rn_runtime :: "string + unit"
  rn_launch :: "string + LaunchOutcome \<times> Event list"
  rn_declared :: "string + LaunchOutcome \<times> Event list \<times> string \<times> string"
  rn_started_at :: string
  rn_completed_at :: string
  rn_node :: string
  rn_lossy :: "bytes \<Rightarrow> string"
  rn_denial :: "Denial \<Rightarrow> string"
  rn_hash :: "bytes \<Rightarrow> hash"

text \<open>\<open>outcome.output.as_deref().filter(|bytes| !bytes.is_empty())\<close>.\<close>

definition outcome_output :: "LaunchOutcome \<Rightarrow> bytes option" where
  "outcome_output oc = (case lo_output oc of Some b \<Rightarrow> if b = [] then None else Some b | None \<Rightarrow> None)"

definition store_output :: "(bytes \<Rightarrow> hash) \<Rightarrow> path \<Rightarrow> bytes \<Rightarrow> ExecutionOutput store_io" where
  "store_output hash_of dir b w =
     (case Store_open dir w of
        (w', Inl e) \<Rightarrow> (w', Err e)
      | (w', Inr store) \<Rightarrow>
          (case Store_put hash_of store b w' of
             (w'', Inl e) \<Rightarrow> (w'', Err e)
           | (w'', Inr h) \<Rightarrow>
               (w'', Ok \<lparr>eo_hash = hash_str h, eo_media_type = ''application/octet-stream'', eo_bytes = of_nat (length b)\<rparr>)))"

definition collect_result ::
  "RunAnswers \<Rightarrow> LaunchOutcome \<Rightarrow> path \<Rightarrow> world \<Rightarrow> world \<times> ExecutionPhase \<times> ExecutionOutput option \<times> string option" where
  "collect_result A oc dir w =
     (let reason = map_option (rn_denial A) (lo_denial oc);
          (w, stored) = (case outcome_output oc of
                           None \<Rightarrow> (w, Ok None)
                         | Some b \<Rightarrow> map_prod id (map_sum id Some) (store_output (rn_hash A) dir b w))
      in case stored of
           Inr out \<Rightarrow> (w, if LaunchOutcome_succeeded oc then PhaseSucceeded else PhaseFailed, out, reason)
         | Inl _ \<Rightarrow>
             (w, PhaseFailed, None,
              Some ((case reason of Some s \<Rightarrow> s @ ''; '' | None \<Rightarrow> []) @ ''output persistence failed'')))"

text \<open>One step of the worker: what the dispatcher did meanwhile, then an update of the record.\<close>

definition worker_step ::
  "ExecSerde \<Rightarrow> path \<Rightarrow> RunAnswers \<Rightarrow> (nat \<Rightarrow> dispatch_op list) \<Rightarrow> string \<Rightarrow> nat \<Rightarrow> WorkerChange \<Rightarrow> DispatchState \<Rightarrow> DispatchState" where
  "worker_step X root A others i n c st =
     update_execution X (rn_env A n) i (worker_change c) (run_final (dispatch_step X root) st (others n))"

text \<open>The cell's outcome with the mote and the program, or the reason the execution failed.\<close>

definition run_launch ::
  "ExecSerde \<Rightarrow> path \<Rightarrow> RunAnswers \<Rightarrow> (nat \<Rightarrow> dispatch_op list) \<Rightarrow> ExecutionRequest \<Rightarrow> DispatchState \<Rightarrow>
     DispatchState \<times> (string + string option \<times> string \<times> LaunchOutcome \<times> Event list)" where
  "run_launch X root A others r st =
     (let step = worker_step X root A others (xr_id r) in
      case xr_forge r of
        Some _ \<Rightarrow>
          (let st = step 0 (SetPhase ''Forging'') st in
           case rn_forge A of
             Inl e \<Rightarrow> (st, Err e)
           | Inr program \<Rightarrow>
               (case rn_runtime A of
                  Inl e \<Rightarrow> (st, Err e)
                | Inr _ \<Rightarrow>
                    (let st = step 1 (SetPhase ''Preparing'') st in
                     (st, map_sum id (\<lambda>(oc, events). (None, program, oc, events)) (rn_launch A)))))
      | None \<Rightarrow>
          (let st = step 0 (SetPhase ''Resolving'') st in
           (st, map_sum id (\<lambda>(oc, events, mote, program). (Some mote, program, oc, events)) (rn_declared A))))"

definition run_receipt ::
  "RunAnswers \<Rightarrow> ExecutionRequest \<Rightarrow> string option \<Rightarrow> string \<Rightarrow> LaunchOutcome \<Rightarrow> ExecutionPhase \<Rightarrow> ExecutionOutput option \<Rightarrow> ExecutionReceipt" where
  "run_receipt A r mote program oc phase out =
     \<lparr>rc_api_version = xr_api_version r, rc_request_id = xr_id r, rc_phase = phase, rc_node = rn_node A, rc_cell_id = lo_cell_id oc,
      rc_resolved = \<lparr>re_mote = mote, re_tools = [program], re_inputs = lo_input_hashes oc\<rparr>, rc_output = out,
      rc_started_at = rn_started_at A, rc_completed_at = rn_completed_at A\<rparr>"

definition run_finish ::
  "ExecSerde \<Rightarrow> path \<Rightarrow> RunAnswers \<Rightarrow> (nat \<Rightarrow> dispatch_op list) \<Rightarrow> ExecutionRequest \<Rightarrow>
     string option \<Rightarrow> string \<Rightarrow> LaunchOutcome \<Rightarrow> Event list \<Rightarrow> DispatchState \<Rightarrow> DispatchState" where
  "run_finish X root A others r mote program oc events st =
     (let st = run_final (dispatch_step X root) st (others 2);
          st = fst (dispatch_step X root (WorkerAudit (xr_id r) events) st);
          (w, phase, out, reason) = collect_result A oc (root @ [''outputs'']) (ds_world st);
          change = SetResult phase reason (map_option (rn_lossy A) (outcome_output oc)) (run_receipt A r mote program oc phase out)
      in worker_step X root A others (xr_id r) 3 change (st\<lparr>ds_world := w\<rparr>))"

definition run_execution ::
  "ExecSerde \<Rightarrow> path \<Rightarrow> RunAnswers \<Rightarrow> (nat \<Rightarrow> dispatch_op list) \<Rightarrow> ExecutionRequest \<Rightarrow> Control \<Rightarrow> DispatchState \<Rightarrow> DispatchState" where
  "run_execution X root A others r c st =
     (let end_with = worker_step X root A others (xr_id r) 3;
          (stops, checked) = Control_check (dv_clk (rn_env A 0)) c (ds_stops st);
          st = st\<lparr>ds_stops := stops\<rparr>
      in case checked of
           Inl s \<Rightarrow> end_with (SetFailed (stopped_text s)) st
         | Inr _ \<Rightarrow>
             (let (stops, again) = Control_check (dv_clk (rn_env A 1)) c stops;
                  st = st\<lparr>ds_stops := stops\<rparr>
              in case check_supported_authority (isl again) r of
                   Inl e \<Rightarrow> end_with (SetRefused e) st
                 | Inr _ \<Rightarrow>
                     (case rn_inputs A of
                        Inl e \<Rightarrow> end_with (SetRefused e) st
                      | Inr _ \<Rightarrow>
                          (case run_launch X root A others r st of
                             (st, Inl e) \<Rightarrow> end_with (SetFailed e) st
                           | (st, Inr (mote, program, oc, events)) \<Rightarrow> run_finish X root A others r mote program oc events st))))"

section \<open>A worker ends its execution\<close>

text \<open>What the launch of the request answers, whichever way it is launched.\<close>

definition launched :: "RunAnswers \<Rightarrow> ExecutionRequest \<Rightarrow> LaunchOutcome option" where
  "launched A r =
     (case xr_forge r of
        Some _ \<Rightarrow> (if isl (rn_forge A) \<or> isl (rn_runtime A) then None else case rn_launch A of Inl _ \<Rightarrow> None | Inr (oc, _) \<Rightarrow> Some oc)
      | None \<Rightarrow> (case rn_declared A of Inl _ \<Rightarrow> None | Inr (oc, _) \<Rightarrow> Some oc))"

lemma run_launch_outcome:
  "run_launch X root A others r st = (st', Inr (mote, program, oc, events)) \<Longrightarrow> launched A r = Some oc"
  by (auto simp: run_launch_def launched_def Let_def split: option.splits sum.splits prod.splits)

text \<open>A stop never turns a terminal record into a running one, nor another one into a success.\<close>

lemma stopped_terminal:
  "\<not> execution_is_active v \<Longrightarrow> \<not> execution_is_active (stopped_record reason v)"
  "er_phase (stopped_record reason v) = ''Succeeded'' \<Longrightarrow> stopped_record reason v = v"
  by (auto simp: stopped_record_def stopped_phase_def phase_name_def execution_is_active_def
      split: Stopped.splits if_splits option.splits)

lemma update_value:
  assumes "bt_invar (ds_registry st)" "bt_get (ds_registry (update_execution X E i f st)) i = Some e"
  shows "\<exists>v reason. de_value e = stopped_record reason (f v)"
  using assms updated_entry_facts(4)
  by (fastforce simp: update_execution_def bt_simps split: option.splits prod.splits)

lemma registry_run: "registry_ok root (ds_registry st) \<Longrightarrow> registry_ok root (ds_registry (run_final (dispatch_step X root) st ops))"
  by (induction ops arbitrary: st) (simp_all add: step_facts(1))

lemma worker_step_registry [simp]:
  "registry_ok root (ds_registry st) \<Longrightarrow> registry_ok root (ds_registry (worker_step X root A others i n c st))"
  by (simp add: worker_step_def update_facts(1) registry_run worker_change_id)

lemma run_launch_registry:
  "run_launch X root A others r st = (st', x) \<Longrightarrow> registry_ok root (ds_registry st) \<Longrightarrow> registry_ok root (ds_registry st')"
  by (auto simp: run_launch_def Let_def split: option.splits sum.splits)

lemma worker_end:
  assumes "registry_ok root (ds_registry st)" "bt_get (ds_registry (worker_step X root A others i n c st)) i = Some e"
    and "\<And>v. \<not> execution_is_active (worker_change c v)"
  shows "\<not> execution_is_active (de_value e)"
    "er_phase (de_value e) = ''Succeeded'' \<Longrightarrow> \<exists>v. de_value e = worker_change c v"
proof -
  have "bt_invar (ds_registry (run_final (dispatch_step X root) st (others n)))"
    using registry_run [OF assms(1)] by (simp add: registry_ok_def)
  from update_value [OF this assms(2) [unfolded worker_step_def]]
  obtain v reason where v: "de_value e = stopped_record reason (worker_change c v)" by blast
  show "\<not> execution_is_active (de_value e)" unfolding v by (rule stopped_terminal(1) [OF assms(3)])
  show "\<exists>v. de_value e = worker_change c v" if "er_phase (de_value e) = ''Succeeded''"
    using stopped_terminal(2) that unfolding v by metis
qed

text \<open>A success was a success of the cell, with its output stored.\<close>

definition stored_as :: "RunAnswers \<Rightarrow> bytes \<Rightarrow> ExecutionOutput" where
  "stored_as A b = \<lparr>eo_hash = hash_str (rn_hash A b), eo_media_type = ''application/octet-stream'', eo_bytes = of_nat (length b)\<rparr>"

lemma store_output_Ok: "store_output (rn_hash A) dir b w = (w', Inr out) \<Longrightarrow> out = stored_as A b"
  by (auto simp: store_output_def Store_put_def Let_def try_io_def path_exists_def store_return_def stored_as_def
      split: prod.splits sum.splits if_splits)

lemma map_sum_Ok: "map_sum id f x = Inr y \<longleftrightarrow> (\<exists>z. x = Inr z \<and> y = f z)"
  by (cases x) auto

lemma collect_success:
  "collect_result A oc dir w = (w', PhaseSucceeded, out, reason) \<Longrightarrow>
   LaunchOutcome_succeeded oc \<and> out = map_option (stored_as A) (outcome_output oc)"
  using store_output_Ok [of A dir]
  by (auto simp: collect_result_def Let_def map_prod_def map_sum_Ok split: option.splits prod.splits sum.splits if_splits)

definition success_founded :: "RunAnswers \<Rightarrow> ExecutionRequest \<Rightarrow> ExecutionRecord \<Rightarrow> bool" where
  "success_founded A r v =
     (case (launched A r, er_receipt v) of
        (Some oc, Some rc) \<Rightarrow>
          LaunchOutcome_succeeded oc \<and> rc_phase rc = PhaseSucceeded \<and> rc_request_id rc = xr_id r \<and> rc_cell_id rc = lo_cell_id oc
          \<and> rc_output rc = map_option (stored_as A) (outcome_output oc)
      | _ \<Rightarrow> False)"

lemma finish_end:
  assumes reg: "registry_ok root (ds_registry st)" and oc: "launched A r = Some oc"
    and e: "bt_get (ds_registry (run_finish X root A others r mote program oc events st)) (xr_id r) = Some e"
  shows "\<not> execution_is_active (de_value e) \<and> (er_phase (de_value e) = ''Succeeded'' \<longrightarrow> success_founded A r (de_value e))"
proof -
  define st1 where "st1 = fst (dispatch_step X root (WorkerAudit (xr_id r) events) (run_final (dispatch_step X root) st (others 2)))"
  obtain w phase out reason where cr: "collect_result A oc (root @ [''outputs'']) (ds_world st1) = (w, phase, out, reason)"
    using prod_cases4 by blast
  define change where "change = SetResult phase reason (map_option (rn_lossy A) (outcome_output oc)) (run_receipt A r mote program oc phase out)"
  have fin: "run_finish X root A others r mote program oc events st = worker_step X root A others (xr_id r) 3 change (st1\<lparr>ds_world := w\<rparr>)"
    using cr by (simp add: run_finish_def Let_def st1_def change_def)
  have "registry_ok root (ds_registry st1)" unfolding st1_def by (rule step_facts(1) [OF registry_run [OF reg]])
  then have "registry_ok root (ds_registry (st1\<lparr>ds_world := w\<rparr>))" by simp
  note ends = worker_end [OF this e [unfolded fin]]
  have terminal: "\<not> execution_is_active (worker_change change v)" for v
    by (simp add: change_def worker_change_def execution_is_active_def phase_name_def split: ExecutionPhase.split)
  have "success_founded A r (worker_change change v)" if "er_phase (worker_change change v) = ''Succeeded''" for v
  proof -
    have "phase = PhaseSucceeded"
      using that by (simp add: change_def worker_change_def phase_name_def split: ExecutionPhase.splits)
    then show ?thesis using collect_success cr oc by (fastforce simp: success_founded_def change_def worker_change_def run_receipt_def)
  qed
  then show ?thesis using ends terminal by metis
qed

lemma simple_end:
  assumes "registry_ok root (ds_registry st)" "c = SetFailed x \<or> c = SetRefused x"
    and "bt_get (ds_registry (worker_step X root A others (xr_id r) n c st)) (xr_id r) = Some e"
  shows "\<not> execution_is_active (de_value e) \<and> (er_phase (de_value e) = ''Succeeded'' \<longrightarrow> success_founded A r (de_value e))"
proof -
  have "\<not> execution_is_active (worker_change c v) \<and> er_phase (worker_change c v) \<noteq> ''Succeeded''" for v
    using assms(2) by (auto simp: worker_change_def execution_is_active_def)
  then show ?thesis using worker_end [OF assms(1,3)] by metis
qed

lemma run_end:
  assumes "registry_ok root (ds_registry st)" "bt_get (ds_registry (run_execution X root A others r c st)) (xr_id r) = Some e"
  shows "\<not> execution_is_active (de_value e) \<and> (er_phase (de_value e) = ''Succeeded'' \<longrightarrow> success_founded A r (de_value e))"
proof -
  obtain stops checked where 1: "Control_check (dv_clk (rn_env A 0)) c (ds_stops st) = (stops, checked)" by fastforce
  obtain stops2 again where 2: "Control_check (dv_clk (rn_env A 1)) c stops = (stops2, again)" by fastforce
  obtain st1 x where 3: "run_launch X root A others r (st\<lparr>ds_stops := stops2\<rparr>) = (st1, x)" by fastforce
  have reg1: "registry_ok root (ds_registry st1)" using run_launch_registry [OF 3] assms(1) by simp
  have reg0: "registry_ok root (ds_registry (st\<lparr>ds_stops := s\<rparr>))" for s using assms(1) by simp
  let ?run = "run_execution X root A others r c st" and ?stop = "worker_step X root A others (xr_id r) 3"
  note defs = run_execution_def Let_def 1 2 [simplified] 3
  show ?thesis
  proof (cases checked)
    case (Inl s)
    then have "?run = ?stop (SetFailed (stopped_text s)) (st\<lparr>ds_stops := stops\<rparr>)" by (simp add: defs)
    then show ?thesis using simple_end [OF reg0] assms(2) by fastforce
  next
    case checked: Inr
    show ?thesis
    proof (cases "isl (check_supported_authority (isl again) r) \<or> isl (rn_inputs A)")
      case True
      then obtain y where "?run = ?stop (SetRefused y) (st\<lparr>ds_stops := stops2\<rparr>)"
        using checked by (cases "check_supported_authority (isl again) r"; cases "rn_inputs A") (auto simp: defs)
      then show ?thesis using simple_end [OF reg0] assms(2) by fastforce
    next
      case False
      then have go: "?run = (case x of Inl e \<Rightarrow> ?stop (SetFailed e) st1
          | Inr (mote, program, oc, events) \<Rightarrow> run_finish X root A others r mote program oc events st1)"
        using checked by (auto simp: defs split: sum.splits)
      show ?thesis
      proof (cases x)
        case (Inl e)
        then show ?thesis using go simple_end [OF reg1] assms(2) by fastforce
      next
        case (Inr y)
        then show ?thesis using go finish_end [OF reg1 run_launch_outcome] 3 assms(2) by (cases y) auto
      qed
    qed
  qed
qed


section \<open>Sample\<close>

definition sample_answers :: RunAnswers where
  "sample_answers =
     \<lparr>rn_env = (\<lambda>n. sample_dispatch_env), rn_inputs = Ok (), rn_forge = Err [], rn_runtime = Err [], rn_launch = Err [],
      rn_declared = Ok (\<lparr>lo_execution = None, lo_input_hashes = [], lo_cell_id = ''cell'', lo_output = None, lo_denial = None,
        lo_exit_code = Some 0, lo_signal = None, lo_timed_out = False\<rparr>, [], ''mote'', ''program''),
      rn_started_at = ''s'', rn_completed_at = ''c'', rn_node = ''n'', rn_lossy = (\<lambda>b. []), rn_denial = (\<lambda>d. []), rn_hash = (\<lambda>b. Hash [])\<rparr>"

definition sample_submitted_state :: DispatchState where
  "sample_submitted_state = fst (dispatch_step sample_exec_serde [''r''] (SubmitExecution sample_dispatch_env [7]) sample_dispatch)"

definition present :: "string \<Rightarrow> DispatchState \<Rightarrow> bool" where
  "present i st \<longleftrightarrow> bt_get (ds_registry st) i \<noteq> None"

lemma present_update [simp]: "present i (st\<lparr>ds_world := w\<rparr>) = present i st" "present i (st\<lparr>ds_stops := s\<rparr>) = present i st"
  by (simp_all add: present_def)

lemma update_present:
  "bt_invar (ds_registry st) \<Longrightarrow> present i st \<Longrightarrow> present i (update_execution X E j f st)"
  by (auto simp: present_def update_execution_def bt_simps split: option.split prod.split)

lemma worker_step_quiet:
  assumes "registry_ok root (ds_registry st)" "present i st"
  shows "present i (worker_step X root A (\<lambda>n. []) i n c st)"
  using update_present assms by (simp add: worker_step_def registry_ok_def)

lemma run_quiet:
  assumes "registry_ok root (ds_registry st)" "present (xr_id r) st"
  shows "present (xr_id r) (run_execution X root A (\<lambda>n. []) r c st)"
proof -
  let ?i = "xr_id r"
  have launch: "present ?i s'"
    if "run_launch X root A (\<lambda>n. []) r s = (s', x)" "registry_ok root (ds_registry s)" "present ?i s" for s s' x
    using that by (auto simp: run_launch_def Let_def worker_step_quiet split: option.splits sum.splits)
  have finish: "present ?i (run_finish X root A (\<lambda>n. []) r mote program oc events s)"
    if s: "registry_ok root (ds_registry s)" "present ?i s" for mote program oc events s
  proof -
    let ?s = "fst (dispatch_step X root (WorkerAudit ?i events) s)"
    have "registry_ok root (ds_registry ?s)" by (rule step_facts(1) [OF s(1)])
    moreover have "present ?i ?s" using s(2) by (auto simp: present_def bt_get_adjust)
    ultimately show ?thesis
      by (auto simp: run_finish_def Let_def worker_step_quiet simp del: dispatch_step.simps split: prod.split)
  qed
  show ?thesis
    using assms launch run_launch_registry
    by (auto simp: run_execution_def Let_def worker_step_quiet finish split: prod.split sum.split intro!: worker_step_quiet finish)
qed


end
